(* ===== verification/Prelude.thy ===== *)
theory Prelude
  imports Main "HOL-Library.Word" "HOL-Library.Monad_Syntax"
begin

text \<open>
  Shared vocabulary of the development: byte strings, runs that may fail, raw memory,
  the byte searches the protocol code uses, and decimal rendering of integers.

  A C++ operation that can hit a failed \<open>runtimeAssert\<close> (which aborts the process), read or
  write outside a block, or read an indeterminate byte, is a function into \<open>'a option\<close>:
  \<open>None\<close> is such a faulting run, \<open>Some\<close> a run that returns. Bytes are the \<open>char\<close> type
  (eight bits each), and \<open>std::string\<close> is a list of them.
\<close>

type_synonym bytes = "char list"

text \<open>Rules that push the weakest precondition \<open>wp\<close> through a run, and equations of buffers.\<close>

named_theorems wp_rules
named_theorems run_simps

section \<open>Runs that may fault\<close>

definition ensure :: "bool \<Rightarrow> unit option" where
  "ensure P = (if P then Some () else None)"

text \<open>\<open>wp m Q\<close>: the run \<open>m\<close> does not fault and its result satisfies \<open>Q\<close>.\<close>

definition wp :: "'a option \<Rightarrow> ('a \<Rightarrow> bool) \<Rightarrow> bool" where
  "wp m Q \<longleftrightarrow> (case m of None \<Rightarrow> False | Some r \<Rightarrow> Q r)"

lemma wp_Some [simp]: "wp (Some r) Q = Q r"
  by (simp add: wp_def)

lemma wp_None [simp]: "\<not> wp None Q"
  by (simp add: wp_def)

lemma wp_bind [simp]: "wp (Option.bind m f) Q = wp m (\<lambda>x. wp (f x) Q)"
  by (cases m) (simp_all add: wp_def)

lemma wp_ensure [simp]: "wp (ensure P) Q \<longleftrightarrow> P \<and> Q ()"
  by (simp add: wp_def ensure_def)

lemma ensure_True [simp]: "P \<Longrightarrow> ensure P = Some ()"
  by (simp add: ensure_def)

lemma ensure_False [simp]: "\<not> P \<Longrightarrow> ensure P = None"
  by (simp add: ensure_def)

lemma wp_mono: "wp m Q \<Longrightarrow> (\<And>r. m = Some r \<Longrightarrow> Q r \<Longrightarrow> R r) \<Longrightarrow> wp m R"
  by (cases m) (simp_all add: wp_def)

lemma wp_iff: "wp m Q \<longleftrightarrow> (\<exists>r. m = Some r \<and> Q r)"
  by (cases m) (simp_all add: wp_def)

lemma wp_map_option [simp]: "wp (map_option f m) Q = wp m (\<lambda>x. Q (f x))"
  by (cases m) simp_all

section \<open>Raw memory\<close>

text \<open>
  A block is a list of cells; \<open>None\<close> is an indeterminate byte (storage that \<open>new char[n]\<close>
  returned and nobody wrote). \<open>load\<close> and \<open>store\<close> are \<open>memcpy\<close> from and to a block and fault
  outside it.
\<close>

type_synonym block = "char option list"

definition load :: "nat \<Rightarrow> nat \<Rightarrow> 'a list \<Rightarrow> 'a list option" where
  "load i n m = (if i + n \<le> length m then Some (take n (drop i m)) else None)"

definition store :: "nat \<Rightarrow> 'a list \<Rightarrow> 'a list \<Rightarrow> 'a list option" where
  "store i xs m =
     (if i + length xs \<le> length m then Some (take i m @ xs @ drop (i + length xs) m) else None)"

definition new_block :: "nat \<Rightarrow> block" where
  "new_block n = replicate n None"

definition load_bytes :: "nat \<Rightarrow> nat \<Rightarrow> block \<Rightarrow> bytes option" where
  "load_bytes i n m = Option.bind (load i n m) those"

lemma length_new_block [simp]: "length (new_block n) = n"
  by (simp add: new_block_def)

lemma load_Some [simp]: "i + n \<le> length m \<Longrightarrow> load i n m = Some (take n (drop i m))"
  by (simp add: load_def)

lemma store_Some [simp]:
  "i + length xs \<le> length m \<Longrightarrow> store i xs m = Some (take i m @ xs @ drop (i + length xs) m)"
  by (simp add: store_def)

lemma those_map_Some [simp]: "those (map Some xs) = Some xs"
  by (induction xs) auto

lemma those_Some_the: "None \<notin> set ms \<Longrightarrow> those ms = Some (map the ms)"
proof (induction ms)
  case (Cons m ms)
  then obtain c where "m = Some c" by (cases m) auto
  with Cons show ?case by simp
qed simp

lemma those_eq_Some: "those ms = Some xs \<longleftrightarrow> ms = map Some xs"
proof (induction ms arbitrary: xs)
  case (Cons m ms)
  then show ?case by (cases m; cases xs) (auto simp: map_option_case split: option.splits)
qed auto

lemma map_the_Some [simp]: "map the (map Some xs) = xs"
  by (induction xs) auto

lemma map_Some_the: "None \<notin> set ms \<Longrightarrow> map Some (map the ms) = ms"
  by (induction ms) auto

lemma load_bytes_Some:
  "i + n \<le> length m \<Longrightarrow> None \<notin> set (take n (drop i m))
   \<Longrightarrow> load_bytes i n m = Some (map the (take n (drop i m)))"
  by (simp add: load_bytes_def those_Some_the)

section \<open>Characters\<close>

abbreviation CR :: char where "CR \<equiv> CHR 0x0D"
abbreviation LF :: char where "LF \<equiv> CHR 0x0A"
abbreviation NUL :: char where "NUL \<equiv> CHR 0x00"
abbreviation BSL :: char where "BSL \<equiv> CHR 0x5C"
abbreviation DQ :: char where "DQ \<equiv> CHR 0x22"
abbreviation SQ :: char where "SQ \<equiv> CHR 0x27"
abbreviation CRLF :: bytes where "CRLF \<equiv> [CR, LF]"

text \<open>Characters by their code, as the ctype functions of the C locale and digits need.\<close>

definition code :: "char \<Rightarrow> nat" where
  "code c = of_char c"

lemma code_char_of: "code (char_of n) = n mod 256"
  by (simp add: code_def)

lemma code_less [simp]: "code c < 256"
  by (simp add: code_def)

lemma code_inject [simp]: "code c = code d \<longleftrightarrow> c = d"
  by (simp add: code_def)

lemma char_of_code [simp]: "char_of (code c) = c"
  by (simp add: code_def)

definition is_digit :: "char \<Rightarrow> bool" where
  "is_digit c \<longleftrightarrow> 48 \<le> code c \<and> code c \<le> 57"

definition is_space :: "char \<Rightarrow> bool" where
  "is_space c \<longleftrightarrow> code c = 32 \<or> (9 \<le> code c \<and> code c \<le> 13)"

definition is_print :: "char \<Rightarrow> bool" where
  "is_print c \<longleftrightarrow> 32 \<le> code c \<and> code c \<le> 126"

definition to_lower :: "char \<Rightarrow> char" where
  "to_lower c = (if 65 \<le> code c \<and> code c \<le> 90 then char_of (code c + 32) else c)"

definition to_upper :: "char \<Rightarrow> char" where
  "to_upper c = (if 97 \<le> code c \<and> code c \<le> 122 then char_of (code c - 32) else c)"

definition digit_value :: "char \<Rightarrow> nat" where
  "digit_value c = code c - 48"

definition digit_char :: "nat \<Rightarrow> char" where
  "digit_char n = char_of (48 + n)"

lemma code_digit_char [simp]: "n < 10 \<Longrightarrow> code (digit_char n) = 48 + n"
  by (simp add: digit_char_def code_char_of)

lemma code_of_0: "code (CHR ''0'') = 48"
  by (simp add: code_def)

lemma digit_value_char [simp]: "n < 10 \<Longrightarrow> digit_value (digit_char n) = n"
  by (simp add: digit_value_def)

lemma is_digit_char [simp]: "n < 10 \<Longrightarrow> is_digit (digit_char n)"
  by (simp add: is_digit_def)

lemma digit_value_less: "is_digit c \<Longrightarrow> digit_value c < 10"
  by (auto simp: is_digit_def digit_value_def)

lemma digit_char_value: "is_digit c \<Longrightarrow> digit_char (digit_value c) = c"
  by (simp add: is_digit_def digit_value_def digit_char_def)

lemma is_digit_not_CR: "is_digit c \<Longrightarrow> c \<noteq> CR \<and> c \<noteq> LF \<and> c \<noteq> CHR ''-''"
  by (auto simp: is_digit_def code_def)

section \<open>Searching bytes\<close>

text \<open>\<open>std::search\<close> for the two bytes CR LF: the offset of the first occurrence.\<close>

fun find_crlf :: "bytes \<Rightarrow> nat option" where
  "find_crlf (c # d # cs) =
     (if c = CR \<and> d = LF then Some 0 else map_option Suc (find_crlf (d # cs)))"
| "find_crlf _ = None"

text \<open>\<open>memchr\<close>: the offset of the first occurrence of a byte.\<close>

fun find_byte :: "char \<Rightarrow> bytes \<Rightarrow> nat option" where
  "find_byte c [] = None"
| "find_byte c (d # ds) = (if c = d then Some 0 else map_option Suc (find_byte c ds))"

lemma find_crlf_bound: "find_crlf xs = Some k \<Longrightarrow> k + 2 \<le> length xs"
  by (induction xs arbitrary: k rule: find_crlf.induct) (auto split: if_splits)

lemma find_crlf_append: "find_crlf xs = Some k \<Longrightarrow> find_crlf (xs @ ys) = Some k"
  by (induction xs arbitrary: k rule: find_crlf.induct) (auto split: if_splits)

lemma find_crlf_at: "find_crlf xs = Some k \<Longrightarrow> xs = take k xs @ CRLF @ drop (k + 2) xs"
proof (induction xs arbitrary: k rule: find_crlf.induct)
  case (1 c d cs)
  show ?case
  proof (cases "c = CR \<and> d = LF")
    case True
    with "1.prems" show ?thesis by simp
  next
    case False
    with "1.prems" obtain j where j: "find_crlf (d # cs) = Some j" "k = Suc j" by auto
    with "1.IH"[OF False j(1)] show ?thesis by simp
  qed
qed auto

text \<open>A line without CR LF ends exactly at the separator that follows it.\<close>

lemma find_crlf_line: "find_crlf s = None \<Longrightarrow> find_crlf (s @ CR # LF # rest) = Some (length s)"
proof (induction s rule: find_crlf.induct)
  case (1 c d cs)
  then show ?case by (auto split: if_splits)
qed simp_all

lemma find_crlf_None_no_CR: "CR \<notin> set s \<Longrightarrow> find_crlf s = None"
  by (induction s rule: find_crlf.induct) auto

lemma find_byte_bound: "find_byte c xs = Some k \<Longrightarrow> k < length xs \<and> xs ! k = c"
  by (induction xs arbitrary: k) (auto split: if_splits)

lemma find_byte_append: "find_byte c xs = Some k \<Longrightarrow> find_byte c (xs @ ys) = Some k"
  by (induction xs arbitrary: k) (auto split: if_splits)

lemma find_byte_None: "find_byte c xs = None \<longleftrightarrow> c \<notin> set xs"
  by (induction xs) auto

lemma find_byte_line: "c \<notin> set s \<Longrightarrow> find_byte c (s @ c # rest) = Some (length s)"
  by (induction s) auto

section \<open>Decimal rendering\<close>

lemma digit_chars [simp]:
  "digit_char 0 = CHR ''0''" "digit_char (Suc 0) = CHR ''1''" "digit_char 2 = CHR ''2''"
  "digit_char 3 = CHR ''3''" "digit_char 4 = CHR ''4''" "digit_char 5 = CHR ''5''"
  "digit_char 6 = CHR ''6''" "digit_char 7 = CHR ''7''" "digit_char 8 = CHR ''8''"
  "digit_char 9 = CHR ''9''"
  by (simp_all flip: code_inject) (simp_all add: code_def)

text \<open>\<open>std::to_string\<close> of an unsigned and of a signed integer.\<close>

fun dec_nat :: "nat \<Rightarrow> bytes" where
  "dec_nat n = (if n < 10 then [digit_char n] else dec_nat (n div 10) @ [digit_char (n mod 10)])"

declare dec_nat.simps [simp del]

definition dec_int :: "int \<Rightarrow> bytes" where
  "dec_int i = (if i < 0 then CHR ''-'' # dec_nat (nat (- i)) else dec_nat (nat i))"

lemma dec_nat_digits: "c \<in> set (dec_nat n) \<Longrightarrow> is_digit c"
proof (induction n rule: dec_nat.induct)
  case (1 n)
  then show ?case by (cases "n < 10") (auto simp: dec_nat.simps [of n])
qed

lemma dec_nat_nonempty [simp]: "dec_nat n \<noteq> []" "[] \<noteq> dec_nat n"
  by (subst dec_nat.simps, simp)+

lemma dec_nat_hd: "0 < n \<Longrightarrow> hd (dec_nat n) \<noteq> CHR ''0''"
proof (induction n rule: dec_nat.induct)
  case (1 n)
  show ?case
  proof (cases "n < 10")
    case True
    have "code (digit_char n) \<noteq> code (CHR ''0'')"
      using True 1(2) by (simp add: code_of_0)
    with True show ?thesis by (simp add: dec_nat.simps [of n] del: code_digit_char code_inject) metis
  next
    case False
    with 1 show ?thesis by (simp add: dec_nat.simps [of n])
  qed
qed

text \<open>Horner evaluation of a digit string, and that rendering is its inverse.\<close>

definition digits_value :: "nat \<Rightarrow> bytes \<Rightarrow> nat" where
  "digits_value v ds = foldl (\<lambda>v c. 10 * v + digit_value c) v ds"

lemma digits_value_simps [simp]:
  "digits_value v [] = v"
  "digits_value v (c # cs) = digits_value (10 * v + digit_value c) cs"
  "digits_value v (cs @ ds) = digits_value (digits_value v cs) ds"
  by (simp_all add: digits_value_def)

lemma digits_value_dec_nat [simp]: "digits_value 0 (dec_nat n) = n"
proof (induction n rule: dec_nat.induct)
  case (1 n)
  then show ?case by (cases "n < 10") (simp_all add: dec_nat.simps [of n])
qed

lemma digits_value_ge: "v \<le> digits_value v ds"
proof (induction ds arbitrary: v)
  case (Cons d ds)
  have "v \<le> 10 * v + digit_value d" by simp
  also have "\<dots> \<le> digits_value (10 * v + digit_value d) ds" by (rule Cons)
  finally show ?case by simp
qed simp

lemma dec_nat_inject [simp]: "dec_nat m = dec_nat n \<longleftrightarrow> m = n"
  by (metis digits_value_dec_nat)

lemma length_dec_nat: "n < 10 ^ k \<Longrightarrow> 0 < k \<Longrightarrow> length (dec_nat n) \<le> k"
proof (induction n arbitrary: k rule: dec_nat.induct)
  case (1 n)
  show ?case
  proof (cases "n < 10")
    case True
    with 1(3) show ?thesis by (simp add: dec_nat.simps [of n])
  next
    case False
    have "k \<noteq> 1" using False 1(2) by auto
    with 1(3) obtain j where j: "k = Suc j" "0 < j" by (cases k) auto
    with 1(2) have "n div 10 < 10 ^ j" by (simp add: less_mult_imp_div_less mult.commute)
    with False j 1(1) have "length (dec_nat (n div 10)) \<le> j" by simp
    with False j show ?thesis by (simp add: dec_nat.simps [of n])
  qed
qed

lemma dec_int_no_CR: "CR \<notin> set (dec_int i) \<and> LF \<notin> set (dec_int i)"
proof -
  have "CR \<notin> set (dec_nat n) \<and> LF \<notin> set (dec_nat n)" for n
    using is_digit_not_CR dec_nat_digits by blast
  then show ?thesis by (simp add: dec_int_def)
qed

lemma dec_int_nonempty [simp]: "dec_int i \<noteq> []"
  by (simp add: dec_int_def)

section \<open>Machine integers kept as \<open>int\<close>\<close>

definition int64_range :: "int \<Rightarrow> bool" where
  "int64_range i \<longleftrightarrow> - (2 ^ 63) \<le> i \<and> i < 2 ^ 63"

text \<open>Two's complement wrap-around of a 64-bit signed result.\<close>

definition wrap64 :: "int \<Rightarrow> int" where
  "wrap64 i = (i + 2 ^ 63) mod 2 ^ 64 - 2 ^ 63"

lemma wrap64_id: "int64_range i \<Longrightarrow> wrap64 i = i"
  by (simp add: wrap64_def int64_range_def)

lemma wrap64_range: "int64_range (wrap64 i)"
proof -
  have "0 \<le> (i + 2 ^ 63) mod 2 ^ 64" "(i + 2 ^ 63) mod 2 ^ 64 < (2::int) ^ 64"
    by simp_all
  then show ?thesis by (simp add: wrap64_def int64_range_def)
qed

text \<open>Addition of two \<open>size_t\<close>.\<close>

definition sz_add :: "nat \<Rightarrow> nat \<Rightarrow> nat" where
  "sz_add a b = (a + b) mod 2 ^ 64"

lemma sz_add_small [simp]: "a + b < 2 ^ 64 \<Longrightarrow> sz_add a b = a + b"
  by (simp add: sz_add_def)

end
