(* ===== verification/Endian.thy ===== *)
theory Endian
  imports Prelude
begin

text \<open>
  \<open>common/Endianconv\<close>: in-place byte reversal and the network byte order conversions of a
  little-endian host, where \<open>htonu64\<close> and \<open>ntohu64\<close> are both \<open>intrev64\<close>. An integer in memory
  is its little-endian byte sequence.
\<close>

section \<open>Integers as bytes in memory\<close>

definition le_bytes :: "nat \<Rightarrow> nat \<Rightarrow> bytes" where
  "le_bytes n v = map (\<lambda>i. char_of (v div 256 ^ i)) [0..<n]"

definition le_value :: "bytes \<Rightarrow> nat" where
  "le_value bs = foldr (\<lambda>c v. code c + 256 * v) bs 0"

lemma length_le_bytes [simp]: "length (le_bytes n v) = n"
  by (simp add: le_bytes_def)

lemma le_bytes_Suc: "le_bytes (Suc n) v = char_of v # le_bytes n (v div 256)"
proof -
  have "[0..<Suc n] = 0 # map Suc [0..<n]" by (simp add: map_Suc_upt upt_conv_Cons)
  then show ?thesis by (simp add: le_bytes_def div_mult2_eq)
qed

lemma le_value_le_bytes [simp]: "le_value (le_bytes n v) = v mod 256 ^ n"
proof (induction n arbitrary: v)
  case 0
  then show ?case by (simp add: le_bytes_def le_value_def)
next
  case (Suc n)
  have "le_value (le_bytes (Suc n) v) = v mod 256 + 256 * (v div 256 mod 256 ^ n)"
    using Suc by (simp add: le_bytes_Suc le_value_def code_char_of)
  then show ?case by (simp add: mod_mult2_eq)
qed

lemma le_bytes_le_value [simp]: "length bs = n \<Longrightarrow> le_bytes n (le_value bs) = bs"
proof (induction bs arbitrary: n)
  case (Cons b bs)
  then obtain m where m: "n = Suc m" "length bs = m" by (cases n) auto
  have v: "le_value (b # bs) = code b + 256 * le_value bs" by (simp add: le_value_def)
  have "char_of (le_value (b # bs)) = b"
  proof -
    have "code (char_of (le_value (b # bs))) = code b" by (simp add: code_char_of v)
    then show ?thesis by (simp only: code_inject)
  qed
  moreover have "le_value (b # bs) div 256 = le_value bs" by (simp add: v)
  ultimately show ?case using m Cons.IH by (simp add: le_bytes_Suc)
qed (simp add: le_bytes_def)

lemma le_value_bound: "le_value bs < 256 ^ length bs"
  using le_value_le_bytes [of "length bs" "le_value bs"] by (simp del: le_value_le_bytes)
    (metis le_bytes_le_value le_value_le_bytes mod_less_divisor zero_less_numeral zero_less_power)

section \<open>In-place reversal\<close>

text \<open>\<open>t = x[i]; x[i] = x[j]; x[j] = t\<close>.\<close>

definition swap_cells :: "nat \<Rightarrow> nat \<Rightarrow> 'a list \<Rightarrow> 'a list" where
  "swap_cells i j x = (let t = x ! i in (x[i := x ! j])[j := t])"

definition memrev16 :: "bytes \<Rightarrow> bytes" where
  "memrev16 x = swap_cells 0 1 x"

definition memrev32 :: "bytes \<Rightarrow> bytes" where
  "memrev32 x = swap_cells 1 2 (swap_cells 0 3 x)"

definition memrev64 :: "bytes \<Rightarrow> bytes" where
  "memrev64 x = swap_cells 3 4 (swap_cells 2 5 (swap_cells 1 6 (swap_cells 0 7 x)))"

definition intrev16 :: "16 word \<Rightarrow> 16 word" where
  "intrev16 v = of_nat (le_value (memrev16 (le_bytes 2 (unat v))))"

definition intrev32 :: "32 word \<Rightarrow> 32 word" where
  "intrev32 v = of_nat (le_value (memrev32 (le_bytes 4 (unat v))))"

definition intrev64 :: "64 word \<Rightarrow> 64 word" where
  "intrev64 v = of_nat (le_value (memrev64 (le_bytes 8 (unat v))))"

lemma list8: "length x = 8 \<Longrightarrow> \<exists>a b c d e f g h. x = [a, b, c, d, e, f, g, h]"
  by (auto simp: length_Suc_conv eval_nat_numeral)

lemma list4: "length x = 4 \<Longrightarrow> \<exists>a b c d. x = [a, b, c, d]"
  by (auto simp: length_Suc_conv eval_nat_numeral)

lemma list2: "length x = 2 \<Longrightarrow> \<exists>a b. x = [a, b]"
  by (auto simp: length_Suc_conv eval_nat_numeral)

lemma memrev64_rev: "length x = 8 \<Longrightarrow> memrev64 x = rev x"
  by (drule list8) (auto simp: memrev64_def swap_cells_def Let_def)

lemma memrev32_rev: "length x = 4 \<Longrightarrow> memrev32 x = rev x"
  by (drule list4) (auto simp: memrev32_def swap_cells_def Let_def)

lemma memrev16_rev: "length x = 2 \<Longrightarrow> memrev16 x = rev x"
  by (drule list2) (auto simp: memrev16_def swap_cells_def Let_def)

lemmas memrev_rev = memrev64_rev memrev32_rev memrev16_rev

lemma unat_of_le_value:
  assumes "LENGTH('a::len) = 8 * length bs"
  shows "unat (of_nat (le_value bs) :: 'a word) = le_value bs"
proof -
  have "(256::nat) ^ length bs = 2 ^ LENGTH('a)"
    by (simp add: assms power_mult)
  with le_value_bound [of bs] have "le_value bs < 2 ^ LENGTH('a)" by simp
  then show ?thesis by (simp add: unsigned_of_nat take_bit_nat_eq_self)
qed

text \<open>The bytes in memory after the conversion are the big-endian digits of the value.\<close>

lemma le_bytes_intrev64: "le_bytes 8 (unat (intrev64 v)) = rev (le_bytes 8 (unat v))"
  by (simp add: intrev64_def unat_of_le_value memrev_rev)

lemma le_bytes_intrev32: "le_bytes 4 (unat (intrev32 v)) = rev (le_bytes 4 (unat v))"
  by (simp add: intrev32_def unat_of_le_value memrev_rev)

lemma le_bytes_intrev16: "le_bytes 2 (unat (intrev16 v)) = rev (le_bytes 2 (unat v))"
  by (simp add: intrev16_def unat_of_le_value memrev_rev)

lemma of_nat_le_value_le_bytes:
  "LENGTH('a::len) = 8 * n \<Longrightarrow> of_nat (le_value (le_bytes n (unat (v::'a word)))) = v"
proof -
  assume n: "LENGTH('a) = 8 * n"
  have "unat v < 256 ^ n"
    using unsigned_less [of v, where ?'a = nat] by (simp add: n power_mult)
  then show ?thesis by simp
qed

lemma len_words: "LENGTH(64) = 8 * 8" "LENGTH(32) = 8 * 4" "LENGTH(16) = 8 * 2"
  by simp_all

lemma intrev64_involution: "intrev64 (intrev64 v) = v"
  unfolding intrev64_def [of "intrev64 v"] le_bytes_intrev64
  by (simp only: memrev_rev length_rev length_le_bytes rev_rev_ident of_nat_le_value_le_bytes len_words)

lemma intrev32_involution: "intrev32 (intrev32 v) = v"
  unfolding intrev32_def [of "intrev32 v"] le_bytes_intrev32
  by (simp only: memrev_rev length_rev length_le_bytes rev_rev_ident of_nat_le_value_le_bytes len_words)

lemma intrev16_involution: "intrev16 (intrev16 v) = v"
  unfolding intrev16_def [of "intrev16 v"] le_bytes_intrev16
  by (simp only: memrev_rev length_rev length_le_bytes rev_rev_ident of_nat_le_value_le_bytes len_words)

end
