(* ===== verification/Buffer.thy ===== *)
theory Buffer
  imports Endian
begin

text \<open>
  \<open>network/Buffer\<close>: the growable byte buffer every connection reads into and every codec
  decodes from. The state is the class's block and its indices; \<open>capacity_\<close> is the length of
  the block. Each method is a run that faults where a \<open>runtimeAssert\<close> fails or the block is
  left. Block sizes are mathematical naturals (an allocation of 2 ^ 63 bytes cannot succeed);
  the additions on caller-supplied lengths in \<open>truncate\<close> and \<open>reserve\<close> keep the wrap-around
  of \<open>size_t\<close>. The global statistics counters are not part of the state.
\<close>

section \<open>State and methods\<close>

datatype buffer_type = GENERAL_BUFFER | INPUT_BUFFER | OUTPUT_BUFFER

record buffer =
  buffer_kind :: buffer_type
  cells :: block
  read_index :: nat
  write_index :: nat
  reserved_prepend_size :: nat

definition kCheapPrependSize :: nat where
  "kCheapPrependSize = 8"

definition kInitialSize :: nat where
  "kInitialSize = 1024 * 16 - kCheapPrependSize"

definition buf_capacity :: "buffer \<Rightarrow> nat" where
  "buf_capacity b = length (cells b)"

definition buf_length :: "buffer \<Rightarrow> nat option" where
  "buf_length b = do {
     ensure (write_index b \<ge> read_index b);
     Some (write_index b - read_index b) }"

definition buf_empty :: "buffer \<Rightarrow> bool option" where
  "buf_empty b = do { n \<leftarrow> buf_length b; Some (n = 0) }"

definition buf_writableBytes :: "buffer \<Rightarrow> nat option" where
  "buf_writableBytes b = do {
     ensure (buf_capacity b \<ge> write_index b);
     Some (buf_capacity b - write_index b) }"

definition buf_prependableBytes :: "buffer \<Rightarrow> nat" where
  "buf_prependableBytes b = read_index b"

definition buf_new :: "buffer_type \<Rightarrow> nat \<Rightarrow> nat \<Rightarrow> buffer option" where
  "buf_new ty initial_size reserved = do {
     let b = \<lparr>buffer_kind = ty, cells = new_block (reserved + initial_size),
              read_index = reserved, write_index = reserved, reserved_prepend_size = reserved\<rparr>;
     n \<leftarrow> buf_length b;
     ensure (n = 0);
     w \<leftarrow> buf_writableBytes b;
     ensure (w = initial_size);
     ensure (buf_prependableBytes b = reserved);
     Some b }"

definition buf_copy :: "buffer \<Rightarrow> buffer option" where
  "buf_copy rhs = do {
     ensure (write_index rhs \<ge> read_index rhs);
     src \<leftarrow> load (read_index rhs) (write_index rhs - read_index rhs) (cells rhs);
     m \<leftarrow> store (read_index rhs) src (new_block (buf_capacity rhs));
     Some (rhs\<lparr>cells := m\<rparr>) }"

definition buf_swap :: "buffer \<Rightarrow> buffer \<Rightarrow> buffer \<times> buffer" where
  "buf_swap b rhs = (rhs, b)"

definition buf_reinit :: "buffer \<Rightarrow> buffer" where
  "buf_reinit b = b\<lparr>cells := new_block (kInitialSize + kCheapPrependSize),
     read_index := kCheapPrependSize, write_index := kCheapPrependSize,
     reserved_prepend_size := kCheapPrependSize\<rparr>"

definition buf_truncate :: "nat \<Rightarrow> buffer \<Rightarrow> buffer" where
  "buf_truncate n b =
     (if n = 0
      then b\<lparr>read_index := reserved_prepend_size b, write_index := reserved_prepend_size b\<rparr>
      else if write_index b > sz_add (read_index b) n
      then b\<lparr>write_index := sz_add (read_index b) n\<rparr>
      else b)"

definition buf_reset :: "buffer \<Rightarrow> buffer" where
  "buf_reset b = buf_truncate 0 b"

definition buf_clear :: "buffer \<Rightarrow> buffer" where
  "buf_clear b = buf_truncate 0 b"

definition buf_skip :: "nat \<Rightarrow> buffer \<Rightarrow> buffer option" where
  "buf_skip len b = do {
     n \<leftarrow> buf_length b;
     Some (if len < n then b\<lparr>read_index := read_index b + len\<rparr> else buf_reset b) }"

definition buf_retrieve :: "nat \<Rightarrow> buffer \<Rightarrow> buffer option" where
  "buf_retrieve len b = buf_skip len b"

definition buf_grow :: "nat \<Rightarrow> buffer \<Rightarrow> buffer option" where
  "buf_grow len b = do {
     w \<leftarrow> buf_writableBytes b;
     let res = reserved_prepend_size b;
     if w + buf_prependableBytes b < len + res
     then do {
       let n = 2 * buf_capacity b + len;
       m \<leftarrow> buf_length b;
       src \<leftarrow> load (read_index b) m (cells b);
       new_buf \<leftarrow> store res src (new_block n);
       Some (b\<lparr>write_index := m + res, read_index := res, cells := new_buf\<rparr>) }
     else do {
       ensure (res < read_index b);
       readable \<leftarrow> buf_length b;
       src \<leftarrow> load (read_index b) readable (cells b);
       moved \<leftarrow> store res src (cells b);
       let b' = b\<lparr>cells := moved, read_index := res, write_index := res + readable\<rparr>;
       n \<leftarrow> buf_length b';
       ensure (readable = n);
       w' \<leftarrow> buf_writableBytes b';
       ensure (w' \<ge> len);
       Some b' } }"

definition buf_reserve :: "nat \<Rightarrow> buffer \<Rightarrow> buffer option" where
  "buf_reserve len b =
     (if buf_capacity b \<ge> sz_add len (reserved_prepend_size b) then Some b
      else buf_grow (sz_add len (reserved_prepend_size b)) b)"

definition buf_ensureWritableBytes :: "nat \<Rightarrow> buffer \<Rightarrow> buffer option" where
  "buf_ensureWritableBytes len b = do {
     w \<leftarrow> buf_writableBytes b;
     b' \<leftarrow> (if w < len then buf_grow len b else Some b);
     w' \<leftarrow> buf_writableBytes b';
     ensure (w' \<ge> len);
     Some b' }"

definition buf_write :: "bytes \<Rightarrow> buffer \<Rightarrow> buffer option" where
  "buf_write d b = do {
     b' \<leftarrow> buf_ensureWritableBytes (length d) b;
     m \<leftarrow> store (write_index b') (map Some d) (cells b');
     ensure (write_index b' + length d \<le> buf_capacity b');
     Some (b'\<lparr>cells := m, write_index := write_index b' + length d\<rparr>) }"

definition buf_incrWriteIndex :: "nat \<Rightarrow> buffer \<Rightarrow> buffer" where
  "buf_incrWriteIndex len b = b\<lparr>write_index := write_index b + len\<rparr>"

definition buf_append :: "bytes \<Rightarrow> buffer \<Rightarrow> buffer option" where
  "buf_append d b = buf_write d b"

definition buf_appendCRLF :: "buffer \<Rightarrow> buffer option" where
  "buf_appendCRLF b = buf_write CRLF b"

definition buf_appendInt64 :: "64 word \<Rightarrow> buffer \<Rightarrow> buffer option" where
  "buf_appendInt64 x b = buf_write (le_bytes 8 (unat (intrev64 x))) b"

definition buf_appendInt32 :: "32 word \<Rightarrow> buffer \<Rightarrow> buffer option" where
  "buf_appendInt32 x b = buf_write (le_bytes 4 (unat (intrev32 x))) b"

definition buf_appendInt16 :: "16 word \<Rightarrow> buffer \<Rightarrow> buffer option" where
  "buf_appendInt16 x b = buf_write (le_bytes 2 (unat (intrev16 x))) b"

definition buf_appendInt8 :: "char \<Rightarrow> buffer \<Rightarrow> buffer option" where
  "buf_appendInt8 x b = buf_write [x] b"

text \<open>
  \<open>appendNumberToStr\<close> lets the formatting library write straight behind the write index, into
  32 reserved bytes; the text it writes for a number is a parameter.
\<close>

definition buf_appendNumberToStr :: "(int \<Rightarrow> bytes) \<Rightarrow> int \<Rightarrow> buffer \<Rightarrow> buffer option" where
  "buf_appendNumberToStr fmt number b = do {
     b' \<leftarrow> buf_ensureWritableBytes 32 b;
     m \<leftarrow> store (write_index b') (map Some (fmt number)) (cells b');
     let len = length (fmt number);
     ensure (write_index b' + len \<le> buf_capacity b');
     Some (b'\<lparr>cells := m, write_index := write_index b' + len\<rparr>) }"

definition buf_prepend :: "bytes \<Rightarrow> buffer \<Rightarrow> buffer option" where
  "buf_prepend d b = do {
     ensure (length d \<le> buf_prependableBytes b);
     let r = read_index b - length d;
     m \<leftarrow> store r (map Some d) (cells b);
     Some (b\<lparr>read_index := r, cells := m\<rparr>) }"

definition buf_prependInt64 :: "64 word \<Rightarrow> buffer \<Rightarrow> buffer option" where
  "buf_prependInt64 x b = buf_prepend (le_bytes 8 (unat (intrev64 x))) b"

definition buf_prependInt32 :: "32 word \<Rightarrow> buffer \<Rightarrow> buffer option" where
  "buf_prependInt32 x b = buf_prepend (le_bytes 4 (unat (intrev32 x))) b"

definition buf_prependInt16 :: "16 word \<Rightarrow> buffer \<Rightarrow> buffer option" where
  "buf_prependInt16 x b = buf_prepend (le_bytes 2 (unat (intrev16 x))) b"

definition buf_prependInt8 :: "char \<Rightarrow> buffer \<Rightarrow> buffer option" where
  "buf_prependInt8 x b = buf_prepend [x] b"

definition buf_unwriteBytes :: "nat \<Rightarrow> buffer \<Rightarrow> buffer option" where
  "buf_unwriteBytes n b = do {
     len \<leftarrow> buf_length b;
     ensure (n \<le> len);
     Some (b\<lparr>write_index := write_index b - n\<rparr>) }"

definition buf_toText :: "buffer \<Rightarrow> buffer option" where
  "buf_toText b = do { b' \<leftarrow> buf_appendInt8 NUL b; buf_unwriteBytes 1 b' }"

definition buf_writeBytes :: "nat \<Rightarrow> buffer \<Rightarrow> buffer option" where
  "buf_writeBytes n b = do {
     w \<leftarrow> buf_writableBytes b;
     ensure (n \<le> w);
     Some (b\<lparr>write_index := write_index b + n\<rparr>) }"

text \<open>Reads. \<open>data\<close> is the pointer \<open>read_index\<close>; a string view of the unread bytes loads them.\<close>

definition buf_toString :: "buffer \<Rightarrow> bytes option" where
  "buf_toString b = do { n \<leftarrow> buf_length b; load_bytes (read_index b) n (cells b) }"

definition buf_peek :: "nat \<Rightarrow> buffer \<Rightarrow> bytes option" where
  "buf_peek k b = do {
     n \<leftarrow> buf_length b;
     ensure (n \<ge> k);
     load_bytes (read_index b) k (cells b) }"

definition buf_peekInt64 :: "buffer \<Rightarrow> 64 word option" where
  "buf_peekInt64 b = do { be \<leftarrow> buf_peek 8 b; Some (intrev64 (of_nat (le_value be))) }"

definition buf_peekInt32 :: "buffer \<Rightarrow> 32 word option" where
  "buf_peekInt32 b = do { be \<leftarrow> buf_peek 4 b; Some (intrev32 (of_nat (le_value be))) }"

definition buf_peekInt16 :: "buffer \<Rightarrow> 16 word option" where
  "buf_peekInt16 b = do { be \<leftarrow> buf_peek 2 b; Some (intrev16 (of_nat (le_value be))) }"

definition buf_peekInt8 :: "buffer \<Rightarrow> char option" where
  "buf_peekInt8 b = do { x \<leftarrow> buf_peek 1 b; Some (hd x) }"

definition buf_readInt64 :: "buffer \<Rightarrow> (64 word \<times> buffer) option" where
  "buf_readInt64 b = do { x \<leftarrow> buf_peekInt64 b; b' \<leftarrow> buf_skip 8 b; Some (x, b') }"

definition buf_readInt32 :: "buffer \<Rightarrow> (32 word \<times> buffer) option" where
  "buf_readInt32 b = do { x \<leftarrow> buf_peekInt32 b; b' \<leftarrow> buf_skip 4 b; Some (x, b') }"

definition buf_readInt16 :: "buffer \<Rightarrow> (16 word \<times> buffer) option" where
  "buf_readInt16 b = do { x \<leftarrow> buf_peekInt16 b; b' \<leftarrow> buf_skip 2 b; Some (x, b') }"

definition buf_readInt8 :: "buffer \<Rightarrow> (char \<times> buffer) option" where
  "buf_readInt8 b = do { x \<leftarrow> buf_peekInt8 b; b' \<leftarrow> buf_skip 1 b; Some (x, b') }"

definition buf_nextAll :: "buffer \<Rightarrow> (bytes \<times> buffer) option" where
  "buf_nextAll b = do { s \<leftarrow> buf_toString b; Some (s, buf_reset b) }"

definition buf_next :: "nat \<Rightarrow> buffer \<Rightarrow> (bytes \<times> buffer) option" where
  "buf_next len b = do {
     n \<leftarrow> buf_length b;
     if len < n
     then do {
       s \<leftarrow> load_bytes (read_index b) len (cells b);
       Some (s, b\<lparr>read_index := read_index b + len\<rparr>) }
     else buf_nextAll b }"

definition buf_readByte :: "buffer \<Rightarrow> (char \<times> buffer) option" where
  "buf_readByte b = do {
     n \<leftarrow> buf_length b;
     ensure (n \<ge> 1);
     if n = 0 then Some (NUL, b)
     else do {
       s \<leftarrow> load_bytes (read_index b) 1 (cells b);
       Some (hd s, b\<lparr>read_index := read_index b + 1\<rparr>) } }"

definition buf_unreadBytes :: "nat \<Rightarrow> buffer \<Rightarrow> buffer option" where
  "buf_unreadBytes n b = do {
     ensure (n < read_index b);
     Some (b\<lparr>read_index := read_index b - n\<rparr>) }"

definition buf_shrink :: "nat \<Rightarrow> buffer \<Rightarrow> buffer option" where
  "buf_shrink reserve b = do {
     n \<leftarrow> buf_length b;
     other \<leftarrow> buf_new (buffer_kind b) (n + reserve) (reserved_prepend_size b);
     s \<leftarrow> buf_toString b;
     other' \<leftarrow> buf_append s other;
     Some (fst (buf_swap b other')) }"

text \<open>
  The searches return an index into the block (a pointer in the source). \<open>start\<close> is such an
  index; \<open>std::search\<close> and \<open>memchr\<close> see the bytes from there to the write index.
\<close>

definition buf_findCRLF :: "nat \<Rightarrow> buffer \<Rightarrow> nat option option" where
  "buf_findCRLF start b = do {
     ensure (read_index b \<le> start);
     ensure (start \<le> write_index b);
     s \<leftarrow> load_bytes start (write_index b - start) (cells b);
     Some (map_option (\<lambda>k. start + k) (find_crlf s)) }"

definition buf_findEOL :: "nat \<Rightarrow> buffer \<Rightarrow> nat option option" where
  "buf_findEOL start b = do {
     ensure (read_index b \<le> start);
     ensure (start \<le> write_index b);
     s \<leftarrow> load_bytes start (write_index b - start) (cells b);
     Some (map_option (\<lambda>k. start + k) (find_byte LF s)) }"

text \<open>
  \<open>readFromFd\<close>: a scatter read into the free tail and, when that is smaller than 64 KiB, into a
  stack block. The kernel's answer to a read of at most \<open>n\<close> bytes is the parameter \<open>readv n\<close>:
  an error number or the bytes read.
\<close>

definition buf_readFromFd ::
  "(nat \<Rightarrow> nat + bytes) \<Rightarrow> buffer \<Rightarrow> ((nat + nat) \<times> buffer) option" where
  "buf_readFromFd readv b = do {
     writable \<leftarrow> buf_writableBytes b;
     case readv (if writable < 65536 then writable + 65536 else writable) of
       Inl errno \<Rightarrow> Some (Inl errno, b)
     | Inr d \<Rightarrow>
         (if length d \<le> writable
          then do {
            m \<leftarrow> store (write_index b) (map Some d) (cells b);
            Some (Inr (length d), b\<lparr>cells := m, write_index := write_index b + length d\<rparr>) }
          else do {
            m \<leftarrow> store (write_index b) (map Some (take writable d)) (cells b);
            b' \<leftarrow> buf_append (drop writable d) (b\<lparr>cells := m, write_index := buf_capacity b\<rparr>);
            Some (Inr (length d), b') }) }"


section \<open>Invariant and abstraction\<close>

text \<open>
  The unread bytes are the abstract value of a buffer. The invariant is the picture at the top
  of the header file, \<open>0 \<le> readerIndex \<le> writerIndex \<le> size\<close>, with every unread byte
  determinate and the reserved prefix inside the block.
\<close>

definition contents :: "buffer \<Rightarrow> bytes" where
  "contents b = map the (take (write_index b - read_index b) (drop (read_index b) (cells b)))"

definition buf_ok :: "buffer \<Rightarrow> bool" where
  "buf_ok b \<longleftrightarrow> read_index b \<le> write_index b \<and> write_index b \<le> length (cells b) \<and>
     reserved_prepend_size b \<le> length (cells b) \<and>
     None \<notin> set (take (write_index b - read_index b) (drop (read_index b) (cells b)))"

lemma buf_okI:
  assumes "cells b = pre @ map Some xs @ post" "read_index b = length pre"
    "write_index b = length pre + length xs" "reserved_prepend_size b \<le> length (cells b)"
  shows "buf_ok b" "contents b = xs"
  using assms by (auto simp: buf_ok_def contents_def)

lemma length_contents: "buf_ok b \<Longrightarrow> length (contents b) = write_index b - read_index b"
  by (auto simp: contents_def buf_ok_def intro!: min_absorb2 diff_le_mono)

lemma buf_okE:
  assumes "buf_ok b"
  obtains pre post where "cells b = pre @ map Some (contents b) @ post"
    "read_index b = length pre" "write_index b = length pre + length (contents b)"
    "reserved_prepend_size b \<le> length (cells b)"
proof -
  let ?n = "write_index b - read_index b"
  have c: "map Some (contents b) = take ?n (drop (read_index b) (cells b))"
    using assms map_Some_the unfolding contents_def buf_ok_def by blast
  have "take (read_index b) (cells b) @ map Some (contents b) @ drop (write_index b) (cells b) = cells b"
    using assms unfolding c buf_ok_def
    by (metis append_take_drop_id drop_drop le_add_diff_inverse2)
  then have "cells b = take (read_index b) (cells b) @ map Some (contents b) @ drop (write_index b) (cells b)"
    by simp
  then show ?thesis
  proof (rule that)
    show "read_index b = length (take (read_index b) (cells b))"
      using assms by (simp add: buf_ok_def)
    show "write_index b = length (take (read_index b) (cells b)) + length (contents b)"
      using assms by (simp add: buf_ok_def length_contents [OF assms])
    show "reserved_prepend_size b \<le> length (cells b)"
      using assms by (simp add: buf_ok_def)
  qed
qed

lemma write_index_contents: "buf_ok b \<Longrightarrow> write_index b = read_index b + length (contents b)"
  by (simp add: length_contents) (simp add: buf_ok_def)

lemma buf_length_ok [run_simps]: "buf_ok b \<Longrightarrow> buf_length b = Some (length (contents b))"
  by (simp add: buf_length_def length_contents) (simp add: buf_ok_def)

lemma buf_empty_ok [run_simps]: "buf_ok b \<Longrightarrow> buf_empty b = Some (contents b = [])"
  by (simp add: buf_empty_def buf_length_ok)

lemma buf_toString_ok [run_simps]: "buf_ok b \<Longrightarrow> buf_toString b = Some (contents b)"
  by (simp add: buf_toString_def buf_length_ok length_contents)
    (auto simp: contents_def buf_ok_def intro!: load_bytes_Some)

lemma load_bytes_contents:
  assumes "buf_ok b" "i + n \<le> length (contents b)"
  shows "load_bytes (read_index b + i) n (cells b) = Some (take n (drop i (contents b)))"
proof -
  from assms(1) obtain pre post where b: "cells b = pre @ map Some (contents b) @ post"
    "read_index b = length pre" by (rule buf_okE)
  have t: "take n (drop (read_index b + i) (cells b)) = map Some (take n (drop i (contents b)))"
    using assms(2) by (simp add: b(2)) (subst b(1), simp add: drop_map take_map)
  have "read_index b + i + n \<le> length (cells b)"
    using assms(2) by (simp add: b(2)) (subst b(1), simp)
  with t show ?thesis by (simp add: load_bytes_def)
qed

lemma buf_peek_ok: "buf_ok b \<Longrightarrow> k \<le> length (contents b) \<Longrightarrow> buf_peek k b = Some (take k (contents b))"
  using load_bytes_contents [of b 0 k] by (simp add: buf_peek_def buf_length_ok)

lemma buf_peek_short: "buf_ok b \<Longrightarrow> length (contents b) < k \<Longrightarrow> buf_peek k b = None"
  by (simp add: buf_peek_def buf_length_ok)

lemma buf_peekInt8_ok [run_simps]:
  "buf_ok b \<Longrightarrow> contents b \<noteq> [] \<Longrightarrow> buf_peekInt8 b = Some (hd (contents b))"
  by (cases "contents b") (simp_all add: buf_peekInt8_def buf_peek_ok)

lemma buf_findCRLF_ok [run_simps]:
  assumes "buf_ok b" "i \<le> length (contents b)"
  shows "buf_findCRLF (read_index b + i) b
           = Some (map_option (\<lambda>k. read_index b + i + k) (find_crlf (drop i (contents b))))"
  using assms load_bytes_contents [of b i "length (contents b) - i"]
  by (simp add: buf_findCRLF_def write_index_contents)

lemma buf_findEOL_ok [run_simps]:
  assumes "buf_ok b" "i \<le> length (contents b)"
  shows "buf_findEOL (read_index b + i) b
           = Some (map_option (\<lambda>k. read_index b + i + k) (find_byte LF (drop i (contents b))))"
  using assms load_bytes_contents [of b i "length (contents b) - i"]
  by (simp add: buf_findEOL_def write_index_contents)

section \<open>Every method on a well-formed buffer\<close>

lemma contents_reset [simp]: "contents (buf_reset b) = []"
  by (simp add: buf_reset_def buf_truncate_def contents_def)

lemma buf_ok_reset [simp]: "buf_ok b \<Longrightarrow> buf_ok (buf_reset b)"
  by (simp add: buf_reset_def buf_truncate_def buf_ok_def)

lemma buf_advance:
  assumes "buf_ok b" "n \<le> length (contents b)"
  shows "buf_ok (b\<lparr>read_index := read_index b + n\<rparr>)"
    "contents (b\<lparr>read_index := read_index b + n\<rparr>) = drop n (contents b)"
proof -
  from assms(1) obtain pre post where b: "cells b = pre @ map Some (contents b) @ post"
    "read_index b = length pre" "write_index b = length pre + length (contents b)"
    "reserved_prepend_size b \<le> length (cells b)" by (rule buf_okE)
  have "map Some (contents b) = map Some (take n (contents b)) @ map Some (drop n (contents b))"
    by (simp flip: map_append)
  with b(1) have c: "cells b = (pre @ map Some (take n (contents b))) @ map Some (drop n (contents b)) @ post"
    by simp
  have l: "min (length (contents b)) n = n" using assms(2) by simp
  show "buf_ok (b\<lparr>read_index := read_index b + n\<rparr>)"
    by (rule buf_okI(1) [of _ "pre @ map Some (take n (contents b))" "drop n (contents b)" post])
      (use b c l assms(2) in simp_all)
  show "contents (b\<lparr>read_index := read_index b + n\<rparr>) = drop n (contents b)"
    by (rule buf_okI(2) [of _ "pre @ map Some (take n (contents b))" "drop n (contents b)" post])
      (use b c l assms(2) in simp_all)
qed

lemma wp_skip [wp_rules]:
  assumes "buf_ok b" "\<And>b'. buf_ok b' \<Longrightarrow> contents b' = drop n (contents b) \<Longrightarrow> Q b'"
  shows "wp (buf_skip n b) Q"
  using assms buf_advance [of b n]
  by (cases "n < length (contents b)") (simp_all add: buf_skip_def buf_length_ok)

lemma wp_grow:
  assumes b: "buf_ok b" and w: "buf_capacity b - write_index b < len"
    and Q: "\<And>b'. buf_ok b' \<Longrightarrow> contents b' = contents b \<Longrightarrow> len \<le> buf_capacity b' - write_index b' \<Longrightarrow>
         reserved_prepend_size b' = reserved_prepend_size b \<Longrightarrow> buffer_kind b' = buffer_kind b \<Longrightarrow> Q b'"
  shows "wp (buf_grow len b) Q"
proof -
  let ?res = "reserved_prepend_size b" and ?c = "contents b"
  from b obtain pre post where s: "cells b = pre @ map Some ?c @ post"
    "read_index b = length pre" "write_index b = length pre + length ?c"
    "?res \<le> length (cells b)" by (rule buf_okE)
  have cap: "length (cells b) = length pre + length ?c + length post"
    by (subst s(1)) simp
  have src: "load (read_index b) (length ?c) (cells b) = Some (map Some ?c)"
    using cap by (simp add: s(2)) (subst s(1), simp)
  have wr: "buf_writableBytes b = Some (length post)"
    using cap by (simp add: buf_writableBytes_def buf_capacity_def s(3))
  show ?thesis
  proof (cases "length post + length pre < len + ?res")
    case True
    let ?m = "replicate ?res None @ map Some ?c @ replicate (2 * length (cells b) + len - (?res + length ?c)) None"
    let ?b' = "b\<lparr>write_index := length ?c + ?res, read_index := ?res, cells := ?m\<rparr>"
    have st: "store ?res (map Some ?c) (new_block (2 * buf_capacity b + len)) = Some ?m"
      using s(4) cap by (simp add: store_def new_block_def buf_capacity_def)
    have "buf_ok ?b'" "contents ?b' = ?c"
      using buf_okI [of ?b' "replicate ?res None" ?c] by simp_all
    moreover have "len \<le> buf_capacity ?b' - write_index ?b'"
      using s(4) cap by (simp add: buf_capacity_def)
    ultimately have "Q ?b'" by (intro Q) simp_all
    with True show ?thesis
      by (simp add: buf_grow_def wr buf_prependableBytes_def s(2) [symmetric] buf_length_ok b src st Let_def)
  next
    case False
    with w s(3) cap have lt: "?res < length pre" by (simp add: buf_capacity_def)
    let ?m = "take ?res (cells b) @ map Some ?c @ drop (?res + length ?c) (cells b)"
    let ?b' = "b\<lparr>cells := ?m, read_index := ?res, write_index := ?res + length ?c\<rparr>"
    have st: "store ?res (map Some ?c) (cells b) = Some ?m"
      using lt cap by (simp add: store_def)
    have ok: "buf_ok ?b'" "contents ?b' = ?c"
      using buf_okI [of ?b' "take ?res (cells b)" ?c] s(4) lt cap by simp_all
    have len: "len \<le> length ?m - (?res + length ?c)"
      using False lt cap by simp
    have w': "buf_writableBytes ?b' = Some (length ?m - (?res + length ?c))"
      using lt cap by (simp add: buf_writableBytes_def buf_capacity_def)
    have "Q ?b'" using ok len by (intro Q) (simp_all add: buf_capacity_def)
    with False lt len show ?thesis
      by (simp add: buf_grow_def wr buf_prependableBytes_def s(2) buf_length_ok b src [unfolded s(2)] st ok w'
          Let_def del: length_append)
  qed
qed

lemma wp_ensureWritableBytes [wp_rules]:
  assumes b: "buf_ok b"
    and Q: "\<And>b'. buf_ok b' \<Longrightarrow> contents b' = contents b \<Longrightarrow> len \<le> buf_capacity b' - write_index b' \<Longrightarrow>
         reserved_prepend_size b' = reserved_prepend_size b \<Longrightarrow> buffer_kind b' = buffer_kind b \<Longrightarrow> Q b'"
  shows "wp (buf_ensureWritableBytes len b) Q"
proof -
  have wr: "buf_writableBytes c = Some (buf_capacity c - write_index c)" if "buf_ok c" for c
    using that by (simp add: buf_writableBytes_def buf_ok_def buf_capacity_def)
  show ?thesis
  proof (cases "buf_capacity b - write_index b < len")
    case True
    then show ?thesis
      by (simp add: buf_ensureWritableBytes_def wr b) (rule wp_grow [OF b], simp_all add: wr Q)
  next
    case False
    then show ?thesis using Q [OF b refl] by (simp add: buf_ensureWritableBytes_def wr b)
  qed
qed

lemma store_tail:
  assumes "buf_ok b" "length d \<le> buf_capacity b - write_index b"
  shows "\<exists>m. store (write_index b) (map Some d) (cells b) = Some m \<and> length m = length (cells b) \<and>
     buf_ok (b\<lparr>cells := m, write_index := write_index b + length d\<rparr>) \<and>
     contents (b\<lparr>cells := m, write_index := write_index b + length d\<rparr>) = contents b @ d"
proof -
  from assms(1) obtain pre post where s: "cells b = pre @ map Some (contents b) @ post"
    "read_index b = length pre" "write_index b = length pre + length (contents b)"
    "reserved_prepend_size b \<le> length (cells b)" by (rule buf_okE)
  have cap: "length (cells b) = length pre + length (contents b) + length post"
    by (subst s(1)) simp
  let ?m = "pre @ map Some (contents b @ d) @ drop (length d) post"
  let ?b' = "b\<lparr>cells := ?m, write_index := write_index b + length d\<rparr>"
  have len: "length d \<le> length post" using assms(2) cap s(3) by (simp add: buf_capacity_def)
  have "store (write_index b) (map Some d) (cells b) = Some ?m"
    using len cap by (simp add: store_def s(3)) (subst s(1), subst s(1), simp)
  moreover have "length ?m = length (cells b)" using len cap by simp
  moreover have "buf_ok ?b'" "contents ?b' = contents b @ d"
    using buf_okI [of ?b' pre "contents b @ d" "drop (length d) post"] s len cap by simp_all
  ultimately show ?thesis by blast
qed

lemma wp_write [wp_rules]:
  assumes b: "buf_ok b" and Q: "\<And>b'. buf_ok b' \<Longrightarrow> contents b' = contents b @ d \<Longrightarrow> Q b'"
  shows "wp (buf_write d b) Q"
  unfolding buf_write_def wp_bind
proof (rule wp_ensureWritableBytes [OF b])
  fix c
  assume c: "buf_ok c" "contents c = contents b" "length d \<le> buf_capacity c - write_index c"
  from store_tail [OF c(1,3)] c(1) Q c(2,3)
  show "wp (store (write_index c) (map Some d) (cells c))
          (\<lambda>m. wp (ensure (write_index c + length d \<le> buf_capacity c))
            (\<lambda>_. wp (Some (c\<lparr>cells := m, write_index := write_index c + length d\<rparr>)) Q))"
    by (auto simp: buf_ok_def buf_capacity_def)
qed

lemma wp_append [wp_rules]:
  "buf_ok b \<Longrightarrow> (\<And>b'. buf_ok b' \<Longrightarrow> contents b' = contents b @ d \<Longrightarrow> Q b') \<Longrightarrow> wp (buf_append d b) Q"
  by (simp add: buf_append_def wp_write)

lemma wp_appendCRLF [wp_rules]:
  "buf_ok b \<Longrightarrow> (\<And>b'. buf_ok b' \<Longrightarrow> contents b' = contents b @ CRLF \<Longrightarrow> Q b') \<Longrightarrow> wp (buf_appendCRLF b) Q"
  by (simp add: buf_appendCRLF_def wp_write)

lemma wp_appendInt8 [wp_rules]:
  "buf_ok b \<Longrightarrow> (\<And>b'. buf_ok b' \<Longrightarrow> contents b' = contents b @ [x] \<Longrightarrow> Q b') \<Longrightarrow> wp (buf_appendInt8 x b) Q"
  by (simp add: buf_appendInt8_def wp_write)

lemma wp_appendNumberToStr [wp_rules]:
  assumes b: "buf_ok b" and len: "length (fmt n) \<le> 32"
    and Q: "\<And>b'. buf_ok b' \<Longrightarrow> contents b' = contents b @ fmt n \<Longrightarrow> Q b'"
  shows "wp (buf_appendNumberToStr fmt n b) Q"
  unfolding buf_appendNumberToStr_def wp_bind Let_def
proof (rule wp_ensureWritableBytes [OF b])
  fix c
  assume c: "buf_ok c" "contents c = contents b" "32 \<le> buf_capacity c - write_index c"
  from store_tail [OF c(1), of "fmt n"] c len Q
  show "wp (store (write_index c) (map Some (fmt n)) (cells c))
          (\<lambda>m. wp (ensure (write_index c + length (fmt n) \<le> buf_capacity c))
            (\<lambda>_. wp (Some (c\<lparr>cells := m, write_index := write_index c + length (fmt n)\<rparr>)) Q))"
    by (auto simp: buf_ok_def buf_capacity_def)
qed

lemma buf_new_ok:
  "\<exists>b. buf_new ty n r = Some b \<and> buf_ok b \<and> contents b = [] \<and> reserved_prepend_size b = r \<and>
     buffer_kind b = ty \<and> buf_capacity b = r + n"
  by (simp add: buf_new_def Let_def buf_length_def buf_writableBytes_def buf_capacity_def
      buf_prependableBytes_def buf_ok_def contents_def)

lemma buf_next_ok [run_simps]:
  "buf_ok b \<Longrightarrow> \<exists>b'. buf_next n b = Some (take n (contents b), b') \<and> buf_ok b' \<and>
     contents b' = drop n (contents b)"
  using load_bytes_contents [of b 0 n] buf_advance [of b n]
  by (auto simp: buf_next_def buf_nextAll_def buf_length_ok buf_toString_ok)

lemma buf_readByte_ok:
  "buf_ok b \<Longrightarrow> contents b = x # xs \<Longrightarrow> \<exists>b'. buf_readByte b = Some (x, b') \<and> buf_ok b' \<and> contents b' = xs"
  using load_bytes_contents [of b 0 1] buf_advance [of b 1]
  by (auto simp: buf_readByte_def buf_length_ok)

lemma wp_prepend [wp_rules]:
  assumes b: "buf_ok b" and len: "length d \<le> read_index b"
    and Q: "\<And>b'. buf_ok b' \<Longrightarrow> contents b' = d @ contents b \<Longrightarrow> Q b'"
  shows "wp (buf_prepend d b) Q"
proof -
  from b obtain pre post where s: "cells b = pre @ map Some (contents b) @ post"
    "read_index b = length pre" "write_index b = length pre + length (contents b)"
    "reserved_prepend_size b \<le> length (cells b)" by (rule buf_okE)
  let ?r = "length pre - length d"
  let ?m = "take ?r pre @ map Some (d @ contents b) @ post"
  have cap: "length (cells b) = length pre + length (contents b) + length post"
    by (subst s(1)) simp
  have st: "store ?r (map Some d) (cells b) = Some ?m"
    using len cap by (simp add: store_def s(2)) (subst s(1), subst s(1), simp add: s(2))
  have "buf_ok (b\<lparr>read_index := ?r, cells := ?m\<rparr>)" "contents (b\<lparr>read_index := ?r, cells := ?m\<rparr>) = d @ contents b"
    using buf_okI [of "b\<lparr>read_index := ?r, cells := ?m\<rparr>" "take ?r pre" "d @ contents b" post] s len cap
    by simp_all
  with len st Q show ?thesis
    by (simp add: buf_prepend_def buf_prependableBytes_def Let_def s(2))
qed

lemma wp_shrink:
  assumes b: "buf_ok b" and Q: "\<And>b'. buf_ok b' \<Longrightarrow> contents b' = contents b \<Longrightarrow> Q b'"
  shows "wp (buf_shrink n b) Q"
proof -
  obtain o' where "buf_new (buffer_kind b) (length (contents b) + n) (reserved_prepend_size b) = Some o'"
    "buf_ok o'" "contents o' = []" using buf_new_ok by blast
  with b Q show ?thesis
    by (simp add: buf_shrink_def buf_length_ok buf_toString_ok buf_swap_def wp_append)
qed

lemma buf_copy_ok:
  assumes b: "buf_ok b"
  shows "\<exists>b'. buf_copy b = Some b' \<and> buf_ok b' \<and> contents b' = contents b \<and> read_index b' = read_index b \<and>
    buf_capacity b' = buf_capacity b"
proof -
  from b obtain pre post where s: "cells b = pre @ map Some (contents b) @ post"
    "read_index b = length pre" "write_index b = length pre + length (contents b)"
    "reserved_prepend_size b \<le> length (cells b)" by (rule buf_okE)
  have cap: "length (cells b) = length pre + length (contents b) + length post"
    by (subst s(1)) simp
  have src: "load (length pre) (length (contents b)) (cells b) = Some (map Some (contents b))"
    using cap by simp (subst s(1), simp)
  let ?m = "replicate (length pre) None @ map Some (contents b) @ replicate (length post) None"
  have "store (length pre) (map Some (contents b)) (new_block (length (cells b))) = Some ?m"
    using cap by (simp add: store_def new_block_def)
  moreover have "buf_ok (b\<lparr>cells := ?m\<rparr>)" "contents (b\<lparr>cells := ?m\<rparr>) = contents b"
    using buf_okI [of "b\<lparr>cells := ?m\<rparr>" "replicate (length pre) None" "contents b"] s cap by simp_all
  ultimately show ?thesis
    using b cap by (simp add: buf_copy_def s(2,3) src buf_capacity_def)
qed

section \<open>The queue contract\<close>

text \<open>
  What every codec relies on: appended bytes come out in order, and skipping drops exactly the
  bytes named. \<open>queue_run\<close> interprets a sequence of operations on an abstract byte string.
\<close>

datatype queue_op = Put bytes | Drop nat

fun queue_step :: "queue_op \<Rightarrow> bytes \<Rightarrow> bytes" where
  "queue_step (Put d) s = s @ d"
| "queue_step (Drop n) s = drop n s"

fun queue_run ::
  "(bytes \<Rightarrow> 'b \<Rightarrow> 'b option) \<Rightarrow> (nat \<Rightarrow> 'b \<Rightarrow> 'b option) \<Rightarrow> queue_op list \<Rightarrow> 'b \<Rightarrow> 'b option" where
  "queue_run put drop_front [] b = Some b"
| "queue_run put drop_front (Put d # ops) b = Option.bind (put d b) (queue_run put drop_front ops)"
| "queue_run put drop_front (Drop n # ops) b = Option.bind (drop_front n b) (queue_run put drop_front ops)"

locale byte_queue =
  fixes ok :: "'b \<Rightarrow> bool"
    and view :: "'b \<Rightarrow> bytes"
    and put :: "bytes \<Rightarrow> 'b \<Rightarrow> 'b option"
    and drop_front :: "nat \<Rightarrow> 'b \<Rightarrow> 'b option"
  assumes put_law: "ok b \<Longrightarrow> wp (put d b) (\<lambda>b'. ok b' \<and> view b' = view b @ d)"
    and drop_law: "ok b \<Longrightarrow> wp (drop_front n b) (\<lambda>b'. ok b' \<and> view b' = drop n (view b))"
begin

lemma queue_run_simulates:
  "ok b \<Longrightarrow> wp (queue_run put drop_front ops b) (\<lambda>b'. ok b' \<and> view b' = fold queue_step ops (view b))"
proof (induction ops arbitrary: b)
  case (Cons p ops)
  show ?case
  proof (cases p)
    case (Put d)
    from wp_mono [OF put_law [OF Cons.prems, of d]] show ?thesis
      unfolding Put queue_run.simps wp_bind by (rule wp_mono) (auto dest: Cons.IH)
  next
    case (Drop n)
    from drop_law [OF Cons.prems, of n] show ?thesis
      unfolding Drop queue_run.simps wp_bind by (rule wp_mono) (auto dest: Cons.IH)
  qed
qed simp

lemma put_then_drop:
  assumes "ok b"
  shows "wp (Option.bind (put d b) (drop_front (length (view b)))) (\<lambda>b'. ok b' \<and> view b' = d)"
  using queue_run_simulates [OF assms, of "[Put d, Drop (length (view b))]"] by simp

end

interpretation buf: byte_queue buf_ok contents buf_append buf_skip
  by unfold_locales (auto intro: wp_append wp_skip)

text \<open>The operations of the queue, on buffers.\<close>

definition buf_run :: "queue_op list \<Rightarrow> buffer \<Rightarrow> buffer option" where
  "buf_run = queue_run buf_append buf_skip"

section \<open>Properties\<close>

text \<open>C4: a buffer is a byte queue. Any sequence of appends and skips on a well-formed buffer
  returns (no assertion fails, the block is never left, whatever growing and compacting happens
  inside) and leaves exactly the unread bytes that the sequence leaves on a byte string.\<close>

theorem buf_run_refines_queue:
  assumes "buf_ok b"
  shows "\<exists>b'. buf_run ops b = Some b' \<and> buf_ok b' \<and> contents b' = fold queue_step ops (contents b)"
  using buf.queue_run_simulates [OF assms, of ops] by (simp add: buf_run_def wp_iff)

definition sample_buffer :: buffer where
  "sample_buffer = \<lparr>buffer_kind = INPUT_BUFFER,
     cells = [None, None, Some (CHR ''a''), Some (CHR ''b''), Some (CHR ''c''), None],
     read_index = 2, write_index = 5, reserved_prepend_size = 1\<rparr>"

lemma sample_buffer_ok: "buf_ok sample_buffer" "contents sample_buffer = ''abc''"
  by (simp_all add: sample_buffer_def buf_ok_def contents_def)

theorem buf_run_refines_queue_witness:
  "\<exists>b'. buf_run [Put ''defg'', Drop 2, Put ''h''] sample_buffer = Some b' \<and> contents b' = ''cdefgh''"
  using buf_run_refines_queue [OF sample_buffer_ok(1), of "[Put ''defg'', Drop 2, Put ''h'']"]
  by (auto simp: sample_buffer_ok)

text \<open>Reserving room never fails and keeps the data. On a well-formed buffer
  \<open>ensureWritableBytes\<close> passes both assertions of \<open>grow\<close> and its own, keeps the unread bytes,
  and leaves at least the requested number of writable bytes.\<close>

lemma buf_ensureWritableBytes_correct:
  assumes "buf_ok b"
  shows "\<exists>b'. buf_ensureWritableBytes len b = Some b' \<and> buf_ok b' \<and> contents b' = contents b \<and>
     write_index b' + len \<le> buf_capacity b'"
proof -
  have "wp (buf_ensureWritableBytes len b)
      (\<lambda>b'. buf_ok b' \<and> contents b' = contents b \<and> write_index b' + len \<le> buf_capacity b')"
    by (rule wp_ensureWritableBytes [OF assms]) (auto simp: buf_ok_def buf_capacity_def)
  then show ?thesis by (auto simp: wp_iff)
qed

lemma wp_readInt64:
  assumes "buf_ok b" "contents b = rev (le_bytes 8 (unat x)) @ s"
  shows "\<exists>b'. buf_readInt64 b = Some (x, b') \<and> buf_ok b' \<and> contents b' = s"
proof -
  have "wp (buf_skip 8 b) (\<lambda>b'. buf_ok b' \<and> contents b' = s)"
    using assms by (intro wp_skip) simp_all
  then obtain b' where "buf_skip 8 b = Some b'" "buf_ok b'" "contents b' = s" by (auto simp: wp_iff)
  moreover have "intrev64 (of_nat (le_value (rev (le_bytes 8 (unat x))))) = x"
    by (simp only: le_bytes_intrev64 [symmetric] of_nat_le_value_le_bytes len_words intrev64_involution)
  ultimately show ?thesis
    using assms by (simp add: buf_readInt64_def buf_peekInt64_def buf_peek_ok)
qed

text \<open>Integers in network byte order. Appending a 64-bit integer adds its eight big-endian
  bytes, and reading from a buffer that starts with them returns the integer and consumes
  exactly those bytes.\<close>

lemma buf_int64_roundtrip:
  assumes "buf_ok b" "contents b = []"
  shows "\<exists>b' b''. buf_appendInt64 x b = Some b' \<and> contents b' = rev (le_bytes 8 (unat x)) \<and>
     buf_readInt64 b' = Some (x, b'') \<and> contents b'' = []"
proof -
  have "wp (buf_appendInt64 x b) (\<lambda>b'. buf_ok b' \<and> contents b' = rev (le_bytes 8 (unat x)))"
    unfolding buf_appendInt64_def le_bytes_intrev64 using assms by (intro wp_write) simp_all
  then show ?thesis using wp_readInt64 [of _ x "[]"] by (force simp: wp_iff)
qed

lemma buf_ok_full:
  assumes "buf_ok b" "buf_writableBytes b = Some w" "length d = w"
    "store (write_index b) (map Some d) (cells b) = Some m"
  shows "buf_ok (b\<lparr>cells := m, write_index := buf_capacity b\<rparr>)"
    "contents (b\<lparr>cells := m, write_index := buf_capacity b\<rparr>) = contents b @ d"
proof -
  have w: "w = buf_capacity b - write_index b" "write_index b \<le> buf_capacity b"
    using assms(1,2) by (auto simp: buf_writableBytes_def buf_ok_def buf_capacity_def)
  then have cap: "buf_capacity b = write_index b + length d" using assms(3) by simp
  have "length d \<le> buf_capacity b - write_index b" using cap by simp
  from store_tail [OF assms(1) this] assms(4)
  show "buf_ok (b\<lparr>cells := m, write_index := buf_capacity b\<rparr>)"
    "contents (b\<lparr>cells := m, write_index := buf_capacity b\<rparr>) = contents b @ d"
    by (simp_all only: cap option.inject ex_simps) blast+
qed

text \<open>A socket read loses nothing. When the kernel returns no more bytes than the scatter read
  offered, \<open>readFromFd\<close> appends exactly those bytes to the unread ones, whether they fit into
  the free tail or spill into the stack block.\<close>

lemma buf_readFromFd_appends:
  assumes b: "buf_ok b" and w: "buf_writableBytes b = Some w"
    and r: "readv (if w < 65536 then w + 65536 else w) = Inr d"
  shows "\<exists>b'. buf_readFromFd readv b = Some (Inr (length d), b') \<and> buf_ok b' \<and> contents b' = contents b @ d"
proof (cases "length d \<le> w")
  case True
  have "w = buf_capacity b - write_index b"
    using b w by (auto simp: buf_writableBytes_def buf_ok_def buf_capacity_def)
  with store_tail [OF b] True w r show ?thesis by (fastforce simp: buf_readFromFd_def)
next
  case False
  let ?d = "take w d"
  have wc: "w = buf_capacity b - write_index b"
    using b w by (auto simp: buf_writableBytes_def buf_ok_def buf_capacity_def)
  with store_tail [OF b, of ?d] False obtain m where
    m: "store (write_index b) (map Some ?d) (cells b) = Some m" by auto
  let ?c = "b\<lparr>cells := m, write_index := buf_capacity b\<rparr>"
  have c: "buf_ok ?c" "contents ?c = contents b @ ?d"
    using buf_ok_full [OF b w _ m] False by simp_all
  have "wp (buf_append (drop w d) ?c) (\<lambda>b'. buf_ok b' \<and> contents b' = contents b @ d)"
    by (rule wp_append [OF c(1)]) (simp add: c(2))
  then obtain b' where b': "buf_append (drop w d) ?c = Some b'" "buf_ok b'" "contents b' = contents b @ d"
    by (auto simp: wp_iff)
  have "buf_readFromFd readv b = Some (Inr (length d), b')"
    using False by (simp only: buf_readFromFd_def w r m b'(1) Option.bind_lunit sum.case if_False)
  with b' show ?thesis by blast
qed

text \<open>Truncation keeps the first bytes. For a length whose sum with the read index does not
  overflow, \<open>truncate\<close> leaves the first \<open>n\<close> unread bytes (all of them if there are fewer).\<close>

lemma buf_truncate_keeps_prefix:
  assumes b: "buf_ok b" and n: "read_index b + n < 2 ^ 64"
  shows "buf_ok (buf_truncate n b) \<and> contents (buf_truncate n b) = take n (contents b)"
proof -
  from b obtain pre post where s: "cells b = pre @ map Some (contents b) @ post"
    "read_index b = length pre" "write_index b = length pre + length (contents b)"
    "reserved_prepend_size b \<le> length (cells b)" by (rule buf_okE)
  show ?thesis
  proof (cases "n = 0 \<or> length (contents b) \<le> n")
    case True
    have "buf_ok (b\<lparr>read_index := reserved_prepend_size b, write_index := reserved_prepend_size b\<rparr>)"
      using b by (simp add: buf_ok_def)
    moreover have "contents (b\<lparr>read_index := reserved_prepend_size b, write_index := reserved_prepend_size b\<rparr>) = []"
      by (simp add: contents_def)
    ultimately show ?thesis using True n b s(2,3) by (auto simp: buf_truncate_def)
  next
    case False
    let ?b' = "b\<lparr>write_index := read_index b + n\<rparr>"
    have "map Some (contents b) = map Some (take n (contents b)) @ map Some (drop n (contents b))"
      by (simp flip: map_append)
    with s(1) have "cells b = pre @ map Some (take n (contents b)) @ map Some (drop n (contents b)) @ post"
      by simp
    then have "buf_ok ?b'" "contents ?b' = take n (contents b)"
      using buf_okI [of ?b' pre "take n (contents b)" "map Some (drop n (contents b)) @ post"] s False
      by simp_all
    with False n s(2,3) show ?thesis by (simp add: buf_truncate_def)
  qed
qed

text \<open>The comment on \<open>truncate\<close> promises that nothing happens for a length greater than the
  buffer's; when the sum wraps around, the write index instead falls below the read index.\<close>

lemma buf_truncate_wraps:
  "\<not> buf_ok (buf_truncate (2 ^ 64 - 1) sample_buffer)"
  by (simp add: sample_buffer_def buf_truncate_def sz_add_def buf_ok_def)

end
