(* ===== verification/StringUtil.thy ===== *)
theory StringUtil
  imports Prelude
begin

text \<open>
  \<open>common/StringUtil\<close>: the strict integer parsers, the printable escaping of byte strings, the
  splitting of a request line into arguments, memory amounts and the small helpers the protocol
  and client code use. A string is a list of bytes; \<open>c_str\<close> is what a C function sees of it.
  \<open>splitArgs\<close> receives two pointers into someone else's memory, so it is modelled on a block.
\<close>

section \<open>Case folding and comparisons\<close>

definition c_str :: "bytes \<Rightarrow> bytes" where
  "c_str s = takeWhile (\<lambda>c. c \<noteq> NUL) s"

definition toUpper :: "bytes \<Rightarrow> bytes" where
  "toUpper str = map to_upper str"

definition toLower :: "bytes \<Rightarrow> bytes" where
  "toLower str = map to_lower str"

text \<open>\<open>strcasecmp\<close> on the two C strings.\<close>

definition equalsNoCase :: "bytes \<Rightarrow> bytes \<Rightarrow> bool" where
  "equalsNoCase x y \<longleftrightarrow> map to_lower (c_str x) = map to_lower (c_str y)"

definition startWith :: "bytes \<Rightarrow> bytes \<Rightarrow> bool" where
  "startWith x y \<longleftrightarrow> take (length (c_str y)) (c_str x) = c_str y"

definition startWithNoCase :: "bytes \<Rightarrow> bytes \<Rightarrow> bool" where
  "startWithNoCase x y \<longleftrightarrow>
     map to_lower (take (length (c_str y)) (c_str x)) = map to_lower (c_str y)"

definition existsPattern :: "bytes \<Rightarrow> bool" where
  "existsPattern pattern \<longleftrightarrow> \<not> list_ex (\<lambda>c. c \<in> set [CHR ''*'', CHR ''?'', CHR ''['', BSL]) pattern"

definition trim :: "bytes \<Rightarrow> bytes" where
  "trim str =
     (let delims = [CHR '' '', CHR 0x0C, CR, LF, CHR 0x09, CHR 0x0B]
      in rev (dropWhile (\<lambda>c. c \<in> set delims) (rev (dropWhile (\<lambda>c. c \<in> set delims) str))))"

definition stringMapChars :: "bytes \<Rightarrow> bytes \<Rightarrow> bytes \<Rightarrow> bytes" where
  "stringMapChars str from to =
     map (\<lambda>c. case find_byte c from of None \<Rightarrow> c | Some j \<Rightarrow> to ! j) str"

section \<open>Strict integers\<close>

definition ULLONG_MAX :: nat where "ULLONG_MAX = 2 ^ 64 - 1"
definition LLONG_MAX :: nat where "LLONG_MAX = 2 ^ 63 - 1"

text \<open>The digit loop: \<open>None\<close> on overflow and on a byte that is not a digit.\<close>

fun parse_digits :: "nat \<Rightarrow> bytes \<Rightarrow> nat option" where
  "parse_digits v [] = Some v"
| "parse_digits v (c # cs) =
     (if is_digit c
      then if v > ULLONG_MAX div 10 then None
           else if v * 10 > ULLONG_MAX - digit_value c then None
           else parse_digits (v * 10 + digit_value c) cs
      else None)"

text \<open>The first digit must be 1 to 9, then every byte up to the end is a digit.\<close>

definition parse_unsigned :: "bytes \<Rightarrow> nat option" where
  "parse_unsigned s =
     (case s of
        [] \<Rightarrow> None
      | c # cs \<Rightarrow>
          if is_digit c \<and> c \<noteq> CHR ''0'' then parse_digits (digit_value c) cs else None)"

definition string2ull :: "bytes \<Rightarrow> nat option" where
  "string2ull s = (if s = [] then None else if s = ''0'' then Some 0 else parse_unsigned s)"

definition string2ll :: "bytes \<Rightarrow> int option" where
  "string2ll s =
     (if s = [] then None
      else if s = ''0'' then Some 0
      else if hd s = CHR ''-''
      then if tl s = [] then None
           else case parse_unsigned (tl s) of
                  None \<Rightarrow> None
                | Some v \<Rightarrow> if v > LLONG_MAX + 1 then None else Some (- int v)
      else case parse_unsigned s of
             None \<Rightarrow> None
           | Some v \<Rightarrow> if v > LLONG_MAX then None else Some (int v))"

lemma overflow_check:
  assumes "d < 10"
  shows "(v > ULLONG_MAX div 10 \<or> v * 10 > ULLONG_MAX - d) \<longleftrightarrow> ULLONG_MAX < 10 * v + d"
  using assms unfolding ULLONG_MAX_def by simp linarith

lemma parse_digits_Cons:
  "is_digit c \<Longrightarrow> parse_digits v (c # cs) =
     (if 10 * v + digit_value c \<le> ULLONG_MAX then parse_digits (10 * v + digit_value c) cs else None)"
  using overflow_check [OF digit_value_less, of c v] by (auto simp: mult.commute)

lemma parse_digits_Some:
  "parse_digits v ds = Some n \<longleftrightarrow>
     list_all is_digit ds \<and> n = digits_value v ds \<and> (ds = [] \<or> digits_value v ds \<le> ULLONG_MAX)"
proof (induction ds arbitrary: v)
  case (Cons d ds)
  show ?case
  proof (cases "is_digit d")
    case True
    have "10 * v + digit_value d \<le> digits_value (10 * v + digit_value d) ds"
      by (rule digits_value_ge)
    then have "digits_value v (d # ds) \<le> ULLONG_MAX \<longleftrightarrow>
        10 * v + digit_value d \<le> ULLONG_MAX \<and> digits_value (10 * v + digit_value d) ds \<le> ULLONG_MAX"
      by auto
    moreover have "ds = [] \<Longrightarrow> digits_value v (d # ds) = 10 * v + digit_value d" by simp
    ultimately show ?thesis
      unfolding parse_digits_Cons [OF True] using True Cons.IH [of "10 * v + digit_value d"]
      by (auto split: if_splits)
  qed simp
qed auto

text \<open>A nonempty digit string without a leading zero is the rendering of its value.\<close>

lemma dec_nat_digits_value:
  "list_all is_digit ds \<Longrightarrow> 0 < v \<Longrightarrow> dec_nat (digits_value v ds) = dec_nat v @ ds"
proof (induction ds arbitrary: v)
  case (Cons d ds)
  then have d: "digit_value d < 10" "digit_char (digit_value d) = d"
    by (auto intro: digit_value_less digit_char_value)
  have "dec_nat (10 * v + digit_value d) = dec_nat v @ [d]"
    using Cons.prems(2) d by (subst dec_nat.simps) simp
  with Cons d show ?case by simp
qed simp

lemma digit_value_pos: "is_digit c \<Longrightarrow> c \<noteq> CHR ''0'' \<Longrightarrow> 0 < digit_value c"
proof (rule ccontr)
  assume c: "is_digit c" "c \<noteq> CHR ''0''" and "\<not> 0 < digit_value c"
  then have "code c = code (CHR ''0'')" by (simp add: is_digit_def digit_value_def code_of_0)
  with c(2) show False by simp
qed

lemma parse_number_iff:
  assumes "is_digit c" "c \<noteq> CHR ''0''"
  shows "parse_digits (digit_value c) cs = Some n \<longleftrightarrow> c # cs = dec_nat n \<and> n \<le> ULLONG_MAX"
proof
  have d: "0 < digit_value c" "digit_value c < 10" "digit_char (digit_value c) = c"
    using assms by (auto intro: digit_value_pos digit_value_less digit_char_value)
  have one: "dec_nat (digit_value c) = [c]" using d by (subst dec_nat.simps) simp
  {
    assume "parse_digits (digit_value c) cs = Some n"
    then have n: "list_all is_digit cs" "n = digits_value (digit_value c) cs"
      "cs = [] \<or> digits_value (digit_value c) cs \<le> ULLONG_MAX"
      by (auto simp: parse_digits_Some)
    then show "c # cs = dec_nat n \<and> n \<le> ULLONG_MAX"
      using dec_nat_digits_value [OF n(1) d(1)] one d(2) by (auto simp: ULLONG_MAX_def)
  }
  assume n: "c # cs = dec_nat n \<and> n \<le> ULLONG_MAX"
  then have "list_all is_digit cs"
    using dec_nat_digits [of _ n] by (metis list.set_intros(2) list_all_iff)
  moreover have "digits_value (digit_value c) cs = n"
    using n digits_value_dec_nat [of n] by (metis digits_value_simps(2) mult_0_right add_0)
  ultimately show "parse_digits (digit_value c) cs = Some n"
    using n by (simp add: parse_digits_Some)
qed

lemma dec_nat_0: "dec_nat 0 = ''0''"
  by (subst dec_nat.simps) (simp add: digit_char_def char_of_code [of "CHR ''0''", unfolded code_of_0])

lemma dec_nat_ConsD:
  assumes "dec_nat n = c # cs" "0 < n"
  shows "is_digit c" "c \<noteq> CHR ''0''"
  using assms dec_nat_digits [of c n] dec_nat_hd [of n] by auto

lemma parse_unsigned_iff:
  "parse_unsigned s = Some n \<longleftrightarrow> s = dec_nat n \<and> 0 < n \<and> n \<le> ULLONG_MAX"
proof (cases s)
  case Nil
  then show ?thesis by (cases "dec_nat n") (auto simp: parse_unsigned_def)
next
  case (Cons c cs)
  show ?thesis
  proof (cases "is_digit c \<and> c \<noteq> CHR ''0''")
    case True
    then have "s = dec_nat n \<Longrightarrow> 0 < n" using Cons by (cases "n = 0") (auto simp: dec_nat_0)
    with True parse_number_iff [of c cs n] Cons show ?thesis by (auto simp: parse_unsigned_def)
  next
    case False
    with dec_nat_ConsD [of n c cs] Cons show ?thesis by (auto simp: parse_unsigned_def)
  qed
qed

lemma zero_eq_dec_nat [simp]: "''0'' = dec_nat n \<longleftrightarrow> n = 0" "dec_nat n = ''0'' \<longleftrightarrow> n = 0"
  by (metis dec_nat_0 dec_nat_inject)+

lemma string2ull_iff: "string2ull s = Some n \<longleftrightarrow> s = dec_nat n \<and> n < 2 ^ 64"
  by (auto simp: string2ull_def parse_unsigned_iff ULLONG_MAX_def)

lemma hd_dec_nat: "hd (dec_nat n) \<noteq> CHR ''-''"
  using is_digit_not_CR [OF dec_nat_digits [of "hd (dec_nat n)" n]] by simp

lemma dec_int_neg: "i < 0 \<Longrightarrow> s = dec_int i \<longleftrightarrow> s \<noteq> [] \<and> hd s = CHR ''-'' \<and> tl s = dec_nat (nat (- i))"
  by (cases s) (auto simp: dec_int_def)

lemma dec_int_nonneg: "0 \<le> i \<Longrightarrow> dec_int i = dec_nat (nat i)"
  by (simp add: dec_int_def)

lemma string2ll_neg:
  assumes "i < 0"
  shows "string2ll s = Some i \<longleftrightarrow> s = dec_int i \<and> int64_range i"
proof (cases "s \<noteq> [] \<and> hd s = CHR ''-''")
  case True
  then have "string2ll s = Some i \<longleftrightarrow>
      tl s \<noteq> [] \<and> parse_unsigned (tl s) = Some (nat (- i)) \<and> nat (- i) \<le> LLONG_MAX + 1"
    using assms by (auto simp: string2ll_def split: option.splits)
  also have "\<dots> \<longleftrightarrow> s = dec_int i \<and> int64_range i"
    using True assms
    by (auto simp: parse_unsigned_iff dec_int_neg int64_range_def LLONG_MAX_def ULLONG_MAX_def)
  finally show ?thesis .
next
  case False
  with assms show ?thesis
    by (auto simp: string2ll_def dec_int_neg split: option.splits if_splits)
qed

lemma string2ll_nonneg:
  assumes "0 \<le> i"
  shows "string2ll s = Some i \<longleftrightarrow> s = dec_int i \<and> int64_range i"
proof (cases "s = [] \<or> s = ''0'' \<or> hd s = CHR ''-''")
  case True
  then have "s = dec_nat (nat i) \<longleftrightarrow> s = ''0'' \<and> i = 0"
    using hd_dec_nat [of "nat i"] assms by auto
  with True assms parse_unsigned_iff [of "tl s" 0] show ?thesis
    by (auto simp: string2ll_def dec_int_nonneg int64_range_def split: option.splits if_splits)
next
  case False
  then have "string2ll s = Some i \<longleftrightarrow> parse_unsigned s = Some (nat i) \<and> nat i \<le> LLONG_MAX"
    using assms by (auto simp: string2ll_def split: option.splits)
  also have "\<dots> \<longleftrightarrow> s = dec_int i \<and> int64_range i"
    using False assms
    by (auto simp: parse_unsigned_iff dec_int_nonneg int64_range_def LLONG_MAX_def ULLONG_MAX_def)
  finally show ?thesis .
qed

lemma string2ll_iff: "string2ll s = Some i \<longleftrightarrow> s = dec_int i \<and> int64_range i"
  by (cases "i < 0") (simp_all add: string2ll_neg string2ll_nonneg)

section \<open>Printable strings\<close>

definition hex_char :: "nat \<Rightarrow> char" where
  "hex_char n = (if n < 10 then digit_char n else char_of (87 + n))"

definition is_hex_digit :: "char \<Rightarrow> bool" where
  "is_hex_digit c \<longleftrightarrow> (48 \<le> code c \<and> code c \<le> 57) \<or> (97 \<le> code c \<and> code c \<le> 102) \<or>
     (65 \<le> code c \<and> code c \<le> 70)"

definition hex_digit_to_int :: "char \<Rightarrow> nat" where
  "hex_digit_to_int c =
     (if 48 \<le> code c \<and> code c \<le> 57 then code c - 48
      else if 97 \<le> code c \<and> code c \<le> 102 then code c - 87
      else if 65 \<le> code c \<and> code c \<le> 70 then code c - 55
      else 0)"

definition printable_byte :: "char \<Rightarrow> bytes" where
  "printable_byte ch =
     (if ch = DQ then [BSL, DQ]
      else if ch = BSL then [BSL, BSL]
      else if ch = LF then [BSL, CHR ''n'']
      else if ch = CR then [BSL, CHR ''r'']
      else if ch = CHR 0x09 then [BSL, CHR ''t'']
      else if ch = CHR 0x07 then [BSL, CHR ''a'']
      else if ch = CHR 0x08 then [BSL, CHR ''b'']
      else if is_print ch then [ch]
      else [BSL, CHR ''x'', hex_char (code ch div 16), hex_char (code ch mod 16)])"

definition toPrintableStr :: "bytes \<Rightarrow> bytes" where
  "toPrintableStr str = concat (map printable_byte str)"

fun printable_items :: "bool \<Rightarrow> bytes list \<Rightarrow> bytes" where
  "printable_items haswarp [] = []"
| "printable_items haswarp (s # ss) =
     (if haswarp then [SQ] else []) @ toPrintableStr s @ (if haswarp then [SQ] else []) @
     (if ss = [] then [] else (if haswarp then '','' else []) @ '' '') @
     printable_items haswarp ss"

definition toPrintableStrs :: "bool \<Rightarrow> bytes list \<Rightarrow> bytes" where
  "toPrintableStrs haswarp strs =
     (if haswarp then ''['' else []) @ printable_items haswarp strs @ (if haswarp then '']'' else [])"

definition json_byte :: "char \<Rightarrow> bytes" where
  "json_byte ch =
     (if ch = BSL then [BSL, BSL]
      else if ch = DQ then [BSL, DQ]
      else if ch = LF then [BSL, CHR ''n'']
      else if ch = CHR 0x0C then [BSL, CHR ''f'']
      else if ch = CR then [BSL, CHR ''r'']
      else if ch = CHR 0x09 then [BSL, CHR ''t'']
      else if ch = CHR 0x08 then [BSL, CHR ''b'']
      else if is_print ch then [ch]
      else BSL # ''u00'' @ [hex_char (code ch div 16), hex_char (code ch mod 16)])"

definition escapeJsonString :: "bytes \<Rightarrow> bytes" where
  "escapeJsonString str = concat (map json_byte str)"

lemma code_hex_char: "n < 16 \<Longrightarrow> code (hex_char n) = (if n < 10 then 48 + n else 87 + n)"
  by (auto simp: hex_char_def code_char_of)

lemma hex_char_hex [simp]: "n < 16 \<Longrightarrow> is_hex_digit (hex_char n)"
  by (simp add: is_hex_digit_def code_hex_char)

lemma hex_digit_to_int_char [simp]: "n < 16 \<Longrightarrow> hex_digit_to_int (hex_char n) = n"
  by (auto simp: hex_digit_to_int_def code_hex_char)

lemma code_div16 [simp]: "code c div 16 < 16"
  using code_less [of c] by (simp only: less_mult_imp_div_less numeral_times_numeral)

lemma printable_byte_is_print: "c \<in> set (printable_byte ch) \<Longrightarrow> is_print c"
proof -
  have "is_print BSL" "is_print DQ" "is_print (CHR ''n'')" "is_print (CHR ''r'')" "is_print (CHR ''t'')"
    "is_print (CHR ''a'')" "is_print (CHR ''b'')" "is_print (CHR ''x'')"
    by (simp_all add: is_print_def code_def)
  moreover have "is_print (hex_char n)" if "n < 16" for n
    using that by (simp add: is_print_def code_hex_char)
  ultimately show "c \<in> set (printable_byte ch) \<Longrightarrow> is_print c"
    by (auto simp: printable_byte_def split: if_splits)
qed

lemma toPrintableStr_is_print: "c \<in> set (toPrintableStr s) \<Longrightarrow> is_print c"
  by (auto simp: toPrintableStr_def dest: printable_byte_is_print)

lemma toPrintableStr_no_CR: "CR \<notin> set (toPrintableStr s)"
  using toPrintableStr_is_print [of CR s] by (auto simp: is_print_def code_def)

section \<open>Splitting a request line into arguments\<close>

text \<open>
  \<open>splitArgs(start, end, args)\<close> walks a pointer through memory it does not own: the model reads
  bytes of a block at an index, and a read outside the block or of an indeterminate byte faults.
  The quoting modes are the \<open>inq\<close> and \<open>insq\<close> flags of the loop. Results: \<open>Some None\<close> is the
  \<open>err\<close> label, \<open>Some (Some args)\<close> success.
\<close>

definition rd :: "block \<Rightarrow> nat \<Rightarrow> char option" where
  "rd m p = (if p < length m then m ! p else None)"

lemma rd_Some_less: "rd m p = Some c \<Longrightarrow> p < length m"
  by (simp add: rd_def split: if_splits)

function skip_blanks :: "block \<Rightarrow> nat \<Rightarrow> nat \<Rightarrow> nat option" where
  "skip_blanks m fin p =
     (case rd m p of
        None \<Rightarrow> None
      | Some c \<Rightarrow> if c \<noteq> NUL \<and> p < fin \<and> is_space c then skip_blanks m fin (Suc p) else Some p)"
  by pat_completeness auto
termination
  by (relation "measure (\<lambda>(m, fin, p). length m - p)") (auto dest!: rd_Some_less)

declare skip_blanks.simps [simp del]

datatype quote_mode = Plain | InQ | InSQ

definition escape_char :: "char \<Rightarrow> char" where
  "escape_char c =
     (if c = CHR ''n'' then LF
      else if c = CHR ''r'' then CR
      else if c = CHR ''t'' then CHR 0x09
      else if c = CHR ''b'' then CHR 0x08
      else if c = CHR ''a'' then CHR 0x07
      else c)"

text \<open>The test for a hexadecimal escape, with the short-circuit reads of the source.\<close>

definition hex_escape :: "block \<Rightarrow> nat \<Rightarrow> char option option" where
  "hex_escape m p = do {
     c0 \<leftarrow> rd m p;
     if c0 \<noteq> BSL then Some None else do {
     c1 \<leftarrow> rd m (p + 1);
     if c1 \<noteq> CHR ''x'' then Some None else do {
     c2 \<leftarrow> rd m (p + 2);
     if \<not> is_hex_digit c2 then Some None else do {
     c3 \<leftarrow> rd m (p + 3);
     if \<not> is_hex_digit c3 then Some None
     else Some (Some (char_of (hex_digit_to_int c2 * 16 + hex_digit_to_int c3))) } } } }"

text \<open>One iteration of the loop over a token: it ends, or goes on in some mode at some pointer.\<close>

datatype token_result = Done "(bytes \<times> nat) option" | More quote_mode nat bytes

text \<open>A closing quote must be followed by a space or by nothing.\<close>

definition close_quote :: "block \<Rightarrow> nat \<Rightarrow> bytes \<Rightarrow> token_result option" where
  "close_quote m p current = do {
     d \<leftarrow> rd m (p + 1);
     Some (Done (if d \<noteq> NUL \<and> \<not> is_space d then None else Some (current, p + 1))) }"

fun token_step :: "block \<Rightarrow> quote_mode \<Rightarrow> nat \<Rightarrow> bytes \<Rightarrow> token_result option" where
  "token_step m InQ p current = do {
     c \<leftarrow> rd m p;
     h \<leftarrow> hex_escape m p;
     case h of
       Some byte \<Rightarrow> Some (More InQ (p + 4) (current @ [byte]))
     | None \<Rightarrow>
         if c = BSL
         then do {
           d \<leftarrow> rd m (p + 1);
           Some (if d \<noteq> NUL then More InQ (p + 2) (current @ [escape_char d])
                 else More InQ (p + 1) (current @ [c])) }
         else if c = DQ then close_quote m p current
         else if c = NUL then Some (Done None)
         else Some (More InQ (p + 1) (current @ [c])) }"
| "token_step m InSQ p current = do {
     c \<leftarrow> rd m p;
     d \<leftarrow> (if c = BSL then rd m (p + 1) else Some NUL);
     if c = BSL \<and> d = SQ then Some (More InSQ (p + 2) (current @ [SQ]))
     else if c = SQ then close_quote m p current
     else if c = NUL then Some (Done None)
     else Some (More InSQ (p + 1) (current @ [c])) }"
| "token_step m Plain p current = do {
     c \<leftarrow> rd m p;
     Some (if c = CHR '' '' \<or> c = LF \<or> c = CR \<or> c = CHR 0x09 \<or> c = NUL
           then Done (Some (current, if c = NUL then p else p + 1))
           else if c = DQ then More InQ (p + 1) current
           else if c = SQ then More InSQ (p + 1) current
           else More Plain (p + 1) (current @ [c])) }"

lemma token_step_More:
  "token_step m mode p current = Some (More mode' p' current') \<Longrightarrow> p < p' \<and> p < length m"
  by (cases "rd m p"; cases mode)
    (auto simp: close_quote_def split: bind_splits option.splits if_splits dest: rd_Some_less)

lemma token_step_Done:
  "token_step m mode p current = Some (Done (Some (tok, q))) \<Longrightarrow>
     p \<le> q \<and> (q = p \<longrightarrow> mode = Plain \<and> rd m p = Some NUL)"
  by (cases "rd m p"; cases mode)
    (auto simp: close_quote_def split: bind_splits option.splits if_splits)

function split_token :: "block \<Rightarrow> quote_mode \<Rightarrow> nat \<Rightarrow> bytes \<Rightarrow> (bytes \<times> nat) option option" where
  "split_token m mode p current =
     (case token_step m mode p current of
        None \<Rightarrow> None
      | Some (Done r) \<Rightarrow> Some r
      | Some (More mode' p' current') \<Rightarrow> split_token m mode' p' current')"
  by pat_completeness auto
termination
  by (relation "measure (\<lambda>(m, mode, p, current). length m - p)") (auto dest!: token_step_More)

declare split_token.simps [simp del]

lemma split_token_advances:
  "split_token m mode p current = Some (Some (tok, q)) \<Longrightarrow>
     p \<le> q \<and> (q = p \<longrightarrow> mode = Plain \<and> rd m p = Some NUL)"
proof (induction m mode p current rule: split_token.induct)
  case (1 m mode p current)
  show ?case
  proof (cases "token_step m mode p current")
    case None
    with "1.prems" show ?thesis by (simp add: split_token.simps [of m mode p])
  next
    case (Some r)
    show ?thesis
    proof (cases r)
      case (Done x)
      with Some "1.prems" show ?thesis
        by (auto simp: split_token.simps [of m mode p] dest: token_step_Done)
    next
      case (More mode' p' current')
      with Some "1.prems" "1.IH" [OF Some More] token_step_More show ?thesis
        by (fastforce simp: split_token.simps [of m mode p])
    qed
  qed
qed

text \<open>The outer loop: blanks, then a token, until \<open>end\<close> or a null byte.\<close>

function split_loop :: "block \<Rightarrow> nat \<Rightarrow> nat \<Rightarrow> bytes list \<Rightarrow> bytes list option option" where
  "split_loop m fin p args =
     (case skip_blanks m fin p of
        None \<Rightarrow> None
      | Some p' \<Rightarrow>
          if rd m p' = Some NUL \<or> fin \<le> p' then Some (Some args)
          else case split_token m Plain p' [] of
                 None \<Rightarrow> None
               | Some None \<Rightarrow> Some None
               | Some (Some (current, q)) \<Rightarrow> split_loop m fin q (args @ [current]))"
  by pat_completeness auto

lemma skip_blanks_ge: "skip_blanks m fin p = Some q \<Longrightarrow> p \<le> q \<and> q < length m"
proof (induction m fin p rule: skip_blanks.induct)
  case (1 m fin p)
  then show ?case
    by (cases "rd m p")
      (auto simp: skip_blanks.simps [of m fin p] dest: rd_Some_less split: if_splits)
qed

termination split_loop
proof (relation "measure (\<lambda>(m, fin, p, args). length m - p)", goal_cases)
  case (2 m fin p args p' r t c q)
  then have t: "split_token m Plain p' [] = Some (Some (c, q))" by simp
  have "p \<le> p' \<and> p' < length m" using 2(1) by (rule skip_blanks_ge)
  moreover have "p' < q" using split_token_advances [OF t] 2(2) by auto
  ultimately show ?case by (simp add: diff_less_mono2)
qed simp

declare split_loop.simps [simp del]

definition splitArgs :: "block \<Rightarrow> nat \<Rightarrow> nat \<Rightarrow> bytes list option option" where
  "splitArgs m start fin = split_loop m fin start []"

subsection \<open>Quoting and splitting are inverse\<close>

text \<open>\<open>holds m p xs\<close>: the block has the bytes \<open>xs\<close> from index \<open>p\<close> on.\<close>

fun holds :: "block \<Rightarrow> nat \<Rightarrow> bytes \<Rightarrow> bool" where
  "holds m p [] = True"
| "holds m p (x # xs) = (rd m p = Some x \<and> holds m (Suc p) xs)"

lemma holds_append: "holds m p (xs @ ys) \<longleftrightarrow> holds m p xs \<and> holds m (p + length xs) ys"
  by (induction xs arbitrary: p) auto

lemma holds_block: "holds (pre @ map Some xs @ post) (length pre) xs"
proof (induction xs arbitrary: pre)
  case (Cons x xs)
  from Cons.IH [of "pre @ [Some x]"] show ?case by (simp add: rd_def nth_append)
qed simp

definition quote_arg :: "bytes \<Rightarrow> bytes" where
  "quote_arg s = DQ # toPrintableStr s @ [DQ]"

fun quote_line :: "bytes list \<Rightarrow> bytes" where
  "quote_line [] = []"
| "quote_line (a # as) = quote_arg a @ concat (map (\<lambda>s. '' '' @ quote_arg s) as)"

lemma hex_value [simp]:
  "char_of (hex_digit_to_int (hex_char (code c div 16)) * 16 + hex_digit_to_int (hex_char (code c mod 16))) = c"
proof -
  have "hex_digit_to_int (hex_char (code c div 16)) * 16 + hex_digit_to_int (hex_char (code c mod 16)) = code c"
    by simp
  then show ?thesis by (simp only: char_of_code)
qed

lemma holds4:
  "holds m p [a, b, c, d] \<longleftrightarrow>
     rd m p = Some a \<and> rd m (p + 1) = Some b \<and> rd m (p + 2) = Some c \<and> rd m (p + 3) = Some d"
  by (simp add: numeral_2_eq_2 numeral_3_eq_3)

lemma token_step_printable:
  assumes "holds m p (printable_byte c)"
  shows "token_step m InQ p cur = Some (More InQ (p + length (printable_byte c)) (cur @ [c]))"
proof -
  show ?thesis
  proof (cases "c \<in> {DQ, BSL, LF, CR, CHR 0x09, CHR 0x07, CHR 0x08}")
    case True
    with assms show ?thesis
      by (elim insertE) (simp_all add: printable_byte_def hex_escape_def escape_char_def)
  next
    case False
    show ?thesis
    proof (cases "is_print c")
      case True
      then have "c \<noteq> NUL" by (auto simp: is_print_def code_def)
      with True False assms show ?thesis by (simp add: printable_byte_def hex_escape_def)
    next
      case np: False
      with False have "printable_byte c = [BSL, CHR ''x'', hex_char (code c div 16), hex_char (code c mod 16)]"
        by (simp add: printable_byte_def)
      then show ?thesis using assms
        by (simp only: holds4) (simp add: hex_escape_def)
    qed
  qed
qed

lemma split_token_quoted:
  "holds m p (toPrintableStr s @ [DQ, d]) \<Longrightarrow> is_space d \<Longrightarrow>
     split_token m InQ p cur = Some (Some (cur @ s, p + length (toPrintableStr s) + 1))"
proof (induction s arbitrary: p cur)
  case Nil
  then show ?case
    by (simp add: toPrintableStr_def split_token.simps [of m InQ p] hex_escape_def close_quote_def)
next
  case (Cons c s)
  from Cons.prems(1) have h: "holds m p (printable_byte c)"
    "holds m (p + length (printable_byte c)) (toPrintableStr s @ [DQ, d])"
    by (simp_all add: toPrintableStr_def holds_append add.assoc)
  from Cons.IH [OF h(2) Cons.prems(2), of "cur @ [c]"] token_step_printable [OF h(1)] show ?case
    by (simp add: split_token.simps [of m InQ p] toPrintableStr_def add.assoc)
qed

lemma split_token_quote_arg:
  assumes "holds m p (quote_arg s @ [d])" "is_space d"
  shows "split_token m Plain p [] = Some (Some (s, p + length (quote_arg s)))"
  using assms split_token_quoted [of m "p + 1" s d "[]"]
  by (simp add: split_token.simps [of m Plain p] quote_arg_def)

lemma is_space_simps [simp]: "is_space CR" "is_space (CHR '' '')" "\<not> is_space DQ"
  by (simp_all add: is_space_def code_def)

lemma split_loop_quoted:
  "holds m p (concat (map (\<lambda>s. '' '' @ quote_arg s) as) @ [CR]) \<Longrightarrow>
   fin = p + length (concat (map (\<lambda>s. '' '' @ quote_arg s) as)) \<Longrightarrow>
     split_loop m fin p acc = Some (Some (acc @ as))"
proof (induction as arbitrary: p acc)
  case Nil
  then show ?case by (simp add: split_loop.simps [of m _ p] skip_blanks.simps [of m _ p])
next
  case (Cons a as)
  let ?rest = "concat (map (\<lambda>s. '' '' @ quote_arg s) as)"
  obtain d ds where d: "?rest @ [CR] = d # ds" "is_space d"
    by (cases as) auto
  have "concat (map (\<lambda>s. '' '' @ quote_arg s) (a # as)) @ [CR] = CHR '' '' # quote_arg a @ d # ds"
    using d(1) by simp
  with Cons.prems(1) have "holds m p (CHR '' '' # quote_arg a @ d # ds)" by (simp only:)
  then have h: "rd m p = Some (CHR '' '')" "holds m (Suc p) (quote_arg a @ [d])"
    "holds m (Suc p + length (quote_arg a)) (?rest @ [CR])"
    unfolding d(1) by (simp_all add: holds_append)
  have q: "rd m (Suc p) = Some DQ" "Suc p < fin"
    using h Cons.prems(2) by (simp_all add: quote_arg_def)
  have sk: "skip_blanks m fin p = Some (Suc p)"
    using h(1) q by (simp add: skip_blanks.simps [of m fin p] skip_blanks.simps [of m fin "Suc p"])
  from q have "split_loop m fin p acc = split_loop m fin (Suc p + length (quote_arg a)) (acc @ [a])"
    using split_token_quote_arg [OF h(2) d(2)] sk by (simp add: split_loop.simps [of m fin p])
  with Cons.IH [OF h(3)] Cons.prems(2) show ?case by simp
qed

text \<open>C6: quoting inverts splitting. A request line that consists of the printable rendering of
  the arguments, each in double quotes and separated by single spaces, and is followed by CR,
  is split into exactly those arguments, whatever bytes they hold, wherever the line lies in
  memory.\<close>

theorem splitArgs_quote_line:
  assumes "as \<noteq> []"
  shows "splitArgs (pre @ map Some (quote_line as @ [CR]) @ post) (length pre)
           (length pre + length (quote_line as)) = Some (Some as)"
proof -
  define m where "m = pre @ map Some (quote_line as @ [CR]) @ post"
  define p where "p = length pre"
  define fin where "fin = p + length (quote_line as)"
  obtain a bs where as: "as = a # bs" using assms by (cases as) auto
  let ?rest = "concat (map (\<lambda>s. '' '' @ quote_arg s) bs)"
  obtain d ds where d: "?rest @ [CR] = d # ds" "is_space d" by (cases bs) auto
  have "holds m p (quote_line as @ [CR])" unfolding m_def p_def by (rule holds_block)
  moreover have "quote_line as @ [CR] = quote_arg a @ d # ds" using d(1) by (simp add: as)
  ultimately have "holds m p (quote_arg a @ d # ds)" by (simp only:)
  then have h: "holds m p (quote_arg a @ [d])" "holds m (p + length (quote_arg a)) (?rest @ [CR])"
    unfolding d(1) by (simp_all add: holds_append)
  have "rd m p = Some DQ" "p < fin" using h(1) by (simp_all add: quote_arg_def fin_def as)
  then have "split_loop m fin p [] = split_loop m fin (p + length (quote_arg a)) [a]"
    using split_token_quote_arg [OF h(1) d(2)]
    by (simp add: split_loop.simps [of m fin p] skip_blanks.simps [of m fin p])
  also have "\<dots> = Some (Some ([a] @ bs))"
    by (rule split_loop_quoted [OF h(2)]) (simp add: fin_def as)
  finally show ?thesis by (simp add: splitArgs_def as m_def p_def fin_def)
qed

theorem splitArgs_quote_line_witness:
  "splitArgs (map Some (quote_line [''set'', [CR, LF, NUL, DQ]] @ [CR])) 0
     (length (quote_line [''set'', [CR, LF, NUL, DQ]])) = Some (Some [''set'', [CR, LF, NUL, DQ]])"
  using splitArgs_quote_line [of "[''set'', [CR, LF, NUL, DQ]]" "[]" "[]"] by simp

text \<open>The strict integer parser. \<open>string2ll\<close> accepts a string exactly when it is the decimal
  rendering of a 64-bit signed integer, and returns that integer.\<close>

lemma string2ll_strict: "string2ll s = Some i \<longleftrightarrow> s = dec_int i \<and> - (2 ^ 63) \<le> i \<and> i < 2 ^ 63"
  by (simp add: string2ll_iff int64_range_def)

text \<open>The strict unsigned parser. \<open>string2ull\<close> accepts a string exactly when it is the decimal
  rendering of an unsigned 64-bit integer, and returns that integer.\<close>

lemma string2ull_strict: "string2ull s = Some n \<longleftrightarrow> s = dec_nat n \<and> n < 2 ^ 64"
  by (rule string2ull_iff)

section \<open>Splitting at a delimiter\<close>

text \<open>\<open>split\<close> is \<open>absl::StrSplit\<close>, which is not part of the program. What its callers rely on is a
  contract: it undoes joining pieces that do not contain the delimiter. \<open>split_on\<close> keeps it.\<close>

definition join :: "char \<Rightarrow> bytes list \<Rightarrow> bytes" where
  "join d ws = (case ws of [] \<Rightarrow> [] | w # ws' \<Rightarrow> w @ concat (map ((#) d) ws'))"

lemma join_simps [simp]: "join d [] = []" "join d [w] = w"
  by (simp_all add: join_def)

lemma join_Cons: "join d (w # v # ws) = w @ d # join d (v # ws)"
  by (simp add: join_def)

lemma join_snoc: "join d (ws @ [w]) = (if ws = [] then w else join d ws @ d # w)"
  by (cases ws) (simp_all add: join_def)

lemma join_eq_Nil: "\<forall>w \<in> set ws. w \<noteq> [] \<Longrightarrow> join d ws = [] \<longleftrightarrow> ws = []"
  by (cases ws) (simp_all add: join_def)

locale str_split =
  fixes split :: "bytes \<Rightarrow> char \<Rightarrow> bytes list"
  assumes split_join: "ws \<noteq> [] \<Longrightarrow> \<forall>w \<in> set ws. d \<notin> set w \<Longrightarrow> split (join d ws) d = ws"
begin

lemma split_one: "d \<notin> set w \<Longrightarrow> split w d = [w]"
  using split_join [of "[w]"] by simp

lemma split_two: "d \<notin> set v \<Longrightarrow> d \<notin> set w \<Longrightarrow> split (v @ d # w) d = [v, w]"
  using split_join [of "[v, w]" d] by (simp add: join_Cons)

end

fun split_on :: "bytes \<Rightarrow> char \<Rightarrow> bytes list" where
  "split_on [] d = [[]]"
| "split_on (c # cs) d = (if c = d then [] # split_on cs d
     else (case split_on cs d of [] \<Rightarrow> [[c]] | w # ws \<Rightarrow> (c # w) # ws))"

lemma split_on_one: "d \<notin> set w \<Longrightarrow> split_on w d = [w]"
  by (induction w) auto

lemma split_on_more: "d \<notin> set w \<Longrightarrow> split_on (w @ d # v) d = w # split_on v d"
  by (induction w) auto

interpretation split_on: str_split split_on
proof unfold_locales
  fix ws :: "bytes list" and d
  assume "ws \<noteq> []" "\<forall>w \<in> set ws. d \<notin> set w"
  then show "split_on (join d ws) d = ws"
    by (induction ws rule: induct_list012) (simp_all add: join_Cons split_on_one split_on_more)
qed

end
