(* ===== verification/Packet.thy ===== *)
theory Packet
  imports Buffer StringUtil
begin

text \<open>
  \<open>protocol/packet\<close>: the RESP packet classes, their construction from a type byte, their encoders
  for RESP2 and RESP3 and the encode-size methods. A packet object is a constructor carrying
  the fields of its class, its \<open>err_\<close> first; decode state (\<open>decode_bulk_len_\<close>,
  \<open>decode_array_size_\<close>, \<open>curr_parse_packet_\<close>) is part of it, because a decoder that runs out of
  input keeps it in the object. \<open>'d\<close> stands for \<open>long double\<close>.
\<close>

section \<open>Types\<close>

datatype packet_type = TYPE_COMMON | TYPE_NULL

datatype null_type = null_bulk | null_multi_bulk

datatype codec_type = NONE | RESP2 | RESP3 | MEMCACHED

datatype dstate = AGAIN | SUCCESS | ERROR

text \<open>\<open>SetPacket\<close> and \<open>PushPacket\<close> derive from \<open>ArrayPacket\<close>, \<open>AttributePacket\<close> from \<open>MapPacket\<close>.\<close>

datatype array_class = Array_class | Set_class | Push_class

datatype map_class = Map_class | Attribute_class

definition NOT_SET_SIZE :: int where
  "NOT_SET_SIZE = - 2"

datatype 'd packet =
    SimpleStringPacket (perr: bytes) (simple_str: bytes)
  | ErrorPacket (perr: bytes) (error_str: bytes)
  | IntegerPacket (perr: bytes) (integer: int)
  | BulkStringPacket (perr: bytes) (bulk_type: packet_type) (decode_bulk_len: int) (bulk_str: bytes)
  | BlobErrorPacket (perr: bytes) (bulk_type: packet_type) (decode_bulk_len: int) (bulk_str: bytes)
  | VerbatimStringPacket (perr: bytes) (bulk_type: packet_type) (decode_bulk_len: int) (bulk_str: bytes)
      (ext: bytes)
  | BigNumberPacket (perr: bytes) (big_number: bytes)
  | DoublePacket (perr: bytes) (double_val: 'd)
  | BooleanPacket (perr: bytes) (bool_val: bool)
  | NullPacket (perr: bytes) (null_val: null_type)
  | ArrayPacket (perr: bytes) (array_class: array_class) (array_type: packet_type)
      (packet_array: "'d packet list") (decode_array_size: int) (decode_size_limit: int)
      (curr_parse_packet: "'d packet option")
  | MapPacket (perr: bytes) (map_class: map_class) (pair_array: "('d packet \<times> 'd packet) list")
      (decode_map_size: int) (decode_packet_count: int)
      (curr_pair_key: "'d packet option") (curr_parse_packet: "'d packet option")

text \<open>\<open>err_ = msg\<close>.\<close>

fun set_err :: "bytes \<Rightarrow> 'd packet \<Rightarrow> 'd packet" where
  "set_err m (SimpleStringPacket _ s) = SimpleStringPacket m s"
| "set_err m (ErrorPacket _ s) = ErrorPacket m s"
| "set_err m (IntegerPacket _ i) = IntegerPacket m i"
| "set_err m (BulkStringPacket _ t l s) = BulkStringPacket m t l s"
| "set_err m (BlobErrorPacket _ t l s) = BlobErrorPacket m t l s"
| "set_err m (VerbatimStringPacket _ t l s x) = VerbatimStringPacket m t l s x"
| "set_err m (BigNumberPacket _ s) = BigNumberPacket m s"
| "set_err m (DoublePacket _ d) = DoublePacket m d"
| "set_err m (BooleanPacket _ b) = BooleanPacket m b"
| "set_err m (NullPacket _ n) = NullPacket m n"
| "set_err m (ArrayPacket _ k t ps n l c) = ArrayPacket m k t ps n l c"
| "set_err m (MapPacket _ k ps n c k' c') = MapPacket m k ps n c k' c'"

section \<open>What the packets use of other libraries\<close>

text \<open>
  Integer formatting and parsing come from fmt and Abseil, floating point from the C library;
  they are parameters. \<open>simple_atoi s\<close> is the result of \<open>SimpleAtoi\<close> and the value it leaves in
  its out parameter (unspecified when it fails). \<open>strtold s\<close> is the value, the number of bytes
  consumed and \<open>errno\<close>. \<open>max_bulk_len\<close> is the configuration value \<open>proto_max_bulk_len\<close>.
\<close>

datatype errno = E_OK | ERANGE | EINVAL

record 'd lib =
  fmt_int :: "int \<Rightarrow> bytes"
  simple_atoi :: "bytes \<Rightarrow> bool \<times> int"
  fmt_ld :: "'d \<Rightarrow> bytes"
  strtold :: "bytes \<Rightarrow> 'd \<times> nat \<times> errno"
  ld_isinf :: "'d \<Rightarrow> bool"
  ld_positive :: "'d \<Rightarrow> bool"
  ld_isnan :: "'d \<Rightarrow> bool"
  ld_huge_or_zero :: "'d \<Rightarrow> bool"
  ld_of_0 :: 'd
  max_bulk_len :: nat

definition MAX_LONG_DOUBLE_CHARS :: nat where
  "MAX_LONG_DOUBLE_CHARS = 5 * 1024"

definition string2ld :: "'d lib \<Rightarrow> bytes \<Rightarrow> 'd option" where
  "string2ld L s =
     (if length s = 0 \<or> length s \<ge> MAX_LONG_DOUBLE_CHARS then None
      else case strtold L (c_str s) of (v, consumed, err) \<Rightarrow>
        if is_space (hd s) \<or> consumed < length (c_str s) \<or> consumed \<noteq> length s \<or>
           (err = ERANGE \<and> ld_huge_or_zero L v) \<or> err = EINVAL \<or> ld_isnan L v
        then None else Some v)"

section \<open>The packet factory\<close>

fun createPacket :: "'d lib \<Rightarrow> char \<Rightarrow> 'd packet option" where
  "createPacket L ch =
     (if ch = CHR ''*'' then Some (ArrayPacket [] Array_class TYPE_COMMON [] NOT_SET_SIZE 0 None)
      else if ch = CHR ''$'' then Some (BulkStringPacket [] TYPE_COMMON NOT_SET_SIZE [])
      else if ch = CHR ''+'' then Some (SimpleStringPacket [] [])
      else if ch = CHR ''-'' then Some (ErrorPacket [] [])
      else if ch = CHR '':'' then Some (IntegerPacket [] 0)
      else if ch = CHR ''_'' then Some (NullPacket [] null_bulk)
      else if ch = CHR '','' then Some (DoublePacket [] (ld_of_0 L))
      else if ch = CHR ''#'' then Some (BooleanPacket [] False)
      else if ch = CHR ''!'' then Some (BlobErrorPacket [] TYPE_COMMON NOT_SET_SIZE [])
      else if ch = CHR ''='' then Some (VerbatimStringPacket [] TYPE_COMMON NOT_SET_SIZE [] [])
      else if ch = CHR ''('' then Some (BigNumberPacket [] [])
      else if ch = CHR ''%'' then Some (MapPacket [] Map_class [] NOT_SET_SIZE NOT_SET_SIZE None None)
      else if ch = CHR ''~'' then Some (ArrayPacket [] Set_class TYPE_COMMON [] NOT_SET_SIZE 0 None)
      else if ch = CHR ''|'' then Some (MapPacket [] Attribute_class [] NOT_SET_SIZE NOT_SET_SIZE None None)
      else if ch = CHR ''>'' then Some (ArrayPacket [] Push_class TYPE_COMMON [] NOT_SET_SIZE 0 None)
      else None)"

declare createPacket.simps [simp del]

fun array_magic :: "array_class \<Rightarrow> char" where
  "array_magic Array_class = CHR ''*''"
| "array_magic Set_class = CHR ''~''"
| "array_magic Push_class = CHR ''>''"

fun map_magic :: "map_class \<Rightarrow> char" where
  "map_magic Map_class = CHR ''%''"
| "map_magic Attribute_class = CHR ''|''"

section \<open>Encoders\<close>

text \<open>A type byte, a text, CR LF.\<close>

definition line_encode :: "char \<Rightarrow> bytes \<Rightarrow> buffer \<Rightarrow> buffer option" where
  "line_encode magic s b = do {
     b1 \<leftarrow> buf_appendInt8 magic b;
     b2 \<leftarrow> buf_append s b1;
     buf_appendCRLF b2 }"

definition integer_encode :: "'d lib \<Rightarrow> int \<Rightarrow> buffer \<Rightarrow> buffer option" where
  "integer_encode L i b = do {
     b1 \<leftarrow> buf_appendInt8 (CHR '':'') b;
     b2 \<leftarrow> buf_appendNumberToStr (fmt_int L) i b1;
     buf_appendCRLF b2 }"

definition bulk_encode :: "'d lib \<Rightarrow> char \<Rightarrow> packet_type \<Rightarrow> bytes \<Rightarrow> buffer \<Rightarrow> buffer option" where
  "bulk_encode L magic ty s b = do {
     b1 \<leftarrow> buf_appendInt8 magic b;
     b2 \<leftarrow> (if ty = TYPE_COMMON
           then do {
             b2 \<leftarrow> buf_appendNumberToStr (fmt_int L) (int (length s)) b1;
             b3 \<leftarrow> buf_appendCRLF b2;
             buf_append s b3 }
           else buf_append ''-1'' b1);
     buf_appendCRLF b2 }"

definition verbatim_prefix :: "bytes \<Rightarrow> bytes" where
  "verbatim_prefix x = (if length x \<ge> 3 then take 3 x @ '':'' else ''   :'')"

definition verbatim_encode3 :: "'d lib \<Rightarrow> bytes \<Rightarrow> bytes \<Rightarrow> buffer \<Rightarrow> buffer option" where
  "verbatim_encode3 L s x b = do {
     b1 \<leftarrow> buf_appendInt8 (CHR ''='') b;
     b2 \<leftarrow> buf_appendNumberToStr (fmt_int L) (int (length s) + 4) b1;
     b3 \<leftarrow> buf_appendCRLF b2;
     b4 \<leftarrow> buf_append (verbatim_prefix x) b3;
     b5 \<leftarrow> buf_append s b4;
     buf_appendCRLF b5 }"

definition double_text :: "'d lib \<Rightarrow> 'd \<Rightarrow> bytes" where
  "double_text L d =
     (if ld_isinf L d then (if ld_positive L d then ''inf'' else ''-inf'') else fmt_ld L d)"

definition null_encode2 :: "null_type \<Rightarrow> buffer \<Rightarrow> buffer option" where
  "null_encode2 ty b = do {
     b1 \<leftarrow> buf_appendInt8 (if ty = null_bulk then CHR ''$'' else CHR ''*'') b;
     b2 \<leftarrow> buf_append ''-1'' b1;
     buf_appendCRLF b2 }"

definition null_encode3 :: "buffer \<Rightarrow> buffer option" where
  "null_encode3 b = do { b1 \<leftarrow> buf_appendInt8 (CHR ''_'') b; buf_appendCRLF b1 }"

definition boolean_encode3 :: "bool \<Rightarrow> buffer \<Rightarrow> buffer option" where
  "boolean_encode3 v b = do {
     b1 \<leftarrow> buf_appendInt8 (CHR ''#'') b;
     b2 \<leftarrow> buf_append (if v then ''t'' else ''f'') b1;
     buf_appendCRLF b2 }"

text \<open>The header of an aggregate: type byte, count, CR LF.\<close>

definition count_encode :: "'d lib \<Rightarrow> char \<Rightarrow> int \<Rightarrow> buffer \<Rightarrow> buffer option" where
  "count_encode L magic n b = do {
     b1 \<leftarrow> buf_appendInt8 magic b;
     b2 \<leftarrow> buf_appendNumberToStr (fmt_int L) n b1;
     buf_appendCRLF b2 }"

text \<open>
  The virtual \<open>encodeRESP2\<close> and \<open>encodeRESP3\<close> of every class, selected by the codec type. They
  return \<open>SUCCESS\<close> in every class, and the aggregates ignore what their elements return.
\<close>

function (sequential) encode :: "'d lib \<Rightarrow> codec_type \<Rightarrow> 'd packet \<Rightarrow> buffer \<Rightarrow> buffer option"
  and encode_list :: "'d lib \<Rightarrow> codec_type \<Rightarrow> 'd packet list \<Rightarrow> buffer \<Rightarrow> buffer option"
  and encode_pairs :: "'d lib \<Rightarrow> codec_type \<Rightarrow> ('d packet \<times> 'd packet) list \<Rightarrow> buffer \<Rightarrow> buffer option"
where
  "encode L ct (SimpleStringPacket _ s) b = line_encode (CHR ''+'') s b"
| "encode L ct (ErrorPacket _ s) b = line_encode (CHR ''-'') s b"
| "encode L ct (IntegerPacket _ i) b = integer_encode L i b"
| "encode L ct (BulkStringPacket _ t _ s) b = bulk_encode L (CHR ''$'') t s b"
| "encode L ct (BlobErrorPacket _ t _ s) b =
     (if ct = RESP2 then line_encode (CHR ''-'') (toPrintableStr s) b
      else bulk_encode L (CHR ''!'') t s b)"
| "encode L ct (VerbatimStringPacket _ t _ s x) b =
     (if ct = RESP2 then bulk_encode L (CHR ''$'') t s b else verbatim_encode3 L s x b)"
| "encode L ct (BigNumberPacket _ s) b =
     (if ct = RESP2 then bulk_encode L (CHR ''$'') TYPE_COMMON s b else line_encode (CHR ''('') s b)"
| "encode L ct (DoublePacket _ d) b =
     (if ct = RESP2 then bulk_encode L (CHR ''$'') TYPE_COMMON (double_text L d) b
      else line_encode (CHR '','') (double_text L d) b)"
| "encode L ct (BooleanPacket _ v) b =
     (if ct = RESP2 then integer_encode L (if v then 1 else 0) b else boolean_encode3 v b)"
| "encode L ct (NullPacket _ ty) b = (if ct = RESP2 then null_encode2 ty b else null_encode3 b)"
| "encode L ct (ArrayPacket _ k t ps _ _ _) b =
     (let magic = (if ct = RESP2 then CHR ''*'' else array_magic k)
      in if t = TYPE_COMMON
         then do { b1 \<leftarrow> count_encode L magic (int (length ps)) b; encode_list L ct ps b1 }
         else do {
           b1 \<leftarrow> buf_appendInt8 magic b;
           b2 \<leftarrow> buf_append ''-1'' b1;
           buf_appendCRLF b2 })"
| "encode L ct (MapPacket _ k ps _ _ _ _) b =
     (if ct = RESP2
      then do { b1 \<leftarrow> count_encode L (CHR ''*'') (int (length ps) * 2) b; encode_pairs L ct ps b1 }
      else do { b1 \<leftarrow> count_encode L (map_magic k) (int (length ps)) b; encode_pairs L ct ps b1 })"
| "encode_list L ct [] b = Some b"
| "encode_list L ct (p # ps) b = do { b1 \<leftarrow> encode L ct p b; encode_list L ct ps b1 }"
| "encode_pairs L ct [] b = Some b"
| "encode_pairs L ct ((k, v) # ps) b = do {
     b1 \<leftarrow> encode L ct k b;
     b2 \<leftarrow> encode L ct v b1;
     encode_pairs L ct ps b2 }"
  by pat_completeness auto

termination
  by (relation "measure (case_sum (\<lambda>(L, ct, p, b). size p)
       (case_sum (\<lambda>(L, ct, ps, b). size_list size ps)
                 (\<lambda>(L, ct, ps, b). size_list (size_prod size size) ps)))") auto

section \<open>Encode sizes\<close>

definition bulk_encode_size :: "'d lib \<Rightarrow> packet_type \<Rightarrow> bytes \<Rightarrow> nat" where
  "bulk_encode_size L ty s =
     (if ty = TYPE_COMMON
      then 1 + length (fmt_int L (int (length s))) + 2 + length s + 2
      else 1 + 2 + 2)"

definition double_val_size :: "'d lib \<Rightarrow> 'd \<Rightarrow> nat" where
  "double_val_size L d =
     (if ld_isinf L d then (if ld_positive L d then 3 else 4) else length (fmt_ld L d))"

function (sequential) encode_size :: "'d lib \<Rightarrow> codec_type \<Rightarrow> 'd packet \<Rightarrow> nat"
  and encode_size_list :: "'d lib \<Rightarrow> codec_type \<Rightarrow> 'd packet list \<Rightarrow> nat"
  and encode_size_pairs :: "'d lib \<Rightarrow> codec_type \<Rightarrow> ('d packet \<times> 'd packet) list \<Rightarrow> nat"
where
  "encode_size L ct (SimpleStringPacket _ s) = 1 + length s + 2"
| "encode_size L ct (ErrorPacket _ s) = 1 + length s + 2"
| "encode_size L ct (IntegerPacket _ i) = 1 + length (fmt_int L i) + 2"
| "encode_size L ct (BulkStringPacket _ t _ s) = bulk_encode_size L t s"
| "encode_size L ct (BlobErrorPacket _ t _ s) =
     (if ct = RESP2 then 1 + length (toPrintableStr s) + 2 else bulk_encode_size L t s)"
| "encode_size L ct (VerbatimStringPacket _ t _ s x) =
     (if ct = RESP2 then bulk_encode_size L t s
      else 1 + length (fmt_int L (int (length s) + 4)) + 2 + length s + 4 + 2)"
| "encode_size L ct (BigNumberPacket _ s) =
     (if ct = RESP2 then 1 + length (fmt_int L (int (length s))) + 2 + length s + 2
      else 1 + length s + 2)"
| "encode_size L ct (DoublePacket _ d) =
     (if ct = RESP2
      then 1 + length (fmt_int L (int (double_val_size L d))) + 2 + double_val_size L d + 2
      else 1 + double_val_size L d + 2)"
| "encode_size L ct (BooleanPacket _ v) = 4"
| "encode_size L ct (NullPacket _ ty) = (if ct = RESP2 then 5 else 3)"
| "encode_size L ct (ArrayPacket _ k t ps _ _ _) =
     (if t = TYPE_COMMON
      then 1 + length (fmt_int L (int (length ps))) + 2 + encode_size_list L ct ps
      else 1 + 2 + 2)"
| "encode_size L ct (MapPacket _ k ps _ _ _ _) =
     (if ct = RESP2
      then 1 + length (fmt_int L (int (length ps) * 2)) + 2 + encode_size_pairs L ct ps
      else 1 + length (fmt_int L (int (length ps))) + 2 + encode_size_pairs L ct ps)"
| "encode_size_list L ct [] = 0"
| "encode_size_list L ct (p # ps) = encode_size L ct p + encode_size_list L ct ps"
| "encode_size_pairs L ct [] = 0"
| "encode_size_pairs L ct ((k, v) # ps) =
     encode_size L ct k + encode_size L ct v + encode_size_pairs L ct ps"
  by pat_completeness auto

termination
  by (relation "measure (case_sum (\<lambda>(L, ct, p). size p)
       (case_sum (\<lambda>(L, ct, ps). size_list size ps)
                 (\<lambda>(L, ct, ps). size_list (size_prod size size) ps)))") auto

section \<open>The wire format\<close>

text \<open>
  The bytes of a reply as a value, without a buffer: the specification the encoders meet.
  \<open>every\<close> lifts a condition on one packet object to the tree below it.
\<close>

definition bulk_wire :: "'d lib \<Rightarrow> char \<Rightarrow> packet_type \<Rightarrow> bytes \<Rightarrow> bytes" where
  "bulk_wire L magic ty s =
     (if ty = TYPE_COMMON then magic # fmt_int L (int (length s)) @ CRLF @ s @ CRLF
      else magic # ''-1'' @ CRLF)"

function (sequential) wire :: "'d lib \<Rightarrow> codec_type \<Rightarrow> 'd packet \<Rightarrow> bytes"
  and wire_list :: "'d lib \<Rightarrow> codec_type \<Rightarrow> 'd packet list \<Rightarrow> bytes"
  and wire_pairs :: "'d lib \<Rightarrow> codec_type \<Rightarrow> ('d packet \<times> 'd packet) list \<Rightarrow> bytes"
where
  "wire L ct (SimpleStringPacket _ s) = CHR ''+'' # s @ CRLF"
| "wire L ct (ErrorPacket _ s) = CHR ''-'' # s @ CRLF"
| "wire L ct (IntegerPacket _ i) = CHR '':'' # fmt_int L i @ CRLF"
| "wire L ct (BulkStringPacket _ t _ s) = bulk_wire L (CHR ''$'') t s"
| "wire L ct (BlobErrorPacket _ t _ s) =
     (if ct = RESP2 then CHR ''-'' # toPrintableStr s @ CRLF else bulk_wire L (CHR ''!'') t s)"
| "wire L ct (VerbatimStringPacket _ t _ s x) =
     (if ct = RESP2 then bulk_wire L (CHR ''$'') t s
      else CHR ''='' # fmt_int L (int (length s) + 4) @ CRLF @ verbatim_prefix x @ s @ CRLF)"
| "wire L ct (BigNumberPacket _ s) =
     (if ct = RESP2 then bulk_wire L (CHR ''$'') TYPE_COMMON s else CHR ''('' # s @ CRLF)"
| "wire L ct (DoublePacket _ d) =
     (if ct = RESP2 then bulk_wire L (CHR ''$'') TYPE_COMMON (double_text L d)
      else CHR '','' # double_text L d @ CRLF)"
| "wire L ct (BooleanPacket _ v) =
     (if ct = RESP2 then CHR '':'' # fmt_int L (if v then 1 else 0) @ CRLF
      else CHR ''#'' # (if v then CHR ''t'' else CHR ''f'') # CRLF)"
| "wire L ct (NullPacket _ ty) =
     (if ct = RESP2 then (if ty = null_bulk then CHR ''$'' else CHR ''*'') # ''-1'' @ CRLF
      else CHR ''_'' # CRLF)"
| "wire L ct (ArrayPacket _ k t ps _ _ _) =
     (if ct = RESP2 then CHR ''*'' else array_magic k) #
     (if t = TYPE_COMMON then fmt_int L (int (length ps)) @ CRLF @ wire_list L ct ps else ''-1'' @ CRLF)"
| "wire L ct (MapPacket _ k ps _ _ _ _) =
     (if ct = RESP2 then CHR ''*'' # fmt_int L (int (length ps) * 2)
      else map_magic k # fmt_int L (int (length ps))) @ CRLF @ wire_pairs L ct ps"
| "wire_list L ct [] = []"
| "wire_list L ct (p # ps) = wire L ct p @ wire_list L ct ps"
| "wire_pairs L ct [] = []"
| "wire_pairs L ct ((k, v) # ps) = wire L ct k @ wire L ct v @ wire_pairs L ct ps"
  by pat_completeness auto

termination
  by (relation "measure (case_sum (\<lambda>(L, ct, p). size p)
       (case_sum (\<lambda>(L, ct, ps). size_list size ps)
                 (\<lambda>(L, ct, ps). size_list (size_prod size size) ps)))") auto

function (sequential) every :: "('d packet \<Rightarrow> bool) \<Rightarrow> 'd packet \<Rightarrow> bool"
  and every_list :: "('d packet \<Rightarrow> bool) \<Rightarrow> 'd packet list \<Rightarrow> bool"
  and every_pair :: "('d packet \<Rightarrow> bool) \<Rightarrow> ('d packet \<times> 'd packet) list \<Rightarrow> bool"
where
  "every P (ArrayPacket e k t ps n l c) \<longleftrightarrow> P (ArrayPacket e k t ps n l c) \<and> every_list P ps"
| "every P (MapPacket e k ps n m c d) \<longleftrightarrow> P (MapPacket e k ps n m c d) \<and> every_pair P ps"
| "every P p \<longleftrightarrow> P p"
| "every_list P [] \<longleftrightarrow> True"
| "every_list P (p # ps) \<longleftrightarrow> every P p \<and> every_list P ps"
| "every_pair P [] \<longleftrightarrow> True"
| "every_pair P ((k, v) # ps) \<longleftrightarrow> every P k \<and> every P v \<and> every_pair P ps"
  by pat_completeness auto

termination
  by (relation "measure (case_sum (\<lambda>(P, p). size p)
       (case_sum (\<lambda>(P, ps). size_list size ps)
                 (\<lambda>(P, ps). size_list (size_prod size size) ps)))") auto

text \<open>The nesting depth of a reply, and with it the structural induction over packets.\<close>

function (sequential) depth :: "'d packet \<Rightarrow> nat"
  and depth_list :: "'d packet list \<Rightarrow> nat"
  and depth_pairs :: "('d packet \<times> 'd packet) list \<Rightarrow> nat"
where
  "depth (ArrayPacket e k t ps n l c) = Suc (depth_list ps)"
| "depth (MapPacket e k ps n m c d) = Suc (depth_pairs ps)"
| "depth p = 0"
| "depth_list [] = 0"
| "depth_list (p # ps) = max (depth p) (depth_list ps)"
| "depth_pairs [] = 0"
| "depth_pairs ((k, v) # ps) = max (depth k) (max (depth v) (depth_pairs ps))"
  by pat_completeness auto

termination
  by (relation "measure (case_sum size (case_sum (size_list size) (size_list (size_prod size size))))") auto

lemmas packet_induct = depth_depth_list_depth_pairs.induct

text \<open>Numbers a reply carries that fit the integer type the source gives them.\<close>

fun fits :: "'d lib \<Rightarrow> 'd packet \<Rightarrow> bool" where
  "fits L (IntegerPacket _ i) = int64_range i"
| "fits L (BulkStringPacket _ _ _ s) = int64_range (int (length s))"
| "fits L (BlobErrorPacket _ _ _ s) = int64_range (int (length s))"
| "fits L (VerbatimStringPacket _ _ _ s _) = int64_range (int (length s) + 4)"
| "fits L (BigNumberPacket _ s) = int64_range (int (length s))"
| "fits L (DoublePacket _ d) = int64_range (int (length (double_text L d)))"
| "fits L (ArrayPacket _ _ _ ps _ _ _) = int64_range (int (length ps))"
| "fits L (MapPacket _ _ ps _ _ _ _) = int64_range (int (length ps) * 2)"
| "fits L _ = True"

lemma int64_range_small [simp]: "int64_range (int n + 4) \<Longrightarrow> int64_range (int n)"
  "int64_range (int n * 2) \<Longrightarrow> int64_range (int n)" "int64_range 0" "int64_range 1"
  by (simp_all add: int64_range_def)

text \<open>
  What the model needs of integer formatting: the text of an \<open>int64_t\<close> is short, has no line
  end, is never empty, and \<open>SimpleAtoi\<close> reads it back, as it reads the literal \<open>-1\<close>; and \<open>SimpleAtoi\<close> stores in range values.
\<close>

locale resp_lib =
  fixes L :: "'d lib"
  assumes fmt_length: "int64_range i \<Longrightarrow> length (fmt_int L i) \<le> 32"
    and fmt_nonempty: "fmt_int L i \<noteq> []"
    and fmt_no_CR: "CR \<notin> set (fmt_int L i)"
    and atoi_fmt: "int64_range i \<Longrightarrow> simple_atoi L (fmt_int L i) = (True, i)"
    and atoi_minus_one: "simple_atoi L ''-1'' = (True, - 1)"
    and atoi_range: "simple_atoi L s = (True, i) \<Longrightarrow> int64_range i"
begin

lemma wp_number [wp_rules]:
  assumes "buf_ok b" "int64_range i"
    "\<And>b'. buf_ok b' \<Longrightarrow> contents b' = contents b @ fmt_int L i \<Longrightarrow> Q b'"
  shows "wp (buf_appendNumberToStr (fmt_int L) i b) Q"
  using assms fmt_length [of i] by (auto intro!: wp_appendNumberToStr)

lemma wp_line_encode [wp_rules]:
  assumes "buf_ok b" "\<And>b'. buf_ok b' \<Longrightarrow> contents b' = contents b @ m # s @ CRLF \<Longrightarrow> Q b'"
  shows "wp (line_encode m s b) Q"
  using assms by (auto simp: line_encode_def intro!: wp_rules)

lemma wp_integer_encode [wp_rules]:
  assumes "buf_ok b" "int64_range i"
    "\<And>b'. buf_ok b' \<Longrightarrow> contents b' = contents b @ CHR '':'' # fmt_int L i @ CRLF \<Longrightarrow> Q b'"
  shows "wp (integer_encode L i b) Q"
  using assms by (auto simp: integer_encode_def intro!: wp_rules)

lemma wp_bulk_encode [wp_rules]:
  assumes "buf_ok b" "int64_range (int (length s))"
    "\<And>b'. buf_ok b' \<Longrightarrow> contents b' = contents b @ bulk_wire L m t s \<Longrightarrow> Q b'"
  shows "wp (bulk_encode L m t s b) Q"
  using assms by (cases t) (auto simp: bulk_encode_def bulk_wire_def intro!: wp_rules)

lemma wp_verbatim_encode3 [wp_rules]:
  assumes "buf_ok b" "int64_range (int (length s) + 4)"
    "\<And>b'. buf_ok b' \<Longrightarrow>
       contents b' = contents b @ CHR ''='' # fmt_int L (int (length s) + 4) @ CRLF @ verbatim_prefix x @ s @ CRLF
       \<Longrightarrow> Q b'"
  shows "wp (verbatim_encode3 L s x b) Q"
  using assms by (auto simp: verbatim_encode3_def intro!: wp_rules)

lemma wp_count_encode [wp_rules]:
  assumes "buf_ok b" "int64_range i"
    "\<And>b'. buf_ok b' \<Longrightarrow> contents b' = contents b @ m # fmt_int L i @ CRLF \<Longrightarrow> Q b'"
  shows "wp (count_encode L m i b) Q"
  using assms by (auto simp: count_encode_def intro!: wp_rules)

lemma encode_wire_all:
  "every (fits L) p \<Longrightarrow> buf_ok b \<Longrightarrow>
     (\<And>b'. buf_ok b' \<Longrightarrow> contents b' = contents b @ wire L ct p \<Longrightarrow> Q b') \<Longrightarrow> wp (encode L ct p b) Q"
  "every_list (fits L) ps \<Longrightarrow> buf_ok b \<Longrightarrow>
     (\<And>b'. buf_ok b' \<Longrightarrow> contents b' = contents b @ wire_list L ct ps \<Longrightarrow> Q b')
     \<Longrightarrow> wp (encode_list L ct ps b) Q"
  "every_pair (fits L) prs \<Longrightarrow> buf_ok b \<Longrightarrow>
     (\<And>b'. buf_ok b' \<Longrightarrow> contents b' = contents b @ wire_pairs L ct prs \<Longrightarrow> Q b')
     \<Longrightarrow> wp (encode_pairs L ct prs b) Q"
proof (induction p and ps and prs arbitrary: b Q and b Q and b Q rule: packet_induct)
qed (auto simp: null_encode2_def null_encode3_def boolean_encode3_def Let_def intro!: wp_rules)

end

text \<open>
  The locale holds of a library whose integer functions are decimal rendering and the model's
  \<open>string2ll\<close>, whatever its floating point part.
\<close>

definition decimal_lib :: "'d lib \<Rightarrow> 'd lib" where
  "decimal_lib L = L\<lparr>fmt_int := dec_int,
     simple_atoi := (\<lambda>s. case string2ll s of Some i \<Rightarrow> (True, i) | None \<Rightarrow> (False, 0))\<rparr>"

lemma length_dec_int: "int64_range i \<Longrightarrow> length (dec_int i) \<le> 32"
proof (cases "i < 0")
  case True
  assume "int64_range i"
  with True have "nat (- i) < 10 ^ 20" by (simp add: int64_range_def)
  with True length_dec_nat [of "nat (- i)" 20] show ?thesis by (simp add: dec_int_def)
next
  case False
  assume "int64_range i"
  with False have "nat i < 10 ^ 20" by (simp add: int64_range_def)
  with False length_dec_nat [of "nat i" 20] show ?thesis by (simp add: dec_int_def)
qed

interpretation dec: resp_lib "decimal_lib L" for L
proof
  fix s i
  show "simple_atoi (decimal_lib L) s = (True, i) \<Longrightarrow> int64_range i"
    by (auto simp: decimal_lib_def string2ll_iff split: option.splits)
  show "int64_range i \<Longrightarrow> simple_atoi (decimal_lib L) (fmt_int (decimal_lib L) i) = (True, i)"
    using string2ll_iff [of "dec_int i" i] by (simp add: decimal_lib_def)
  have "string2ll ''-1'' = Some (- 1)"
    by (simp add: string2ll_iff int64_range_def dec_int_def dec_nat.simps)
  then show "simple_atoi (decimal_lib L) ''-1'' = (True, - 1)"
    by (simp add: decimal_lib_def)
qed (simp_all add: decimal_lib_def length_dec_int dec_int_no_CR)

lemma length_double_text: "length (double_text L d) = double_val_size L d"
  by (simp add: double_text_def double_val_size_def)

lemma length_bulk_wire: "length (bulk_wire L m t s) = bulk_encode_size L t s"
  by (cases t) (simp_all add: bulk_wire_def bulk_encode_size_def)

lemma length_verbatim_prefix: "length (verbatim_prefix x) = 4"
  by (simp add: verbatim_prefix_def)

text \<open>
  \<open>BooleanPacket\<close> announces four bytes for a RESP2 reply, which needs one-digit texts for 0 and 1.
\<close>

lemma length_wire_all:
  assumes "length (fmt_int L 0) = 1" "length (fmt_int L 1) = 1"
  shows "length (wire L ct p) = encode_size L ct p"
    "length (wire_list L ct ps) = encode_size_list L ct ps"
    "length (wire_pairs L ct prs) = encode_size_pairs L ct prs"
  by (induction p and ps and prs rule: packet_induct)
    (use assms in \<open>auto simp: length_bulk_wire length_verbatim_prefix length_double_text bulk_encode_size_def\<close>)

text \<open>Encoding is correct and \<open>getEncodeSize\<close> is exact. For every reply whose numbers fit their
  integer types, \<open>encodeRESP2\<close> and \<open>encodeRESP3\<close> do not fault on a well-formed buffer, keep it
  well-formed, append exactly the wire format of the reply, and the number of bytes they append
  is the one the encode-size methods announce.\<close>

lemma encode_appends_announced_size:
  assumes "resp_lib L" "length (fmt_int L 0) = 1" "length (fmt_int L 1) = 1"
    "every (fits L) p" "buf_ok b"
  shows "wp (encode L ct p b) (\<lambda>b'. buf_ok b' \<and> contents b' = contents b @ wire L ct p \<and>
           length (contents b') = length (contents b) + encode_size L ct p)"
  using resp_lib.encode_wire_all(1) [OF assms(1,4,5)] length_wire_all(1) [OF assms(2,3)] by simp

text \<open>A concrete library for evaluations, with integers in the place of \<open>long double\<close>.\<close>

definition plain_lib :: "int lib" where
  "plain_lib = decimal_lib
     \<lparr>fmt_int = dec_int, simple_atoi = (\<lambda>_. (False, 0)), fmt_ld = dec_int,
      strtold = (\<lambda>s. case string2ll s of Some i \<Rightarrow> (i, length s, E_OK) | None \<Rightarrow> (0, 0, E_OK)),
      ld_isinf = (\<lambda>_. False), ld_positive = (\<lambda>d. d > 0), ld_isnan = (\<lambda>_. False),
      ld_huge_or_zero = (\<lambda>d. d = 0), ld_of_0 = 0, max_bulk_len = 512 * 1024 * 1024\<rparr>"

lemma plain_lib_simps [simp]:
  "fmt_int plain_lib = dec_int" "fmt_ld plain_lib = dec_int" "ld_isinf plain_lib d = False"
  "max_bulk_len plain_lib = 536870912"
  by (simp_all add: plain_lib_def decimal_lib_def)

lemma plain_lib_digits: "length (fmt_int plain_lib 0) = 1" "length (fmt_int plain_lib 1) = 1"
  by (simp_all add: dec_int_def dec_nat.simps)

lemma resp_lib_plain: "resp_lib plain_lib"
  unfolding plain_lib_def by (rule dec.resp_lib_axioms)

definition sample_reply :: "int packet" where
  "sample_reply = MapPacket [] Map_class
     [(SimpleStringPacket [] ''k'', ArrayPacket [] Array_class TYPE_COMMON
        [IntegerPacket [] 7, BulkStringPacket [] TYPE_COMMON NOT_SET_SIZE ''ab''] 0 0 None),
      (BooleanPacket [] True, NullPacket [] null_bulk)] 0 0 None None"

lemma sample_reply_fits: "every (fits plain_lib) sample_reply"
  by (simp add: sample_reply_def int64_range_def)

end
