(* ===== verification/Decode.thy ===== *)
theory Decode
  imports Packet
begin

text \<open>
  \<open>protocol/packet/resp\<close>: the decoders. A decoder gets the packet object it fills and the input;
  it returns its \<open>DState\<close>, the object afterwards and the rest of the input. On \<open>AGAIN\<close> the object
  keeps what was decoded and the caller decodes it again when more bytes have arrived.

  The methods of \<open>Buffer\<close> the decoders call are the fields of a record \<open>source\<close>. The program
  passes a \<open>Buffer\<close> (\<open>buffer_source\<close>); on plain byte strings (\<open>string_source\<close>) the same decoders
  are the specification.
\<close>

section \<open>Sources\<close>

text \<open>
  \<open>src_findCRLF i\<close> searches from \<open>data() + i\<close> and returns an offset from \<open>data()\<close>;
  \<open>src_view i n\<close> is \<open>std::string(data() + i, n)\<close>.
\<close>

record 'b source =
  src_length :: "'b \<Rightarrow> nat option"
  src_peekInt8 :: "'b \<Rightarrow> char option"
  src_findCRLF :: "nat \<Rightarrow> 'b \<Rightarrow> nat option option"
  src_view :: "nat \<Rightarrow> nat \<Rightarrow> 'b \<Rightarrow> bytes option"
  src_skip :: "nat \<Rightarrow> 'b \<Rightarrow> 'b option"
  src_ensureWritableBytes :: "nat \<Rightarrow> 'b \<Rightarrow> 'b option"

definition buffer_source :: "buffer source" where
  "buffer_source =
     \<lparr>src_length = buf_length,
      src_peekInt8 = buf_peekInt8,
      src_findCRLF = (\<lambda>i b. map_option (map_option (\<lambda>j. j - read_index b)) (buf_findCRLF (read_index b + i) b)),
      src_view = (\<lambda>i n b. do { m \<leftarrow> buf_length b; ensure (i + n \<le> m); load_bytes (read_index b + i) n (cells b) }),
      src_skip = buf_skip,
      src_ensureWritableBytes = buf_ensureWritableBytes\<rparr>"

definition string_source :: "bytes source" where
  "string_source =
     \<lparr>src_length = (\<lambda>s. Some (length s)),
      src_peekInt8 = (\<lambda>s. case s of [] \<Rightarrow> None | c # _ \<Rightarrow> Some c),
      src_findCRLF = (\<lambda>i s. if i \<le> length s then Some (map_option (\<lambda>k. i + k) (find_crlf (drop i s))) else None),
      src_view = (\<lambda>i n s. if i + n \<le> length s then Some (take n (drop i s)) else None),
      src_skip = (\<lambda>n s. Some (drop n s)),
      src_ensureWritableBytes = (\<lambda>n s. Some s)\<rparr>"

definition src_empty :: "'b source \<Rightarrow> 'b \<Rightarrow> bool option" where
  "src_empty S b = do { n \<leftarrow> src_length S b; Some (n = 0) }"

section \<open>Decoders of the leaf classes\<close>

definition PROTO_RESP_INLINE_MAX_SIZE :: nat where
  "PROTO_RESP_INLINE_MAX_SIZE = 1024 * 64"

definition PROTO_RESP_MBULK_BIG_ARG :: nat where
  "PROTO_RESP_MBULK_BIG_ARG = 1024 * 32"

definition expected_got :: "bytes \<Rightarrow> bytes \<Rightarrow> bytes" where
  "expected_got x y = ''Protocol error: expected '' @ x @ '', got '' @ y"

definition bad_magic :: "char \<Rightarrow> char \<Rightarrow> bytes" where
  "bad_magic magic c = expected_got [SQ, magic, SQ] [SQ, c, SQ]"

text \<open>
  The start of every line-based decoder: no byte, a wrong type byte, no line end yet, or the
  offset \<open>newline - data()\<close> of the line end.
\<close>

datatype line = Nothing | Bad_magic char | No_line | Line nat

definition find_line :: "'b source \<Rightarrow> char \<Rightarrow> 'b \<Rightarrow> line option" where
  "find_line S magic b = do {
     e \<leftarrow> src_empty S b;
     if e then Some Nothing
     else do {
       c \<leftarrow> src_peekInt8 S b;
       if c \<noteq> magic then Some (Bad_magic c)
       else do {
         newline \<leftarrow> src_findCRLF S 1 b;
         Some (case newline of None \<Rightarrow> No_line | Some k \<Rightarrow> Line k) } } }"

type_synonym ('d, 'b) decoder = "'d packet \<Rightarrow> 'b \<Rightarrow> (dstate \<times> 'd packet \<times> 'b) option"

definition simple_string_decode :: "'b source \<Rightarrow> bytes \<Rightarrow> bytes \<Rightarrow> 'b \<Rightarrow> (dstate \<times> 'd packet \<times> 'b) option" where
  "simple_string_decode S err s b = do {
     l \<leftarrow> find_line S (CHR ''+'') b;
     case l of
       Bad_magic c \<Rightarrow> Some (ERROR, SimpleStringPacket (bad_magic (CHR ''+'') c) s, b)
     | Line newline \<Rightarrow> do {
         v \<leftarrow> src_view S 1 (newline - 1) b;
         b' \<leftarrow> src_skip S (newline + 2) b;
         Some (SUCCESS, SimpleStringPacket err v, b') }
     | _ \<Rightarrow> Some (AGAIN, SimpleStringPacket err s, b) }"

definition error_decode :: "'b source \<Rightarrow> bytes \<Rightarrow> bytes \<Rightarrow> 'b \<Rightarrow> (dstate \<times> 'd packet \<times> 'b) option" where
  "error_decode S err s b = do {
     l \<leftarrow> find_line S (CHR ''-'') b;
     case l of
       Bad_magic c \<Rightarrow> Some (ERROR, ErrorPacket (bad_magic (CHR ''-'') c) s, b)
     | Line newline \<Rightarrow> do {
         v \<leftarrow> src_view S 1 (newline - 1) b;
         b' \<leftarrow> src_skip S (newline + 2) b;
         Some (SUCCESS, ErrorPacket err v, b') }
     | _ \<Rightarrow> Some (AGAIN, ErrorPacket err s, b) }"

definition integer_decode :: "'b source \<Rightarrow> 'd lib \<Rightarrow> bytes \<Rightarrow> int \<Rightarrow> 'b \<Rightarrow> (dstate \<times> 'd packet \<times> 'b) option" where
  "integer_decode S L err i b = do {
     l \<leftarrow> find_line S (CHR '':'') b;
     case l of
       Bad_magic c \<Rightarrow> Some (ERROR, IntegerPacket (bad_magic (CHR '':'') c) i, b)
     | Line newline \<Rightarrow>
         (if newline = 1 then Some (ERROR, IntegerPacket ''Protocol error: not found integer'' i, b)
          else do {
            v \<leftarrow> src_view S 1 (newline - 1) b;
            case simple_atoi L v of
              (False, j) \<Rightarrow> Some (ERROR, IntegerPacket ''Protocol error: integer format error'' j, b)
            | (True, j) \<Rightarrow> do {
                b' \<leftarrow> src_skip S (newline + 2) b;
                Some (SUCCESS, IntegerPacket err j, b') } })
     | _ \<Rightarrow> Some (AGAIN, IntegerPacket err i, b) }"

definition big_number_decode3 :: "'b source \<Rightarrow> bytes \<Rightarrow> bytes \<Rightarrow> 'b \<Rightarrow> (dstate \<times> 'd packet \<times> 'b) option" where
  "big_number_decode3 S err s b = do {
     l \<leftarrow> find_line S (CHR ''('') b;
     case l of
       Bad_magic c \<Rightarrow> Some (ERROR, BigNumberPacket (bad_magic (CHR ''('') c) s, b)
     | Line newline \<Rightarrow>
         (if newline = 1 then Some (ERROR, BigNumberPacket ''Protocol error: not found number'' s, b)
          else do {
            v \<leftarrow> src_view S 1 (newline - 1) b;
            b' \<leftarrow> src_skip S (newline + 2) b;
            Some (SUCCESS, BigNumberPacket err v, b') })
     | _ \<Rightarrow> Some (AGAIN, BigNumberPacket err s, b) }"

definition double_decode3 :: "'b source \<Rightarrow> 'd lib \<Rightarrow> bytes \<Rightarrow> 'd \<Rightarrow> 'b \<Rightarrow> (dstate \<times> 'd packet \<times> 'b) option" where
  "double_decode3 S L err d b = do {
     l \<leftarrow> find_line S (CHR '','') b;
     case l of
       Bad_magic c \<Rightarrow> Some (ERROR, DoublePacket (bad_magic (CHR '','') c) d, b)
     | Line newline \<Rightarrow>
         (if newline = 1 then Some (ERROR, DoublePacket ''Protocol error: not found double'' d, b)
          else do {
            v \<leftarrow> src_view S 1 (newline - 1) b;
            case string2ld L v of
              None \<Rightarrow> Some (ERROR, DoublePacket ''Protocol error: double format error'' d, b)
            | Some x \<Rightarrow> do {
                b' \<leftarrow> src_skip S (newline + 2) b;
                Some (SUCCESS, DoublePacket err x, b') } })
     | _ \<Rightarrow> Some (AGAIN, DoublePacket err d, b) }"

definition boolean_decode3 :: "'b source \<Rightarrow> bytes \<Rightarrow> bool \<Rightarrow> 'b \<Rightarrow> (dstate \<times> 'd packet \<times> 'b) option" where
  "boolean_decode3 S err v b = do {
     n \<leftarrow> src_length S b;
     if n < 4 then Some (AGAIN, BooleanPacket err v, b)
     else do {
       c \<leftarrow> src_peekInt8 S b;
       if c \<noteq> CHR ''#'' then Some (ERROR, BooleanPacket (bad_magic (CHR ''#'') c) v, b)
       else do {
         start \<leftarrow> src_view S 1 3 b;
         if start ! 0 \<noteq> CHR ''t'' \<and> start ! 0 \<noteq> CHR ''f''
         then Some (ERROR, BooleanPacket
                (expected_got ([SQ] @ ''t'' @ [SQ] @ '' or '' @ [SQ] @ ''f'' @ [SQ]) [SQ, start ! 0, SQ]) v, b)
         else if start ! 1 \<noteq> CR \<or> start ! 2 \<noteq> LF
         then Some (ERROR, BooleanPacket
                (expected_got ''<CR><LF>'' [SQ, start ! 1, SQ, SQ, start ! 2, SQ]) v, b)
         else do {
           b' \<leftarrow> src_skip S 4 b;
           Some (SUCCESS, BooleanPacket err (start ! 0 = CHR ''t''), b') } } } }"

definition null_decode3 :: "'b source \<Rightarrow> bytes \<Rightarrow> null_type \<Rightarrow> 'b \<Rightarrow> (dstate \<times> 'd packet \<times> 'b) option" where
  "null_decode3 S err ty b = do {
     n \<leftarrow> src_length S b;
     if n < 3 then Some (AGAIN, NullPacket err ty, b)
     else do {
       c \<leftarrow> src_peekInt8 S b;
       if c \<noteq> CHR ''_'' then Some (ERROR, NullPacket (bad_magic (CHR ''_'') c) ty, b)
       else do {
         start \<leftarrow> src_view S 1 2 b;
         if start ! 0 \<noteq> CR \<or> start ! 1 \<noteq> LF
         then Some (ERROR, NullPacket
                (expected_got ''<CR><LF>'' [SQ, start ! 0, SQ, SQ, start ! 1, SQ]) ty, b)
         else do {
           b' \<leftarrow> src_skip S 3 b;
           Some (SUCCESS, NullPacket err ty, b') } } } }"

section \<open>Bulk strings\<close>

text \<open>
  \<open>BulkStringPacket::decode\<close> works on \<open>(err_, type_, decode_bulk_len_, bulk_str_)\<close>.
  \<open>std::string(data, n)\<close> throws for a negative \<open>n\<close>, a faulting run here.
\<close>

type_synonym bulk = "bytes \<times> packet_type \<times> int \<times> bytes"

definition bulk_body :: "'b source \<Rightarrow> bulk \<Rightarrow> 'b \<Rightarrow> (dstate \<times> bulk \<times> 'b) option" where
  "bulk_body S k b = (case k of (err, ty, len, s) \<Rightarrow> do {
     n \<leftarrow> src_length S b;
     if int n < len + 2 then Some (AGAIN, (err, ty, len, s), b)
     else do {
       ensure (len \<ge> 0);
       s' \<leftarrow> src_view S 0 (nat len) b;
       b' \<leftarrow> src_skip S (nat (len + 2)) b;
       Some (SUCCESS, (err, ty, NOT_SET_SIZE, s'), b') } })"

definition bulk_header :: "'b source \<Rightarrow> 'd lib \<Rightarrow> char \<Rightarrow> bulk \<Rightarrow> 'b \<Rightarrow> (dstate \<times> bulk \<times> 'b) option" where
  "bulk_header S L magic k b = (case k of (err, ty, len, s) \<Rightarrow> do {
     l \<leftarrow> find_line S magic b;
     case l of
       Nothing \<Rightarrow> Some (AGAIN, (err, ty, len, s), b)
     | Bad_magic c \<Rightarrow> Some (ERROR, (bad_magic magic c, ty, len, s), b)
     | No_line \<Rightarrow> do {
         n \<leftarrow> src_length S b;
         if n > PROTO_RESP_INLINE_MAX_SIZE
         then Some (ERROR, (''Protocol error: too big bulk count string'', ty, len, s), b)
         else Some (AGAIN, (err, ty, len, s), b) }
     | Line newline \<Rightarrow>
         (if newline = 1 then Some (ERROR, (''Protocol error: not found bulkstring len'', ty, len, s), b)
          else do {
            v \<leftarrow> src_view S 1 (newline - 1) b;
            case simple_atoi L v of
              (False, len') \<Rightarrow> Some (ERROR, (''Protocol error: invalid bulk length'', ty, len', s), b)
            | (True, len') \<Rightarrow>
                (if len' < - 1 \<or> len' > int (max_bulk_len L)
                 then Some (ERROR, (''Protocol error: invalid bulk length'', ty, len', s), b)
                 else do {
                   b1 \<leftarrow> src_skip S (newline + 2) b;
                   if len' = - 1 then Some (SUCCESS, (err, TYPE_NULL, len', s), b1)
                   else do {
                     n \<leftarrow> src_length S b1;
                     b2 \<leftarrow> (if len' \<ge> int PROTO_RESP_MBULK_BIG_ARG \<and> int n \<le> len' + 2
                           then src_ensureWritableBytes S (nat (len' + 2) - n) b1
                           else Some b1);
                     bulk_body S (err, ty, len', s) b2 } }) }) })"

definition bulk_decode :: "'b source \<Rightarrow> 'd lib \<Rightarrow> char \<Rightarrow> bulk \<Rightarrow> 'b \<Rightarrow> (dstate \<times> bulk \<times> 'b) option" where
  "bulk_decode S L magic k b = (case k of (err, ty, len, s) \<Rightarrow> do {
     e \<leftarrow> src_empty S b;
     if e then Some (AGAIN, (err, ty, len, s), b)
     else if len = NOT_SET_SIZE then bulk_header S L magic (err, ty, len, s) b
     else bulk_body S (err, ty, len, s) b })"

text \<open>\<open>SetPacket\<close>, \<open>PushPacket\<close> and \<open>BlobErrorPacket\<close> refuse a null of their own type.\<close>

definition refuse_null :: "packet_type \<Rightarrow> dstate \<Rightarrow> dstate" where
  "refuse_null ty st = (if st = SUCCESS \<and> ty = TYPE_NULL then ERROR else st)"

definition blob_error_decode3 :: "'b source \<Rightarrow> 'd lib \<Rightarrow> bulk \<Rightarrow> 'b \<Rightarrow> (dstate \<times> 'd packet \<times> 'b) option" where
  "blob_error_decode3 S L k b = do {
     (st, (err, ty, len, s), b') \<leftarrow> bulk_decode S L (CHR ''!'') k b;
     Some (refuse_null ty st, BlobErrorPacket err ty len s, b') }"

definition verbatim_decode3 :: "'b source \<Rightarrow> 'd lib \<Rightarrow> bulk \<Rightarrow> bytes \<Rightarrow> 'b \<Rightarrow> (dstate \<times> 'd packet \<times> 'b) option" where
  "verbatim_decode3 S L k x b = do {
     (st, (err, ty, len, s), b') \<leftarrow> bulk_decode S L (CHR ''='') k b;
     Some (if st = SUCCESS
           then if length s < 4 \<or> ty = TYPE_NULL
                then (ERROR, VerbatimStringPacket err ty len s x, b')
                else (SUCCESS, VerbatimStringPacket err ty len (drop 4 s) (take 3 s), b')
           else (st, VerbatimStringPacket err ty len s x, b')) }"

section \<open>Aggregates\<close>

definition unknown_type :: "bytes \<Rightarrow> bytes" where
  "unknown_type out = ''Protocol error: unknown packet type: '' @ [SQ] @ out @ [SQ]"

text \<open>
  The loop of \<open>ArrayPacket::decode\<close>, on \<open>(err_, packet_array_, curr_parse_packet_)\<close> and with
  \<open>decode_array_size_\<close> as a natural number; \<open>child\<close> is the virtual decode method.
\<close>

type_synonym 'd elements = "bytes \<times> 'd packet list \<times> 'd packet option"

fun array_loop ::
  "'b source \<Rightarrow> 'd lib \<Rightarrow> ('d, 'b) decoder \<Rightarrow> nat \<Rightarrow> 'd elements \<Rightarrow> 'b \<Rightarrow> (dstate \<times> nat \<times> 'd elements \<times> 'b) option" where
  "array_loop S L child 0 k b = Some (SUCCESS, 0, k, b)"
| "array_loop S L child (Suc n) (err, ps, cur) b = do {
     e \<leftarrow> src_empty S b;
     if e then Some (AGAIN, Suc n, (err, ps, cur), b)
     else do {
       ch \<leftarrow> src_peekInt8 S b;
       case (case cur of None \<Rightarrow> createPacket L ch | Some c \<Rightarrow> Some c) of
         None \<Rightarrow> Some (ERROR, Suc n, (unknown_type (toPrintableStr [ch]), ps, None), b)
       | Some c \<Rightarrow> do {
           (st, c', b') \<leftarrow> child c b;
           case st of
             SUCCESS \<Rightarrow> array_loop S L child n (err, ps @ [c'], None) b'
           | ERROR \<Rightarrow> Some (ERROR, Suc n, (perr c', ps, None), b')
           | AGAIN \<Rightarrow> Some (AGAIN, Suc n, (err, ps, Some c'), b') } } }"

text \<open>What the header of an aggregate leads to: a returned state, or a count and the rest.\<close>

datatype ('r, 'b) header = Return 'r | Count int 'b

definition count_header ::
  "'b source \<Rightarrow> 'd lib \<Rightarrow> char \<Rightarrow> bytes \<Rightarrow> int \<Rightarrow> 'b \<Rightarrow> (dstate \<times> bytes \<times> int, 'b) header option" where
  "count_header S L magic err sz b = do {
     l \<leftarrow> find_line S magic b;
     case l of
       Nothing \<Rightarrow> Some (Return (AGAIN, err, sz))
     | Bad_magic c \<Rightarrow> Some (Return (ERROR, bad_magic magic c, sz))
     | No_line \<Rightarrow> do {
         n \<leftarrow> src_length S b;
         Some (Return (if n > PROTO_RESP_INLINE_MAX_SIZE
                       then (ERROR, ''Protocol error: too big count string'', sz)
                       else (AGAIN, err, sz))) }
     | Line newline \<Rightarrow>
         (if newline = 1 then Some (Return (ERROR, ''Protocol error: not found array size'', sz))
          else do {
            v \<leftarrow> src_view S 1 (newline - 1) b;
            case simple_atoi L v of
              (False, sz') \<Rightarrow> Some (Return (ERROR, ''Protocol error: integer format error'', sz'))
            | (True, sz') \<Rightarrow> do {
                b' \<leftarrow> src_skip S (newline + 2) b;
                Some (Count sz' b') } }) }"

text \<open>\<open>(err_, type_, packet_array_, decode_array_size_, decode_size_limit_, curr_parse_packet_)\<close>.\<close>

type_synonym 'd array = "bytes \<times> packet_type \<times> 'd packet list \<times> int \<times> int \<times> 'd packet option"

definition array_elements ::
  "'b source \<Rightarrow> 'd lib \<Rightarrow> ('d, 'b) decoder \<Rightarrow> 'd array \<Rightarrow> 'b \<Rightarrow> (dstate \<times> 'd array \<times> 'b) option" where
  "array_elements S L child k b = (case k of (err, ty, ps, sz, limit, cur) \<Rightarrow>
     if sz > 0
     then do {
       (st, n, (err', ps', cur'), b') \<leftarrow> array_loop S L child (nat sz) (err, ps, cur) b;
       Some (st, (err', ty, ps', int n, limit, cur'), b') }
     else Some (SUCCESS, (err, ty, ps, sz, limit, cur), b))"

definition array_decode ::
  "'b source \<Rightarrow> 'd lib \<Rightarrow> ('d, 'b) decoder \<Rightarrow> char \<Rightarrow> 'd array \<Rightarrow> 'b \<Rightarrow> (dstate \<times> 'd array \<times> 'b) option" where
  "array_decode S L child magic k b = (case k of (err, ty, ps, sz, limit, cur) \<Rightarrow> do {
     e \<leftarrow> src_empty S b;
     if e then Some (AGAIN, (err, ty, ps, sz, limit, cur), b)
     else if sz = NOT_SET_SIZE
     then do {
       h \<leftarrow> count_header S L magic err sz b;
       case h of
         Return (st, err', sz') \<Rightarrow> Some (st, (err', ty, ps, sz', limit, cur), b)
       | Count sz' b' \<Rightarrow>
           (if limit > 0 \<and> sz' > limit
            then Some (ERROR, (''Protocol error: invalid multibulk length'', ty, ps, sz', limit, cur), b')
            else array_elements S L child
                   (err, if sz' < 0 then TYPE_NULL else ty, ps, sz', limit, cur) b') }
     else array_elements S L child (err, ty, ps, sz, limit, cur) b })"

text \<open>
  The loop of \<open>MapPacket::decode3\<close>, on \<open>(err_, packet_array_, curr_pair_key_, curr_parse_packet_)\<close>
  and with \<open>decode_packet_count_\<close> as a natural number.
\<close>

type_synonym 'd entries = "bytes \<times> ('d packet \<times> 'd packet) list \<times> 'd packet option \<times> 'd packet option"

fun map_loop ::
  "'b source \<Rightarrow> 'd lib \<Rightarrow> ('d, 'b) decoder \<Rightarrow> nat \<Rightarrow> 'd entries \<Rightarrow> 'b \<Rightarrow> (dstate \<times> nat \<times> 'd entries \<times> 'b) option" where
  "map_loop S L child 0 k b = Some (SUCCESS, 0, k, b)"
| "map_loop S L child (Suc n) (err, ps, key, cur) b = do {
     e \<leftarrow> src_empty S b;
     if e then Some (AGAIN, Suc n, (err, ps, key, cur), b)
     else do {
       ch \<leftarrow> src_peekInt8 S b;
       case (case cur of None \<Rightarrow> createPacket L ch | Some c \<Rightarrow> Some c) of
         None \<Rightarrow> Some (ERROR, Suc n, (unknown_type [ch], ps, key, None), b)
       | Some c \<Rightarrow> do {
           (st, c', b') \<leftarrow> child c b;
           case st of
             SUCCESS \<Rightarrow> map_loop S L child n
               (case key of None \<Rightarrow> (err, ps, Some c', None) | Some k \<Rightarrow> (err, ps @ [(k, c')], None, None)) b'
           | ERROR \<Rightarrow> Some (ERROR, Suc n, (perr c', ps, None, None), b')
           | AGAIN \<Rightarrow> Some (AGAIN, Suc n, (err, ps, key, Some c'), b') } } }"

text \<open>\<open>(err_, packet_array_, decode_map_size_, decode_packet_count_, curr_pair_key_, curr_parse_packet_)\<close>.
  The count is doubled in \<open>int64_t\<close>; a product that does not fit is undefined, a faulting run here.\<close>

type_synonym 'd mapping =
  "bytes \<times> ('d packet \<times> 'd packet) list \<times> int \<times> int \<times> 'd packet option \<times> 'd packet option"

definition map_entries ::
  "'b source \<Rightarrow> 'd lib \<Rightarrow> ('d, 'b) decoder \<Rightarrow> 'd mapping \<Rightarrow> 'b \<Rightarrow> (dstate \<times> 'd mapping \<times> 'b) option" where
  "map_entries S L child k b = (case k of (err, ps, sz, count, key, cur) \<Rightarrow>
     if count > 0
     then do {
       (st, n, (err', ps', key', cur'), b') \<leftarrow> map_loop S L child (nat count) (err, ps, key, cur) b;
       Some (st, (err', ps', sz, int n, key', cur'), b') }
     else Some (SUCCESS, (err, ps, sz, count, key, cur), b))"

definition map_decode3 ::
  "'b source \<Rightarrow> 'd lib \<Rightarrow> ('d, 'b) decoder \<Rightarrow> char \<Rightarrow> 'd mapping \<Rightarrow> 'b \<Rightarrow> (dstate \<times> 'd mapping \<times> 'b) option" where
  "map_decode3 S L child magic k b = (case k of (err, ps, sz, count, key, cur) \<Rightarrow> do {
     e \<leftarrow> src_empty S b;
     if e then Some (AGAIN, (err, ps, sz, count, key, cur), b)
     else if sz = NOT_SET_SIZE
     then do {
       ensure (count = NOT_SET_SIZE);
       h \<leftarrow> count_header S L magic err sz b;
       case h of
         Return (st, err', sz') \<Rightarrow> Some (st, (err', ps, sz', count, key, cur), b)
       | Count sz' b' \<Rightarrow>
           (if sz' < 0
            then Some (ERROR, (''Protocol error: integer format error'', ps, sz', count, key, cur), b)
            else do {
              ensure (int64_range (sz' * 2));
              map_entries S L child (err, ps, sz', sz' * 2, key, cur) b' }) }
     else map_entries S L child (err, ps, sz, count, key, cur) b })"

section \<open>The virtual decoders\<close>

text \<open>
  \<open>decodeRESP2\<close> and \<open>decodeRESP3\<close> of every class. The recursion goes through the elements of
  aggregates, which the input nests: the fuel is the number of nested calls there is stack for, and
  a call too many is a faulting run. The program sets no limit of its own.
\<close>

fun decode :: "'b source \<Rightarrow> 'd lib \<Rightarrow> nat \<Rightarrow> codec_type \<Rightarrow> ('d, 'b) decoder" where
  "decode S L 0 ct p b = None"
| "decode S L (Suc f) ct p b = (case p of
     SimpleStringPacket e s \<Rightarrow> simple_string_decode S e s b
   | ErrorPacket e s \<Rightarrow> error_decode S e s b
   | IntegerPacket e i \<Rightarrow> integer_decode S L e i b
   | BulkStringPacket e t l s \<Rightarrow> do {
       (st, (e', t', l', s'), b') \<leftarrow> bulk_decode S L (CHR ''$'') (e, t, l, s) b;
       Some (st, BulkStringPacket e' t' l' s', b') }
   | ArrayPacket e k t ps n l c \<Rightarrow>
       (if ct = RESP2 \<and> k \<noteq> Array_class then Some (ERROR, p, b)
        else do {
          (st, (e', t', ps', n', l', c'), b') \<leftarrow>
            array_decode S L (decode S L f ct) (array_magic k) (e, t, ps, n, l, c) b;
          Some (if k = Array_class then st else refuse_null t' st, ArrayPacket e' k t' ps' n' l' c', b') })
   | BlobErrorPacket e t l s \<Rightarrow>
       (if ct = RESP2 then Some (ERROR, p, b) else blob_error_decode3 S L (e, t, l, s) b)
   | VerbatimStringPacket e t l s x \<Rightarrow>
       (if ct = RESP2 then Some (ERROR, p, b) else verbatim_decode3 S L (e, t, l, s) x b)
   | BigNumberPacket e s \<Rightarrow> (if ct = RESP2 then Some (ERROR, p, b) else big_number_decode3 S e s b)
   | DoublePacket e d \<Rightarrow> (if ct = RESP2 then Some (ERROR, p, b) else double_decode3 S L e d b)
   | BooleanPacket e v \<Rightarrow> (if ct = RESP2 then Some (ERROR, p, b) else boolean_decode3 S e v b)
   | NullPacket e ty \<Rightarrow> (if ct = RESP2 then Some (ERROR, p, b) else null_decode3 S e ty b)
   | MapPacket e k ps n m c d \<Rightarrow>
       (if ct = RESP2 then Some (ERROR, p, b)
        else do {
          (st, (e', ps', n', m', c', d'), b') \<leftarrow>
            map_decode3 S L (decode S L f ct) (map_magic k) (e, ps, n, m, c, d) b;
          Some (st, MapPacket e' k ps' n' m' c' d', b') }))"

declare decode.simps(2) [simp del]

section \<open>Every source decodes like a byte string\<close>

text \<open>
  The contract between \<open>Buffer\<close> and the decoders. \<open>ok\<close> is the invariant of a source and \<open>cont\<close>
  its unread bytes: the observers agree with those of the byte string and the updates simulate
  theirs.
\<close>

lemma rel_option_bindI:
  "rel_option R m m' \<Longrightarrow> (\<And>x y. R x y \<Longrightarrow> rel_option Q (f x) (g y))
   \<Longrightarrow> rel_option Q (Option.bind m f) (Option.bind m' g)"
  by (cases m; cases m') auto

locale byte_source =
  fixes S :: "'b source" and ok :: "'b \<Rightarrow> bool" and cont :: "'b \<Rightarrow> bytes" and R :: "'b \<Rightarrow> bytes \<Rightarrow> bool"
  assumes R_iff: "R b s \<longleftrightarrow> ok b \<and> cont b = s"
    and length_law: "ok b \<Longrightarrow> src_length S b = src_length string_source (cont b)"
    and peek_law: "ok b \<Longrightarrow> src_peekInt8 S b = src_peekInt8 string_source (cont b)"
    and find_law: "ok b \<Longrightarrow> src_findCRLF S i b = src_findCRLF string_source i (cont b)"
    and view_law: "ok b \<Longrightarrow> src_view S i n b = src_view string_source i n (cont b)"
    and skip_law: "ok b \<Longrightarrow> rel_option R (src_skip S n b) (src_skip string_source n (cont b))"
    and ensure_law: "ok b \<Longrightarrow> rel_option R (src_ensureWritableBytes S n b) (Some (cont b))"
begin

lemma observers:
  assumes "R b s"
  shows "src_length S b = src_length string_source s" "src_peekInt8 S b = src_peekInt8 string_source s"
    "src_findCRLF S i b = src_findCRLF string_source i s" "src_view S i n b = src_view string_source i n s"
    "src_empty S b = src_empty string_source s" "find_line S m b = find_line string_source m s"
  using assms by (auto simp: R_iff length_law peek_law find_law view_law src_empty_def find_line_def
      cong: if_cong)

lemma skip_sim: "R b s \<Longrightarrow> rel_option R (src_skip S n b) (src_skip string_source n s)"
  using skip_law by (auto simp: R_iff)

lemma ensure_sim: "R b s \<Longrightarrow> rel_option R (src_ensureWritableBytes S n b) (src_ensureWritableBytes string_source n s)"
  using ensure_law by (auto simp: R_iff string_source_def)

abbreviation "sim \<equiv> rel_option (rel_prod (=) (rel_prod (=) R))"

lemma bind_same: "(\<And>x. rel_option Q (f x) (g x)) \<Longrightarrow> rel_option Q (Option.bind m f) (Option.bind m g)"
  by (cases m) auto

lemmas sim_intros = bind_same rel_option_bindI [OF skip_sim] rel_option_bindI [OF ensure_sim]

lemma leaf_sim:
  assumes "R b s"
  shows "sim (simple_string_decode S e x b) (simple_string_decode string_source e x s)"
    "sim (error_decode S e x b) (error_decode string_source e x s)"
    "sim (integer_decode S L e i b) (integer_decode string_source L e i s)"
    "sim (big_number_decode3 S e x b) (big_number_decode3 string_source e x s)"
    "sim (double_decode3 S L e d b) (double_decode3 string_source L e d s)"
    "sim (boolean_decode3 S e v b) (boolean_decode3 string_source e v s)"
    "sim (null_decode3 S e ty b) (null_decode3 string_source e ty s)"
  using assms
  by (auto simp: simple_string_decode_def error_decode_def integer_decode_def big_number_decode3_def
      double_decode3_def boolean_decode3_def null_decode3_def observers [OF assms]
      intro!: sim_intros split: line.splits option.splits bool.splits prod.splits)

lemma bulk_body_sim:
  "R b s \<Longrightarrow> sim (bulk_body S k b) (bulk_body string_source k s)"
  by (auto simp: bulk_body_def observers intro!: sim_intros split: prod.splits)

lemma bulk_decode_sim:
  assumes "R b s"
  shows "sim (bulk_decode S L m k b) (bulk_decode string_source L m k s)"
  using assms
  by (auto simp: bulk_decode_def bulk_header_def observers bulk_body_sim
      intro!: sim_intros split: prod.splits line.splits bool.splits)

lemma bind_sim:
  assumes "sim m m'" "\<And>st p b s. R b s \<Longrightarrow> rel_option Q (f (st, p, b)) (g (st, p, s))"
  shows "rel_option Q (Option.bind m f) (Option.bind m' g)"
  using assms by (auto intro!: rel_option_bindI)

lemma if_sim: "rel_option Q a a' \<Longrightarrow> rel_option Q c c' \<Longrightarrow> rel_option Q (if e then a else c) (if e then a' else c')"
  by simp

lemma option_case_sim:
  "rel_option Q a a' \<Longrightarrow> (\<And>x. rel_option Q (f x) (g x))
   \<Longrightarrow> rel_option Q (case m of None \<Rightarrow> a | Some x \<Rightarrow> f x) (case m of None \<Rightarrow> a' | Some x \<Rightarrow> g x)"
  by (cases m) simp_all

lemma dstate_case_sim:
  "rel_option Q a a' \<Longrightarrow> rel_option Q c c' \<Longrightarrow> rel_option Q d d'
   \<Longrightarrow> rel_option Q (case st of AGAIN \<Rightarrow> a | SUCCESS \<Rightarrow> c | ERROR \<Rightarrow> d) (case st of AGAIN \<Rightarrow> a' | SUCCESS \<Rightarrow> c' | ERROR \<Rightarrow> d')"
  by (cases st) simp_all

lemma array_loop_sim:
  assumes child: "\<And>p b s. R b s \<Longrightarrow> sim (child p b) (child' p s)"
  shows "R b s \<Longrightarrow> rel_option (rel_prod (=) (rel_prod (=) (rel_prod (=) R)))
           (array_loop S L child n k b) (array_loop string_source L child' n k s)"
proof (induction n arbitrary: k b s)
  case (Suc n)
  obtain err ps cur where k: "k = (err, ps, cur)" by (cases k)
  show ?case
    unfolding k array_loop.simps observers [OF Suc.prems]
    by (intro bind_same if_sim option_case_sim)
      (use Suc.prems in \<open>simp_all, intro bind_sim [OF child [OF Suc.prems]], simp add: Suc.IH dstate_case_sim\<close>)
qed auto

lemma map_loop_sim:
  assumes child: "\<And>p b s. R b s \<Longrightarrow> sim (child p b) (child' p s)"
  shows "R b s \<Longrightarrow> rel_option (rel_prod (=) (rel_prod (=) (rel_prod (=) R)))
           (map_loop S L child n k b) (map_loop string_source L child' n k s)"
proof (induction n arbitrary: k b s)
  case (Suc n)
  obtain err ps key cur where k: "k = (err, ps, key, cur)" by (cases k)
  show ?case
    unfolding k map_loop.simps observers [OF Suc.prems]
    by (intro bind_same if_sim option_case_sim)
      (use Suc.prems in \<open>simp_all, intro bind_sim [OF child [OF Suc.prems]], simp add: Suc.IH dstate_case_sim\<close>)
qed auto

lemma count_header_sim:
  assumes "R b s"
  shows "rel_option (rel_header (=) R) (count_header S L m e n b) (count_header string_source L m e n s)"
  using assms
  by (auto simp: count_header_def observers [OF assms] intro!: sim_intros
      split: line.splits bool.splits prod.splits)

lemma array_elements_sim:
  assumes "\<And>p b s. R b s \<Longrightarrow> sim (child p b) (child' p s)" "R b s"
  shows "sim (array_elements S L child k b) (array_elements string_source L child' k s)"
  using assms(2)
  by (auto simp: array_elements_def intro!: rel_option_bindI [OF array_loop_sim [OF assms(1)]] split: prod.splits)

lemma array_decode_sim:
  assumes "\<And>p b s. R b s \<Longrightarrow> sim (child p b) (child' p s)" "R b s"
  shows "sim (array_decode S L child m k b) (array_decode string_source L child' m k s)"
  using assms(2) array_elements_sim [OF assms(1)]
  by (auto simp: array_decode_def observers [OF assms(2)] intro!: bind_same rel_option_bindI [OF count_header_sim]
      split: prod.splits header.splits)

lemma map_entries_sim:
  assumes "\<And>p b s. R b s \<Longrightarrow> sim (child p b) (child' p s)" "R b s"
  shows "sim (map_entries S L child k b) (map_entries string_source L child' k s)"
  using assms(2)
  by (auto simp: map_entries_def intro!: rel_option_bindI [OF map_loop_sim [OF assms(1)]] split: prod.splits)

lemma map_decode_sim:
  assumes "\<And>p b s. R b s \<Longrightarrow> sim (child p b) (child' p s)" "R b s"
  shows "sim (map_decode3 S L child m k b) (map_decode3 string_source L child' m k s)"
  using assms(2) map_entries_sim [OF assms(1)]
  by (auto simp: map_decode3_def observers [OF assms(2)] intro!: bind_same rel_option_bindI [OF count_header_sim]
      split: prod.splits header.splits)

lemma decode_sim: "R b s \<Longrightarrow> sim (decode S L f ct p b) (decode string_source L f ct p s)"
proof (induction f arbitrary: p b s)
  case (Suc f)
  then show ?case
    by (cases p) (auto simp: decode.simps(2) leaf_sim blob_error_decode3_def verbatim_decode3_def
        intro!: bind_sim [OF bulk_decode_sim] bind_sim [OF array_decode_sim] bind_sim [OF map_decode_sim])
qed simp

end

text \<open>\<open>Buffer\<close> is such a source: its invariant and the bytes between the two indices.\<close>

lemma buf_peekInt8_empty: "buf_ok b \<Longrightarrow> contents b = [] \<Longrightarrow> buf_peekInt8 b = None"
  by (simp add: buf_peekInt8_def buf_peek_short)

lemma buf_findCRLF_outside: "buf_ok b \<Longrightarrow> length (contents b) < i \<Longrightarrow> buf_findCRLF (read_index b + i) b = None"
  by (simp add: buf_findCRLF_def write_index_contents)

interpretation bs: byte_source buffer_source buf_ok contents "\<lambda>b s. buf_ok b \<and> contents b = s"
proof
  fix b :: buffer and i n :: nat
  assume ok: "buf_ok b"
  show "src_length buffer_source b = src_length string_source (contents b)"
    by (simp add: buffer_source_def string_source_def buf_length_ok ok)
  show "src_peekInt8 buffer_source b = src_peekInt8 string_source (contents b)"
    by (cases "contents b") (simp_all add: buffer_source_def string_source_def ok buf_peekInt8_ok buf_peekInt8_empty)
  show "src_findCRLF buffer_source i b = src_findCRLF string_source i (contents b)"
    by (cases "i \<le> length (contents b)")
      (simp_all add: buffer_source_def string_source_def ok buf_findCRLF_ok buf_findCRLF_outside
        option.map_comp comp_def)
  show "src_view buffer_source i n b = src_view string_source i n (contents b)"
    by (cases "i + n \<le> length (contents b)")
      (simp_all add: buffer_source_def string_source_def ok buf_length_ok load_bytes_contents)
  have "wp (buf_skip n b) (\<lambda>b'. buf_ok b' \<and> contents b' = drop n (contents b))"
    using ok by (auto intro!: wp_rules)
  then show "rel_option (\<lambda>b s. buf_ok b \<and> contents b = s) (src_skip buffer_source n b)
        (src_skip string_source n (contents b))"
    by (auto simp: buffer_source_def string_source_def wp_iff)
  have "wp (buf_ensureWritableBytes n b) (\<lambda>b'. buf_ok b' \<and> contents b' = contents b)"
    using ok by (auto intro!: wp_rules)
  then show "rel_option (\<lambda>b s. buf_ok b \<and> contents b = s) (src_ensureWritableBytes buffer_source n b)
        (Some (contents b))"
    by (auto simp: buffer_source_def wp_iff)
qed simp

text \<open>The decoders depend on the unread bytes of the buffer and on nothing else. On a
  well-formed buffer every RESP2 and RESP3 decoder does what the same decoder does on the byte
  string of its unread bytes: the same result, the same packet object, a well-formed buffer whose
  unread bytes are the bytes left; and it faults exactly when the decoder on the string does.\<close>

lemma decode_refines_string:
  assumes "buf_ok b"
  shows "case decode string_source L f ct p (contents b) of
           None \<Rightarrow> decode buffer_source L f ct p b = None
         | Some (st, p', s') \<Rightarrow>
             \<exists>b'. decode buffer_source L f ct p b = Some (st, p', b') \<and> buf_ok b' \<and> contents b' = s'"
  using bs.decode_sim [of b "contents b" L f ct p] assms
  by (cases "decode string_source L f ct p (contents b)"; cases "decode buffer_source L f ct p b") auto

end
