(* ===== verification/Resume.thy ===== *)
theory Resume
  imports Decode
begin

text \<open>
  The RESP decoders on byte strings: they never fault on network input, their fuel is enough, and
  decoding a reply in pieces (a decoder that runs out of input keeps its state in the packet object
  and is called again) is decoding it at once.
\<close>

section \<open>The operations of the string source\<close>

lemma string_source_simps [simp]:
  "src_length string_source s = Some (length s)"
  "src_empty string_source s = Some (s = [])"
  "src_skip string_source n s = Some (drop n s)"
  "src_ensureWritableBytes string_source n s = Some s"
  "i + n \<le> length s \<Longrightarrow> src_view string_source i n s = Some (take n (drop i s))"
  by (simp_all add: string_source_def src_empty_def)

lemma string_peek [simp]: "s \<noteq> [] \<Longrightarrow> src_peekInt8 string_source s = Some (hd s)"
  by (cases s) (simp_all add: string_source_def)

definition line_of :: "char \<Rightarrow> bytes \<Rightarrow> line" where
  "line_of m s =
     (if s = [] then Nothing
      else if hd s \<noteq> m then Bad_magic (hd s)
      else case find_crlf (tl s) of None \<Rightarrow> No_line | Some k \<Rightarrow> Line (Suc k))"

lemma find_line_string [simp]: "find_line string_source m s = Some (line_of m s)"
  by (cases s) (auto simp: find_line_def line_of_def string_source_def src_empty_def split: option.splits)

lemma line_of_Line:
  assumes "line_of m s = Line k"
  shows "Suc 0 \<le> k" "k + 2 \<le> length s" "line_of m (s @ t) = Line k"
  using assms find_crlf_bound [of "tl s"] find_crlf_append [of "tl s"]
  by (cases s; force simp: line_of_def split: option.splits if_splits)+

lemma line_of_Bad_magic: "line_of m s = Bad_magic c \<Longrightarrow> line_of m (s @ t) = Bad_magic c"
  by (cases s) (auto simp: line_of_def split: option.splits if_splits)

lemma line_of_Nothing: "line_of m s = Nothing \<longleftrightarrow> s = []"
  by (auto simp: line_of_def split: option.splits)

lemma view_line [simp]:
  assumes "line_of m s = Line k"
  shows "src_view string_source (Suc 0) (k - Suc 0) s = Some (take (k - 1) (tl s))"
    "src_view string_source (Suc 0) (k - Suc 0) (s @ t) = Some (take (k - 1) (tl s))"
proof -
  from line_of_Line [OF assms] obtain c r where s: "s = c # r" by (cases s) auto
  with line_of_Line [OF assms] show "src_view string_source (Suc 0) (k - Suc 0) s = Some (take (k - 1) (tl s))"
    "src_view string_source (Suc 0) (k - Suc 0) (s @ t) = Some (take (k - 1) (tl s))"
    by simp_all
qed

lemma drop_line [simp]: "line_of m s = Line k \<Longrightarrow> Suc (Suc k) - length s = 0"
  "line_of m s = Line k \<Longrightarrow> k - length s = 0"
  using line_of_Line(2) [of m s k] by simp_all

section \<open>More input\<close>

text \<open>
  What a decoder promises when more bytes \<open>t\<close> arrive. A finished reply stays what it is and leaves
  \<open>t\<close>; so does an error, except the limit on the length of a count line that has not ended; an
  unfinished one goes on from the packet object it left.
\<close>

definition too_big :: "bytes \<Rightarrow> bool" where
  "too_big e \<longleftrightarrow> e = ''Protocol error: too big count string'' \<or> e = ''Protocol error: too big bulk count string''"

definition resumable :: "('p \<Rightarrow> bytes) \<Rightarrow> ('p \<Rightarrow> bytes \<Rightarrow> (dstate \<times> 'p \<times> bytes) option) \<Rightarrow> 'p \<Rightarrow> bytes \<Rightarrow> bool" where
  "resumable er dec p s \<longleftrightarrow> (case dec p s of
       None \<Rightarrow> True
     | Some (SUCCESS, p', s') \<Rightarrow> (\<forall>t. dec p (s @ t) = Some (SUCCESS, p', s' @ t))
     | Some (ERROR, p', s') \<Rightarrow> too_big (er p') \<or> (\<forall>t. dec p (s @ t) = Some (ERROR, p', s' @ t))
     | Some (AGAIN, p', s') \<Rightarrow> (\<forall>t. dec p (s @ t) = dec p' (s' @ t)))"

lemma resumableI:
  assumes "\<And>p' s' t. dec p s = Some (SUCCESS, p', s') \<Longrightarrow> dec p (s @ t) = Some (SUCCESS, p', s' @ t)"
    "\<And>p' s' t. dec p s = Some (ERROR, p', s') \<Longrightarrow> \<not> too_big (er p') \<Longrightarrow> dec p (s @ t) = Some (ERROR, p', s' @ t)"
    "\<And>p' s' t. dec p s = Some (AGAIN, p', s') \<Longrightarrow> dec p (s @ t) = dec p' (s' @ t)"
  shows "resumable er dec p s"
  using assms by (auto simp: resumable_def split: option.splits dstate.splits)

lemma resumable_self: "resumable er dec p s \<Longrightarrow> dec p s = Some (AGAIN, p', s') \<Longrightarrow> dec p' s' = Some (AGAIN, p', s')"
  unfolding resumable_def by (auto dest: spec [of _ "[]"])

lemma resumable_SUCCESS: "resumable er dec p s \<Longrightarrow> dec p s = Some (SUCCESS, p', s') \<Longrightarrow> dec p (s @ t) = Some (SUCCESS, p', s' @ t)"
  and resumable_AGAIN: "resumable er dec p s \<Longrightarrow> dec p s = Some (AGAIN, p', s') \<Longrightarrow> dec p (s @ t) = dec p' (s' @ t)"
  and resumable_ERROR: "resumable er dec p s \<Longrightarrow> dec p s = Some (ERROR, p', s') \<Longrightarrow>
     \<not> too_big (er p') \<Longrightarrow> dec p (s @ t) = Some (ERROR, p', s' @ t)"
  by (auto simp: resumable_def)

lemma resumable_cong:
  "resumable er dec q s2 \<Longrightarrow> (\<And>t. dec p (s @ t) = dec q (s2 @ t)) \<Longrightarrow> resumable er dec p s"
proof -
  assume r: "resumable er dec q s2" and eq: "\<And>t. dec p (s @ t) = dec q (s2 @ t)"
  from eq [of "[]"] have eq0: "dec p s = dec q s2" by simp
  from r show ?thesis unfolding resumable_def eq eq0 .
qed

text \<open>A decoder that returns the state of another through a total wrapper.\<close>

lemma resumable_wrap:
  assumes "resumable er dec p s"
    and "\<And>t. dec' q (s @ t) = map_option (\<lambda>(st, p', s'). (sf st p', mk st p', s')) (dec p (s @ t))"
    and "\<And>p' s' t. dec' (mk AGAIN p') s' = map_option (\<lambda>(st, p', s'). (sf st p', mk st p', s')) (dec p' s')"
    and "\<And>st p'. er' (mk st p') = er p'" "\<And>p'. sf AGAIN p' = AGAIN" "\<And>p'. sf SUCCESS p' \<noteq> AGAIN"
      "\<And>p'. sf ERROR p' = ERROR"
  shows "resumable er' dec' q s"
proof (cases "dec p s")
  case None
  with assms(2) [of "[]"] show ?thesis by (simp add: resumable_def)
next
  case (Some r)
  obtain st p' s' where r: "r = (st, p', s')" by (cases r)
  show ?thesis
  proof (cases st)
    case AGAIN
    with Some r have "dec p s = Some (AGAIN, p', s')" by simp
    with assms(2) [of "[]"] assms(2,3,5) resumable_AGAIN [OF assms(1)] show ?thesis
      by (simp add: resumable_def)
  next
    case SUCCESS
    with Some r have d: "dec p s = Some (SUCCESS, p', s')" by simp
    show ?thesis
      using d assms(2) [of "[]"] assms(2) [unfolded resumable_SUCCESS [OF assms(1) d]] assms(6) [of p']
      by (cases "sf SUCCESS p'") (simp_all add: resumable_def)
  next
    case ERROR
    with Some r have d: "dec p s = Some (ERROR, p', s')" by simp
    show ?thesis
      using d assms(2) [of "[]"] assms(2,4,7) resumable_ERROR [OF assms(1) d]
      by (auto simp: resumable_def)
  qed
qed

lemma resumable_leaf:
  "resumable perr (\<lambda>p s. decode string_source L (Suc f) ct p s) (SimpleStringPacket e x) s"
  "resumable perr (\<lambda>p s. decode string_source L (Suc f) ct p s) (ErrorPacket e x) s"
  "resumable perr (\<lambda>p s. decode string_source L (Suc f) ct p s) (IntegerPacket e i) s"
  "resumable perr (\<lambda>p s. decode string_source L (Suc f) ct p s) (BigNumberPacket e x) s"
  "resumable perr (\<lambda>p s. decode string_source L (Suc f) ct p s) (DoublePacket e d) s"
  by (auto simp: resumable_def decode.simps(2) simple_string_decode_def error_decode_def integer_decode_def
      big_number_decode3_def double_decode3_def line_of_Line line_of_Bad_magic
      split: line.splits prod.splits bool.splits option.splits)

lemma resumable_boolean:
  "resumable perr (\<lambda>p s. decode string_source L (Suc f) ct p s) (BooleanPacket e v) s"
proof (cases "length s < 4")
  case False
  then obtain a b c d r where "s = a # b # c # d # r"
    by (cases s; cases "tl s"; cases "tl (tl s)"; cases "tl (tl (tl s))") auto
  then show ?thesis by (auto simp: resumable_def decode.simps(2) boolean_decode3_def)
qed (simp add: resumable_def decode.simps(2) boolean_decode3_def)

lemma resumable_null:
  "resumable perr (\<lambda>p s. decode string_source L (Suc f) ct p s) (NullPacket e ty) s"
proof (cases "length s < 3")
  case False
  then obtain a b c r where "s = a # b # c # r"
    by (cases s; cases "tl s"; cases "tl (tl s)") auto
  then show ?thesis by (auto simp: resumable_def decode.simps(2) null_decode3_def)
qed (simp add: resumable_def decode.simps(2) null_decode3_def)

abbreviation bulk_err :: "bulk \<Rightarrow> bytes" where "bulk_err \<equiv> fst"

lemma resumable_bulk_body:
  "0 \<le> len \<Longrightarrow> resumable bulk_err (bulk_body string_source) (e, ty, len, x) s"
  by (auto simp: resumable_def bulk_body_def nat_add_distrib)

lemma bulk_decode_set:
  "len \<noteq> NOT_SET_SIZE \<Longrightarrow> 0 \<le> len \<Longrightarrow>
   bulk_decode string_source L m (e, ty, len, x) s = bulk_body string_source (e, ty, len, x) s"
  by (auto simp: bulk_decode_def bulk_body_def)

lemma resumable_bulk_set:
  assumes "\<not> (s \<noteq> [] \<and> len = NOT_SET_SIZE)"
  shows "resumable bulk_err (bulk_decode string_source L m) (e, ty, len, x) s"
  using assms
  by (cases "s = []"; cases "0 \<le> len") (auto simp: resumable_def bulk_decode_def bulk_body_def nat_add_distrib)

lemma resumable_bulk: "resumable bulk_err (bulk_decode string_source L m) (e, ty, len, x) s"
proof (cases "s \<noteq> [] \<and> len = NOT_SET_SIZE")
  case False
  then show ?thesis by (rule resumable_bulk_set)
next
  case True
  show ?thesis
  proof (cases "line_of m s")
    case (Line k)
    then have l: "line_of m (s @ t) = Line k" for t by (rule line_of_Line(3))
    obtain ok len' where v: "simple_atoi L (take (k - 1) (tl s)) = (ok, len')" by fastforce
    show ?thesis
    proof (cases "k = 1 \<or> \<not> ok \<or> len' < - 1 \<or> len' > int (max_bulk_len L) \<or> len' = - 1")
      case bad: True
      show ?thesis
        using bad v True l [of "[]"] Line
        by (cases ok) (auto simp: resumable_def bulk_decode_def bulk_header_def l)
    next
      case good: False
      then have "bulk_decode string_source L m (e, ty, len, x) (s @ t)
                   = bulk_body string_source (e, ty, len', x) (drop (k + 2) s @ t)" for t
        using v True l [of t] Line
        by (simp add: bulk_decode_def bulk_header_def)
      moreover have "bulk_decode string_source L m (e, ty, len', x) u = bulk_body string_source (e, ty, len', x) u" for u
        using good by (intro bulk_decode_set) (auto simp: NOT_SET_SIZE_def)
      ultimately show ?thesis
        using good by (intro resumable_cong [OF resumable_bulk_set [of "drop (k + 2) s" len' L m e ty x]])
          (auto simp: NOT_SET_SIZE_def)
    qed
  qed (use True in \<open>auto simp: resumable_def bulk_decode_def bulk_header_def line_of_Bad_magic too_big_def
          line_of_Nothing\<close>)
qed

lemma resumable_BulkString:
  "resumable perr (\<lambda>p s. decode string_source L (Suc f) ct p s) (BulkStringPacket e t l x) s"
  by (rule resumable_wrap [OF resumable_bulk [of L "CHR ''$''" e t l x s], where sf = "\<lambda>st p. st"
        and mk = "\<lambda>st (e, t, l, x). BulkStringPacket e t l x"])
    (auto simp: decode.simps(2) map_option_case split: option.splits)

lemma resumable_BlobError:
  "ct \<noteq> RESP2 \<Longrightarrow> resumable perr (\<lambda>p s. decode string_source L (Suc f) ct p s) (BlobErrorPacket e t l x) s"
  by (rule resumable_wrap [OF resumable_bulk [of L "CHR ''!''" e t l x s], where sf = "\<lambda>st (e, t, l, x). refuse_null t st"
        and mk = "\<lambda>st (e, t, l, x). BlobErrorPacket e t l x"])
    (auto simp: decode.simps(2) map_option_case blob_error_decode3_def refuse_null_def split: option.splits if_splits)

lemma resumable_Verbatim:
  "ct \<noteq> RESP2 \<Longrightarrow> resumable perr (\<lambda>p s. decode string_source L (Suc f) ct p s) (VerbatimStringPacket e t l x y) s"
  by (rule resumable_wrap [OF resumable_bulk [of L "CHR ''=''" e t l x s],
        where sf = "\<lambda>st (e, t, l, x). if st = SUCCESS \<and> (length x < 4 \<or> t = TYPE_NULL) then ERROR else st"
        and mk = "\<lambda>st (e, t, l, x). if st = SUCCESS \<and> \<not> (length x < 4 \<or> t = TYPE_NULL)
             then VerbatimStringPacket e t l (drop 4 x) (take 3 x) else VerbatimStringPacket e t l x y"])
    (auto simp: decode.simps(2) map_option_case verbatim_decode3_def split: option.splits if_splits)

section \<open>Aggregates\<close>

text \<open>The loops as decoders of their own, with the count as part of the state.\<close>

definition loop_decoder ::
  "(nat \<Rightarrow> 'k \<Rightarrow> bytes \<Rightarrow> (dstate \<times> nat \<times> 'k \<times> bytes) option) \<Rightarrow> nat \<times> 'k \<Rightarrow> bytes \<Rightarrow> (dstate \<times> (nat \<times> 'k) \<times> bytes) option" where
  "loop_decoder loop = (\<lambda>(n, k) s. map_option (\<lambda>(st, m, k', s'). (st, (m, k'), s')) (loop n k s))"

lemma loop_decoder_simp [simp]:
  "loop_decoder loop (n, k) s = map_option (\<lambda>(st, m, k', s'). (st, (m, k'), s')) (loop n k s)"
  by (simp add: loop_decoder_def)

lemma resumable_None: "dec p s = None \<Longrightarrow> resumable er dec p s"
  by (simp add: resumable_def)

lemma array_loop_resumable:
  assumes child: "\<And>p s. resumable perr child p s"
  shows "resumable (fst \<circ> snd) (loop_decoder (array_loop string_source L child)) (n, k) s"
proof (induction n arbitrary: k s)
  case (Suc n k s)
  obtain e ps cur where k: "k = (e, ps, cur)" by (cases k)
  show ?case
  proof (cases "s = []")
    case s: False
    let ?c = "case cur of None \<Rightarrow> createPacket L (hd s) | Some c \<Rightarrow> Some c"
    show ?thesis
    proof (cases ?c)
      case None
      have e: "array_loop string_source L child (Suc n) k (s @ t)
          = Some (ERROR, Suc n, (unknown_type (toPrintableStr [hd s]), ps, None), s @ t)" for t
        using s None by (simp add: k)
      from e [of "[]"] e show ?thesis by (intro resumableI) simp_all
    next
      case c: (Some c)
      show ?thesis
      proof (cases "child c s")
        case None
        with s c show ?thesis by (simp add: k resumable_None)
      next
        case r: (Some r)
        obtain st c' s' where [simp]: "r = (st, c', s')" by (cases r)
        show ?thesis
        proof (cases st)
          case AGAIN
          with child r have more: "child c (s @ t) = child c' (s' @ t)" for t
            by (auto intro: resumable_AGAIN)
          from child AGAIN r have self: "child c' s' = Some (AGAIN, c', s')" by (auto intro: resumable_self)
          show ?thesis
          proof (rule resumableI)
            fix p2 s2 t
            assume "loop_decoder (array_loop string_source L child) (Suc n, k) s = Some (AGAIN, p2, s2)"
            then have p2: "p2 = (Suc n, e, ps, Some c')" "s2 = s'"
              using s c r AGAIN by (simp_all add: k)
            show "loop_decoder (array_loop string_source L child) (Suc n, k) (s @ t)
                    = loop_decoder (array_loop string_source L child) p2 (s2 @ t)"
            proof (cases "s' = [] \<and> t = []")
              case True
              then show ?thesis using s c r AGAIN by (simp add: p2 k)
            next
              case False
              then have "s' @ t \<noteq> []" "s @ t \<noteq> []" using s by simp_all
              then show ?thesis
                using s c more [of t] by (simp add: p2 k del: append_is_Nil_conv)
            qed
          qed (use s c r AGAIN in \<open>simp_all add: k\<close>)
        next
          case SUCCESS
          with child r have "child c (s @ t) = Some (SUCCESS, c', s' @ t)" for t
            by (auto intro: resumable_SUCCESS)
          with s c show ?thesis
            by (intro resumable_cong [OF Suc.IH [of "(e, ps @ [c'], None)" s']]) (simp add: k)
        next
          case ERROR
          with child r have "\<not> too_big (perr c') \<Longrightarrow> child c (s @ t) = Some (ERROR, c', s' @ t)" for t
            by (auto intro: resumable_ERROR)
          with s c r ERROR show ?thesis by (intro resumableI) (auto simp: k)
        qed
      qed
    qed
  qed (intro resumableI, auto simp: k)
qed (simp add: resumable_def)

lemma map_loop_resumable:
  assumes child: "\<And>p s. resumable perr child p s"
  shows "resumable (fst \<circ> snd) (loop_decoder (map_loop string_source L child)) (n, k) s"
proof (induction n arbitrary: k s)
  case (Suc n k s)
  obtain e ps key cur where k: "k = (e, ps, key, cur)" by (cases k)
  show ?case
  proof (cases "s = []")
    case s: False
    let ?c = "case cur of None \<Rightarrow> createPacket L (hd s) | Some c \<Rightarrow> Some c"
    show ?thesis
    proof (cases ?c)
      case None
      have e: "map_loop string_source L child (Suc n) k (s @ t)
          = Some (ERROR, Suc n, (unknown_type [hd s], ps, key, None), s @ t)" for t
        using s None by (simp add: k)
      from e [of "[]"] e show ?thesis by (intro resumableI) simp_all
    next
      case c: (Some c)
      show ?thesis
      proof (cases "child c s")
        case None
        with s c show ?thesis by (simp add: k resumable_None)
      next
        case r: (Some r)
        obtain st c' s' where [simp]: "r = (st, c', s')" by (cases r)
        show ?thesis
        proof (cases st)
          case AGAIN
          with child r have more: "child c (s @ t) = child c' (s' @ t)" for t
            by (auto intro: resumable_AGAIN)
          from child AGAIN r have self: "child c' s' = Some (AGAIN, c', s')" by (auto intro: resumable_self)
          show ?thesis
          proof (rule resumableI)
            fix p2 s2 t
            assume "loop_decoder (map_loop string_source L child) (Suc n, k) s = Some (AGAIN, p2, s2)"
            then have p2: "p2 = (Suc n, e, ps, key, Some c')" "s2 = s'"
              using s c r AGAIN by (simp_all add: k)
            show "loop_decoder (map_loop string_source L child) (Suc n, k) (s @ t)
                    = loop_decoder (map_loop string_source L child) p2 (s2 @ t)"
            proof (cases "s' = [] \<and> t = []")
              case True
              then show ?thesis using s c r AGAIN by (simp add: p2 k)
            next
              case False
              then have "s' @ t \<noteq> []" "s @ t \<noteq> []" using s by simp_all
              then show ?thesis
                using s c more [of t] by (simp add: p2 k del: append_is_Nil_conv)
            qed
          qed (use s c r AGAIN in \<open>simp_all add: k\<close>)
        next
          case SUCCESS
          with child r have "child c (s @ t) = Some (SUCCESS, c', s' @ t)" for t
            by (auto intro: resumable_SUCCESS)
          with s c show ?thesis
            by (intro resumable_cong [OF Suc.IH [of "case key of None \<Rightarrow> (e, ps, Some c', None)
                | Some a \<Rightarrow> (e, ps @ [(a, c')], None, None)" s']]) (simp add: k)
        next
          case ERROR
          with child r have "\<not> too_big (perr c') \<Longrightarrow> child c (s @ t) = Some (ERROR, c', s' @ t)" for t
            by (auto intro: resumable_ERROR)
          with s c r ERROR show ?thesis by (intro resumableI) (auto simp: k)
        qed
      qed
    qed
  qed (intro resumableI, auto simp: k)
qed (simp add: resumable_def)


lemma loop_resumableD:
  assumes "resumable (fst \<circ> snd) (loop_decoder loop) (n, k) s" "loop n k s = Some (st, m, k', s')"
  shows "st = SUCCESS \<Longrightarrow> loop n k (s @ t) = Some (SUCCESS, m, k', s' @ t)"
    "st = ERROR \<Longrightarrow> \<not> too_big (fst k') \<Longrightarrow> loop n k (s @ t) = Some (ERROR, m, k', s' @ t)"
    "st = AGAIN \<Longrightarrow> loop n k (s @ t) = loop m k' (s' @ t)"
proof -
  have inj: "map_option (\<lambda>(st, m, k', s'). (st, (m, k'), s')) x = map_option (\<lambda>(st, m, k', s'). (st, (m, k'), s')) y \<longleftrightarrow> x = y"
    for x y :: "('x \<times> 'y \<times> 'z \<times> 'w) option" by (cases x; cases y) auto
  from assms show "st = SUCCESS \<Longrightarrow> loop n k (s @ t) = Some (SUCCESS, m, k', s' @ t)"
    "st = ERROR \<Longrightarrow> \<not> too_big (fst k') \<Longrightarrow> loop n k (s @ t) = Some (ERROR, m, k', s' @ t)"
    using resumable_SUCCESS [OF assms(1), of "(m, k')" s' t] resumable_ERROR [OF assms(1), of "(m, k')" s' t]
    by auto
  show "st = AGAIN \<Longrightarrow> loop n k (s @ t) = loop m k' (s' @ t)"
    using resumable_AGAIN [OF assms(1), of "(m, k')" s' t] assms(2) by (simp add: inj)
qed

lemma array_loop_AGAIN_pos: "array_loop S L child n k s = Some (AGAIN, m, k', s') \<Longrightarrow> 0 < m"
proof (induction n arbitrary: k s)
  case (Suc n)
  then show ?case
    by (cases k) (auto dest: Suc.IH
        split: Option.bind_split_asm prod.split_asm if_split_asm option.split_asm dstate.split_asm)
qed simp

lemma map_loop_AGAIN_pos: "map_loop S L child n k s = Some (AGAIN, m, k', s') \<Longrightarrow> 0 < m"
proof (induction n arbitrary: k s)
  case (Suc n)
  then show ?case
    by (cases k) (auto dest: Suc.IH
        split: Option.bind_split_asm prod.split_asm if_split_asm option.split_asm dstate.split_asm)
qed simp

lemma resumable_array_elements:
  assumes child: "\<And>p s. resumable perr child p s"
  shows "resumable fst (array_elements string_source L child) (e, ty, ps, sz, limit, cur) s"
proof (cases "sz > 0")
  case True
  let ?loop = "array_loop string_source L child"
  note res = array_loop_resumable [OF child, of L "nat sz" "(e, ps, cur)" s]
  show ?thesis
  proof (cases "?loop (nat sz) (e, ps, cur) s")
    case None
    with True show ?thesis by (simp add: resumable_None array_elements_def)
  next
    case (Some r)
    obtain st m e' ps' cur' s' where r: "r = (st, m, (e', ps', cur'), s')" by (cases r) auto
    note more = loop_resumableD [OF res Some [unfolded r]]
    show ?thesis
      using True Some r more array_loop_AGAIN_pos [of string_source L child "nat sz" "(e, ps, cur)" s]
      by (intro resumableI) (auto simp: array_elements_def)
  qed
qed (simp add: resumable_def array_elements_def)

lemma resumable_map_entries:
  assumes child: "\<And>p s. resumable perr child p s"
  shows "resumable fst (map_entries string_source L child) (e, ps, sz, count, key, cur) s"
proof (cases "count > 0")
  case True
  let ?loop = "map_loop string_source L child"
  note res = map_loop_resumable [OF child, of L "nat count" "(e, ps, key, cur)" s]
  show ?thesis
  proof (cases "?loop (nat count) (e, ps, key, cur) s")
    case None
    with True show ?thesis by (simp add: resumable_None map_entries_def)
  next
    case (Some r)
    obtain st m e' ps' key' cur' s' where r: "r = (st, m, (e', ps', key', cur'), s')" by (cases r) auto
    note more = loop_resumableD [OF res Some [unfolded r]]
    show ?thesis
      using True Some r more map_loop_AGAIN_pos [of string_source L child "nat count" "(e, ps, key, cur)" s]
      by (intro resumableI) (auto simp: map_entries_def)
  qed
qed (simp add: resumable_def map_entries_def)

lemma count_header_more:
  "case count_header string_source L m e n s of
     None \<Rightarrow> False
   | Some (Return (AGAIN, e', n')) \<Rightarrow> e' = e \<and> n' = n
   | Some (Return (ERROR, e', n')) \<Rightarrow> too_big e' \<or>
       (\<forall>t. count_header string_source L m e n (s @ t) = Some (Return (ERROR, e', n')))
   | Some (Return (SUCCESS, _, _)) \<Rightarrow> False
   | Some (Count n' s') \<Rightarrow> (\<forall>t. count_header string_source L m e n (s @ t) = Some (Count n' (s' @ t)))"
proof (cases "line_of m s")
  case (Line k)
  then have l: "line_of m (s @ t) = Line k" for t by (rule line_of_Line(3))
  obtain ok n' where v: "simple_atoi L (take (k - 1) (tl s)) = (ok, n')" by fastforce
  with Line show ?thesis by (cases ok) (auto simp: count_header_def l)
qed (auto simp: count_header_def line_of_Bad_magic too_big_def)

lemma resumable_via:
  assumes "resumable er dec q s2" "\<And>t. dec' p (s @ t) = dec q (s2 @ t)"
    "\<And>p' s' u. dec q s2 = Some (AGAIN, p', s') \<Longrightarrow> dec' p' u = dec p' u"
  shows "resumable er dec' p s"
proof (rule resumableI)
  note eq0 = assms(2) [of "[]", simplified]
  fix p' s' t
  show "dec' p s = Some (SUCCESS, p', s') \<Longrightarrow> dec' p (s @ t) = Some (SUCCESS, p', s' @ t)"
    by (simp add: assms(2) eq0 resumable_SUCCESS [OF assms(1)])
  show "dec' p s = Some (ERROR, p', s') \<Longrightarrow> \<not> too_big (er p') \<Longrightarrow> dec' p (s @ t) = Some (ERROR, p', s' @ t)"
    by (simp add: assms(2) eq0 resumable_ERROR [OF assms(1)])
  show "dec' p s = Some (AGAIN, p', s') \<Longrightarrow> dec' p (s @ t) = dec' p' (s' @ t)"
    using assms(3) by (simp add: assms(2) eq0 resumable_AGAIN [OF assms(1)])
qed

lemma array_decode_set:
  "0 < sz \<Longrightarrow> array_decode string_source L child m (e, ty, ps, sz, limit, cur) s
     = array_elements string_source L child (e, ty, ps, sz, limit, cur) s"
  by (cases "nat sz"; cases s) (auto simp: array_decode_def array_elements_def NOT_SET_SIZE_def)

lemma array_elements_AGAIN:
  "array_elements S L child (e, ty, ps, sz, limit, cur) s = Some (AGAIN, (e', ty', ps', sz', limit', cur'), s') \<Longrightarrow> 0 < sz'"
  by (auto simp: array_elements_def bind_eq_Some_conv dest: array_loop_AGAIN_pos split: if_split_asm)

lemma array_elements_via:
  assumes child: "\<And>p s. resumable perr child p s"
    and "\<And>t. array_decode string_source L child m k (s @ t)
       = array_elements string_source L child (e, ty, ps, sz, limit, cur) (s2 @ t)"
  shows "resumable fst (array_decode string_source L child m) k s"
proof (rule resumable_via [where ?s2.0 = s2, OF resumable_array_elements [OF child, where s = s2]])
  show "array_decode string_source L child m k (s @ t)
       = array_elements string_source L child (e, ty, ps, sz, limit, cur) (s2 @ t)" for t by (rule assms(2))
next
  fix p' s' u
  assume a: "array_elements string_source L child (e, ty, ps, sz, limit, cur) s2 = Some (AGAIN, p', s')"
  obtain e' ty' ps' sz' limit' cur' where p': "p' = (e', ty', ps', sz', limit', cur')" by (cases p')
  show "array_decode string_source L child m p' u = array_elements string_source L child p' u"
    using array_elements_AGAIN [OF a [unfolded p']] by (simp add: p' array_decode_set)
qed

lemma resumable_array:
  assumes child: "\<And>p s. resumable perr child p s"
  shows "resumable fst (array_decode string_source L child m) (e, ty, ps, sz, limit, cur) s"
proof (cases "s = []")
  case False
  then have ne: "s @ t \<noteq> []" for t by simp
  show ?thesis
  proof (cases "sz = NOT_SET_SIZE")
    case set: False
    show ?thesis
      by (rule array_elements_via [OF child, where ?s2.0 = s])
        (simp add: array_decode_def set ne del: append_is_Nil_conv)
  next
    case True
    note more = count_header_more [where L = L and m = m and e = e and n = sz and s = s]
    show ?thesis
    proof (cases "count_header string_source L m e sz s")
      case None
      with more show ?thesis by simp
    next
      case (Some h)
      show ?thesis
      proof (cases h)
        case (Return r)
        obtain st e' n' where r: "r = (st, e', n')" by (cases r)
        show ?thesis
          using more Some Return True ne [of "[]"]
          by (cases st) (auto simp: r resumable_def array_decode_def)
      next
        case (Count n' s')
        with more Some have c: "count_header string_source L m e sz (s @ t) = Some (Count n' (s' @ t))" for t
          by simp
        show ?thesis
        proof (cases "limit > 0 \<and> n' > limit")
          case over: True
          have "array_decode string_source L child m (e, ty, ps, sz, limit, cur) (s @ t) = Some (ERROR,
              (''Protocol error: invalid multibulk length'', ty, ps, n', limit, cur), s' @ t)" for t
            using over c [of t] True ne [of t] by (simp add: array_decode_def del: append_is_Nil_conv)
          from this [of "[]"] this show ?thesis by (simp add: resumable_def)
        next
          case under: False
          show ?thesis
            by (rule array_elements_via [OF child, where ?s2.0 = s' and e = e and ps = ps and sz = n'
                  and limit = limit and cur = cur and ty = "if n' < 0 then TYPE_NULL else ty"])
              (use under c True ne in \<open>auto simp: array_decode_def simp del: append_is_Nil_conv\<close>)
        qed
      qed
    qed
  qed
qed (simp add: resumable_def array_decode_def)

lemma map_decode_set:
  "0 < count \<Longrightarrow> sz \<noteq> NOT_SET_SIZE \<Longrightarrow> map_decode3 string_source L child m (e, ps, sz, count, key, cur) s
     = map_entries string_source L child (e, ps, sz, count, key, cur) s"
  by (cases "nat count"; cases s) (auto simp: map_decode3_def map_entries_def)

lemma map_entries_AGAIN:
  "map_entries S L child (e, ps, sz, count, key, cur) s = Some (AGAIN, (e', ps', sz', count', key', cur'), s')
     \<Longrightarrow> 0 < count' \<and> sz' = sz"
  by (auto simp: map_entries_def bind_eq_Some_conv dest: map_loop_AGAIN_pos split: if_split_asm)

lemma map_entries_via:
  assumes child: "\<And>p s. resumable perr child p s" and set: "sz \<noteq> NOT_SET_SIZE"
    and "\<And>t. map_decode3 string_source L child m k (s @ t)
       = map_entries string_source L child (e, ps, sz, count, key, cur) (s2 @ t)"
  shows "resumable fst (map_decode3 string_source L child m) k s"
proof (rule resumable_via [where ?s2.0 = s2, OF resumable_map_entries [OF child, where s = s2]])
  show "map_decode3 string_source L child m k (s @ t)
       = map_entries string_source L child (e, ps, sz, count, key, cur) (s2 @ t)" for t by (rule assms(3))
next
  fix p' s' u
  assume a: "map_entries string_source L child (e, ps, sz, count, key, cur) s2 = Some (AGAIN, p', s')"
  obtain e' ps' sz' count' key' cur' where p': "p' = (e', ps', sz', count', key', cur')" by (cases p')
  show "map_decode3 string_source L child m p' u = map_entries string_source L child p' u"
    using map_entries_AGAIN [OF a [unfolded p']] set by (simp add: p' map_decode_set)
qed

lemma resumable_map:
  assumes child: "\<And>p s. resumable perr child p s"
  shows "resumable fst (map_decode3 string_source L child m) (e, ps, sz, count, key, cur) s"
proof (cases "s = []")
  case False
  then have ne: "s @ t \<noteq> []" for t by simp
  show ?thesis
  proof (cases "sz = NOT_SET_SIZE")
    case set: False
    show ?thesis
      by (rule map_entries_via [OF child set, where ?s2.0 = s])
        (simp add: map_decode3_def set ne del: append_is_Nil_conv)
  next
    case True
    note more = count_header_more [where L = L and m = m and e = e and n = sz and s = s]
    show ?thesis
    proof (cases "count = NOT_SET_SIZE")
      case False
      then show ?thesis
        using True ne [of "[]"] by (simp add: map_decode3_def resumable_None)
    next
      case fresh: True
      show ?thesis
      proof (cases "count_header string_source L m e sz s")
        case None
        with more show ?thesis by simp
      next
        case (Some h)
        show ?thesis
        proof (cases h)
          case (Return r)
          obtain st e' n' where r: "r = (st, e', n')" by (cases r)
          show ?thesis
            using more Some Return True fresh ne [of "[]"]
            by (cases st) (auto simp: r resumable_def map_decode3_def)
        next
          case (Count n' s')
          with more Some have c: "count_header string_source L m e sz (s @ t) = Some (Count n' (s' @ t))" for t
            by simp
          show ?thesis
          proof (cases "n' < 0")
            case neg: True
            have "map_decode3 string_source L child m (e, ps, sz, count, key, cur) (s @ t) = Some (ERROR,
                (''Protocol error: integer format error'', ps, n', count, key, cur), s @ t)" for t
              using neg c [of t] True fresh ne [of t] by (simp add: map_decode3_def del: append_is_Nil_conv)
            from this [of "[]"] this show ?thesis by (simp add: resumable_def)
          next
            case nonneg: False
            show ?thesis
            proof (cases "int64_range (n' * 2)")
              case False
              then show ?thesis
                using nonneg c [of "[]"] True fresh ne [of "[]"] by (simp add: map_decode3_def resumable_None)
            next
              case fit: True
              from nonneg have "n' \<noteq> NOT_SET_SIZE" by (simp add: NOT_SET_SIZE_def)
              then show ?thesis
                by (rule map_entries_via [OF child, where ?s2.0 = s'])
                  (use nonneg fit c True fresh ne in \<open>simp add: map_decode3_def del: append_is_Nil_conv\<close>)
            qed
          qed
        qed
      qed
    qed
  qed
qed (intro resumableI, auto simp: map_decode3_def)

section \<open>All decoders\<close>

lemma resumable_unsupported:
  "(\<And>t. dec p (s @ t) = Some (ERROR, p, s @ t)) \<Longrightarrow> resumable er dec p s"
proof -
  assume e: "\<And>t. dec p (s @ t) = Some (ERROR, p, s @ t)"
  from e [of "[]"] e show ?thesis by (simp add: resumable_def)
qed

lemma resumable_decode: "resumable perr (\<lambda>p s. decode string_source L f ct p s) p s"
proof (induction f arbitrary: p s)
  case (Suc f p s)
  show ?case
  proof (cases p)
    case (ArrayPacket e k t ps n l c)
    let ?sf = "\<lambda>st (e, t, r). if k = Array_class then st else refuse_null t st"
    show ?thesis
    proof (cases "ct = RESP2 \<and> k \<noteq> Array_class")
      case True
      then show ?thesis by (auto simp: ArrayPacket decode.simps(2) intro!: resumable_unsupported)
    next
      case False
      show ?thesis unfolding ArrayPacket
        by (rule resumable_wrap [OF resumable_array [OF Suc.IH, where m = "array_magic k" and L = L
                and e = e and ty = t and ps = ps and sz = n and limit = l and cur = c and s = s],
              where sf = ?sf and mk = "\<lambda>st (e, t, ps, n, l, c). ArrayPacket e k t ps n l c"])
          (use False in \<open>auto simp: decode.simps(2) map_option_case refuse_null_def split: option.splits if_splits\<close>)
    qed
  next
    case (MapPacket e k ps n m c d)
    show ?thesis
    proof (cases "ct = RESP2")
      case True
      then show ?thesis by (auto simp: MapPacket decode.simps(2) intro!: resumable_unsupported)
    next
      case False
      show ?thesis unfolding MapPacket
        by (rule resumable_wrap [OF resumable_map [OF Suc.IH, where m = "map_magic k" and L = L
                and e = e and ps = ps and sz = n and count = m and key = c and cur = d and s = s],
              where sf = "\<lambda>st p. st" and mk = "\<lambda>st (e, ps, n, m, c, d). MapPacket e k ps n m c d"])
          (use False in \<open>auto simp: decode.simps(2) map_option_case split: option.splits\<close>)
    qed
  next
    case (BlobErrorPacket e t l x)
    show ?thesis unfolding BlobErrorPacket
      by (cases "ct = RESP2"; (rule resumable_BlobError; assumption)?; (rule resumable_unsupported; simp add: decode.simps(2))?)
  next
    case (VerbatimStringPacket e t l x y)
    show ?thesis unfolding VerbatimStringPacket
      by (cases "ct = RESP2"; (rule resumable_Verbatim; assumption)?; (rule resumable_unsupported; simp add: decode.simps(2))?)
  qed (simp_all add: resumable_leaf resumable_BulkString resumable_boolean resumable_null)
qed (simp add: resumable_def)

end
