(* ===== verification/RoundTrip.thy ===== *)
theory RoundTrip
  imports Resume
begin

text \<open>
  What a client sees of the reply a server encodes. Under RESP3 a reply arrives as it is; under
  RESP2 the classes RESP2 does not have arrive as the older class that carries them (a map as the
  flat array of its keys and values, a boolean as 0 or 1, and so on). \<open>view\<close> is the packet object
  the decoders leave and \<open>valid\<close> is what a reply must meet for it to survive the trip.
\<close>

section \<open>Views and valid replies\<close>

definition null_bulk_packet :: "'d packet" where
  "null_bulk_packet = BulkStringPacket [] TYPE_NULL (- 1) []"

definition null_array_packet :: "'d packet" where
  "null_array_packet = ArrayPacket [] Array_class TYPE_NULL [] (- 1) 0 None"

definition bulk_packet :: "packet_type \<Rightarrow> bytes \<Rightarrow> 'd packet" where
  "bulk_packet t s = (if t = TYPE_COMMON then BulkStringPacket [] TYPE_COMMON NOT_SET_SIZE s else null_bulk_packet)"

function (sequential) view :: "'d lib \<Rightarrow> codec_type \<Rightarrow> 'd packet \<Rightarrow> 'd packet"
  and view_list :: "'d lib \<Rightarrow> codec_type \<Rightarrow> 'd packet list \<Rightarrow> 'd packet list"
  and view_pairs :: "'d lib \<Rightarrow> codec_type \<Rightarrow> ('d packet \<times> 'd packet) list \<Rightarrow> ('d packet \<times> 'd packet) list"
where
  "view L ct (SimpleStringPacket _ s) = SimpleStringPacket [] s"
| "view L ct (ErrorPacket _ s) = ErrorPacket [] s"
| "view L ct (IntegerPacket _ i) = IntegerPacket [] i"
| "view L ct (BulkStringPacket _ t _ s) = bulk_packet t s"
| "view L ct (BlobErrorPacket _ t _ s) =
     (if ct = RESP2 then ErrorPacket [] (toPrintableStr s) else BlobErrorPacket [] TYPE_COMMON NOT_SET_SIZE s)"
| "view L ct (VerbatimStringPacket _ t _ s x) =
     (if ct = RESP2 then bulk_packet t s
      else VerbatimStringPacket [] TYPE_COMMON NOT_SET_SIZE s (take 3 (verbatim_prefix x)))"
| "view L ct (BigNumberPacket _ s) = (if ct = RESP2 then bulk_packet TYPE_COMMON s else BigNumberPacket [] s)"
| "view L ct (DoublePacket _ d) =
     (if ct = RESP2 then bulk_packet TYPE_COMMON (double_text L d) else DoublePacket [] d)"
| "view L ct (BooleanPacket _ v) = (if ct = RESP2 then IntegerPacket [] (if v then 1 else 0) else BooleanPacket [] v)"
| "view L ct (NullPacket _ ty) =
     (if ct = RESP2 then (if ty = null_bulk then null_bulk_packet else null_array_packet)
      else NullPacket [] null_bulk)"
| "view L ct (ArrayPacket _ k t ps _ _ _) =
     (if t = TYPE_COMMON
      then ArrayPacket [] (if ct = RESP2 then Array_class else k) TYPE_COMMON (view_list L ct ps) 0 0 None
      else null_array_packet)"
| "view L ct (MapPacket _ k ps _ _ _ _) =
     (if ct = RESP2
      then ArrayPacket [] Array_class TYPE_COMMON
             (concat (map (\<lambda>(a, b). [a, b]) (view_pairs L ct ps))) 0 0 None
      else MapPacket [] k (view_pairs L ct ps) (int (length ps)) 0 None None)"
| "view_list L ct [] = []"
| "view_list L ct (p # ps) = view L ct p # view_list L ct ps"
| "view_pairs L ct [] = []"
| "view_pairs L ct ((k, v) # ps) = (view L ct k, view L ct v) # view_pairs L ct ps"
  by pat_completeness auto

termination
  by (relation "measure (case_sum (\<lambda>(L, ct, p). size p)
       (case_sum (\<lambda>(L, ct, ps). size_list size ps)
                 (\<lambda>(L, ct, ps). size_list (size_prod size size) ps)))") auto

definition one_line :: "bytes \<Rightarrow> bool" where
  "one_line s \<longleftrightarrow> find_crlf s = None"

fun valid_node :: "'d lib \<Rightarrow> codec_type \<Rightarrow> 'd packet \<Rightarrow> bool" where
  "valid_node L ct (SimpleStringPacket _ s) \<longleftrightarrow> one_line s"
| "valid_node L ct (ErrorPacket _ s) \<longleftrightarrow> one_line s"
| "valid_node L ct (BulkStringPacket _ t _ s) \<longleftrightarrow> length s \<le> max_bulk_len L"
| "valid_node L ct (BlobErrorPacket _ t _ s) \<longleftrightarrow> ct \<noteq> RESP2 \<longrightarrow> t = TYPE_COMMON \<and> length s \<le> max_bulk_len L"
| "valid_node L ct (VerbatimStringPacket _ t _ s _) \<longleftrightarrow> length s + 4 \<le> max_bulk_len L"
| "valid_node L ct (BigNumberPacket _ s) \<longleftrightarrow>
     (if ct = RESP2 then length s \<le> max_bulk_len L else s \<noteq> [] \<and> one_line s)"
| "valid_node L ct (DoublePacket _ d) \<longleftrightarrow>
     (if ct = RESP2 then length (double_text L d) \<le> max_bulk_len L
      else double_text L d \<noteq> [] \<and> one_line (double_text L d) \<and> string2ld L (double_text L d) = Some d)"
| "valid_node L ct (ArrayPacket _ k t _ _ _ _) \<longleftrightarrow> ct \<noteq> RESP2 \<longrightarrow> t = TYPE_NULL \<longrightarrow> k = Array_class"
| "valid_node L ct _ \<longleftrightarrow> True"

definition valid :: "'d lib \<Rightarrow> codec_type \<Rightarrow> 'd packet \<Rightarrow> bool" where
  "valid L ct = every (\<lambda>p. valid_node L ct p \<and> fits L p)"

section \<open>Decoding a line\<close>

lemma createPacket_magic [simp]:
  "createPacket L (CHR ''*'') = Some (ArrayPacket [] Array_class TYPE_COMMON [] NOT_SET_SIZE 0 None)"
  "createPacket L (CHR ''$'') = Some (BulkStringPacket [] TYPE_COMMON NOT_SET_SIZE [])"
  "createPacket L (CHR ''+'') = Some (SimpleStringPacket [] [])"
  "createPacket L (CHR ''-'') = Some (ErrorPacket [] [])"
  "createPacket L (CHR '':'') = Some (IntegerPacket [] 0)"
  "createPacket L (CHR ''_'') = Some (NullPacket [] null_bulk)"
  "createPacket L (CHR '','') = Some (DoublePacket [] (ld_of_0 L))"
  "createPacket L (CHR ''#'') = Some (BooleanPacket [] False)"
  "createPacket L (CHR ''!'') = Some (BlobErrorPacket [] TYPE_COMMON NOT_SET_SIZE [])"
  "createPacket L (CHR ''='') = Some (VerbatimStringPacket [] TYPE_COMMON NOT_SET_SIZE [] [])"
  "createPacket L (CHR ''('') = Some (BigNumberPacket [] [])"
  "createPacket L (map_magic mk) = Some (MapPacket [] mk [] NOT_SET_SIZE NOT_SET_SIZE None None)"
  "createPacket L (array_magic k) = Some (ArrayPacket [] k TYPE_COMMON [] NOT_SET_SIZE 0 None)"
  by (cases mk; cases k; simp add: createPacket.simps)+

lemma line_of_wire [simp]: "one_line s \<Longrightarrow> line_of m (m # s @ CR # LF # r) = Line (Suc (length s))"
  by (simp add: line_of_def one_line_def find_crlf_line)

lemma one_line_no_CR: "CR \<notin> set s \<Longrightarrow> one_line s"
  by (simp add: one_line_def find_crlf_None_no_CR)

context resp_lib
begin

lemma one_line_fmt [simp]: "one_line (fmt_int L i)"
  by (simp add: one_line_no_CR fmt_no_CR)

lemma one_line_minus_one [simp]: "one_line ''-1''"
  by (simp add: one_line_def)

lemma line_of_minus_one [simp]: "line_of m (m # CHR ''-'' # CHR ''1'' # CR # LF # r) = Line 3"
  using line_of_wire [OF one_line_minus_one, of m r] by simp

lemma fmt_pos [simp]: "fmt_int L i \<noteq> []" "0 < length (fmt_int L i)"
  using fmt_nonempty by auto

lemma bulk_decode_wire:
  assumes "length s \<le> max_bulk_len L" "int64_range (int (length s))"
  shows "bulk_decode string_source L m ([], TYPE_COMMON, NOT_SET_SIZE, []) (bulk_wire L m t s @ r) =
    Some (SUCCESS, if t = TYPE_COMMON then ([], TYPE_COMMON, NOT_SET_SIZE, s) else ([], TYPE_NULL, - 1, []), r)"
  using assms fmt_pos
  by (cases t) (simp_all add: bulk_wire_def bulk_decode_def bulk_header_def bulk_body_def atoi_fmt atoi_minus_one
      nat_add_distrib)

text \<open>Reading one reply off the input.\<close>

definition reads :: "nat \<Rightarrow> codec_type \<Rightarrow> bytes \<Rightarrow> 'd packet \<Rightarrow> bool" where
  "reads f ct w v \<longleftrightarrow> w \<noteq> [] \<and> (\<exists>c. createPacket L (hd w) = Some c \<and>
     (\<forall>r. decode string_source L f ct c (w @ r) = Some (SUCCESS, v, r)))"

lemma array_loop_reads:
  assumes "reads f ct w v"
  shows "array_loop string_source L (decode string_source L f ct) (Suc n) (e, acc, None) (w @ r)
           = array_loop string_source L (decode string_source L f ct) n (e, acc @ [v], None) r"
  using assms by (auto simp: reads_def)

lemma map_loop_reads:
  assumes "reads f ct w v" "reads f ct w' v'"
  shows "map_loop string_source L (decode string_source L f ct) (Suc (Suc n)) (e, acc, None, None) (w @ w' @ r)
           = map_loop string_source L (decode string_source L f ct) n (e, acc @ [(v, v')], None, None) r"
  using assms by (auto simp: reads_def)

lemma reads_line:
  "one_line s \<Longrightarrow> reads (Suc g) ct (CHR ''+'' # s @ CRLF) (SimpleStringPacket [] s)"
  "one_line s \<Longrightarrow> reads (Suc g) ct (CHR ''-'' # s @ CRLF) (ErrorPacket [] s)"
  "int64_range i \<Longrightarrow> reads (Suc g) ct (CHR '':'' # fmt_int L i @ CRLF) (IntegerPacket [] i)"
  by (simp_all add: reads_def decode.simps(2) simple_string_decode_def error_decode_def integer_decode_def atoi_fmt)

lemma reads_line3:
  assumes "ct \<noteq> RESP2"
  shows "one_line s \<Longrightarrow> s \<noteq> [] \<Longrightarrow> reads (Suc g) ct (CHR ''('' # s @ CRLF) (BigNumberPacket [] s)"
    "one_line s \<Longrightarrow> s \<noteq> [] \<Longrightarrow> string2ld L s = Some d \<Longrightarrow> reads (Suc g) ct (CHR '','' # s @ CRLF) (DoublePacket [] d)"
    "reads (Suc g) ct (CHR ''#'' # (if v then CHR ''t'' else CHR ''f'') # CRLF) (BooleanPacket [] v)"
    "reads (Suc g) ct (CHR ''_'' # CRLF) (NullPacket [] null_bulk)"
  using assms
  by (simp_all add: reads_def decode.simps(2) big_number_decode3_def double_decode3_def boolean_decode3_def null_decode3_def)

lemma bulk_wire_ne [simp]: "bulk_wire L m t s \<noteq> []" "hd (bulk_wire L m t s) = m"
  by (simp_all add: bulk_wire_def)

lemma reads_bulk:
  assumes "length s \<le> max_bulk_len L" "int64_range (int (length s))"
  shows "reads (Suc g) ct (bulk_wire L (CHR ''$'') t s) (bulk_packet t s)"
    "ct \<noteq> RESP2 \<Longrightarrow> t = TYPE_COMMON \<Longrightarrow>
       reads (Suc g) ct (bulk_wire L (CHR ''!'') t s) (BlobErrorPacket [] TYPE_COMMON NOT_SET_SIZE s)"
  using assms
  by (auto simp: reads_def decode.simps(2) bulk_decode_wire bulk_packet_def null_bulk_packet_def
      blob_error_decode3_def refuse_null_def)

lemma reads_verbatim:
  assumes "length s + 4 \<le> max_bulk_len L" "int64_range (int (length s) + 4)" "ct \<noteq> RESP2"
  shows "reads (Suc g) ct (CHR ''='' # fmt_int L (int (length s) + 4) @ CRLF @ verbatim_prefix x @ s @ CRLF)
           (VerbatimStringPacket [] TYPE_COMMON NOT_SET_SIZE s (take 3 (verbatim_prefix x)))"
proof -
  obtain a b c d where v: "verbatim_prefix x = [a, b, c, d]"
  proof -
    have "length (verbatim_prefix x) = 4" by (rule length_verbatim_prefix)
    then show ?thesis using that
      by (cases "verbatim_prefix x"; cases "tl (verbatim_prefix x)"; cases "tl (tl (verbatim_prefix x))";
          cases "tl (tl (tl (verbatim_prefix x)))") auto
  qed
  have w: "CHR ''='' # fmt_int L (int (length s) + 4) @ CRLF @ verbatim_prefix x @ s @ CRLF
             = bulk_wire L (CHR ''='') TYPE_COMMON ([a, b, c, d] @ s)"
    by (simp add: bulk_wire_def v add.commute)
  show ?thesis
    unfolding w using assms bulk_decode_wire [of "[a, b, c, d] @ s" "CHR ''=''" TYPE_COMMON]
    by (simp add: reads_def decode.simps(2) verbatim_decode3_def v add.commute)
qed

lemma reads_null:
  "reads (Suc g) ct (CHR ''$'' # ''-1'' @ CRLF) null_bulk_packet"
  "reads (Suc g) ct (CHR ''*'' # ''-1'' @ CRLF) null_array_packet"
  by (simp_all add: reads_def decode.simps(2) bulk_decode_def bulk_header_def atoi_minus_one null_bulk_packet_def
      null_array_packet_def array_decode_def count_header_def array_elements_def)

lemma decode_wire_leaf:
  assumes "valid_node L ct p" "fits L p" "depth p = 0" "0 < f"
  shows "reads f ct (wire L ct p) (view L ct p)"
proof -
  from assms(4) obtain g where f: "f = Suc g" by (cases f) auto
  show ?thesis
    unfolding f using assms(1-3)
    by (cases p; cases "ct = RESP2")
      (simp_all add: reads_line reads_line3 reads_bulk
        reads_verbatim [simplified] reads_null [simplified] one_line_no_CR toPrintableStr_no_CR)
qed

lemma array_decode_wire:
  assumes "int64_range (int n)"
    "\<And>r. array_loop string_source L child n ([], [], None) (w @ r) = Some (SUCCESS, 0, ([], vs, None), r)"
  shows "array_decode string_source L child m ([], TYPE_COMMON, [], NOT_SET_SIZE, 0, None)
           (m # fmt_int L (int n) @ CRLF @ w @ r) = Some (SUCCESS, ([], TYPE_COMMON, vs, 0, 0, None), r)"
  using assms(1) assms(2) [of r] fmt_pos [of "int n"]
  by (cases "n = 0") (auto simp: array_decode_def count_header_def array_elements_def atoi_fmt)

lemma map_decode_wire:
  assumes "int64_range (int n * 2)"
    "\<And>r. map_loop string_source L child (2 * n) ([], [], None, None) (w @ r) = Some (SUCCESS, 0, ([], vs, None, None), r)"
  shows "map_decode3 string_source L child m ([], [], NOT_SET_SIZE, NOT_SET_SIZE, None, None)
           (m # fmt_int L (int n) @ CRLF @ w @ r) = Some (SUCCESS, ([], vs, int n, 0, None, None), r)"
  using assms(1) assms(2) [of r] fmt_pos [of "int n"]
  by (cases "n = 0") (auto simp: map_decode3_def count_header_def map_entries_def atoi_fmt nat_mult_distrib mult.commute)

lemma reads_array:
  assumes "int64_range (int n)" "ct = RESP2 \<longrightarrow> k = Array_class"
    "\<And>r. array_loop string_source L (decode string_source L g ct) n ([], [], None) (w @ r)
       = Some (SUCCESS, 0, ([], vs, None), r)"
  shows "reads (Suc g) ct (array_magic k # fmt_int L (int n) @ CRLF @ w)
           (ArrayPacket [] k TYPE_COMMON vs 0 0 None)"
  using assms(2) array_decode_wire [OF assms(1,3), where m = "array_magic k"]
  by (auto simp: reads_def decode.simps(2) refuse_null_def)

lemma reads_map:
  assumes "int64_range (int n * 2)" "ct \<noteq> RESP2"
    "\<And>r. map_loop string_source L (decode string_source L g ct) (2 * n) ([], [], None, None) (w @ r)
       = Some (SUCCESS, 0, ([], vs, None, None), r)"
  shows "reads (Suc g) ct (map_magic k # fmt_int L (int n) @ CRLF @ w)
           (MapPacket [] k vs (int n) 0 None None)"
  using assms(2) map_decode_wire [OF assms(1,3), where m = "map_magic k"]
  by (auto simp: reads_def decode.simps(2))

definition good :: "codec_type \<Rightarrow> 'd packet \<Rightarrow> bool" where
  "good ct p \<longleftrightarrow> valid_node L ct p \<and> fits L p"

lemma decode_wire_all:
  "every (good ct) p \<Longrightarrow> depth p < f \<Longrightarrow> reads f ct (wire L ct p) (view L ct p)"
  "every_list (good ct) ps \<Longrightarrow> depth_list ps < f \<Longrightarrow>
     array_loop string_source L (decode string_source L f ct) (length ps) (e, acc, None) (wire_list L ct ps @ r)
       = Some (SUCCESS, 0, (e, acc @ view_list L ct ps, None), r)"
  "every_pair (good ct) prs \<Longrightarrow> depth_pairs prs < f \<Longrightarrow>
     array_loop string_source L (decode string_source L f ct) (2 * length prs) (e, acc, None) (wire_pairs L ct prs @ r)
       = Some (SUCCESS, 0, (e, acc @ concat (map (\<lambda>(a, b). [a, b]) (view_pairs L ct prs)), None), r) \<and>
     map_loop string_source L (decode string_source L f ct) (2 * length prs) (e, acc2, None, None) (wire_pairs L ct prs @ r)
       = Some (SUCCESS, 0, (e, acc2 @ view_pairs L ct prs, None, None), r)"
proof (induction p and ps and prs arbitrary: f and f e acc r and f e acc acc2 r rule: packet_induct)
  case (1 er k t ps n l c)
  then obtain g where f: "f = Suc g" by (cases f) auto
  show ?case
  proof (cases "t = TYPE_COMMON")
    case True
    have "array_loop string_source L (decode string_source L g ct) (length ps) ([], [], None) (wire_list L ct ps @ r)
       = Some (SUCCESS, 0, ([], view_list L ct ps, None), r)" for r
      using 1 f by simp
    with True 1(2) f show ?thesis
      using reads_array [of "length ps" ct "if ct = RESP2 then Array_class else k" g "wire_list L ct ps" "view_list L ct ps"]
      by (auto simp: good_def)
  next
    case False
    then have "t = TYPE_NULL" by (cases t) auto
    with 1(2) f show ?thesis
      using reads_null(2) [of g ct] by (auto simp: good_def split: if_splits)
  qed
next
  case (2 er k ps n m c d)
  then obtain g where f: "f = Suc g" by (cases f) auto
  show ?case
  proof (cases "ct = RESP2")
    case True
    have "array_loop string_source L (decode string_source L g ct) (length ps * 2) ([], [], None) (wire_pairs L ct ps @ r)
       = Some (SUCCESS, 0, ([], concat (map (\<lambda>(a, b). [a, b]) (view_pairs L ct ps)), None), r)" for r
      using 2 f by (simp add: mult.commute)
    with True 2(2) show ?thesis
      using reads_array [of "length ps * 2" ct Array_class g "wire_pairs L ct ps"]
      by (simp add: f good_def)
  next
    case False
    have "map_loop string_source L (decode string_source L g ct) (2 * length ps) ([], [], None, None) (wire_pairs L ct ps @ r)
       = Some (SUCCESS, 0, ([], view_pairs L ct ps, None, None), r)" for r
      using 2 f by simp
    with False 2(2) show ?thesis
      using reads_map [of "length ps" ct g "wire_pairs L ct ps" "view_pairs L ct ps" k]
      by (simp add: f good_def)
  qed
next
  case (5 p ps)
  then show ?case
    using array_loop_reads [of f ct "wire L ct p" "view L ct p"]
    by (simp del: array_loop.simps)
next
  case (7 k v ps)
  have "array_loop string_source L (decode string_source L f ct) (Suc (Suc m)) (e, acc, None) (wire L ct k @ wire L ct v @ r)
      = array_loop string_source L (decode string_source L f ct) m (e, acc @ [view L ct k, view L ct v], None) r" for m acc r
    using 7 array_loop_reads [of f ct "wire L ct k" "view L ct k" "Suc m" e acc "wire L ct v @ r"]
      array_loop_reads [of f ct "wire L ct v" "view L ct v" m e "acc @ [view L ct k]" r]
    by (simp del: array_loop.simps)
  with 7 show ?case
    using map_loop_reads [of f ct "wire L ct k" "view L ct k" "wire L ct v" "view L ct v"]
    by (simp del: array_loop.simps map_loop.simps)
qed (auto simp: good_def intro!: decode_wire_leaf simp del: wire.simps view.simps)

end

end
