(* ===== verification/NoFault.thy ===== *)
theory NoFault
  imports Resume "HOL-Library.Sublist"
begin

text \<open>
  Whatever bytes arrive, decoding a reply returns: the decoders of packet objects made by the
  factory, and of those a decoder left at \<open>AGAIN\<close>, do not fault, if no map announces a count that
  overflows when it is doubled and there is stack for one call more than bytes to come: every level
  of nesting costs bytes of input, but nothing else limits it.
\<close>

section \<open>Counts that double\<close>

text \<open>The input starts with the header of a map of \<open>2 ^ 62\<close> entries or more.\<close>

definition huge_count :: "'d lib \<Rightarrow> bytes \<Rightarrow> bool" where
  "huge_count L s \<longleftrightarrow> s \<noteq> [] \<and> (hd s = map_magic Map_class \<or> hd s = map_magic Attribute_class) \<and>
     (case find_crlf (tl s) of
        None \<Rightarrow> False
      | Some j \<Rightarrow> (case simple_atoi L (take j (tl s)) of (ok, n) \<Rightarrow> ok \<and> 2 ^ 62 \<le> n))"

fun small_maps :: "'d lib \<Rightarrow> bytes \<Rightarrow> bool" where
  "small_maps L [] \<longleftrightarrow> True"
| "small_maps L (c # s) \<longleftrightarrow> \<not> huge_count L (c # s) \<and> small_maps L s"

text \<open>RESP2 has no maps.\<close>

definition defined_counts :: "codec_type \<Rightarrow> 'd lib \<Rightarrow> bytes \<Rightarrow> bool" where
  "defined_counts ct L s \<longleftrightarrow> ct = RESP2 \<or> small_maps L s"

lemma defined_counts_drop: "defined_counts ct L s \<Longrightarrow> defined_counts ct L (drop n s)"
proof -
  have "small_maps L s \<Longrightarrow> small_maps L (drop n s)"
    by (induction s arbitrary: n) (auto simp: drop_Cons split: nat.split)
  then show "defined_counts ct L s \<Longrightarrow> defined_counts ct L (drop n s)" by (auto simp: defined_counts_def)
qed

lemma defined_counts_suffix: "suffix s' s \<Longrightarrow> defined_counts ct L s \<Longrightarrow> defined_counts ct L s'"
  by (metis defined_counts_drop suffix_def append_eq_conv_conj)

section \<open>Runs that satisfy a property\<close>

text \<open>\<open>run_ok t m Q\<close>: a result of \<open>m\<close> satisfies \<open>Q\<close>, and if \<open>t\<close> then \<open>m\<close> has one.\<close>

definition run_ok :: "bool \<Rightarrow> 'a option \<Rightarrow> ('a \<Rightarrow> bool) \<Rightarrow> bool" where
  "run_ok t m Q \<longleftrightarrow> (case m of None \<Rightarrow> \<not> t | Some r \<Rightarrow> Q r)"

lemma run_ok_simps [simp]:
  "run_ok t (Some r) Q = Q r" "run_ok t None Q = (\<not> t)"
  "run_ok t (Option.bind m f) Q = run_ok t m (\<lambda>x. run_ok t (f x) Q)"
  by (simp_all add: run_ok_def split: Option.bind_split)

lemma run_ok_mono: "run_ok t m Q \<Longrightarrow> (\<And>r. m = Some r \<Longrightarrow> Q r \<Longrightarrow> R r) \<Longrightarrow> run_ok t m R"
  by (cases m) simp_all

lemma run_ok_iff: "run_ok t m Q \<longleftrightarrow> (t \<longrightarrow> m \<noteq> None) \<and> (\<forall>r. m = Some r \<longrightarrow> Q r)"
  by (cases m) auto

lemma run_ok_wp: "run_ok True m Q = wp m Q" "wp m Q \<Longrightarrow> run_ok t m Q"
  by (cases m; simp)+

section \<open>Packet objects a decoder may be called on\<close>

fun ready :: "'d packet \<Rightarrow> bool" where
  "ready (BulkStringPacket _ _ l _) \<longleftrightarrow> l = NOT_SET_SIZE \<or> 0 \<le> l"
| "ready (BlobErrorPacket _ _ l _) \<longleftrightarrow> l = NOT_SET_SIZE \<or> 0 \<le> l"
| "ready (VerbatimStringPacket _ _ l _ _) \<longleftrightarrow> l = NOT_SET_SIZE \<or> 0 \<le> l"
| "ready (ArrayPacket _ _ _ _ n _ cur) \<longleftrightarrow>
     (case cur of None \<Rightarrow> n = NOT_SET_SIZE \<or> 0 < n | Some c \<Rightarrow> 0 < n \<and> ready c)"
| "ready (MapPacket _ _ _ n m _ cur) \<longleftrightarrow>
     (case cur of None \<Rightarrow> n = NOT_SET_SIZE \<and> m = NOT_SET_SIZE \<or> n \<noteq> NOT_SET_SIZE \<and> 0 < m
      | Some c \<Rightarrow> n \<noteq> NOT_SET_SIZE \<and> 0 < m \<and> ready c)"
| "ready _ \<longleftrightarrow> True"

text \<open>How many levels below an object are already open.\<close>

fun open_levels :: "'d packet \<Rightarrow> nat" where
  "open_levels (ArrayPacket _ _ _ _ n _ cur) =
     (if n = NOT_SET_SIZE then 0 else Suc (case cur of None \<Rightarrow> 0 | Some c \<Rightarrow> open_levels c))"
| "open_levels (MapPacket _ _ _ n _ _ cur) =
     (if n = NOT_SET_SIZE then 0 else Suc (case cur of None \<Rightarrow> 0 | Some c \<Rightarrow> open_levels c))"
| "open_levels _ = 0"

lemma createPacket_ready:
  "createPacket L ch = Some p \<Longrightarrow> ready p \<and> open_levels p = 0"
  by (auto simp: createPacket.simps split: if_split_asm)

text \<open>What a decoder called on \<open>p\<close> with input \<open>s\<close> ensures.\<close>

definition outcome :: "'d packet \<Rightarrow> bytes \<Rightarrow> dstate \<times> 'd packet \<times> bytes \<Rightarrow> bool" where
  "outcome p s = (\<lambda>(st, p', s').
     suffix s' s \<and> (st = SUCCESS \<longrightarrow> length s' < length s) \<and>
     (st = AGAIN \<longrightarrow> ready p' \<and> open_levels p' + length s' \<le> open_levels p + length s))"

declare suffix_drop [simp]

section \<open>Leaf classes\<close>

lemma drop_line_less [simp]: "line_of m s = Line k \<Longrightarrow> length s - Suc (Suc k) < length s"
  using line_of_Line(2) [of m s k] by simp

lemma simple_string_outcome: "wp (simple_string_decode string_source e x s) (outcome (SimpleStringPacket e x) s)"
  by (simp add: simple_string_decode_def outcome_def split: line.split)

lemma error_outcome: "wp (error_decode string_source e x s) (outcome (ErrorPacket e x) s)"
  by (simp add: error_decode_def outcome_def split: line.split)

lemma integer_outcome: "wp (integer_decode string_source L e i s) (outcome (IntegerPacket e i) s)"
  by (simp add: integer_decode_def outcome_def split: line.split prod.split bool.split)

lemma big_number_outcome: "wp (big_number_decode3 string_source e x s) (outcome (BigNumberPacket e x) s)"
  by (simp add: big_number_decode3_def outcome_def split: line.split)

lemma double_outcome: "wp (double_decode3 string_source L e d s) (outcome (DoublePacket e d) s)"
  by (simp add: double_decode3_def outcome_def split: line.split option.split)

lemma boolean_outcome: "wp (boolean_decode3 string_source e v s) (outcome (BooleanPacket e v) s)"
  by (cases "s = []") (auto simp: boolean_decode3_def outcome_def)

lemma null_outcome: "wp (null_decode3 string_source e ty s) (outcome (NullPacket e ty) s)"
  by (cases "s = []") (auto simp: null_decode3_def outcome_def)

lemmas leaf_outcome = simple_string_outcome error_outcome integer_outcome big_number_outcome
  double_outcome boolean_outcome null_outcome

definition bulk_outcome :: "bytes \<Rightarrow> dstate \<times> bulk \<times> bytes \<Rightarrow> bool" where
  "bulk_outcome s = (\<lambda>(st, (e, ty, l, x), s').
     suffix s' s \<and> (st = SUCCESS \<longrightarrow> length s' < length s) \<and>
     (st = AGAIN \<longrightarrow> l = NOT_SET_SIZE \<or> 0 \<le> l))"

lemma bulk_outcome:
  assumes "l = NOT_SET_SIZE \<or> 0 \<le> l"
  shows "wp (bulk_decode string_source L m (e, ty, l, x) s) (bulk_outcome s)"
proof (cases "line_of m s")
  case (Line k)
  note k = line_of_Line(1,2) [OF this]
  show ?thesis
    using assms Line k
    by (auto simp: bulk_decode_def bulk_header_def bulk_body_def bulk_outcome_def nat_add_distrib
        split: prod.splits bool.splits)
qed (use assms in \<open>auto simp: bulk_decode_def bulk_header_def bulk_body_def bulk_outcome_def nat_add_distrib line_of_Nothing\<close>)

section \<open>Aggregates\<close>

definition levels_opt :: "'d packet option \<Rightarrow> nat" where
  "levels_opt cur = (case cur of None \<Rightarrow> 0 | Some c \<Rightarrow> open_levels c)"

definition ready_opt :: "'d packet option \<Rightarrow> bool" where
  "ready_opt cur = (case cur of None \<Rightarrow> True | Some c \<Rightarrow> ready c)"

lemma opt_simps [simp]:
  "levels_opt None = 0" "levels_opt (Some c) = open_levels c" "ready_opt None" "ready_opt (Some c) = ready c"
  by (simp_all add: levels_opt_def ready_opt_def)

text \<open>What the loops ensure: \<open>cur\<close> before, \<open>cur'\<close> and the count \<open>m\<close> after.\<close>

definition loop_outcome :: "'d packet option \<Rightarrow> nat \<Rightarrow> bytes \<Rightarrow> dstate \<Rightarrow> nat \<Rightarrow> 'd packet option \<Rightarrow> bytes \<Rightarrow> bool" where
  "loop_outcome cur n s st m cur' s' \<longleftrightarrow>
     suffix s' s \<and> (st = SUCCESS \<longrightarrow> 0 < n \<longrightarrow> length s' < length s) \<and>
     (st = AGAIN \<longrightarrow> 0 < m \<and> ready_opt cur' \<and> levels_opt cur' + length s' \<le> levels_opt cur + length s)"

lemma loop_outcome_step:
  "loop_outcome None n s2 st m cur' s' \<Longrightarrow> suffix s2 s \<Longrightarrow> length s2 < length s \<Longrightarrow> loop_outcome cur (Suc n) s st m cur' s'"
  by (auto simp: loop_outcome_def dest: suffix_length_le intro: suffix_order.trans)

text \<open>What the loops need of the virtual decode method of the elements.\<close>

definition child_ok :: "bool \<Rightarrow> nat \<Rightarrow> codec_type \<Rightarrow> 'd lib \<Rightarrow> ('d, bytes) decoder \<Rightarrow> bool" where
  "child_ok t f ct L child \<longleftrightarrow> (\<forall>c s. ready c \<longrightarrow> (t \<longrightarrow> open_levels c + length s < f \<and> defined_counts ct L s) \<longrightarrow>
     run_ok t (child c s) (outcome c s))"

lemma child_okD:
  "child_ok t f ct L child \<Longrightarrow> ready c \<Longrightarrow> (t \<Longrightarrow> open_levels c + length s < f \<and> defined_counts ct L s) \<Longrightarrow>
   run_ok t (child c s) (outcome c s)"
  by (auto simp: child_ok_def)

text \<open>After an element what is left is shorter and as well behaved.\<close>

lemma loop_child_done:
  assumes "outcome c s (SUCCESS, c', s')" "t \<Longrightarrow> levels_opt cur + length s < f \<and> defined_counts ct L s"
  shows "suffix s' s" "length s' < length s" "t \<Longrightarrow> length s' < f \<and> defined_counts ct L s'"
  using assms by (auto simp: outcome_def intro: defined_counts_suffix)

lemma array_loop_outcome:
  assumes child: "child_ok t f ct L child"
  shows "ready_opt cur \<Longrightarrow> (t \<Longrightarrow> levels_opt cur + length s < f \<and> defined_counts ct L s) \<Longrightarrow>
    run_ok t (array_loop string_source L child n (e, ps, cur) s)
       (\<lambda>(st, m, (e', ps', cur'), s'). loop_outcome cur n s st m cur' s')"
proof (induction n arbitrary: ps cur s)
  case (Suc n)
  show ?case
  proof (cases "s = []")
    case True
    with Suc.prems show ?thesis by (simp add: loop_outcome_def)
  next
    case s: False
    show ?thesis
    proof (cases "case cur of None \<Rightarrow> createPacket L (hd s) | Some c \<Rightarrow> Some c")
      case None
      with s show ?thesis by (simp add: loop_outcome_def)
    next
      case (Some c)
      with Suc.prems createPacket_ready [of L "hd s" c] have c: "ready c" "open_levels c = levels_opt cur"
        by (auto split: option.splits)
      with Suc.prems have "run_ok t (child c s) (outcome c s)" by (auto intro!: child_okD [OF child])
      then have "run_ok t (child c s) (\<lambda>(st, c', s'). run_ok t (case st of
             SUCCESS \<Rightarrow> array_loop string_source L child n (e, ps @ [c'], None) s'
           | ERROR \<Rightarrow> Some (ERROR, Suc n, (perr c', ps, None), s')
           | AGAIN \<Rightarrow> Some (AGAIN, Suc n, (e, ps, Some c'), s'))
             (\<lambda>(st, m, (e', ps', cur'), s'). loop_outcome cur (Suc n) s st m cur' s'))"
      proof (rule run_ok_mono)
        fix r
        assume "child c s = Some r" "outcome c s r"
        moreover obtain st c' s' where r: "r = (st, c', s')" by (cases r)
        ultimately have o: "outcome c s (st, c', s')" by simp
        show "(\<lambda>(st, c', s'). run_ok t (case st of
             SUCCESS \<Rightarrow> array_loop string_source L child n (e, ps @ [c'], None) s'
           | ERROR \<Rightarrow> Some (ERROR, Suc n, (perr c', ps, None), s')
           | AGAIN \<Rightarrow> Some (AGAIN, Suc n, (e, ps, Some c'), s'))
             (\<lambda>(st, m, (e', ps', cur'), s'). loop_outcome cur (Suc n) s st m cur' s')) r"
        proof (cases st)
          case SUCCESS
          note l = loop_child_done [OF o [unfolded SUCCESS] Suc.prems(2)]
          with Suc.IH [of None s' "ps @ [c']"] show ?thesis
            by (auto simp: r SUCCESS elim!: run_ok_mono intro: loop_outcome_step)
        qed (use o c in \<open>auto simp: r outcome_def loop_outcome_def\<close>)
      qed
      with s Some show ?thesis by (simp add: case_prod_unfold)
    qed
  qed
qed (simp add: loop_outcome_def)

lemma map_loop_outcome:
  assumes child: "child_ok t f ct L child"
  shows "ready_opt cur \<Longrightarrow> (t \<Longrightarrow> levels_opt cur + length s < f \<and> defined_counts ct L s) \<Longrightarrow>
    run_ok t (map_loop string_source L child n (e, ps, key, cur) s)
       (\<lambda>(st, m, (e', ps', key', cur'), s'). loop_outcome cur n s st m cur' s')"
proof (induction n arbitrary: ps key cur s)
  case (Suc n)
  show ?case
  proof (cases "s = []")
    case True
    with Suc.prems show ?thesis by (simp add: loop_outcome_def)
  next
    case s: False
    show ?thesis
    proof (cases "case cur of None \<Rightarrow> createPacket L (hd s) | Some c \<Rightarrow> Some c")
      case None
      with s show ?thesis by (simp add: loop_outcome_def)
    next
      case (Some c)
      with Suc.prems createPacket_ready [of L "hd s" c] have c: "ready c" "open_levels c = levels_opt cur"
        by (auto split: option.splits)
      with Suc.prems have "run_ok t (child c s) (outcome c s)" by (auto intro!: child_okD [OF child])
      then have "run_ok t (child c s) (\<lambda>(st, c', s'). run_ok t (case st of
             SUCCESS \<Rightarrow> map_loop string_source L child n (case key of None \<Rightarrow> (e, ps, Some c', None) | Some k \<Rightarrow> (e, ps @ [(k, c')], None, None)) s'
           | ERROR \<Rightarrow> Some (ERROR, Suc n, (perr c', ps, None, None), s')
           | AGAIN \<Rightarrow> Some (AGAIN, Suc n, (e, ps, key, Some c'), s'))
             (\<lambda>(st, m, (e', ps', key', cur'), s'). loop_outcome cur (Suc n) s st m cur' s'))"
      proof (rule run_ok_mono)
        fix r
        assume "child c s = Some r" "outcome c s r"
        moreover obtain st c' s' where r: "r = (st, c', s')" by (cases r)
        ultimately have o: "outcome c s (st, c', s')" by simp
        show "(\<lambda>(st, c', s'). run_ok t (case st of
             SUCCESS \<Rightarrow> map_loop string_source L child n (case key of None \<Rightarrow> (e, ps, Some c', None) | Some k \<Rightarrow> (e, ps @ [(k, c')], None, None)) s'
           | ERROR \<Rightarrow> Some (ERROR, Suc n, (perr c', ps, None, None), s')
           | AGAIN \<Rightarrow> Some (AGAIN, Suc n, (e, ps, key, Some c'), s'))
             (\<lambda>(st, m, (e', ps', key', cur'), s'). loop_outcome cur (Suc n) s st m cur' s')) r"
        proof (cases st)
          case SUCCESS
          note l = loop_child_done [OF o [unfolded SUCCESS] Suc.prems(2)]
          then have ih: "run_ok t (map_loop string_source L child n (e, ps', key', None) s')
              (\<lambda>(st, m, (e', ps', key', cur'), s'). loop_outcome cur (Suc n) s st m cur' s')" for ps' key'
            using Suc.IH [of None s' ps' key'] by (auto elim!: run_ok_mono intro: loop_outcome_step)
          show ?thesis by (cases key) (simp_all add: r SUCCESS ih)
        qed (use o c in \<open>auto simp: r outcome_def loop_outcome_def\<close>)
      qed
      with s Some show ?thesis by (simp add: case_prod_unfold)
    qed
  qed
qed (simp add: loop_outcome_def)


definition header_outcome :: "bytes \<Rightarrow> bytes \<Rightarrow> int \<Rightarrow> (dstate \<times> bytes \<times> int, bytes) header \<Rightarrow> bool" where
  "header_outcome e s n h = (case h of
     Return (st, e', n') \<Rightarrow> st \<noteq> SUCCESS \<and> (st = AGAIN \<longrightarrow> e' = e \<and> n' = n)
   | Count n' s' \<Rightarrow> suffix s' s \<and> length s' < length s)"

lemma count_header_outcome: "wp (count_header string_source L m e n s) (header_outcome e s n)"
  by (simp add: count_header_def header_outcome_def split: line.split prod.split bool.split)

lemma count_header_small:
  assumes "count_header string_source L (map_magic k) e n s = Some (Count n' s')" "small_maps L s" "0 \<le> n'"
  shows "int64_range (n' * 2)"
proof -
  from assms(1) obtain j where j: "line_of (map_magic k) s = Line (Suc j)" "simple_atoi L (take j (tl s)) = (True, n')"
    by (auto simp: count_header_def line_of_def split: line.split_asm if_split_asm prod.split_asm bool.split_asm option.split_asm)
  then obtain c r where s: "s = c # r" "c = map_magic k" "find_crlf r = Some j"
    by (cases s) (auto simp: line_of_def split: if_split_asm option.split_asm)
  have "\<not> huge_count L s" using assms(2) s(1) by simp
  with s j(2) assms(3) show ?thesis
    by (cases k) (auto simp: huge_count_def int64_range_def)
qed

lemma array_elements_outcome:
  assumes child: "child_ok t f ct L child"
    and "ready_opt cur" "t \<Longrightarrow> levels_opt cur + length s < f \<and> defined_counts ct L s"
  shows "run_ok t (array_elements string_source L child (e, ty, ps, n, l, cur) s)
    (\<lambda>(st, (e', ty', ps', n', l', cur'), s'). suffix s' s \<and> (st = SUCCESS \<longrightarrow> 0 < n \<longrightarrow> length s' < length s) \<and>
      (st = AGAIN \<longrightarrow> 0 < n' \<and> ready_opt cur' \<and> levels_opt cur' + length s' \<le> levels_opt cur + length s))"
  using array_loop_outcome [OF child assms(2,3), of "nat n" e ps]
  by (cases "0 < n") (auto simp: array_elements_def loop_outcome_def elim!: run_ok_mono)

lemma map_entries_outcome:
  assumes child: "child_ok t f ct L child"
    and "ready_opt cur" "t \<Longrightarrow> levels_opt cur + length s < f \<and> defined_counts ct L s"
  shows "run_ok t (map_entries string_source L child (e, ps, n, m, key, cur) s)
    (\<lambda>(st, (e', ps', n', m', key', cur'), s'). suffix s' s \<and> n' = n \<and>
      (st = SUCCESS \<longrightarrow> 0 < m \<longrightarrow> length s' < length s) \<and>
      (st = AGAIN \<longrightarrow> 0 < m' \<and> ready_opt cur' \<and> levels_opt cur' + length s' \<le> levels_opt cur + length s))"
  using map_loop_outcome [OF child assms(2,3), of "nat m" e ps key]
  by (cases "0 < m") (auto simp: map_entries_def loop_outcome_def elim!: run_ok_mono)

lemma open_levels_array [simp]:
  "0 < n \<Longrightarrow> open_levels (ArrayPacket e k t ps n l cur) = Suc (levels_opt cur)"
  "0 < n \<Longrightarrow> ready (ArrayPacket e k t ps n l cur) = ready_opt cur"
  by (auto simp: levels_opt_def ready_opt_def NOT_SET_SIZE_def split: option.split)

lemma open_levels_map [simp]:
  "n \<noteq> NOT_SET_SIZE \<Longrightarrow> open_levels (MapPacket e k ps n m key cur) = Suc (levels_opt cur)"
  "n \<noteq> NOT_SET_SIZE \<Longrightarrow> 0 < m \<Longrightarrow> ready (MapPacket e k ps n m key cur) = ready_opt cur"
  by (auto simp: levels_opt_def ready_opt_def split: option.split)

text \<open>What is left after a header is shorter and as well behaved.\<close>

lemma after_header:
  assumes "header_outcome e s n (Count n' s2)"
  shows "suffix s2 s" "length s2 < length s"
  using assms by (auto simp: header_outcome_def)

lemma after_header_run:
  assumes "header_outcome e s n (Count n' s2)" "t \<Longrightarrow> length s \<le> f \<and> defined_counts ct L s"
  shows "t \<Longrightarrow> levels_opt None + length s2 < f \<and> defined_counts ct L s2"
  using after_header [OF assms(1)] assms(2) by (auto intro: defined_counts_suffix)

lemma array_outcome:
  assumes child: "child_ok t f ct L child"
    and r: "ready (ArrayPacket e k ty ps n l cur)"
    "t \<Longrightarrow> open_levels (ArrayPacket e k ty ps n l cur) + length s \<le> f \<and> defined_counts ct L s"
  shows "run_ok t (array_decode string_source L child m (e, ty, ps, n, l, cur) s)
    (\<lambda>(st, (e', ty', ps', n', l', cur'), s').
       outcome (ArrayPacket e k ty ps n l cur) s (st, ArrayPacket e' k ty' ps' n' l' cur', s'))"
proof (cases "s = []")
  case True
  with r show ?thesis by (simp add: array_decode_def outcome_def del: ready.simps open_levels.simps)
next
  case s: False
  show ?thesis
  proof (cases "n = NOT_SET_SIZE")
    case set: False
    with r have n: "0 < n" by (auto split: option.splits)
    with r(1) have ready: "ready_opt cur" by (auto simp: ready_opt_def split: option.splits)
    have "t \<Longrightarrow> levels_opt cur + length s < f \<and> defined_counts ct L s" using r(2) n by (auto simp del: open_levels.simps)
    from array_elements_outcome [OF child ready this, of e ty ps n l] n
    show ?thesis using s set n
      by (auto simp: array_decode_def outcome_def run_ok_iff simp del: ready.simps open_levels.simps)
  next
    case True
    with r have cur: "cur = None" "open_levels (ArrayPacket e k ty ps n l cur) = 0"
      by (auto simp: NOT_SET_SIZE_def split: option.splits)
    from count_header_outcome [of L m e n s] obtain h where
      h: "count_header string_source L m e n s = Some h" "header_outcome e s n h"
      by (auto simp: wp_iff)
    show ?thesis
    proof (cases h)
      case (Return x)
      with h r s True show ?thesis
        by (cases x) (auto simp: array_decode_def outcome_def header_outcome_def simp del: ready.simps open_levels.simps)
    next
      case (Count n' s2)
      have "t \<Longrightarrow> length s \<le> f \<and> defined_counts ct L s" using r(2) by simp
      note l3 = after_header_run [OF h(2) [unfolded Count] this]
      note l2 = after_header [OF h(2) [unfolded Count]]
      have "run_ok t (array_elements string_source L child (e, if n' < 0 then TYPE_NULL else ty, ps, n', l, None) s2)
        (\<lambda>(st, (e', ty', ps', n', l', cur'), s').
           outcome (ArrayPacket e k ty ps n l cur) s (st, ArrayPacket e' k ty' ps' n' l' cur', s'))"
        by (rule run_ok_mono [OF array_elements_outcome [OF child _ l3]])
          (use l2(1,2) cur in \<open>auto simp: outcome_def intro: suffix_order.trans dest: suffix_length_le
            simp del: ready.simps open_levels.simps\<close>)
      with l2 show ?thesis using s True h Count cur
        by (auto simp: array_decode_def outcome_def simp del: ready.simps open_levels.simps)
    qed
  qed
qed

lemma map_outcome:
  assumes child: "child_ok t f ct L child"
    and r: "ready (MapPacket e k ps n m key cur)"
    "t \<Longrightarrow> open_levels (MapPacket e k ps n m key cur) + length s \<le> f \<and> small_maps L s"
  shows "run_ok t (map_decode3 string_source L child (map_magic k) (e, ps, n, m, key, cur) s)
    (\<lambda>(st, (e', ps', n', m', key', cur'), s').
       outcome (MapPacket e k ps n m key cur) s (st, MapPacket e' k ps' n' m' key' cur', s'))"
proof (cases "s = []")
  case True
  with r show ?thesis by (simp add: map_decode3_def outcome_def del: ready.simps open_levels.simps)
next
  case s: False
  have defined: "t \<Longrightarrow> defined_counts ct L s" using r(2) by (simp add: defined_counts_def)
  show ?thesis
  proof (cases "n = NOT_SET_SIZE")
    case set: False
    with r have m: "0 < m" by (auto split: option.splits)
    with r(1) set have ready: "ready_opt cur" by (auto simp: ready_opt_def split: option.splits)
    have "t \<Longrightarrow> levels_opt cur + length s < f \<and> defined_counts ct L s" using r(2) m set defined by (auto simp del: open_levels.simps)
    from map_entries_outcome [OF child ready this, of e ps n m key] m set
    show ?thesis using s set m
      by (auto simp: map_decode3_def outcome_def run_ok_iff simp del: ready.simps open_levels.simps)
  next
    case True
    with r have cur: "cur = None" "open_levels (MapPacket e k ps n m key cur) = 0" "m = NOT_SET_SIZE"
      by (auto split: option.splits)
    from count_header_outcome [of L "map_magic k" e n s] obtain h where
      h: "count_header string_source L (map_magic k) e n s = Some h" "header_outcome e s n h"
      by (auto simp: wp_iff)
    show ?thesis
    proof (cases h)
      case (Return x)
      with h r s True cur show ?thesis
        by (cases x) (auto simp: map_decode3_def outcome_def header_outcome_def simp del: ready.simps open_levels.simps)
    next
      case (Count n' s2)
      have "t \<Longrightarrow> length s \<le> f \<and> defined_counts ct L s" using r(2) defined by simp
      note l3 = after_header_run [OF h(2) [unfolded Count] this]
      note l2 = after_header [OF h(2) [unfolded Count]]
      have fit: "t \<Longrightarrow> 0 \<le> n' \<Longrightarrow> int64_range (n' * 2)"
        using count_header_small [OF h(1) [unfolded Count]] r(2) by simp
      have neg: "0 \<le> n' \<Longrightarrow> n' \<noteq> NOT_SET_SIZE" by (simp add: NOT_SET_SIZE_def)
      have "run_ok t (map_entries string_source L child (e, ps, n', n' * 2, key, None) s2)
        (\<lambda>(st, (e', ps', n', m', key', cur'), s').
           outcome (MapPacket e k ps n m key cur) s (st, MapPacket e' k ps' n' m' key' cur', s'))" if "0 \<le> n'"
        by (rule run_ok_mono [OF map_entries_outcome [OF child _ l3]])
          (use l2(1,2) cur neg [OF that] in \<open>auto simp: outcome_def intro: suffix_order.trans dest: suffix_length_le
            simp del: ready.simps open_levels.simps\<close>)
      with l2 fit show ?thesis using s True h Count cur
        by (cases "int64_range (n' * 2)")
          (auto simp: map_decode3_def outcome_def simp del: ready.simps open_levels.simps)
    qed
  qed
qed

lemma bulk_decoded:
  assumes "l = NOT_SET_SIZE \<or> 0 \<le> l"
  obtains st e' t' l' x' s' where "bulk_decode string_source L m (e, t, l, x) s = Some (st, (e', t', l', x'), s')"
    "bulk_outcome s (st, (e', t', l', x'), s')"
  using bulk_outcome [OF assms, of L m e t x s] by (auto simp: wp_iff)

lemma decode_run:
  "ready p \<Longrightarrow> (t \<Longrightarrow> open_levels p + length s < f \<and> defined_counts ct L s) \<Longrightarrow>
   run_ok t (decode string_source L f ct p s) (outcome p s)"
proof (induction f arbitrary: p s)
  case (Suc f)
  have child: "child_ok t f ct L (decode string_source L f ct)"
    using Suc.IH by (auto simp: child_ok_def)
  show ?case
  proof (cases p)
    case (ArrayPacket e k ty ps n l c)
    have "run_ok t (array_decode string_source L (decode string_source L f ct) (array_magic k) (e, ty, ps, n, l, c) s)
      (\<lambda>(st, (e', ty', ps', n', l', cur'), s').
         outcome p s (st, ArrayPacket e' k ty' ps' n' l' cur', s'))"
      unfolding ArrayPacket
      by (rule array_outcome [OF child]) (use Suc.prems ArrayPacket in \<open>simp_all del: ready.simps open_levels.simps\<close>)
    then show ?thesis
      by (auto simp: ArrayPacket decode.simps(2) refuse_null_def outcome_def elim!: run_ok_mono)
  next
    case (MapPacket e k ps n m c d)
    show ?thesis
    proof (cases "ct = RESP2")
      case False
      have "run_ok t (map_decode3 string_source L (decode string_source L f ct) (map_magic k) (e, ps, n, m, c, d) s)
        (\<lambda>(st, (e', ps', n', m', key', cur'), s').
           outcome p s (st, MapPacket e' k ps' n' m' key' cur', s'))"
        unfolding MapPacket
        by (rule map_outcome [OF child])
          (use Suc.prems MapPacket False in \<open>auto simp: defined_counts_def simp del: ready.simps open_levels.simps\<close>)
      then show ?thesis
        by (auto simp: MapPacket decode.simps(2) outcome_def elim!: run_ok_mono)
    qed (simp add: MapPacket decode.simps(2) outcome_def)
  next
    case (BulkStringPacket e ty l x)
    with Suc.prems have "l = NOT_SET_SIZE \<or> 0 \<le> l" by simp
    then show ?thesis
      by (rule bulk_decoded [of l L "CHR ''$''" e ty x s])
        (auto simp: BulkStringPacket decode.simps(2) outcome_def bulk_outcome_def dest: suffix_length_le)
  next
    case (BlobErrorPacket e ty l x)
    with Suc.prems have "l = NOT_SET_SIZE \<or> 0 \<le> l" by simp
    then show ?thesis
      by (rule bulk_decoded [of l L "CHR ''!''" e ty x s])
        (auto simp: BlobErrorPacket decode.simps(2) outcome_def bulk_outcome_def blob_error_decode3_def refuse_null_def
          dest: suffix_length_le)
  next
    case (VerbatimStringPacket e ty l x y)
    with Suc.prems have "l = NOT_SET_SIZE \<or> 0 \<le> l" by simp
    then show ?thesis
      by (rule bulk_decoded [of l L "CHR ''=''" e ty x s])
        (auto simp: VerbatimStringPacket decode.simps(2) outcome_def bulk_outcome_def verbatim_decode3_def
          dest: suffix_length_le)
  qed (auto simp: decode.simps(2) run_ok_wp(2) leaf_outcome, auto simp: outcome_def)
qed auto

text \<open>With the stack and the counts in order a decoder returns.\<close>

lemma decode_outcome:
  assumes "ready p" "open_levels p + length s < f" "defined_counts ct L s"
  shows "wp (decode string_source L f ct p s) (outcome p s)"
  using decode_run [of p True s f ct L] assms by (simp add: run_ok_wp)

text \<open>Whatever there is of them, a result is as it should be.\<close>

lemma decode_result:
  assumes "decode string_source L f ct p s = Some r" "ready p"
  shows "outcome p s r"
  using decode_run [OF assms(2), of False s f ct L] assms(1) by simp

section \<open>Fuel\<close>

text \<open>More fuel never changes a result: \<open>m'\<close> returns whatever \<open>m\<close> returns.\<close>

definition extends :: "'a option \<Rightarrow> 'a option \<Rightarrow> bool" where
  "extends m m' \<longleftrightarrow> (\<forall>r. m = Some r \<longrightarrow> m' = Some r)"

lemma extends_refl [simp]: "extends m m"
  by (simp add: extends_def)

lemma extends_bind: "extends m m' \<Longrightarrow> (\<And>x. extends (f x) (g x)) \<Longrightarrow> extends (Option.bind m f) (Option.bind m' g)"
  by (cases m) (auto simp: extends_def)

lemma extends_if: "(b \<Longrightarrow> extends m m') \<Longrightarrow> (\<not> b \<Longrightarrow> extends n n') \<Longrightarrow> extends (if b then m else n) (if b then m' else n')"
  by simp

lemma extends_option: "extends m m' \<Longrightarrow> (\<And>x. extends (f x) (g x)) \<Longrightarrow>
    extends (case y of None \<Rightarrow> m | Some x \<Rightarrow> f x) (case y of None \<Rightarrow> m' | Some x \<Rightarrow> g x)"
  by (cases y) simp_all

lemma array_loop_extends:
  assumes "\<And>p b. extends (child p b) (child' p b)"
  shows "extends (array_loop S L child n k b) (array_loop S L child' n k b)"
proof (induction n arbitrary: k b)
  case (Suc n)
  show ?case
    by (cases k) (auto intro!: extends_bind extends_if extends_option assms Suc.IH split: dstate.splits)
qed simp

lemma map_loop_extends:
  assumes "\<And>p b. extends (child p b) (child' p b)"
  shows "extends (map_loop S L child n k b) (map_loop S L child' n k b)"
proof (induction n arbitrary: k b)
  case (Suc n)
  show ?case
    by (cases k) (auto intro!: extends_bind extends_if extends_option assms Suc.IH split: dstate.splits)
qed simp

lemma array_decode_extends:
  assumes "\<And>p b. extends (child p b) (child' p b)"
  shows "extends (array_decode S L child m k b) (array_decode S L child' m k b)"
  by (cases k) (auto simp: array_decode_def array_elements_def
      intro!: extends_bind extends_if array_loop_extends assms split: header.splits)

lemma map_decode_extends:
  assumes "\<And>p b. extends (child p b) (child' p b)"
  shows "extends (map_decode3 S L child m k b) (map_decode3 S L child' m k b)"
  by (cases k) (auto simp: map_decode3_def map_entries_def
      intro!: extends_bind extends_if map_loop_extends assms split: header.splits)

lemma decode_extends: "f \<le> g \<Longrightarrow> extends (decode S L f ct p b) (decode S L g ct p b)"
proof (induction f arbitrary: g p b)
  case (Suc f)
  then obtain h where "g = Suc h" "f \<le> h" by (cases g) auto
  with Suc.IH show ?case
    by (cases p) (auto simp: decode.simps(2) intro!: extends_bind array_decode_extends map_decode_extends)
qed (simp add: extends_def)

end
