(* ===== verification/RESPCodec.thy ===== *)
theory RESPCodec
  imports RoundTrip NoFault
begin

text \<open>
  \<open>protocol/codec/resp\<close>: \<open>RESP2Codec\<close> and \<open>RESP3Codec\<close>. A codec keeps the reply (and, on the server
  side, the request) that is being decoded between two calls, and counts the bytes it took.
\<close>

section \<open>The codec\<close>

text \<open>A packet with its \<open>packet_size_\<close>.\<close>

type_synonym 'd sized = "'d packet \<times> nat"

record 'd codec =
  codec_ver :: codec_type
  codec_err :: bytes
  req_packet :: "'d sized option"
  resp_packet :: "'d sized option"

definition new_codec :: "codec_type \<Rightarrow> 'd codec" where
  "new_codec ver = \<lparr>codec_ver = ver, codec_err = [], req_packet = None, resp_packet = None\<rparr>"

definition PROTO_RESP_DECODE_REQUEST_SIZE_LIMIT :: int where
  "PROTO_RESP_DECODE_REQUEST_SIZE_LIMIT = 2 ^ 31 - 1"

text \<open>
  The tail of \<open>decodeResponse\<close>: decode into \<open>resp_packet_\<close>, add the bytes consumed to its size, and
  hand it over on \<open>SUCCESS\<close>. An erroneous packet object stays in the codec.
\<close>

definition decode_resp_packet ::
  "'b source \<Rightarrow> 'd lib \<Rightarrow> nat \<Rightarrow> 'd codec \<Rightarrow> 'd sized \<Rightarrow> 'b \<Rightarrow> (dstate \<times> ('d sized option \<times> 'd codec) \<times> 'b) option" where
  "decode_resp_packet S L f c p b = do {
     pre_size \<leftarrow> src_length S b;
     (st, p', b') \<leftarrow> decode S L f (codec_ver c) (fst p) b;
     post_size \<leftarrow> src_length S b';
     let sized = (p', snd p + (pre_size - post_size));
     Some (case st of
        SUCCESS \<Rightarrow> (st, (Some sized, c\<lparr>resp_packet := None\<rparr>), b')
      | AGAIN \<Rightarrow> (st, (None, c\<lparr>resp_packet := Some sized\<rparr>), b')
      | ERROR \<Rightarrow> (st, (None, c\<lparr>resp_packet := Some (p', snd p), codec_err := perr p'\<rparr>), b')) }"

definition decodeResponse ::
  "'b source \<Rightarrow> 'd lib \<Rightarrow> nat \<Rightarrow> 'd codec \<Rightarrow> 'b \<Rightarrow> (dstate \<times> ('d sized option \<times> 'd codec) \<times> 'b) option" where
  "decodeResponse S L f c0 b = do {
     let c = c0\<lparr>codec_err := []\<rparr>;
     e \<leftarrow> src_empty S b;
     if e then Some (AGAIN, (None, c), b)
     else case resp_packet c of
       Some p \<Rightarrow> decode_resp_packet S L f c p b
     | None \<Rightarrow> do {
         ch \<leftarrow> src_peekInt8 S b;
         case createPacket L ch of
           None \<Rightarrow> Some (ERROR, (None, c\<lparr>codec_err :=
               ''Protocol error: unknown type '' @ [SQ] @ toPrintableStr [ch] @ [SQ]\<rparr>), b)
         | Some p \<Rightarrow> decode_resp_packet S L f c (p, 0) b } }"

definition encodeRequest :: "'d lib \<Rightarrow> 'd codec \<Rightarrow> 'd packet \<Rightarrow> buffer \<Rightarrow> buffer option" where
  "encodeRequest L c p b = encode L RESP2 p b"

definition encodeResponse :: "'d lib \<Rightarrow> 'd codec \<Rightarrow> 'd packet \<Rightarrow> buffer \<Rightarrow> buffer option" where
  "encodeResponse L c p b = encode L (codec_ver c) p b"

text \<open>The packet of a command: an array of bulk strings.\<close>

definition request_packet :: "bytes list \<Rightarrow> 'd packet" where
  "request_packet argv = ArrayPacket [] Array_class TYPE_COMMON
     (map (BulkStringPacket [] TYPE_COMMON NOT_SET_SIZE) argv) NOT_SET_SIZE 0 None"

text \<open>
  \<open>processInline\<close>: a request that is a plain line. The arguments are split by \<open>splitArgs\<close>, which
  gets pointers into the buffer.
\<close>

definition processInline :: "'d codec \<Rightarrow> buffer \<Rightarrow> (dstate \<times> ('d sized option \<times> 'd codec) \<times> buffer) option" where
  "processInline c b = do {
     eol \<leftarrow> buf_findEOL (read_index b) b;
     case eol of
       None \<Rightarrow> do {
         n \<leftarrow> buf_length b;
         if n > PROTO_RESP_INLINE_MAX_SIZE
         then Some (ERROR, (None, c\<lparr>codec_err := ''Protocol error: too big inline request''\<rparr>), b)
         else Some (AGAIN, (None, c), b) }
     | Some lf \<Rightarrow> do {
         cr \<leftarrow> (if lf > read_index b then map_option (\<lambda>x. x = CR) (rd (cells b) (lf - 1)) else Some False);
         let newline = (if cr then lf - 1 else lf);
         let linefeed_chars = (if cr then 2 else 1);
         split \<leftarrow> splitArgs (cells b) (read_index b) newline;
         case split of
           None \<Rightarrow> Some (ERROR, (None, c\<lparr>codec_err := ''Protocol error: unbalanced quotes in request''\<rparr>), b)
         | Some argv \<Rightarrow> do {
             let packet_len = newline - read_index b + linefeed_chars;
             b' \<leftarrow> buf_skip packet_len b;
             Some (SUCCESS, (Some (request_packet argv, packet_len), c), b') } } }"

definition processMultibulk ::
  "'d lib \<Rightarrow> nat \<Rightarrow> 'd codec \<Rightarrow> buffer \<Rightarrow> (dstate \<times> ('d sized option \<times> 'd codec) \<times> buffer) option" where
  "processMultibulk L f c b = do {
     p \<leftarrow> (case req_packet c of
             Some p \<Rightarrow> Some p
           | None \<Rightarrow> do {
               ch \<leftarrow> buf_peekInt8 b;
               ensure (ch = CHR ''*'');
               Some (ArrayPacket [] Array_class TYPE_COMMON [] NOT_SET_SIZE
                 PROTO_RESP_DECODE_REQUEST_SIZE_LIMIT None, 0) });
     pre_size \<leftarrow> buf_length b;
     (st, p', b') \<leftarrow> decode buffer_source L f RESP2 (fst p) b;
     post_size \<leftarrow> buf_length b';
     let sized = (p', snd p + (pre_size - post_size));
     Some (case st of
        SUCCESS \<Rightarrow> (st, (Some sized, c\<lparr>req_packet := None\<rparr>), b')
      | AGAIN \<Rightarrow> (st, (None, c\<lparr>req_packet := Some sized\<rparr>), b')
      | ERROR \<Rightarrow> (st, (None, c\<lparr>req_packet := Some (p', snd p), codec_err := perr p'\<rparr>), b')) }"

definition decodeRequest ::
  "'d lib \<Rightarrow> nat \<Rightarrow> 'd codec \<Rightarrow> buffer \<Rightarrow> (dstate \<times> ('d sized option \<times> 'd codec) \<times> buffer) option" where
  "decodeRequest L f c0 b = do {
     let c = c0\<lparr>codec_err := []\<rparr>;
     e \<leftarrow> buf_empty b;
     if e then Some (AGAIN, (None, c), b)
     else case req_packet c of
       Some _ \<Rightarrow> processMultibulk L f c b
     | None \<Rightarrow> do {
         ch \<leftarrow> buf_peekInt8 b;
         if ch = CHR ''*'' then processMultibulk L f c b else processInline c b } }"

section \<open>The codec on byte strings\<close>

context byte_source
begin

lemma decode_resp_packet_sim:
  assumes "R b s"
  shows "sim (decode_resp_packet S L f c p b) (decode_resp_packet string_source L f c p s)"
proof -
  have len: "src_length S b' = Some (length s')" if "R b' s'" for b' s'
    using observers(1) [OF that] by simp
  show ?thesis
    using assms
    by (auto simp: decode_resp_packet_def Let_def len intro!: bind_sim [OF decode_sim] split: dstate.splits)
qed

lemma decodeResponse_sim:
  assumes "R b s"
  shows "sim (decodeResponse S L f c b) (decodeResponse string_source L f c s)"
  unfolding decodeResponse_def Let_def observers [OF assms]
  by (intro bind_same if_sim option_case_sim)
    (use assms in \<open>simp_all add: decode_resp_packet_sim\<close>)

end

text \<open>The reply a codec is in the middle of is one the decoders may go on with.\<close>

definition codec_ok :: "'d codec \<Rightarrow> bool" where
  "codec_ok c \<longleftrightarrow> (case resp_packet c of None \<Rightarrow> True | Some (p, n) \<Rightarrow> ready p)"

definition codec_levels :: "'d codec \<Rightarrow> nat" where
  "codec_levels c = (case resp_packet c of None \<Rightarrow> 0 | Some (p, n) \<Rightarrow> open_levels p)"

lemma codec_ok_new [simp]: "codec_ok (new_codec ver)" "codec_levels (new_codec ver) = 0"
  by (simp_all add: codec_ok_def codec_levels_def new_codec_def)

definition codec_outcome :: "'d codec \<Rightarrow> bytes \<Rightarrow> dstate \<times> ('d sized option \<times> 'd codec) \<times> bytes \<Rightarrow> bool" where
  "codec_outcome c s = (\<lambda>(st, (out, c'), s').
     length s' \<le> length s \<and> codec_ver c' = codec_ver c \<and>
     (st = SUCCESS \<longrightarrow> length s' < length s \<and> out \<noteq> None \<and> resp_packet c' = None) \<and>
     (st \<noteq> SUCCESS \<longrightarrow> out = None) \<and>
     (st = AGAIN \<longrightarrow> codec_ok c' \<and> codec_levels c' + length s' \<le> codec_levels c + length s))"

lemma decode_resp_packet_run:
  assumes "ready p" "t \<Longrightarrow> open_levels p + length s < f \<and> defined_counts (codec_ver c) L s"
  shows "run_ok t (decode_resp_packet string_source L f c (p, n) s)
    (codec_outcome (c\<lparr>resp_packet := Some (p, n)\<rparr>) s)"
  using decode_run [OF assms(1), of t s f "codec_ver c" L] assms(2)
  by (auto simp: decode_resp_packet_def Let_def outcome_def codec_outcome_def codec_ok_def codec_levels_def
      dest: suffix_length_le elim!: run_ok_mono split: dstate.splits)

lemma decodeResponse_run:
  assumes "codec_ok c" "t \<Longrightarrow> codec_levels c + length s < f \<and> defined_counts (codec_ver c) L s"
  shows "run_ok t (decodeResponse string_source L f c s) (codec_outcome c s)"
proof (cases "s = []")
  case True
  with assms show ?thesis
    by (simp add: decodeResponse_def codec_outcome_def codec_ok_def codec_levels_def)
next
  case s: False
  show ?thesis
  proof (cases "resp_packet c")
    case None
    show ?thesis
    proof (cases "createPacket L (hd s)")
      case None
      with s \<open>resp_packet c = None\<close> show ?thesis by (simp add: decodeResponse_def codec_outcome_def)
    next
      case (Some p)
      note p = createPacket_ready [OF this]
      have "run_ok t (decode_resp_packet string_source L f (c\<lparr>codec_err := []\<rparr>) (p, 0) s) (codec_outcome c s)"
        by (rule run_ok_mono [OF decode_resp_packet_run])
          (use p assms(2) in \<open>auto simp: codec_outcome_def codec_levels_def\<close>)
      with s Some None show ?thesis by (simp add: decodeResponse_def)
    qed
  next
    case (Some q)
    obtain p n where q: "q = (p, n)" by (cases q)
    have "run_ok t (decode_resp_packet string_source L f (c\<lparr>codec_err := []\<rparr>) (p, n) s) (codec_outcome c s)"
      by (rule run_ok_mono [OF decode_resp_packet_run])
        (use Some q assms in \<open>auto simp: codec_outcome_def codec_levels_def codec_ok_def\<close>)
    with s Some q show ?thesis by (simp add: decodeResponse_def)
  qed
qed

lemma decodeResponse_outcome:
  assumes "codec_ok c" "codec_levels c + length s < f" "defined_counts (codec_ver c) L s"
  shows "wp (decodeResponse string_source L f c s) (codec_outcome c s)"
  using decodeResponse_run [of c True s f L] assms by (simp add: run_ok_wp)

lemma decodeResponse_result:
  assumes "decodeResponse string_source L f c s = Some r" "codec_ok c"
  shows "codec_outcome c s r"
  using decodeResponse_run [OF assms(2), of False s f L] assms(1) by simp

text \<open>
  More input for a codec that asked for it. The result is the same up to the size recorded for a
  packet that turned out erroneous, which \<open>settled\<close> forgets: \<open>decodeResponse\<close> adds the bytes of
  the last call to the size on \<open>SUCCESS\<close> and \<open>AGAIN\<close> only.
\<close>

definition settled :: "(dstate \<times> ('d sized option \<times> 'd codec) \<times> bytes) option \<Rightarrow> (dstate \<times> ('d sized option \<times> 'd codec) \<times> bytes) option" where
  "settled = map_option (\<lambda>(st, (out, c), s). (st, (out, if st = ERROR then c\<lparr>resp_packet := None\<rparr> else c), s))"

lemma decode_resp_packet_again:
  assumes "ready p" and d: "decode string_source L f (codec_ver c) p s = Some (AGAIN, p', s')"
  shows "settled (decode_resp_packet string_source L f c (p, n) (s @ t))
    = settled (decode_resp_packet string_source L f c (p', n + (length s - length s')) (s' @ t))"
proof -
  have eq: "decode string_source L f (codec_ver c) p (s @ t) = decode string_source L f (codec_ver c) p' (s' @ t)"
    using resumable_AGAIN [OF resumable_decode d] .
  from decode_result [OF d assms(1)] have len: "length s' \<le> length s" "ready p'"
    by (auto simp: outcome_def dest: suffix_length_le)
  show ?thesis
  proof (cases "decode string_source L f (codec_ver c) p' (s' @ t)")
    case (Some r)
    obtain st q u where r: "r = (st, q, u)" by (cases r)
    with decode_result [OF Some len(2)] have "length u \<le> length (s' @ t)"
      by (auto simp: outcome_def dest: suffix_length_le)
    with Some r len(1) show ?thesis
      by (cases st) (simp_all add: decode_resp_packet_def eq Let_def settled_def)
  qed (simp add: decode_resp_packet_def eq settled_def)
qed

lemma decode_resp_packet_set:
  "decode_resp_packet S L f (c\<lparr>resp_packet := x, codec_err := y\<rparr>) q s = decode_resp_packet S L f (c\<lparr>codec_err := y\<rparr>) q s"
  by (cases c) (simp add: decode_resp_packet_def Let_def cong: dstate.case_cong)

lemma decodeResponse_set:
  assumes "s \<noteq> []" "resp_packet c = Some q"
  shows "decodeResponse string_source L f c s = decode_resp_packet string_source L f (c\<lparr>codec_err := []\<rparr>) q s"
  using assms by (simp add: decodeResponse_def)

lemma decode_resp_packet_AGAIN:
  assumes "decode_resp_packet string_source L f c (p, n) s = Some (AGAIN, (out, c'), s')"
  obtains p' where "decode string_source L f (codec_ver c) p s = Some (AGAIN, p', s')"
    "c' = c\<lparr>resp_packet := Some (p', n + (length s - length s'))\<rparr>" "out = None"
  using assms
  by (auto simp: decode_resp_packet_def Let_def split: Option.bind_split_asm prod.split_asm dstate.split_asm)

text \<open>A codec that has input to decode runs the tail on some packet object.\<close>

lemma decodeResponse_tail:
  assumes ok: "codec_ok c" and s: "s \<noteq> []"
    and d: "decodeResponse string_source L f c s = Some (AGAIN, (out, c'), s')"
  obtains p n where "decode_resp_packet string_source L f (c\<lparr>codec_err := []\<rparr>) (p, n) s = Some (AGAIN, (out, c'), s')"
    "ready p"
    "decodeResponse string_source L f c (s @ t)
       = decode_resp_packet string_source L f (c\<lparr>codec_err := []\<rparr>) (p, n) (s @ t)"
proof (cases "resp_packet c")
  case None
  with d s obtain p where p: "createPacket L (hd s) = Some p"
    by (cases "createPacket L (hd s)") (auto simp: decodeResponse_def)
  with None d s ok createPacket_ready [OF p] show ?thesis
    by (intro that [of p 0]) (simp_all add: decodeResponse_def codec_levels_def)
next
  case (Some q)
  with d s ok show ?thesis
    by (intro that [of "fst q" "snd q"])
      (simp_all add: decodeResponse_def codec_ok_def codec_levels_def case_prod_unfold)
qed

lemma decodeResponse_again:
  assumes ok: "codec_ok c"
    and d: "decodeResponse string_source L f c s = Some (AGAIN, (out, c'), s')"
  shows "settled (decodeResponse string_source L f c (s @ t)) = settled (decodeResponse string_source L f c' (s' @ t))"
proof (cases "s = [] \<or> t = []")
  case True
  show ?thesis
  proof (cases "s = []")
    case True
    with d have "c' = c\<lparr>codec_err := []\<rparr>" "s' = []" by (simp_all add: decodeResponse_def)
    with True show ?thesis by (simp add: decodeResponse_def)
  next
    case False
    then have t: "t = []" using True by simp
    obtain p n where p: "decode_resp_packet string_source L f (c\<lparr>codec_err := []\<rparr>) (p, n) s = Some (AGAIN, (out, c'), s')"
      using decodeResponse_tail [OF ok False d] by blast
    from p obtain p' where p': "decode string_source L f (codec_ver c) p s = Some (AGAIN, p', s')"
      "c' = (c\<lparr>codec_err := []\<rparr>)\<lparr>resp_packet := Some (p', n + (length s - length s'))\<rparr>" "out = None"
      by (rule decode_resp_packet_AGAIN) simp
    have self: "decode string_source L f (codec_ver c) p' s' = Some (AGAIN, p', s')"
      using resumable_self [OF resumable_decode p'(1)] .
    show ?thesis
      using d self by (cases "s' = []"; cases c) (simp_all add: t p' decodeResponse_def decode_resp_packet_def)
  qed
next
  case False
  then have ne: "s \<noteq> []" "s @ t \<noteq> []" "s' @ t \<noteq> []" by simp_all
  obtain p n where p: "decode_resp_packet string_source L f (c\<lparr>codec_err := []\<rparr>) (p, n) s = Some (AGAIN, (out, c'), s')"
      "ready p"
    and eq: "decodeResponse string_source L f c (s @ t)
        = decode_resp_packet string_source L f (c\<lparr>codec_err := []\<rparr>) (p, n) (s @ t)"
    using decodeResponse_tail [OF ok ne(1) d] by blast
  from p(1) obtain p' where p': "decode string_source L f (codec_ver c) p s = Some (AGAIN, p', s')"
    "c' = (c\<lparr>codec_err := []\<rparr>)\<lparr>resp_packet := Some (p', n + (length s - length s'))\<rparr>" "out = None"
    by (rule decode_resp_packet_AGAIN) simp
  have "settled (decode_resp_packet string_source L f (c\<lparr>codec_err := []\<rparr>) (p, n) (s @ t))
      = settled (decode_resp_packet string_source L f (c\<lparr>codec_err := []\<rparr>) (p', n + (length s - length s')) (s' @ t))"
    using p(2) p'(1) by (intro decode_resp_packet_again) simp_all
  also have "\<dots> = settled (decodeResponse string_source L f c' (s' @ t))"
    using ne(3) by (subst decodeResponse_set)
      (simp_all add: p' decode_resp_packet_set del: append_is_Nil_conv)
  finally show ?thesis using eq by simp
qed

lemma decodeResponse_success:
  assumes d: "decodeResponse string_source L f c s = Some (SUCCESS, (out, c'), s')"
    and ok: "codec_ok c"
  shows "decodeResponse string_source L f c (s @ t) = Some (SUCCESS, (out, c'), s' @ t)"
proof -
  have s: "s \<noteq> []" using d by (auto simp: decodeResponse_def)
  from decodeResponse_result [OF d ok] have len: "length s' \<le> length s" by (simp add: codec_outcome_def)
  have more: "decode_resp_packet string_source L f c1 q (s @ t) = Some (SUCCESS, (out, c'), s' @ t)"
    if "decode_resp_packet string_source L f c1 q s = Some (SUCCESS, (out, c'), s')" for c1 q
  proof -
    from that obtain p' where "decode string_source L f (codec_ver c1) (fst q) s = Some (SUCCESS, p', s')"
      by (auto simp: decode_resp_packet_def Let_def split: Option.bind_split_asm prod.split_asm dstate.split_asm)
    from this resumable_SUCCESS [OF resumable_decode this, of t] that len show ?thesis
      by (auto simp: decode_resp_packet_def)
  qed
  show ?thesis
  proof (cases "resp_packet c")
    case None
    with s d obtain p where "createPacket L (hd s) = Some p"
      by (cases "createPacket L (hd s)") (auto simp: decodeResponse_def)
    with None s d show ?thesis by (simp add: decodeResponse_def more)
  next
    case (Some q)
    with s d show ?thesis by (simp add: decodeResponse_def more)
  qed
qed

section \<open>Round trips\<close>

lemma valid_goodI: "resp_lib L \<Longrightarrow> valid L ct p \<Longrightarrow> every (resp_lib.good L ct) p"
proof -
  assume L: "resp_lib L" and "valid L ct p"
  moreover have "resp_lib.good L ct = (\<lambda>p. valid_node L ct p \<and> fits L p)"
    by (rule ext) (rule resp_lib.good_def [OF L])
  ultimately show ?thesis by (simp add: valid_def)
qed

lemma every_mono:
  shows "(\<And>q. P q \<Longrightarrow> Q q) \<Longrightarrow> every P p \<Longrightarrow> every Q p"
    "(\<And>q. P q \<Longrightarrow> Q q) \<Longrightarrow> every_list P ps \<Longrightarrow> every_list Q ps"
    "(\<And>q. P q \<Longrightarrow> Q q) \<Longrightarrow> every_pair P prs \<Longrightarrow> every_pair Q prs"
  by (induction p and ps and prs rule: packet_induct) auto

lemma valid_fits: "valid L ct p \<Longrightarrow> every (fits L) p"
  unfolding valid_def by (erule every_mono(1) [rotated]) simp

text \<open>A complete reply at the head of the input is handed over with its size.\<close>

lemma decodeResponse_wire:
  assumes "resp_lib L" "valid L ct p" "depth p < f" "resp_packet c = None" "codec_ver c = ct"
  shows "decodeResponse string_source L f c (wire L ct p @ r)
           = Some (SUCCESS, (Some (view L ct p, length (wire L ct p)), c\<lparr>codec_err := [], resp_packet := None\<rparr>), r)"
proof -
  from resp_lib.decode_wire_all(1) [OF assms(1) valid_goodI [OF assms(1,2)] assms(3)]
  obtain q where q: "wire L ct p \<noteq> []" "createPacket L (hd (wire L ct p)) = Some q"
    "decode string_source L f ct q (wire L ct p @ r) = Some (SUCCESS, view L ct p, r)"
    by (auto simp: resp_lib.reads_def [OF assms(1)])
  with assms(4,5) show ?thesis
    by (simp add: decodeResponse_def decode_resp_packet_def)
qed

text \<open>From a run on byte strings to the run on a buffer.\<close>

lemma decodeResponse_buffer:
  assumes "buf_ok b" "decodeResponse string_source L f c (contents b) = Some (st, r, s')"
  obtains b' where "decodeResponse buffer_source L f c b = Some (st, r, b')" "buf_ok b'" "contents b' = s'"
  using bs.decodeResponse_sim [of b "contents b" L f c] assms
  by (cases "decodeResponse buffer_source L f c b") auto

text \<open>C1: a reply survives the trip from server to client. When a server encodes a valid reply
  into a well-formed buffer that is empty, and a client whose codec is not in the middle of a
  reply decodes that buffer followed by any further bytes, the decoder returns \<open>SUCCESS\<close> with the
  packet the reply is seen as (under RESP3 the reply itself, under RESP2 the older class that
  carries it), its size is the number of bytes the server announced, the codec is ready for the
  next reply and exactly the further bytes are left. Fuel for one level more than the reply is
  nested is enough.\<close>

theorem reply_roundtrip:
  assumes "resp_lib L" "length (fmt_int L 0) = 1" "length (fmt_int L 1) = 1"
    "valid L ct p" "depth p < f" "buf_ok b" "contents b = []"
  shows "wp (encodeResponse L (new_codec ct) p b) (\<lambda>b1. wp (buf_append extra b1) (\<lambda>b2.
           wp (decodeResponse buffer_source L f (new_codec ct) b2) (\<lambda>(st, (out, c), b3).
             st = SUCCESS \<and> out = Some (view L ct p, encode_size L ct p) \<and> c = new_codec ct \<and>
             buf_ok b3 \<and> contents b3 = extra)))"
proof -
  have enc: "wp (encodeResponse L (new_codec ct) p b) (\<lambda>b1. buf_ok b1 \<and> contents b1 = wire L ct p)"
    using resp_lib.encode_wire_all(1) [OF assms(1) valid_fits [OF assms(4)] assms(6)] assms(7)
    by (simp add: encodeResponse_def new_codec_def)
  have dec: "wp (decodeResponse buffer_source L f (new_codec ct) b2) (\<lambda>(st, (out, c), b3).
             st = SUCCESS \<and> out = Some (view L ct p, encode_size L ct p) \<and> c = new_codec ct \<and>
             buf_ok b3 \<and> contents b3 = extra)"
    if "buf_ok b2" "contents b2 = wire L ct p @ extra" for b2
  proof -
    have "decodeResponse string_source L f (new_codec ct) (contents b2)
        = Some (SUCCESS, (Some (view L ct p, encode_size L ct p), new_codec ct), extra)"
      using decodeResponse_wire [OF assms(1,4,5), of "new_codec ct" extra] length_wire_all(1) [OF assms(2,3), of ct p]
      by (simp add: that new_codec_def)
    then show ?thesis by (rule decodeResponse_buffer [OF that(1)]) simp
  qed
  show ?thesis
    by (rule wp_mono [OF enc]) (auto intro!: wp_append dec)
qed

definition empty_buffer :: buffer where
  "empty_buffer = \<lparr>buffer_kind = buffer_kind sample_buffer, cells = new_block 64, read_index = 8,
     write_index = 8, reserved_prepend_size = 8\<rparr>"

lemma empty_buffer_ok: "buf_ok empty_buffer" "contents empty_buffer = []"
  by (simp_all add: empty_buffer_def buf_ok_def contents_def)

lemma sample_reply_valid: "valid plain_lib ct sample_reply"
  by (simp add: valid_def sample_reply_def int64_range_def one_line_def)

theorem reply_roundtrip_witness:
  "wp (encodeResponse plain_lib (new_codec RESP2) sample_reply empty_buffer) (\<lambda>b1. wp (buf_append ''+OK'' b1) (\<lambda>b2.
     wp (decodeResponse buffer_source plain_lib 3 (new_codec RESP2) b2) (\<lambda>(st, (out, c), b3).
       st = SUCCESS \<and> map_option fst out = Some (ArrayPacket [] Array_class TYPE_COMMON
         [SimpleStringPacket [] ''k'', ArrayPacket [] Array_class TYPE_COMMON
           [IntegerPacket [] 7, BulkStringPacket [] TYPE_COMMON (- 2) ''ab''] 0 0 None,
          IntegerPacket [] 1, BulkStringPacket [] TYPE_NULL (- 1) []] 0 0 None) \<and>
       contents b3 = ''+OK'')))"
proof -
  have "depth sample_reply < 3" by (simp add: sample_reply_def)
  from reply_roundtrip [OF resp_lib_plain plain_lib_digits sample_reply_valid this empty_buffer_ok, of RESP2 "''+OK''"]
  show ?thesis
    by (elim wp_mono) (auto simp: sample_reply_def bulk_packet_def null_bulk_packet_def NOT_SET_SIZE_def elim!: wp_mono)
qed

text \<open>C2: what it takes for no input to crash the client's decoder. A codec that starts fresh or that a
  decoder left waiting for input (\<open>codec_ok\<close>) never faults on a well-formed buffer, whatever bytes
  it holds, if the stack has room for one nested call more than there are open levels and unread
  bytes and, under RESP3, no map header among the bytes announces \<open>2 ^ 62\<close> entries or more (RESP2,
  which the client speaks, has no maps): \<open>decodeResponse\<close> returns, with a well-formed buffer. A
  success consumes input and hands over a packet; waiting keeps the codec in a state from which the
  next call may go on, and the stack that next call needs grows by the new bytes only.\<close>

theorem decodeResponse_total:
  assumes "buf_ok b" "codec_ok c" "codec_levels c + length (contents b) < f"
    "codec_ver c = RESP2 \<or> small_maps L (contents b)"
  shows "wp (decodeResponse buffer_source L f c b) (\<lambda>(st, (out, c'), b').
           buf_ok b' \<and> length (contents b') \<le> length (contents b) \<and>
           (st = SUCCESS \<longrightarrow> out \<noteq> None \<and> length (contents b') < length (contents b) \<and> codec_ok c' \<and> codec_levels c' = 0) \<and>
           (st \<noteq> SUCCESS \<longrightarrow> out = None) \<and>
           (st = AGAIN \<longrightarrow> codec_ok c' \<and>
              codec_levels c' + length (contents b') \<le> codec_levels c + length (contents b)))"
proof -
  from assms(4) have "defined_counts (codec_ver c) L (contents b)" by (simp add: defined_counts_def)
  from decodeResponse_outcome [OF assms(2,3) this] obtain st out c' s' where
    r: "decodeResponse string_source L f c (contents b) = Some (st, (out, c'), s')"
    "codec_outcome c (contents b) (st, (out, c'), s')"
    by (auto simp: wp_iff)
  from decodeResponse_buffer [OF assms(1) r(1)] obtain b' where
    "decodeResponse buffer_source L f c b = Some (st, (out, c'), b')" "buf_ok b'" "contents b' = s'"
    by metis
  with r(2) show ?thesis
    by (auto simp: codec_outcome_def codec_ok_def codec_levels_def)
qed

theorem decodeResponse_total_witness:
  "wp (decodeResponse buffer_source plain_lib 4 (new_codec RESP3) sample_buffer) (\<lambda>(st, (out, c'), b'). buf_ok b')"
  using decodeResponse_total [OF sample_buffer_ok(1), of "new_codec RESP3" 4 plain_lib]
  by (auto simp: sample_buffer_ok huge_count_def elim!: wp_mono)

section \<open>What the decoders do not guard against\<close>

context resp_lib
begin

lemma array_of_one:
  assumes "r \<noteq> []" "createPacket L (hd r) = Some c"
  shows "decode string_source L (Suc f) ct (ArrayPacket [] Array_class TYPE_COMMON [] NOT_SET_SIZE 0 None)
      (CHR ''*'' # fmt_int L 1 @ CRLF @ r) = None \<longleftrightarrow> decode string_source L f ct c r = None"
proof -
  have "int64_range 1" by (simp add: int64_range_def)
  then show ?thesis
    using assms by (cases "decode string_source L f ct c r")
      (auto simp: decode.simps(2) array_decode_def count_header_def array_elements_def atoi_fmt Let_def
        eval_nat_numeral NOT_SET_SIZE_def split: dstate.split prod.split)
qed

lemma map_of_too_many:
  assumes "int64_range n" "2 ^ 62 \<le> n"
  shows "map_decode3 string_source L child m ([], [], NOT_SET_SIZE, NOT_SET_SIZE, None, None)
     (m # fmt_int L n @ CRLF @ r) = None"
  using assms by (auto simp: map_decode3_def count_header_def atoi_fmt int64_range_def)

end

text \<open>Bytes that open \<open>n\<close> arrays of one element.\<close>

definition nested_arrays :: "'d lib \<Rightarrow> nat \<Rightarrow> bytes" where
  "nested_arrays L n = concat (replicate n (CHR ''*'' # fmt_int L 1 @ CRLF))"

lemma nested_decode:
  assumes "resp_lib L"
  shows "createPacket L (hd (nested_arrays L n @ '':'')) = Some c \<Longrightarrow>
    decode string_source L f ct c (nested_arrays L n @ '':'') = None \<longleftrightarrow> f \<le> n"
proof (induction n arbitrary: f c)
  case 0
  then show ?case
    by (cases f) (auto simp: nested_arrays_def createPacket.simps decode.simps(2) integer_decode_def line_of_def)
next
  case (Suc n)
  let ?r = "nested_arrays L n @ '':''"
  have "\<exists>d. createPacket L (hd ?r) = Some d"
    by (cases n) (simp_all add: nested_arrays_def createPacket.simps)
  then obtain d where d: "createPacket L (hd ?r) = Some d" ..
  have r: "nested_arrays L (Suc n) @ '':'' = CHR ''*'' # fmt_int L 1 @ CRLF @ ?r"
    by (simp add: nested_arrays_def)
  have c: "c = ArrayPacket [] Array_class TYPE_COMMON [] NOT_SET_SIZE 0 None"
    using Suc.prems unfolding r by (simp add: createPacket.simps)
  show ?case
  proof (cases f)
    case (Suc g)
    have "decode string_source L (Suc g) ct c (nested_arrays L (Suc n) @ '':'') = None \<longleftrightarrow>
        decode string_source L g ct d ?r = None"
      unfolding r c by (rule resp_lib.array_of_one [OF assms _ d]) simp
    with Suc.IH [OF d, of g] Suc show ?thesis by simp
  qed simp
qed

text \<open>C3: nothing limits how deep replies may nest. For every depth of the stack there is input on
  which the client's decoder overruns it: after \<open>n\<close> headers of arrays of one element, each of which
  is a few bytes, a call of \<open>decodeResponse\<close> returns just when the stack has room for more than \<open>n\<close>
  nested calls.\<close>

theorem nesting_is_not_limited:
  assumes "resp_lib L" "buf_ok b" "contents b = nested_arrays L n @ '':''"
  shows "decodeResponse buffer_source L f (new_codec ct) b = None \<longleftrightarrow> f \<le> n"
proof -
  have "\<exists>c. createPacket L (hd (nested_arrays L n @ '':'')) = Some c"
    by (cases n) (simp_all add: nested_arrays_def createPacket.simps)
  then obtain c where c: "createPacket L (hd (nested_arrays L n @ '':'')) = Some c" ..
  have ne: "nested_arrays L n @ '':'' \<noteq> []" by simp
  have "decodeResponse string_source L f (new_codec ct) (contents b) = None \<longleftrightarrow>
      decode string_source L f ct c (nested_arrays L n @ '':'') = None"
    using c unfolding assms(3) decodeResponse_def decode_resp_packet_def Let_def
    by (simp add: new_codec_def del: append_is_Nil_conv split: dstate.split prod.split Option.bind_split)
  moreover have "decodeResponse string_source L f (new_codec ct) (contents b) = None \<longleftrightarrow>
      decodeResponse buffer_source L f (new_codec ct) b = None"
    using bs.decodeResponse_sim [of b "contents b" L f "new_codec ct"] assms(2)
    by (cases "decodeResponse string_source L f (new_codec ct) (contents b)";
      cases "decodeResponse buffer_source L f (new_codec ct) b") auto
  ultimately show ?thesis using nested_decode [OF assms(1) c] by simp
qed

definition nested_buffer :: buffer where
  "nested_buffer = empty_buffer\<lparr>cells := take 8 (cells empty_buffer) @ map Some (nested_arrays plain_lib 2 @ '':'') @
     drop 17 (cells empty_buffer), write_index := 17\<rparr>"

theorem nesting_is_not_limited_witness:
  "decodeResponse buffer_source plain_lib 2 (new_codec RESP2) nested_buffer = None \<and>
   decodeResponse buffer_source plain_lib 3 (new_codec RESP2) nested_buffer \<noteq> None"
proof -
  have "buf_ok nested_buffer" "contents nested_buffer = nested_arrays plain_lib 2 @ '':''"
    by (simp_all add: nested_buffer_def empty_buffer_def buf_ok_def contents_def nested_arrays_def eval_nat_numeral
        dec_int_def dec_nat.simps)
  from nesting_is_not_limited [OF resp_lib_plain this] show ?thesis by simp
qed

text \<open>A map that announces \<open>2 ^ 62\<close> entries or more is undefined behaviour: its count is doubled in
  a signed integer.\<close>

lemma huge_map_is_undefined:
  assumes "resp_lib L" "int64_range n" "2 ^ 62 \<le> n" "buf_ok b" "contents b = CHR ''%'' # fmt_int L n @ CRLF @ r"
  shows "decodeResponse buffer_source L f (new_codec RESP3) b = None"
proof -
  have "map_decode3 string_source L child (CHR ''%'') ([], [], NOT_SET_SIZE, NOT_SET_SIZE, None, None) (contents b) = None" for child
    using resp_lib.map_of_too_many [OF assms(1-3)] assms(5) by simp
  then have "decode string_source L f RESP3 (MapPacket [] Map_class [] NOT_SET_SIZE NOT_SET_SIZE None None) (contents b) = None"
    by (cases f) (simp_all add: decode.simps(2))
  then have "decodeResponse string_source L f (new_codec RESP3) (contents b) = None"
    using assms(5) by (simp add: decodeResponse_def decode_resp_packet_def new_codec_def createPacket.simps)
  then show ?thesis
    using bs.decodeResponse_sim [of b "contents b" L f "new_codec RESP3"] assms(4)
    by (cases "decodeResponse buffer_source L f (new_codec RESP3) b") auto
qed

end
