(* ===== verification/Reply.thy ===== *)
theory Reply
  imports RESPCodec
begin

text \<open>
  \<open>protocol/packet/resp/RESPPacketHelper.hpp\<close>, \<open>client/TairResult.hpp\<close> and
  \<open>client/TairResultHelper.hpp\<close>: from the packet of a reply to the result a user callback gets.
  \<open>None\<close> is a run that aborts (\<open>runtimeAssert\<close>) or dereferences a null pointer.
\<close>

section \<open>Casts\<close>

text \<open>
  \<open>packet_cast<T>\<close> compares \<open>typeid\<close>s, so a subclass does not pass for its base: a set or push is
  no \<open>ArrayPacket\<close>, a blob error or verbatim string no \<open>BulkStringPacket\<close>.
\<close>

fun cast_integer :: "'d packet \<Rightarrow> int option" where
  "cast_integer (IntegerPacket _ i) = Some i"
| "cast_integer _ = None"

fun cast_error :: "'d packet \<Rightarrow> bytes option" where
  "cast_error (ErrorPacket _ s) = Some s"
| "cast_error _ = None"

fun cast_status :: "'d packet \<Rightarrow> bytes option" where
  "cast_status (SimpleStringPacket _ s) = Some s"
| "cast_status _ = None"

fun cast_bulk :: "'d packet \<Rightarrow> (packet_type \<times> bytes) option" where
  "cast_bulk (BulkStringPacket _ t _ s) = Some (t, s)"
| "cast_bulk _ = None"

fun cast_array :: "'d packet \<Rightarrow> (packet_type \<times> 'd packet list) option" where
  "cast_array (ArrayPacket _ Array_class t ps _ _ _) = Some (t, ps)"
| "cast_array _ = None"

section \<open>RESPPacketHelper\<close>

definition getReplyInteger :: "'d packet \<Rightarrow> int option" where
  "getReplyInteger = cast_integer"

definition getReplyError :: "'d packet \<Rightarrow> bytes option" where
  "getReplyError = cast_error"

definition getReplyBulkStr :: "'d packet \<Rightarrow> bytes option" where
  "getReplyBulkStr p = map_option snd (cast_bulk p)"

definition getReplyStatus :: "'d packet \<Rightarrow> bytes option" where
  "getReplyStatus = cast_status"

definition getReplyArraySize :: "'d packet \<Rightarrow> nat option" where
  "getReplyArraySize p = map_option (\<lambda>(t, ps). length ps) (cast_array p)"

definition getReplyArrayFirstBulkStr :: "'d packet \<Rightarrow> bytes option" where
  "getReplyArrayFirstBulkStr p = do {
     (t, ps) \<leftarrow> cast_array p;
     case ps of [] \<Rightarrow> None | q # _ \<Rightarrow> getReplyBulkStr q }"

text \<open>The overloads of \<open>getReplyData\<close> on two, three and four elements of one class.\<close>

definition getReplyData2 :: "('d packet \<Rightarrow> 'v option) \<Rightarrow> 'd packet \<Rightarrow> ('v \<times> 'v) option" where
  "getReplyData2 get p = do {
     (t, ps) \<leftarrow> cast_array p;
     case ps of
       [p1, p2] \<Rightarrow> do { v1 \<leftarrow> get p1; v2 \<leftarrow> get p2; Some (v1, v2) }
     | _ \<Rightarrow> None }"

definition getReplyData3 :: "('d packet \<Rightarrow> 'v option) \<Rightarrow> 'd packet \<Rightarrow> ('v \<times> 'v \<times> 'v) option" where
  "getReplyData3 get p = do {
     (t, ps) \<leftarrow> cast_array p;
     case ps of
       [p1, p2, p3] \<Rightarrow> do { v1 \<leftarrow> get p1; v2 \<leftarrow> get p2; v3 \<leftarrow> get p3; Some (v1, v2, v3) }
     | _ \<Rightarrow> None }"

definition getReplyData4 :: "('d packet \<Rightarrow> 'v option) \<Rightarrow> 'd packet \<Rightarrow> ('v \<times> 'v \<times> 'v \<times> 'v) option" where
  "getReplyData4 get p = do {
     (t, ps) \<leftarrow> cast_array p;
     case ps of
       [p1, p2, p3, p4] \<Rightarrow> do { v1 \<leftarrow> get p1; v2 \<leftarrow> get p2; v3 \<leftarrow> get p3; v4 \<leftarrow> get p4; Some (v1, v2, v3, v4) }
     | _ \<Rightarrow> None }"

definition getReplyBulkBulkInteger :: "'d packet \<Rightarrow> (bytes \<times> bytes \<times> int) option" where
  "getReplyBulkBulkInteger p = do {
     (t, ps) \<leftarrow> cast_array p;
     case ps of
       [p1, p2, p3] \<Rightarrow> do { v1 \<leftarrow> getReplyBulkStr p1; v2 \<leftarrow> getReplyBulkStr p2; v3 \<leftarrow> getReplyInteger p3; Some (v1, v2, v3) }
     | _ \<Rightarrow> None }"

section \<open>Results\<close>

text \<open>\<open>TairResult\<close>: \<open>result_value = None\<close> is the default constructed value.\<close>

record 'v tair_result =
  result_value :: "'v option"
  result_err :: bytes

definition setValue :: "'v \<Rightarrow> 'v tair_result" where
  "setValue v = \<lparr>result_value = Some v, result_err = []\<rparr>"

definition setErr :: "bytes \<Rightarrow> 'v tair_result" where
  "setErr e = \<lparr>result_value = None, result_err = e\<rparr>"

definition isSuccess :: "'v tair_result \<Rightarrow> bool" where
  "isSuccess r \<longleftrightarrow> result_err r = []"

text \<open>The values the callbacks of the client take.\<close>

datatype 'd reply_value =
    V_integer int
  | V_string bytes
  | V_string_ptr "bytes option"
  | V_integer_ptr "int option"
  | V_strings "bytes list"
  | V_integers "int list"
  | V_integer_ptrs "int option list"
  | V_string_ptrs "bytes option list"
  | V_scan bytes "bytes list"
  | V_geopos "(bytes \<times> bytes) option list"
  | V_xpending int bytes bytes "(bytes \<times> bytes) list"
  | V_xrange "(bytes \<times> bytes list) list"
  | V_xread "(bytes \<times> (bytes \<times> bytes list) list) list"
  | V_packet "'d packet option"

text \<open>How a command reads its reply: the helper it calls and its template arguments.\<close>

datatype reply_kind =
    Integer_reply | Status_reply | Bulk_reply | String_ptr | Integer_ptr
  | Vector_string | Vector_integer | Vector_integer_ptr | Vector_string_ptr
  | Scan_reply | Geopos_reply | Xpending_reply | Xrange_reply | Xread_reply | Packet_reply

section \<open>Builders\<close>

text \<open>
  \<open>ArrayPacket::moveBulks\<close> and \<open>moveIntegers\<close> fill a vector until an element does not fit; the
  vector keeps what it got.
\<close>

fun moveBulks :: "'d packet list \<Rightarrow> bytes list \<times> bool" where
  "moveBulks [] = ([], True)"
| "moveBulks (p # ps) = (case cast_bulk p of
     Some (TYPE_COMMON, s) \<Rightarrow> (let (ss, ok) = moveBulks ps in (s # ss, ok))
   | _ \<Rightarrow> ([], False))"

fun moveIntegers :: "'d packet list \<Rightarrow> int list \<times> bool" where
  "moveIntegers [] = ([], True)"
| "moveIntegers (p # ps) = (case cast_integer p of
     Some i \<Rightarrow> (let (is, ok) = moveIntegers ps in (i # is, ok))
   | None \<Rightarrow> ([], False))"

definition vectorStringBuilder :: "'d packet list \<Rightarrow> 'd reply_value tair_result" where
  "vectorStringBuilder ps = (case moveBulks ps of
     (bulks, True) \<Rightarrow> setValue (V_strings bulks)
   | (_, False) \<Rightarrow> setErr ''FATAL: decode vector string failed.'')"

definition vectorIntegerBuilder :: "'d packet list \<Rightarrow> 'd reply_value tair_result" where
  "vectorIntegerBuilder ps = (case moveIntegers ps of
     (is, True) \<Rightarrow> setValue (V_integers is)
   | (_, False) \<Rightarrow> setErr ''FATAL: decode vector integer failed.'')"

definition integer_ptr :: "'d packet \<Rightarrow> int option option" where
  "integer_ptr p = (case cast_integer p of
     Some i \<Rightarrow> Some (Some i)
   | None \<Rightarrow> do { (t, s) \<leftarrow> cast_bulk p; ensure (t = TYPE_NULL); Some None })"

definition vectorIntegerPtrBuilder :: "'d packet list \<Rightarrow> 'd reply_value tair_result option" where
  "vectorIntegerPtrBuilder ps = map_option (\<lambda>vs. setValue (V_integer_ptrs vs)) (those (map integer_ptr ps))"

definition string_ptr :: "packet_type \<times> bytes \<Rightarrow> bytes option" where
  "string_ptr = (\<lambda>(t, s). if t \<noteq> TYPE_NULL then Some s else None)"

definition vectorStringPtrBuilder :: "'d packet list \<Rightarrow> 'd reply_value tair_result option" where
  "vectorStringPtrBuilder ps =
     map_option (\<lambda>vs. setValue (V_string_ptrs (map string_ptr vs))) (those (map cast_bulk ps))"

definition stringPtrBuilder :: "packet_type \<times> bytes \<Rightarrow> 'd reply_value tair_result" where
  "stringPtrBuilder b = setValue (V_string_ptr (string_ptr b))"

definition scanResultBuilder :: "'d packet list \<Rightarrow> 'd reply_value tair_result option" where
  "scanResultBuilder ps = (case ps of
     [p0, p1] \<Rightarrow> (case (cast_bulk p0, cast_array p1) of
         (Some (_, cursor), Some (_, rs)) \<Rightarrow> Some (setValue (V_scan cursor (fst (moveBulks rs))))
       | _ \<Rightarrow> Some (setErr ''FATAL: decode scan result failed.''))
   | _ \<Rightarrow> None)"

text \<open>The first two elements of a container, read without a look at its size.\<close>

definition two_of :: "'a list \<Rightarrow> ('a \<times> 'a) option" where
  "two_of ps = (case ps of a # b # _ \<Rightarrow> Some (a, b) | _ \<Rightarrow> None)"

fun geopos_loop :: "'d packet list \<Rightarrow> (bytes \<times> bytes) option list \<Rightarrow> 'd reply_value tair_result option" where
  "geopos_loop [] gr = Some (setValue (V_geopos gr))"
| "geopos_loop (p # ps) gr = (case cast_array p of
     Some (TYPE_COMMON, qs) \<Rightarrow> do {
       (a, b) \<leftarrow> two_of qs;
       case (cast_bulk a, cast_bulk b) of
         (Some (_, lo), Some (_, la)) \<Rightarrow> geopos_loop ps (gr @ [Some (lo, la)])
       | _ \<Rightarrow> Some (setErr ''FATAL: decode geopos result failed.'') }
   | _ \<Rightarrow> geopos_loop ps (gr @ [None]))"

definition geoposResultBuilder :: "'d packet list \<Rightarrow> 'd reply_value tair_result option" where
  "geoposResultBuilder ps = geopos_loop ps []"

definition xpending_message :: "'d packet \<Rightarrow> (bytes \<times> bytes) option" where
  "xpending_message p = do {
     (t, qs) \<leftarrow> cast_array p;
     (a, b) \<leftarrow> two_of qs;
     (_, name) \<leftarrow> cast_bulk a;
     (_, count) \<leftarrow> cast_bulk b;
     Some (name, count) }"

definition xpendingResultBuilder :: "'d packet list \<Rightarrow> 'd reply_value tair_result option" where
  "xpendingResultBuilder ps = (case ps of
     [p0, p1, p2, p3] \<Rightarrow> do {
       n \<leftarrow> cast_integer p0;
       if n = 0 then Some (setValue (V_xpending n [] [] []))
       else do {
         (_, startid) \<leftarrow> cast_bulk p1;
         (_, endid) \<leftarrow> cast_bulk p2;
         (_, ms) \<leftarrow> cast_array p3;
         messages \<leftarrow> those (map xpending_message ms);
         Some (setValue (V_xpending n startid endid messages)) } }
   | _ \<Rightarrow> None)"

fun xrange_loop :: "'d packet list \<Rightarrow> (bytes \<times> bytes list) list \<Rightarrow> 'd reply_value tair_result option" where
  "xrange_loop [] xs = Some (setValue (V_xrange xs))"
| "xrange_loop (p # ps) xs = do {
     (_, qs) \<leftarrow> cast_array p;
     (a, b) \<leftarrow> two_of qs;
     case (cast_bulk a, cast_array b) of
       (Some (_, xid), Some (_, vs)) \<Rightarrow> xrange_loop ps (xs @ [(xid, fst (moveBulks vs))])
     | _ \<Rightarrow> Some (setErr ''FATAL: decode xrange result failed.'') }"

definition xrangeResultBuilder :: "'d packet list \<Rightarrow> 'd reply_value tair_result option" where
  "xrangeResultBuilder ps = xrange_loop ps []"

definition xread_stream :: "'d packet \<Rightarrow> (bytes \<times> (bytes \<times> bytes list) list) option" where
  "xread_stream p = do {
     (_, qs) \<leftarrow> cast_array p;
     (a, b) \<leftarrow> two_of qs;
     (_, streamname) \<leftarrow> cast_bulk a;
     (_, sinfo) \<leftarrow> cast_array b;
     case sinfo of
       [] \<Rightarrow> Some (streamname, [])
     | s0 # _ \<Rightarrow> do {
         (_, es) \<leftarrow> cast_array s0;
         (i, v) \<leftarrow> two_of es;
         (_, sid) \<leftarrow> cast_bulk i;
         (_, vs) \<leftarrow> cast_array v;
         Some (streamname, [(sid, fst (moveBulks vs))]) } }"

definition xreadResultBuilder :: "packet_type \<times> 'd packet list \<Rightarrow> 'd reply_value tair_result option" where
  "xreadResultBuilder a = (case a of (t, ps) \<Rightarrow>
     if t = TYPE_NULL then Some (setValue (V_xread []))
     else map_option (\<lambda>rs. setValue (V_xread rs)) (those (map xread_stream ps)))"

section \<open>From a reply to the result of a callback\<close>

definition reply_error :: "'d packet \<Rightarrow> 'd reply_value tair_result" where
  "reply_error p = (case getReplyError p of
     Some e \<Rightarrow> setErr e
   | None \<Rightarrow> setErr ''unknown return type'')"

definition connection_error :: "'d reply_value tair_result" where
  "connection_error = setErr ''connection error, response is null''"

definition doCallbackOneResult :: "('d packet \<Rightarrow> 'd reply_value option) \<Rightarrow> 'd packet option \<Rightarrow> 'd reply_value tair_result option" where
  "doCallbackOneResult get resp = Some (case resp of
     None \<Rightarrow> connection_error
   | Some p \<Rightarrow> (case get p of Some v \<Rightarrow> setValue v | None \<Rightarrow> reply_error p))"

definition doCallbackByBuilder ::
  "('d packet \<Rightarrow> 'p option) \<Rightarrow> ('p \<Rightarrow> 'd reply_value tair_result option) \<Rightarrow> 'd packet option \<Rightarrow> 'd reply_value tair_result option" where
  "doCallbackByBuilder get builder resp = (case resp of
     None \<Rightarrow> Some connection_error
   | Some p \<Rightarrow> (case get p of Some q \<Rightarrow> builder q | None \<Rightarrow> Some (reply_error p)))"

text \<open>\<open>doIntegerPtrCallback\<close> does not test for a null response.\<close>

definition doIntegerPtrCallback :: "'d packet option \<Rightarrow> 'd reply_value tair_result option" where
  "doIntegerPtrCallback resp = do { p \<leftarrow> resp; Some (setValue (V_integer_ptr (cast_integer p))) }"

fun read_reply :: "reply_kind \<Rightarrow> 'd packet option \<Rightarrow> 'd reply_value tair_result option" where
  "read_reply Integer_reply = doCallbackOneResult (\<lambda>p. map_option V_integer (getReplyInteger p))"
| "read_reply Status_reply = doCallbackOneResult (\<lambda>p. map_option V_string (getReplyStatus p))"
| "read_reply Bulk_reply = doCallbackOneResult (\<lambda>p. map_option V_string (getReplyBulkStr p))"
| "read_reply String_ptr = doCallbackByBuilder cast_bulk (\<lambda>b. Some (stringPtrBuilder b))"
| "read_reply Integer_ptr = doIntegerPtrCallback"
| "read_reply Vector_string = doCallbackByBuilder cast_array (\<lambda>(t, ps). Some (vectorStringBuilder ps))"
| "read_reply Vector_integer = doCallbackByBuilder cast_array (\<lambda>(t, ps). Some (vectorIntegerBuilder ps))"
| "read_reply Vector_integer_ptr = doCallbackByBuilder cast_array (\<lambda>(t, ps). vectorIntegerPtrBuilder ps)"
| "read_reply Vector_string_ptr = doCallbackByBuilder cast_array (\<lambda>(t, ps). vectorStringPtrBuilder ps)"
| "read_reply Scan_reply = doCallbackByBuilder cast_array (\<lambda>(t, ps). scanResultBuilder ps)"
| "read_reply Geopos_reply = doCallbackByBuilder cast_array (\<lambda>(t, ps). geoposResultBuilder ps)"
| "read_reply Xpending_reply = doCallbackByBuilder cast_array (\<lambda>(t, ps). xpendingResultBuilder ps)"
| "read_reply Xrange_reply = doCallbackByBuilder cast_array (\<lambda>(t, ps). xrangeResultBuilder ps)"
| "read_reply Xread_reply = doCallbackByBuilder cast_array xreadResultBuilder"
| "read_reply Packet_reply = (\<lambda>resp. Some (setValue (V_packet resp)))"

section \<open>What callbacks may rely on\<close>

text \<open>The value a helper hands over has the type its callback takes.\<close>

fun value_kind :: "'d reply_value \<Rightarrow> reply_kind set" where
  "value_kind (V_integer _) = {Integer_reply}"
| "value_kind (V_string _) = {Status_reply, Bulk_reply}"
| "value_kind (V_string_ptr _) = {String_ptr}"
| "value_kind (V_integer_ptr _) = {Integer_ptr}"
| "value_kind (V_strings _) = {Vector_string}"
| "value_kind (V_integers _) = {Vector_integer}"
| "value_kind (V_integer_ptrs _) = {Vector_integer_ptr}"
| "value_kind (V_string_ptrs _) = {Vector_string_ptr}"
| "value_kind (V_scan _ _) = {Scan_reply}"
| "value_kind (V_geopos _) = {Geopos_reply}"
| "value_kind (V_xpending _ _ _ _) = {Xpending_reply}"
| "value_kind (V_xrange _) = {Xrange_reply}"
| "value_kind (V_xread _) = {Xread_reply}"
| "value_kind (V_packet _) = {Packet_reply}"

definition result_fits :: "reply_kind \<Rightarrow> 'd reply_value tair_result \<Rightarrow> bool" where
  "result_fits kind r \<longleftrightarrow> (case result_value r of None \<Rightarrow> True | Some v \<Rightarrow> kind \<in> value_kind v)"

lemma result_fits_simps [simp]:
  "result_fits kind (setErr e)" "result_fits kind (setValue v) \<longleftrightarrow> kind \<in> value_kind v"
  by (simp_all add: result_fits_def setErr_def setValue_def)

lemma result_value_simps [simp]:
  "result_value (setValue v) = Some v" "result_err (setValue v) = []"
  "result_value (setErr e) = None" "result_err (setErr e) = e" "isSuccess (setValue v)" "isSuccess (setErr e) \<longleftrightarrow> e = []"
  by (simp_all add: setValue_def setErr_def isSuccess_def)

lemma geopos_loop_fits: "geopos_loop ps gr = Some r \<Longrightarrow> result_fits Geopos_reply r \<and> (isSuccess r \<longrightarrow> result_value r \<noteq> None)"
  by (induction ps gr rule: geopos_loop.induct)
    (auto split: option.split_asm prod.split_asm packet_type.split_asm Option.bind_split_asm)

lemma xrange_loop_fits: "xrange_loop ps xs = Some r \<Longrightarrow> result_fits Xrange_reply r \<and> (isSuccess r \<longrightarrow> result_value r \<noteq> None)"
  by (induction ps xs rule: xrange_loop.induct)
    (auto split: option.split_asm prod.split_asm Option.bind_split_asm)

lemmas builder_defs = vectorStringBuilder_def vectorIntegerBuilder_def vectorIntegerPtrBuilder_def
  vectorStringPtrBuilder_def stringPtrBuilder_def scanResultBuilder_def geoposResultBuilder_def
  xpendingResultBuilder_def xrangeResultBuilder_def xreadResultBuilder_def

lemma doCallbackOneResult_fits:
  assumes "doCallbackOneResult get (Some p) = Some r" "\<And>v. get p = Some v \<Longrightarrow> kind \<in> value_kind v"
  shows "result_fits kind r \<and> (isSuccess r \<longrightarrow> result_value r \<noteq> None \<or> getReplyError p = Some [])"
  using assms by (auto simp: doCallbackOneResult_def reply_error_def split: option.splits)

lemma doCallbackByBuilder_fits:
  assumes "doCallbackByBuilder get builder (Some p) = Some r"
    "\<And>q r. get p = Some q \<Longrightarrow> builder q = Some r \<Longrightarrow> result_fits kind r \<and> (isSuccess r \<longrightarrow> result_value r \<noteq> None)"
  shows "result_fits kind r \<and> (isSuccess r \<longrightarrow> result_value r \<noteq> None \<or> getReplyError p = Some [])"
  using assms by (auto simp: doCallbackByBuilder_def reply_error_def split: option.splits)

lemma scanResultBuilder_fits: "scanResultBuilder ps = Some r \<Longrightarrow> result_fits Scan_reply r \<and> (isSuccess r \<longrightarrow> result_value r \<noteq> None)"
  by (auto simp: scanResultBuilder_def split: list.split_asm option.split_asm prod.split_asm)

lemma xpendingResultBuilder_fits:
  "xpendingResultBuilder ps = Some r \<Longrightarrow> result_fits Xpending_reply r \<and> (isSuccess r \<longrightarrow> result_value r \<noteq> None)"
  by (auto simp: xpendingResultBuilder_def split: list.split_asm Option.bind_split_asm if_split_asm prod.split_asm)

lemma simple_builders_fit:
  "vectorStringBuilder ps = r \<Longrightarrow> result_fits Vector_string r \<and> (isSuccess r \<longrightarrow> result_value r \<noteq> None)"
  "vectorIntegerBuilder ps = r \<Longrightarrow> result_fits Vector_integer r \<and> (isSuccess r \<longrightarrow> result_value r \<noteq> None)"
  "vectorIntegerPtrBuilder ps = Some r \<Longrightarrow> result_fits Vector_integer_ptr r \<and> (isSuccess r \<longrightarrow> result_value r \<noteq> None)"
  "vectorStringPtrBuilder ps = Some r \<Longrightarrow> result_fits Vector_string_ptr r \<and> (isSuccess r \<longrightarrow> result_value r \<noteq> None)"
  "stringPtrBuilder b = r \<Longrightarrow> result_fits String_ptr r \<and> (isSuccess r \<longrightarrow> result_value r \<noteq> None)"
  "xreadResultBuilder a = Some r \<Longrightarrow> result_fits Xread_reply r \<and> (isSuccess r \<longrightarrow> result_value r \<noteq> None)"
  by (auto simp: builder_defs split: prod.splits bool.splits if_split_asm)

text \<open>Every other helper is one of two functions.\<close>

lemma read_reply_shape:
  assumes "kind \<noteq> Integer_ptr" "kind \<noteq> Packet_reply"
  obtains get :: "'d packet \<Rightarrow> 'd reply_value option" where
      "read_reply kind = doCallbackOneResult get" "\<And>p v. get p = Some v \<Longrightarrow> kind \<in> value_kind v"
  | get :: "'d packet \<Rightarrow> (packet_type \<times> bytes) option" and builder where
      "read_reply kind = doCallbackByBuilder get builder"
      "\<And>q r. builder q = Some r \<Longrightarrow> result_fits kind r \<and> (isSuccess r \<longrightarrow> result_value r \<noteq> None)"
      "\<And>er e. get (ErrorPacket er e) = None"
  | get :: "'d packet \<Rightarrow> (packet_type \<times> 'd packet list) option" and builder where
      "read_reply kind = doCallbackByBuilder get builder"
      "\<And>q r. builder q = Some r \<Longrightarrow> result_fits kind r \<and> (isSuccess r \<longrightarrow> result_value r \<noteq> None)"
      "\<And>er e. get (ErrorPacket er e) = None"
proof (cases kind)
  case Integer_reply
  then show thesis by (intro that(1)) auto
next
  case Status_reply
  then show thesis by (intro that(1)) auto
next
  case Bulk_reply
  then show thesis by (intro that(1)) auto
next
  case String_ptr
  then show thesis
    by (intro that(2) [of cast_bulk "\<lambda>b. Some (stringPtrBuilder b)"]) (auto simp: stringPtrBuilder_def)
next
  case Vector_string
  then show thesis
    by (intro that(3) [of cast_array "\<lambda>(t, ps). Some (vectorStringBuilder ps)"])
      (use simple_builders_fit(1) [OF refl] in auto)
next
  case Vector_integer
  then show thesis
    by (intro that(3) [of cast_array "\<lambda>(t, ps). Some (vectorIntegerBuilder ps)"])
      (use simple_builders_fit(2) [OF refl] in auto)
next
  case Vector_integer_ptr
  then show thesis
    by (intro that(3) [of cast_array "\<lambda>(t, ps). vectorIntegerPtrBuilder ps"]) (auto dest: simple_builders_fit)
next
  case Vector_string_ptr
  then show thesis
    by (intro that(3) [of cast_array "\<lambda>(t, ps). vectorStringPtrBuilder ps"]) (auto dest: simple_builders_fit)
next
  case Scan_reply
  then show thesis
    by (intro that(3) [of cast_array "\<lambda>(t, ps). scanResultBuilder ps"]) (auto dest: scanResultBuilder_fits)
next
  case Geopos_reply
  then show thesis
    by (intro that(3) [of cast_array "\<lambda>(t, ps). geoposResultBuilder ps"]) (auto dest: geopos_loop_fits [where gr = "[]", folded geoposResultBuilder_def])
next
  case Xpending_reply
  then show thesis
    by (intro that(3) [of cast_array "\<lambda>(t, ps). xpendingResultBuilder ps"]) (auto dest: xpendingResultBuilder_fits)
next
  case Xrange_reply
  then show thesis
    by (intro that(3) [of cast_array "\<lambda>(t, ps). xrangeResultBuilder ps"]) (auto dest: xrange_loop_fits [where xs = "[]", folded xrangeResultBuilder_def])
next
  case Xread_reply
  then show thesis
    by (intro that(3) [of cast_array "xreadResultBuilder"]) (auto dest: simple_builders_fit)
qed (use assms in auto)

lemma read_reply_fits:
  fixes p :: "'d packet"
  assumes "kind \<noteq> Integer_ptr" "kind \<noteq> Packet_reply" "read_reply kind (Some p) = Some r"
  shows "result_fits kind r \<and> (isSuccess r \<longrightarrow> result_value r \<noteq> None \<or> getReplyError p = Some [])"
  using assms(1,2)
proof (cases rule: read_reply_shape [where 'd = 'd])
  case (1 get)
  with assms(3) have "doCallbackOneResult get (Some p) = Some r" by simp
  then show ?thesis using 1(2) by (rule doCallbackOneResult_fits)
next
  case (2 get builder)
  with assms(3) have "doCallbackByBuilder get builder (Some p) = Some r" by simp
  then show ?thesis using 2(2) by (rule doCallbackByBuilder_fits)
next
  case (3 get builder)
  with assms(3) have "doCallbackByBuilder get builder (Some p) = Some r" by simp
  then show ?thesis using 3(2) by (rule doCallbackByBuilder_fits)
qed

text \<open>C7: callbacks are told what happened. For every way of reading a reply but
  \<open>doIntegerPtrCallback\<close> and the raw packet: a lost connection gives the connection error and an
  error reply its text; a result that counts as success carries a value of the type the callback
  takes, or the reply was an error with an empty text.\<close>

theorem callbacks_are_told:
  assumes "kind \<noteq> Integer_ptr" "kind \<noteq> Packet_reply"
  shows "read_reply kind None = Some connection_error \<and>
    read_reply kind (Some (ErrorPacket er e)) = Some (setErr e) \<and>
    (read_reply kind (Some p) = Some r \<longrightarrow> isSuccess r \<longrightarrow>
      (\<exists>v. result_value r = Some v \<and> kind \<in> value_kind v) \<or> (\<exists>er. p = ErrorPacket er []))"
proof (intro conjI impI)
  show "read_reply kind None = Some connection_error"
    using assms by (cases kind) (simp_all add: doCallbackOneResult_def doCallbackByBuilder_def)
  show "read_reply kind (Some (ErrorPacket er e)) = Some (setErr e)"
    using assms by (cases kind)
      (simp_all add: doCallbackOneResult_def doCallbackByBuilder_def reply_error_def getReplyInteger_def
        getReplyStatus_def getReplyBulkStr_def getReplyError_def)
  have err: "getReplyError p = Some [] \<Longrightarrow> \<exists>er. p = ErrorPacket er []"
    by (cases p) (simp_all add: getReplyError_def)
  assume "read_reply kind (Some p) = Some r" "isSuccess r"
  then show "(\<exists>v. result_value r = Some v \<and> kind \<in> value_kind v) \<or> (\<exists>er. p = ErrorPacket er [])"
    using read_reply_fits [OF assms, of p r] err by (auto simp: result_fits_def)
qed

theorem callbacks_are_told_witness:
  "read_reply Integer_reply (None :: int packet option) = Some connection_error \<and>
   read_reply Integer_reply (Some (ErrorPacket [] ''ERR'' :: int packet)) = Some (setErr ''ERR'') \<and>
   (\<exists>v :: int reply_value. result_value (setValue (V_integer 5)) = Some v \<and> Integer_reply \<in> value_kind v)"
  using callbacks_are_told [of Integer_reply "[]" "''ERR''" "IntegerPacket [] 5 :: int packet" "setValue (V_integer 5)"]
  by (auto simp: doCallbackOneResult_def getReplyInteger_def)

text \<open>\<open>xread\<close> keeps the first entry of every stream only.\<close>

lemma xread_stream_first_entry:
  "cast_array p = Some (t, [a, b]) \<Longrightarrow> cast_bulk a = Some (u, name) \<Longrightarrow> cast_array b = Some (v, e # es) \<Longrightarrow>
   xread_stream p = Some (name, infos) \<Longrightarrow> length infos = 1"
  by (auto simp: xread_stream_def two_of_def split: Option.bind_split_asm prod.split_asm)

lemma moveBulks_bulks: "moveBulks (map (BulkStringPacket e TYPE_COMMON l) xs) = (xs, True)"
  by (induction xs) auto

lemma every_list_map: "every_list P (map f xs) \<longleftrightarrow> (\<forall>x\<in>set xs. every P (f x))"
  by (induction xs) auto

lemma request_packet_valid:
  "(\<forall>x\<in>set xs. length x \<le> max_bulk_len L \<and> int64_range (int (length x))) \<Longrightarrow> int64_range (int (length xs)) \<Longrightarrow>
     valid L ct (request_packet xs)"
  by (simp add: valid_def request_packet_def every_list_map)

lemma request_packet_view:
  "view L ct (request_packet xs) = ArrayPacket [] Array_class TYPE_COMMON
     (map (BulkStringPacket [] TYPE_COMMON NOT_SET_SIZE) xs) 0 0 None"
proof -
  have "view_list L ct (map (BulkStringPacket [] TYPE_COMMON NOT_SET_SIZE) xs)
      = map (BulkStringPacket [] TYPE_COMMON NOT_SET_SIZE) xs"
    by (induction xs) (simp_all add: bulk_packet_def)
  then show ?thesis by (simp add: request_packet_def)
qed

lemma depth_request_packet: "depth (request_packet xs) = 1"
proof -
  have "depth_list (map (BulkStringPacket [] TYPE_COMMON NOT_SET_SIZE) xs) = 0" by (induction xs) simp_all
  then show ?thesis by (simp add: request_packet_def)
qed

text \<open>C8: strings arrive as they were sent, end to end. When a server answers with an array of
  bulk strings, whatever bytes they hold, the client's codec decodes it and a command that reads
  a vector of strings hands exactly these strings to its callback, under RESP2 and RESP3.\<close>

theorem strings_arrive:
  assumes "resp_lib L" "buf_ok b" "contents b = []" "2 \<le> f"
    "\<forall>x\<in>set xs. length x \<le> max_bulk_len L \<and> length x < 2 ^ 63" "length xs < 2 ^ 63"
  shows "wp (encodeResponse L (new_codec ct) (request_packet xs) b) (\<lambda>b1.
           wp (decodeResponse buffer_source L f (new_codec ct) b1) (\<lambda>(st, (out, c), b2).
             st = SUCCESS \<and> contents b2 = [] \<and>
             (\<exists>p n. out = Some (p, n) \<and> read_reply Vector_string (Some p) = Some (setValue (V_strings xs)))))"
proof -
  have val: "valid L ct (request_packet xs)"
    using assms(5,6) by (intro request_packet_valid) (auto simp: int64_range_def)
  have "wp (encodeResponse L (new_codec ct) (request_packet xs) b) (\<lambda>b1. buf_ok b1 \<and> contents b1 = wire L ct (request_packet xs))"
    using resp_lib.encode_wire_all(1) [OF assms(1) valid_fits [OF val] assms(2)] assms(3)
    by (simp add: encodeResponse_def new_codec_def)
  then show ?thesis
  proof (rule wp_mono)
    fix b1
    assume b1: "buf_ok b1 \<and> contents b1 = wire L ct (request_packet xs)"
    have "decodeResponse string_source L f (new_codec ct) (contents b1)
       = Some (SUCCESS, (Some (view L ct (request_packet xs), length (wire L ct (request_packet xs))),
           (new_codec ct)\<lparr>codec_err := [], resp_packet := None\<rparr>), [])"
      using decodeResponse_wire [OF assms(1) val, of f "new_codec ct" "[]"] assms(4) b1
      by (simp add: depth_request_packet new_codec_def)
    then show "wp (decodeResponse buffer_source L f (new_codec ct) b1) (\<lambda>(st, (out, c), b2).
             st = SUCCESS \<and> contents b2 = [] \<and>
             (\<exists>p n. out = Some (p, n) \<and> read_reply Vector_string (Some p) = Some (setValue (V_strings xs))))"
      by (rule decodeResponse_buffer [OF conjunct1 [OF b1]])
        (simp add: request_packet_view doCallbackByBuilder_def vectorStringBuilder_def moveBulks_bulks)
  qed
qed

theorem strings_arrive_witness:
  "wp (encodeResponse plain_lib (new_codec RESP3) (request_packet [''a'', [CR, LF]]) empty_buffer) (\<lambda>b1.
     wp (decodeResponse buffer_source plain_lib 2 (new_codec RESP3) b1) (\<lambda>(st, (out, c), b2).
       \<exists>p n. out = Some (p, n) \<and> read_reply Vector_string (Some p) = Some (setValue (V_strings [''a'', [CR, LF]]))))"
  using strings_arrive [OF resp_lib_plain empty_buffer_ok, of 2 "[''a'', [CR, LF]]" RESP3]
  by (auto elim!: wp_mono)

end
