(* ===== verification/BaseClient.thy ===== *)
theory BaseClient
  imports Reply
begin

text \<open>
  \<open>client/TairBaseClient.cpp\<close>: the connection of a client. It queues the callback of every command,
  hands each decoded reply to the oldest one, and empties the queue with null replies when the
  connection is lost. The methods run in the event loop; what the loop delivers (connections,
  bytes, timers) are the operations of \<open>client_op\<close>. A user callback is what it does: \<open>react\<close> gives
  the commands it sends when it is called. \<open>None\<close> is an abort (\<open>runtimeAssert\<close>), a null
  dereference or a loop that outlives its fuel.
\<close>

section \<open>State\<close>

text \<open>The \<open>tcp_client_\<close>: none, one whose \<open>connection()\<close> is still null, one with a connection that is
  up, one with a connection that is closed.\<close>

datatype link = No_client | Connecting | Up | Down

text \<open>Callbacks: those of the user, and the two the client itself passes.\<close>

datatype 'u callback = User 'u | Auth_callback | Setname_callback

type_synonym 'u pending = "bytes list \<times> 'u callback"

text \<open>What can be seen from outside.\<close>

datatype ('d, 'u) event =
    Connected
  | Closed
  | Wrote "'u pending"
  | Answered "'u pending" "'d packet option"
  | Promise_set "bytes tair_result"

record ('d, 'u) base_client =
  codec_ptr :: "'d codec option"
  link :: link
  callbacks :: "'u pending list"
  in_callback_context :: bool
  reconnect_timer :: bool
  last_send_req_time_ms :: int
  last_recv_resp_time_ms :: int
  auth_promise :: bool
  server_addr :: bytes
  user_name :: bytes
  user_password :: bytes
  reconnect_interval_ms :: int
  input_buffer :: bytes
  events :: "('d, 'u) event list"

definition new_base_client :: "('d, 'u) base_client" where
  "new_base_client = \<lparr>codec_ptr = None, link = No_client, callbacks = [], in_callback_context = False,
     reconnect_timer = False, last_send_req_time_ms = 0, last_recv_resp_time_ms = 0, auth_promise = False,
     server_addr = [], user_name = [], user_password = [], reconnect_interval_ms = -1,
     input_buffer = [], events = []\<rparr>"

text \<open>The world around the client: the library below the codec, the user's callbacks, the name
  it gives itself (\<open>TairClientInfo::toJSON\<close>), the nesting of callbacks and the rounds of a loop
  that are followed.\<close>

record ('d, 'u) env =
  lib :: "'d lib"
  react :: "'u \<Rightarrow> 'd packet option \<Rightarrow> ('u \<times> bytes list) list"
  client_name :: bytes
  nesting :: nat
  rounds :: nat

definition log_event :: "('d, 'u) event \<Rightarrow> ('d, 'u) base_client \<Rightarrow> ('d, 'u) base_client" where
  "log_event e st = st\<lparr>events := events st @ [e]\<rparr>"

definition assertNotInCallbackContext :: "('d, 'u) base_client \<Rightarrow> unit option" where
  "assertNotInCallbackContext st = ensure (\<not> in_callback_context st)"

primrec fold_option :: "('a \<Rightarrow> 's \<Rightarrow> 's option) \<Rightarrow> 'a list \<Rightarrow> 's \<Rightarrow> 's option" where
  "fold_option f [] s = Some s"
| "fold_option f (x # xs) s = Option.bind (f x s) (fold_option f xs)"

section \<open>Sending\<close>

definition set_promise :: "bytes tair_result \<Rightarrow> ('d, 'u) base_client \<Rightarrow> ('d, 'u) base_client" where
  "set_promise r st = (if auth_promise st then log_event (Promise_set r) (st\<lparr>auth_promise := False\<rparr>) else st)"

text \<open>\<open>sendCommandInLoop\<close>, given how a callback is run. A closed connection drops the bytes.\<close>

definition send_with ::
  "('u pending \<Rightarrow> 'd packet option \<Rightarrow> ('d, 'u) base_client \<Rightarrow> ('d, 'u) base_client option) \<Rightarrow> int \<Rightarrow>
   'u pending \<Rightarrow> ('d, 'u) base_client \<Rightarrow> ('d, 'u) base_client option" where
  "send_with run now c st = (case link st of
     No_client \<Rightarrow> run c None st
   | Connecting \<Rightarrow> None
   | l \<Rightarrow> do {
       let st1 = st\<lparr>callbacks := callbacks st @ [c]\<rparr>;
       codec \<leftarrow> codec_ptr st;
       let st2 = (if l = Up then log_event (Wrote c) st1 else st1);
       Some (if reconnect_interval_ms st > 0 then st2\<lparr>last_send_req_time_ms := now\<rparr> else st2) })"

text \<open>The value a status reply gives to a callback for strings.\<close>

definition status_result :: "'d packet option \<Rightarrow> bytes tair_result" where
  "status_result resp = (case resp of
     None \<Rightarrow> setErr ''connection error, response is null''
   | Some p \<Rightarrow> (case getReplyStatus p of
       Some s \<Rightarrow> setValue s
     | None \<Rightarrow> (case getReplyError p of Some e \<Rightarrow> setErr e | None \<Rightarrow> setErr ''unknown return type'')))"

fun run_callback ::
  "nat \<Rightarrow> ('d, 'u) env \<Rightarrow> int \<Rightarrow> 'u pending \<Rightarrow> 'd packet option \<Rightarrow> ('d, 'u) base_client \<Rightarrow> ('d, 'u) base_client option" where
  "run_callback 0 E now c resp st = None"
| "run_callback (Suc n) E now c resp st = do {
     let st1 = log_event (Answered c resp) (st\<lparr>in_callback_context := True\<rparr>);
     st2 \<leftarrow> (case snd c of
         User u \<Rightarrow> fold_option (\<lambda>(v, words). send_with (run_callback n E now) now (words, User v)) (react E u resp) st1
       | Auth_callback \<Rightarrow> Some (set_promise (status_result resp) st1)
       | Setname_callback \<Rightarrow> Some st1);
     Some (st2\<lparr>in_callback_context := False\<rparr>) }"

definition sendCommandInLoop ::
  "('d, 'u) env \<Rightarrow> int \<Rightarrow> 'u pending \<Rightarrow> ('d, 'u) base_client \<Rightarrow> ('d, 'u) base_client option" where
  "sendCommandInLoop E now = send_with (run_callback (nesting E) E now) now"

section \<open>Replies\<close>

definition onRecvResponse ::
  "('d, 'u) env \<Rightarrow> int \<Rightarrow> 'd packet \<Rightarrow> ('d, 'u) base_client \<Rightarrow> ('d, 'u) base_client option" where
  "onRecvResponse E now resp st = (case callbacks st of
     [] \<Rightarrow> None
   | c # cs \<Rightarrow> run_callback (nesting E) E now c (Some resp) (st\<lparr>callbacks := cs\<rparr>))"

text \<open>The loop of \<open>clearCallbacks\<close>, followed for \<open>m\<close> rounds: done, still going, or (\<open>None\<close>) an abort.\<close>

datatype 's progress = Done 's | Unfinished 's

fun clear_loop :: "nat \<Rightarrow> ('d, 'u) env \<Rightarrow> int \<Rightarrow> ('d, 'u) base_client \<Rightarrow> ('d, 'u) base_client progress option" where
  "clear_loop m E now st = (case callbacks st of
     [] \<Rightarrow> Some (Done st)
   | c # cs \<Rightarrow> (case m of
       0 \<Rightarrow> Some (Unfinished st)
     | Suc m' \<Rightarrow> do {
         st1 \<leftarrow> run_callback (nesting E) E now c None (st\<lparr>callbacks := cs\<rparr>);
         clear_loop m' E now st1 }))"

declare clear_loop.simps [simp del]

fun finished :: "'s progress \<Rightarrow> 's option" where
  "finished (Done s) = Some s"
| "finished (Unfinished s) = None"

lemma finished_Some [simp]: "finished r = Some s \<longleftrightarrow> r = Done s"
  by (cases r) auto

definition clearCallbacks :: "('d, 'u) env \<Rightarrow> int \<Rightarrow> ('d, 'u) base_client \<Rightarrow> ('d, 'u) base_client option" where
  "clearCallbacks E now st = do {
     assertNotInCallbackContext st;
     r \<leftarrow> clear_loop (rounds E) E now st;
     finished r }"

section \<open>The connection\<close>

definition authentication :: "('d, 'u) env \<Rightarrow> int \<Rightarrow> ('d, 'u) base_client \<Rightarrow> ('d, 'u) base_client option" where
  "authentication E now st =
     (if user_name st \<noteq> [] \<and> user_password st \<noteq> []
      then sendCommandInLoop E now ([''auth'', user_name st, user_password st], Auth_callback) st
      else if user_password st \<noteq> []
      then sendCommandInLoop E now ([''auth'', user_password st], Auth_callback) st
      else Some (set_promise (setValue ''ok'') st))"

definition onConnected :: "('d, 'u) env \<Rightarrow> int \<Rightarrow> ('d, 'u) base_client \<Rightarrow> ('d, 'u) base_client option" where
  "onConnected E now st = do {
     st1 \<leftarrow> authentication E now st;
     st2 \<leftarrow> sendCommandInLoop E now ([''client'', ''setname'', client_name E], Setname_callback) st1;
     Some (if reconnect_interval_ms st2 > 0 then st2\<lparr>reconnect_timer := True\<rparr> else st2) }"

definition onDisconnected :: "('d, 'u) base_client \<Rightarrow> ('d, 'u) base_client" where
  "onDisconnected st = (set_promise (setErr ''connect to server fail, disconnected'') st)\<lparr>reconnect_timer := False\<rparr>"

text \<open>\<open>onConnection\<close> for a connection that is up, and for one that is not.\<close>

definition onConnection_up :: "('d, 'u) env \<Rightarrow> int \<Rightarrow> ('d, 'u) base_client \<Rightarrow> ('d, 'u) base_client option" where
  "onConnection_up E now st = onConnected E now (st\<lparr>codec_ptr := Some (new_codec RESP2)\<rparr>)"

definition onConnection_down :: "('d, 'u) env \<Rightarrow> int \<Rightarrow> ('d, 'u) base_client \<Rightarrow> ('d, 'u) base_client option" where
  "onConnection_down E now st = map_option onDisconnected (clearCallbacks E now st)"

text \<open>\<open>doConnect\<close>: the new \<open>TcpClient\<close> takes the place of the old one, whose destructor closes a
  connection that is up.\<close>

definition doConnect :: "('d, 'u) env \<Rightarrow> int \<Rightarrow> ('d, 'u) base_client \<Rightarrow> (bool \<times> ('d, 'u) base_client) option" where
  "doConnect E now st = do {
     assertNotInCallbackContext st;
     if server_addr st = [] then Some (False, st)
     else do {
       let st1 = log_event Closed (st\<lparr>link := Connecting\<rparr>);
       st2 \<leftarrow> (if link st = Up then onConnection_down E now st1 else Some st1);
       Some (True, st2) } }"

definition connect :: "('d, 'u) env \<Rightarrow> int \<Rightarrow> ('d, 'u) base_client \<Rightarrow> ('d, 'u) base_client option" where
  "connect E now st = do {
     (ok, st1) \<leftarrow> doConnect E now (st\<lparr>auth_promise := True\<rparr>);
     Some (if ok then st1
       else log_event (Promise_set (setErr ''server addr is empty or loop init failed'')) st1) }"

definition reconnect :: "('d, 'u) env \<Rightarrow> int \<Rightarrow> ('d, 'u) base_client \<Rightarrow> ('d, 'u) base_client option" where
  "reconnect E now st = map_option snd (doConnect E now st)"

definition disconnect :: "('d, 'u) env \<Rightarrow> int \<Rightarrow> ('d, 'u) base_client \<Rightarrow> ('d, 'u) base_client option" where
  "disconnect E now st = do {
     st1 \<leftarrow> (if link st = Up then onConnection_down E now (log_event Closed (st\<lparr>link := Down\<rparr>)) else Some st);
     Some (st1\<lparr>link := No_client\<rparr>) }"

definition clientCron :: "('d, 'u) env \<Rightarrow> int \<Rightarrow> ('d, 'u) base_client \<Rightarrow> ('d, 'u) base_client option" where
  "clientCron E now st = do {
     ensure (reconnect_timer st);
     if last_send_req_time_ms st \<ge> last_recv_resp_time_ms st \<and>
        now - last_send_req_time_ms st \<ge> reconnect_interval_ms st
     then do {
       let st0 = log_event Closed (st\<lparr>link := No_client\<rparr>);
       st1 \<leftarrow> (if link st = Up then onConnection_down E now st0 else Some st0);
       st2 \<leftarrow> clearCallbacks E now st1;
       reconnect E now st2 }
     else Some st }"

section \<open>Bytes\<close>

definition note_recv :: "int \<Rightarrow> ('d, 'u) base_client \<Rightarrow> ('d, 'u) base_client" where
  "note_recv now st =
     (if link st = Up \<and> reconnect_interval_ms st > 0 then st\<lparr>last_recv_resp_time_ms := now\<rparr> else st)"

text \<open>The codec gets fuel for every byte that is there.\<close>

definition decode_input :: "('d, 'u) env \<Rightarrow> 'd codec \<Rightarrow> bytes \<Rightarrow> (dstate \<times> ('d sized option \<times> 'd codec) \<times> bytes) option" where
  "decode_input E c s = decodeResponse string_source (lib E) (Suc (codec_levels c + length s)) c s"

text \<open>Every round consumes bytes or is the last one.\<close>

fun message_loop :: "nat \<Rightarrow> ('d, 'u) env \<Rightarrow> int \<Rightarrow> ('d, 'u) base_client \<Rightarrow> ('d, 'u) base_client option" where
  "message_loop 0 E now st = None"
| "message_loop (Suc m) E now st =
     (if link st \<noteq> Up then Some st
      else do {
        c \<leftarrow> codec_ptr st;
        (ds, (out, c'), rest) \<leftarrow> decode_input E c (input_buffer st);
        let st1 = st\<lparr>codec_ptr := Some c', input_buffer := rest\<rparr>;
        case ds of
          SUCCESS \<Rightarrow> do {
            (p, n) \<leftarrow> out;
            st2 \<leftarrow> onRecvResponse E now p st1;
            message_loop m E now (note_recv now st2) }
        | AGAIN \<Rightarrow> Some st1
        | ERROR \<Rightarrow> do {
            st2 \<leftarrow> clearCallbacks E now st1;
            st3 \<leftarrow> reconnect E now st2;
            message_loop m E now (note_recv now st3) } })"

text \<open>\<open>onMessage\<close>, after \<open>handleRead\<close> has appended what it read to the input buffer.\<close>

definition onMessage :: "('d, 'u) env \<Rightarrow> int \<Rightarrow> bytes \<Rightarrow> ('d, 'u) base_client \<Rightarrow> ('d, 'u) base_client option" where
  "onMessage E now data st =
     message_loop (length (input_buffer st) + length data + 2) E now (st\<lparr>input_buffer := input_buffer st @ data\<rparr>)"

section \<open>The event loop\<close>

datatype 'u client_op =
    Op_connect
  | Op_connected
  | Op_connect_failed
  | Op_closed
  | Op_data bytes
  | Op_send 'u "bytes list"
  | Op_cron
  | Op_disconnect

text \<open>What the loop calls. Bytes and the end of a connection are seen while it is up, a new
  connection while there is a client without one.\<close>

fun step :: "('d, 'u) env \<Rightarrow> int \<Rightarrow> 'u client_op \<Rightarrow> ('d, 'u) base_client \<Rightarrow> ('d, 'u) base_client option" where
  "step E now Op_connect st = connect E now st"
| "step E now Op_connected st =
     (if link st = Connecting \<or> link st = Down
      then onConnection_up E now (log_event Connected (st\<lparr>link := Up, input_buffer := []\<rparr>)) else Some st)"
| "step E now Op_connect_failed st =
     (if link st = Connecting \<or> link st = Down then onConnection_down E now st else Some st)"
| "step E now Op_closed st =
     (if link st = Up then onConnection_down E now (log_event Closed (st\<lparr>link := Down\<rparr>)) else Some st)"
| "step E now (Op_data data) st = (if link st = Up then onMessage E now data st else Some st)"
| "step E now (Op_send u words) st = sendCommandInLoop E now (words, User u) st"
| "step E now Op_cron st = (if reconnect_timer st then clientCron E now st else Some st)"
| "step E now Op_disconnect st = disconnect E now st"

definition run :: "('d, 'u) env \<Rightarrow> (int \<times> 'u client_op) list \<Rightarrow> ('d, 'u) base_client \<Rightarrow> ('d, 'u) base_client option" where
  "run E ops = fold_option (\<lambda>(now, op). step E now op) ops"

section \<open>Replies answer the oldest command\<close>

text \<open>The specification: a queue of the commands written on the present connection. A reply must
  go to its head; null replies are allowed at any time.\<close>

fun replay_step :: "('d, 'u) event \<Rightarrow> 'u pending list \<Rightarrow> 'u pending list option" where
  "replay_step Connected q = Some []"
| "replay_step Closed q = Some []"
| "replay_step (Wrote c) q = Some (q @ [c])"
| "replay_step (Answered c None) q = Some q"
| "replay_step (Answered c (Some p)) q = (case q of [] \<Rightarrow> None | d # ds \<Rightarrow> if c = d then Some ds else None)"
| "replay_step (Promise_set r) q = Some q"

definition replay :: "('d, 'u) event list \<Rightarrow> 'u pending list option" where
  "replay evs = fold_option replay_step evs []"

lemma fold_option_append: "fold_option f (xs @ ys) s = Option.bind (fold_option f xs s) (fold_option f ys)"
  by (induction xs arbitrary: s) (auto split: Option.bind_split)

lemma fold_option_one: "fold_option f [x] = f x"
proof -
  have "fold_option f [] = Some" by (rule ext) simp
  then show ?thesis by (intro ext) simp
qed

lemma replay_snoc [simp]: "replay [] = Some []" "replay (evs @ [e]) = Option.bind (replay evs) (replay_step e)"
  by (simp_all add: replay_def fold_option_append fold_option_one)

lemma fold_option_invariant:
  assumes "fold_option f xs s = Some s'" "\<And>x s s'. f x s = Some s' \<Longrightarrow> I s \<Longrightarrow> I s'" "I s"
  shows "I s'"
  using assms(1,3)
proof (induction xs arbitrary: s)
  case (Cons x xs)
  then obtain s1 where "f x s = Some s1" "fold_option f xs s1 = Some s'" by (auto split: Option.bind_split_asm)
  with Cons assms(2) show ?case by blast
qed simp

text \<open>What the steps keep: the log replays, and while the connection is up the queue of the
  specification is the queue of the client. \<open>strict\<close> is off while the callbacks are being cleared.\<close>

definition good :: "link \<Rightarrow> bytes \<Rightarrow> bool \<Rightarrow> ('d, 'u) base_client \<Rightarrow> bool" where
  "good l a strict st \<longleftrightarrow> link st = l \<and> server_addr st = a \<and>
     (\<exists>q. replay (events st) = Some q \<and> (strict \<and> l = Up \<longrightarrow> q = callbacks st))"

lemma good_update [simp]:
  "good l a s (st\<lparr>in_callback_context := x\<rparr>) = good l a s st" "good l a s (st\<lparr>reconnect_timer := x\<rparr>) = good l a s st"
  "good l a s (st\<lparr>last_send_req_time_ms := t\<rparr>) = good l a s st" "good l a s (st\<lparr>last_recv_resp_time_ms := t\<rparr>) = good l a s st"
  "good l a s (st\<lparr>auth_promise := x\<rparr>) = good l a s st" "good l a s (st\<lparr>codec_ptr := c\<rparr>) = good l a s st"
  "good l a s (st\<lparr>input_buffer := i\<rparr>) = good l a s st"
  by (simp_all add: good_def)

lemma good_log:
  "good l a s st \<Longrightarrow> good l a s (log_event (Answered c None) st)"
  "good l a s st \<Longrightarrow> good l a s (log_event (Promise_set r) st)"
  "good l a s st \<Longrightarrow> l \<noteq> Up \<Longrightarrow> good l a s (log_event Closed st)"
  "good l a s st \<Longrightarrow> good l a s (log_event (Wrote c) (st\<lparr>callbacks := callbacks st @ [c]\<rparr>))"
  "good l a True st \<Longrightarrow> l = Up \<Longrightarrow> callbacks st = c # cs \<Longrightarrow> good l a True (log_event (Answered c (Some p)) (st\<lparr>callbacks := cs, in_callback_context := b\<rparr>))"
  by (auto simp: good_def log_event_def)

lemma good_set_promise: "good l a s st \<Longrightarrow> good l a s (set_promise r st)"
  by (simp add: set_promise_def good_log)

lemma good_note_recv: "good l a s st \<Longrightarrow> good l a s (note_recv now st)"
  by (simp add: note_recv_def)

lemma good_weaken: "good l a True st \<Longrightarrow> good l a s st" "l \<noteq> Up \<Longrightarrow> good l a False st \<Longrightarrow> good l a True st"
  "good l a False st \<Longrightarrow> good l a False (st\<lparr>callbacks := cs\<rparr>)" "l \<noteq> Up \<Longrightarrow> good l a s st \<Longrightarrow> good l a s (st\<lparr>callbacks := cs\<rparr>)"
  by (auto simp: good_def)

lemma good_link: "good l a s st \<Longrightarrow> l' \<noteq> Up \<Longrightarrow> good l' a s' (log_event Closed (st\<lparr>link := l'\<rparr>))"
  "good l a s st \<Longrightarrow> l' \<noteq> Up \<Longrightarrow> good l' a s' (st\<lparr>link := l'\<rparr>)"
  by (auto simp: good_def log_event_def)

lemma send_with_good:
  assumes "send_with rc now c st = Some st'" "good l a s st"
    "\<And>c st st'. rc c None st = Some st' \<Longrightarrow> good l a s st \<Longrightarrow> good l a s st'"
  shows "good l a s st'"
proof (cases "link st")
  case Up
  with assms show ?thesis by (auto simp: send_with_def Let_def good_log split: Option.bind_split_asm if_split_asm)
next
  case Down
  with assms(2) have "l = Down" by (simp add: good_def)
  with Down assms(1,2) show ?thesis
    by (auto simp: send_with_def Let_def split: Option.bind_split_asm if_split_asm intro: good_weaken(4))
qed (use assms in \<open>auto simp: send_with_def\<close>)

lemma run_callback_null_good: "run_callback n E now c None st = Some st' \<Longrightarrow> good l a s st \<Longrightarrow> good l a s st'"
proof (induction n arbitrary: c st st')
  case (Suc n)
  let ?st1 = "log_event (Answered c None) (st\<lparr>in_callback_context := True\<rparr>)"
  have st1: "good l a s ?st1" using Suc.prems(2) by (simp add: good_log)
  have "fold_option (\<lambda>(v, words). send_with (run_callback n E now) now (words, User v)) xs ?st1 = Some st2 \<Longrightarrow> good l a s st2" for xs st2
    by (erule fold_option_invariant [where I = "good l a s", OF _ _ st1]) (auto split: prod.split_asm intro: send_with_good [OF _ _ Suc.IH])
  with Suc.prems(1) st1 show ?case
    by (auto simp: Let_def good_set_promise split: callback.split_asm Option.bind_split_asm)
qed simp

lemma run_callback_good:
  assumes "run_callback n E now c (Some p) (st\<lparr>callbacks := cs\<rparr>) = Some st'" "good Up a True st" "callbacks st = c # cs"
  shows "good Up a True st'"
proof (cases n)
  case (Suc k)
  let ?st1 = "log_event (Answered c (Some p)) (st\<lparr>callbacks := cs, in_callback_context := True\<rparr>)"
  have st1: "good Up a True ?st1"
    using good_log(5) [OF assms(2) refl assms(3)] .
  have "fold_option (\<lambda>(v, words). send_with (run_callback k E now) now (words, User v)) xs ?st1 = Some st2 \<Longrightarrow> good Up a True st2" for xs st2
    by (erule fold_option_invariant [where I = "good Up a True", OF _ _ st1])
      (auto split: prod.split_asm intro: send_with_good [OF _ _ run_callback_null_good])
  with assms(1) st1 Suc show ?thesis
    by (auto simp: Let_def good_set_promise split: callback.split_asm Option.bind_split_asm)
qed (use assms in simp)

lemma sendCommandInLoop_good: "sendCommandInLoop E now c st = Some st' \<Longrightarrow> good l a s st \<Longrightarrow> good l a s st'"
  unfolding sendCommandInLoop_def by (rule send_with_good [OF _ _ run_callback_null_good])

lemma clear_loop_good: "clear_loop m E now st = Some (Done st') \<Longrightarrow> good l a False st \<Longrightarrow> good l a False st' \<and> callbacks st' = []"
proof (induction m arbitrary: st)
  case 0
  then show ?case by (simp add: clear_loop.simps [of 0] split: list.split_asm)
next
  case (Suc m)
  then show ?case
    by (simp add: clear_loop.simps [of "Suc m"] split: list.split_asm Option.bind_split_asm)
      (metis good_weaken(3) run_callback_null_good)
qed

lemma clearCallbacks_good:
  "clearCallbacks E now st = Some st' \<Longrightarrow> good l a False st \<Longrightarrow> good l a False st' \<and> callbacks st' = []"
  by (auto simp: clearCallbacks_def assertNotInCallbackContext_def dest: clear_loop_good split: Option.bind_split_asm)

lemma good_onDisconnected: "good l a s st \<Longrightarrow> good l a s (onDisconnected st)"
  by (simp add: onDisconnected_def good_set_promise)

lemma onConnection_down_good:
  "onConnection_down E now st = Some st' \<Longrightarrow> good l a s st \<Longrightarrow> l \<noteq> Up \<Longrightarrow> good l a True st'"
  by (auto simp: onConnection_down_def dest!: clearCallbacks_good [where l = l and a = a]
      intro!: good_onDisconnected good_weaken(2)) (auto simp: good_def)

lemma doConnect_good:
  assumes "doConnect E now st = Some (ok, st')" "good l a s st"
  shows "if a = [] then st' = st else good Connecting a True st'"
proof -
  have "good Connecting a True (log_event Closed (st\<lparr>link := Connecting\<rparr>))"
    by (rule good_link(1) [OF assms(2)]) simp
  moreover have "server_addr st = a" using assms(2) by (simp add: good_def)
  ultimately show ?thesis using assms(1)
    by (auto simp: doConnect_def assertNotInCallbackContext_def Let_def dest: onConnection_down_good
        split: Option.bind_split_asm if_split_asm)
qed

text \<open>The state between two steps.\<close>

definition tidy :: "('d, 'u) base_client \<Rightarrow> bool" where
  "tidy st \<longleftrightarrow> server_addr st \<noteq> [] \<and> good (link st) (server_addr st) True st"

lemma tidyI: "good l a True st \<Longrightarrow> a \<noteq> [] \<Longrightarrow> tidy st"
  by (auto simp: tidy_def good_def)

lemma onRecvResponse_good: "onRecvResponse E now p st = Some st' \<Longrightarrow> good Up a True st \<Longrightarrow> good Up a True st'"
  by (auto simp: onRecvResponse_def dest: run_callback_good split: list.split_asm)

lemma message_loop_tidy:
  "message_loop m E now st = Some st' \<Longrightarrow> tidy st \<Longrightarrow> tidy st'"
proof (induction m arbitrary: st)
  case (Suc m)
  show ?case
  proof (cases "link st = Up")
    case True
    define a where "a = server_addr st"
    with Suc.prems(2) True have st: "good Up a True st" "a \<noteq> []" by (simp_all add: tidy_def)
    obtain c where c: "codec_ptr st = Some c"
      using Suc.prems(1) True by (cases "codec_ptr st") simp_all
    obtain r where "decode_input E c (input_buffer st) = Some r"
      using Suc.prems(1) True c by (cases "decode_input E c (input_buffer st)") simp_all
    then obtain ds out c' rest where d: "decode_input E c (input_buffer st) = Some (ds, (out, c'), rest)"
      by (cases r) auto
    define st1 where "st1 = st\<lparr>codec_ptr := Some c', input_buffer := rest\<rparr>"
    have st1: "good Up a True st1" using st by (simp add: st1_def)
    have step: "(case ds of
          SUCCESS \<Rightarrow> do { (p, n) \<leftarrow> out; st2 \<leftarrow> onRecvResponse E now p st1; message_loop m E now (note_recv now st2) }
        | AGAIN \<Rightarrow> Some st1
        | ERROR \<Rightarrow> do { st2 \<leftarrow> clearCallbacks E now st1; st3 \<leftarrow> reconnect E now st2; message_loop m E now (note_recv now st3) })
      = Some st'"
      using Suc.prems(1) True c d unfolding st1_def by (simp add: Let_def)
    show ?thesis
    proof (cases ds)
      case SUCCESS
      with step obtain p n st2 where "onRecvResponse E now p st1 = Some st2" "message_loop m E now (note_recv now st2) = Some st'"
        by (auto split: Option.bind_split_asm prod.split_asm)
      moreover have "good Up a True (note_recv now st2)"
        by (rule good_note_recv) (rule onRecvResponse_good [OF calculation(1) st1])
      ultimately show ?thesis using Suc.IH st(2) tidyI by blast
    next
      case AGAIN
      with step st1 st(2) show ?thesis by (auto intro: tidyI)
    next
      case ERROR
      with step obtain st2 r st3 where c: "clearCallbacks E now st1 = Some st2" "doConnect E now st2 = Some (r, st3)"
        "message_loop m E now (note_recv now st3) = Some st'"
        by (auto simp: reconnect_def split: Option.bind_split_asm prod.split_asm)
      from clearCallbacks_good [OF c(1) good_weaken(1) [OF st1]] have "good Up a False st2" by simp
      from doConnect_good [OF c(2) this] st(2) have "good Connecting a True (note_recv now st3)"
        by (simp add: good_note_recv)
      with c(3) Suc.IH st(2) tidyI show ?thesis by blast
    qed
  qed (use Suc.prems in simp)
qed simp

text \<open>A new connection finds an empty queue.\<close>

definition fresh_start :: "'u client_op \<Rightarrow> ('d, 'u) base_client \<Rightarrow> bool" where
  "fresh_start op st \<longleftrightarrow> op = Op_connected \<longrightarrow> link st \<in> {Connecting, Down} \<longrightarrow> callbacks st = []"

lemma onConnection_up_good:
  assumes "onConnection_up E now st = Some st'" "good Up a True st"
  shows "good Up a True st'"
proof -
  have "authentication E now st0 = Some st1 \<Longrightarrow> good Up a True st0 \<Longrightarrow> good Up a True st1" for st0 st1
    by (auto simp: authentication_def good_set_promise dest: sendCommandInLoop_good split: if_split_asm)
  with assms show ?thesis
    by (auto simp: onConnection_up_def onConnected_def dest!: sendCommandInLoop_good split: Option.bind_split_asm if_split_asm)
qed

lemma clientCron_tidy:
  assumes "clientCron E now st = Some st'" "tidy st"
  shows "tidy st'"
proof -
  define a where "a = server_addr st"
  let ?st0 = "log_event Closed (st\<lparr>link := No_client\<rparr>)"
  have st0: "good No_client a True ?st0" "a \<noteq> []"
    using assms(2) good_link(1) [of "link st" "server_addr st" True st No_client True] by (simp_all add: tidy_def a_def)
  show ?thesis
  proof (cases "st' = st")
    case False
    with assms(1) obtain st1 st2 r st3 where
      "st1 = ?st0 \<or> onConnection_down E now ?st0 = Some st1" "clearCallbacks E now st1 = Some st2"
      "doConnect E now st2 = Some (r, st3)" "st' = st3"
      by (auto simp: clientCron_def Let_def reconnect_def split: Option.bind_split_asm if_split_asm)
    moreover from this st0 have "good No_client a True st1" by (auto dest: onConnection_down_good)
    ultimately show ?thesis
      using st0(2) clearCallbacks_good [of E now st1 st2 No_client a] doConnect_good [of E now st2 r st3 No_client a False]
      by (auto simp: good_weaken(1) intro: tidyI)
  qed (use assms in simp)
qed

lemma step_tidy:
  assumes "step E now op st = Some st'" "tidy st" "fresh_start op st"
  shows "tidy st'"
proof -
  define l a where "l = link st" and "a = server_addr st"
  have st: "good l a True st" "a \<noteq> []" using assms(2) by (simp_all add: tidy_def l_def a_def)
  show ?thesis
  proof (cases op)
    case Op_connect
    with assms(1) obtain ok st1 where "doConnect E now (st\<lparr>auth_promise := True\<rparr>) = Some (ok, st1)"
      "st' = (if ok then st1 else log_event (Promise_set (setErr ''server addr is empty or loop init failed'')) st1)"
      by (auto simp: connect_def split: Option.bind_split_asm prod.split_asm)
    with doConnect_good [OF this(1), of l a True] st show ?thesis by (auto intro: tidyI good_log(2))
  next
    case Op_connected
    show ?thesis
    proof (cases "link st \<in> {Connecting, Down}")
      case True
      with assms(3) Op_connected have "callbacks st = []" by (auto simp: fresh_start_def)
      with st True have "good Up a True (log_event Connected (st\<lparr>link := Up, input_buffer := []\<rparr>))"
        by (auto simp: good_def log_event_def)
      with assms(1) Op_connected True st(2) show ?thesis by (auto intro: tidyI dest!: onConnection_up_good)
    qed (use assms Op_connected in auto)
  next
    case Op_connect_failed
    with assms st show ?thesis by (auto simp: l_def intro: tidyI dest!: onConnection_down_good split: if_split_asm)
  next
    case Op_closed
    have "good Down a True (log_event Closed (st\<lparr>link := Down\<rparr>))" by (rule good_link(1) [OF st(1)]) simp
    with assms Op_closed st show ?thesis by (auto intro: tidyI dest!: onConnection_down_good split: if_split_asm)
  next
    case (Op_data data)
    have "tidy (st\<lparr>input_buffer := input_buffer st @ data\<rparr>)" using st by (auto intro: tidyI)
    with message_loop_tidy have "onMessage E now data st = Some st' \<Longrightarrow> tidy st'" unfolding onMessage_def by blast
    with assms Op_data show ?thesis by (simp split: if_split_asm)
  next
    case (Op_send u words)
    with assms(1) st show ?thesis by (auto intro: tidyI dest!: sendCommandInLoop_good)
  next
    case Op_cron
    with assms show ?thesis by (auto intro: clientCron_tidy split: if_split_asm)
  next
    case Op_disconnect
    have "good Down a True (log_event Closed (st\<lparr>link := Down\<rparr>))" by (rule good_link(1) [OF st(1)]) simp
    with assms(1) Op_disconnect st show ?thesis
      by (auto simp: disconnect_def intro!: tidyI good_link(2) dest!: onConnection_down_good split: Option.bind_split_asm if_split_asm)
  qed
qed

fun orderly :: "('d, 'u) env \<Rightarrow> (int \<times> 'u client_op) list \<Rightarrow> ('d, 'u) base_client \<Rightarrow> bool" where
  "orderly E [] st \<longleftrightarrow> True"
| "orderly E ((now, op) # ops) st \<longleftrightarrow> fresh_start op st \<and>
     (case step E now op st of None \<Rightarrow> True | Some st1 \<Rightarrow> orderly E ops st1)"

lemma run_tidy: "run E ops st = Some st' \<Longrightarrow> tidy st \<Longrightarrow> orderly E ops st \<Longrightarrow> tidy st'"
proof (induction ops arbitrary: st)
  case (Cons x ops)
  obtain now op where x: "x = (now, op)" by force
  with Cons.prems(1) obtain st1 where st1: "step E now op st = Some st1" "run E ops st1 = Some st'"
    by (auto simp: run_def split: Option.bind_split_asm)
  with Cons x have "tidy st1" "orderly E ops st1" by (auto intro: step_tidy)
  with Cons.IH st1(2) show ?case by blast
qed (simp add: run_def)

text \<open>C13: every reply goes to the command it answers. Whatever happens to a client, connections made
  and lost, bytes in any chunks, timers, commands sent from anywhere and from within callbacks:
  in the record of what it did, each reply was given to the oldest command written on the present
  connection that had none, as long as no connection came up while callbacks were still queued.\<close>

theorem replies_match_commands:
  assumes "run E ops (new_base_client\<lparr>server_addr := addr, user_name := u, user_password := p, reconnect_interval_ms := i\<rparr>) = Some st'"
    "addr \<noteq> []" "orderly E ops (new_base_client\<lparr>server_addr := addr, user_name := u, user_password := p, reconnect_interval_ms := i\<rparr>)"
  shows "replay (events st') \<noteq> None \<and> (link st' = Up \<longrightarrow> replay (events st') = Some (callbacks st'))"
  using run_tidy [OF assms(1) _ assms(3)] assms(2) by (auto simp: tidy_def good_def new_base_client_def)

section \<open>Replies are delivered\<close>

lemma decodeResponse_extends:
  assumes "f \<le> g"
  shows "extends (decodeResponse S L f c b) (decodeResponse S L g c b)"
  using decode_extends [OF assms]
  by (auto simp: decodeResponse_def decode_resp_packet_def Let_def intro!: extends_bind extends_if extends_option
      split: option.split)

lemma decodeResponse_mono: "f \<le> g \<Longrightarrow> decodeResponse S L f c b = Some r \<Longrightarrow> decodeResponse S L g c b = Some r"
  using decodeResponse_extends [of f g S L c b] by (simp add: extends_def)

lemma decode_input_result:
  assumes "codec_ok c" "decode_input E c s = Some r"
  shows "codec_outcome c s r"
  using decodeResponse_result [OF assms(2) [unfolded decode_input_def] assms(1)] .

text \<open>The codec speaks RESP2, so it returns on any input; less stack than it is given would do.\<close>

lemma decode_input_fuel:
  assumes "codec_ok c" "codec_ver c = RESP2" "decodeResponse string_source (lib E) f c s = Some r"
  shows "decode_input E c s = Some r"
proof -
  obtain r' where r': "decode_input E c s = Some r'"
    using decodeResponse_outcome [OF assms(1), of s "Suc (codec_levels c + length s)" "lib E"] assms(2)
    by (auto simp: wp_iff decode_input_def defined_counts_def)
  let ?g = "max f (Suc (codec_levels c + length s))"
  have "decodeResponse string_source (lib E) ?g c s = Some r"
    using decodeResponse_mono [OF _ assms(3)] by simp
  moreover have "decodeResponse string_source (lib E) ?g c s = Some r'"
    using decodeResponse_mono [OF _ r' [unfolded decode_input_def]] by simp
  ultimately show ?thesis using r' by simp
qed

lemma decode_input_wire:
  assumes "resp_lib (lib E)" "valid (lib E) RESP2 p" "resp_packet c = None" "codec_ver c = RESP2"
  shows "decode_input E c (wire (lib E) RESP2 p @ r) =
    Some (SUCCESS, (Some (view (lib E) RESP2 p, length (wire (lib E) RESP2 p)), c\<lparr>codec_err := [], resp_packet := None\<rparr>), r)"
  using assms decodeResponse_wire [OF assms(1,2) lessI assms(3,4)]
  by (intro decode_input_fuel) (auto simp: codec_ok_def)

text \<open>One answer to a command of the user whose callback sends nothing.\<close>

definition quiet :: "('d, 'u) env \<Rightarrow> 'u pending \<Rightarrow> 'd packet option \<Rightarrow> bool" where
  "quiet E c resp \<longleftrightarrow> 0 < nesting E \<and> (\<exists>u. snd c = User u \<and> react E u resp = [])"

lemma run_callback_quiet:
  "quiet E c resp \<Longrightarrow> run_callback (nesting E) E now c resp st =
     Some (log_event (Answered c resp) (st\<lparr>in_callback_context := False\<rparr>))"
  by (cases "nesting E") (auto simp: quiet_def Let_def log_event_def)

lemma decode_input_empty: "decode_input E c [] = Some (AGAIN, (None, c\<lparr>codec_err := []\<rparr>), [])"
  by (simp add: decode_input_def decodeResponse_def string_source_simps Let_def)

definition ready_for :: "('d, 'u) base_client \<Rightarrow> bool" where
  "ready_for st \<longleftrightarrow> link st = Up \<and> (\<exists>c. codec_ptr st = Some c \<and> resp_packet c = None \<and> codec_ver c = RESP2)"

lemma message_loop_replies:
  assumes lib: "resp_lib (lib E)"
  shows "length ps < m \<Longrightarrow> ready_for st \<Longrightarrow> length cs = length ps \<Longrightarrow> callbacks st = cs @ rest \<Longrightarrow>
    input_buffer st = concat (map (wire (lib E) RESP2) ps) \<Longrightarrow> list_all (valid (lib E) RESP2) ps \<Longrightarrow>
    list_all2 (\<lambda>c p. quiet E c (Some (view (lib E) RESP2 p))) cs ps \<Longrightarrow>
    \<exists>st'. message_loop m E now st = Some st' \<and> ready_for st' \<and> callbacks st' = rest \<and> input_buffer st' = [] \<and>
      events st' = events st @ map2 (\<lambda>c p. Answered c (Some (view (lib E) RESP2 p))) cs ps"
proof (induction ps arbitrary: m st cs)
  case Nil
  then obtain k c where "m = Suc k" "codec_ptr st = Some c" "resp_packet c = None" "codec_ver c = RESP2"
    by (cases m) (auto simp: ready_for_def)
  with Nil show ?case by (auto simp: decode_input_empty ready_for_def Let_def)
next
  case (Cons p ps)
  obtain k where m: "m = Suc k" "length ps < k" using Cons.prems(1) by (cases m) auto
  obtain c where c: "link st = Up" "codec_ptr st = Some c" "resp_packet c = None" "codec_ver c = RESP2"
    using Cons.prems(2) by (auto simp: ready_for_def)
  obtain d ds where cs: "cs = d # ds" "length ds = length ps" using Cons.prems(3) by (cases cs) auto
  let ?v = "view (lib E) RESP2 p"
  define st1 where "st1 = note_recv now (log_event (Answered d (Some ?v)) (st\<lparr>codec_ptr := Some (c\<lparr>codec_err := [], resp_packet := None\<rparr>),
      input_buffer := concat (map (wire (lib E) RESP2) ps), callbacks := ds @ rest, in_callback_context := False\<rparr>))"
  have "decode_input E c (input_buffer st) = Some (SUCCESS, (Some (?v, length (wire (lib E) RESP2 p)),
      c\<lparr>codec_err := [], resp_packet := None\<rparr>), concat (map (wire (lib E) RESP2) ps))"
    using decode_input_wire [OF lib _ c(3,4)] Cons.prems(5,6) by simp
  moreover have "run_callback (nesting E) E now d (Some ?v) st2 =
      Some (log_event (Answered d (Some ?v)) (st2\<lparr>in_callback_context := False\<rparr>))" for st2
    using Cons.prems(7) cs by (intro run_callback_quiet) simp
  ultimately have "message_loop m E now st = message_loop k E now st1"
    using c m cs Cons.prems(4) unfolding st1_def by (simp add: onRecvResponse_def Let_def)
  moreover have "\<exists>st'. message_loop k E now st1 = Some st' \<and> ready_for st' \<and> callbacks st' = rest \<and> input_buffer st' = [] \<and>
      events st' = events st1 @ map2 (\<lambda>c p. Answered c (Some (view (lib E) RESP2 p))) ds ps"
    using Cons.prems(6,7) cs c by (intro Cons.IH m(2)) (simp_all add: st1_def ready_for_def note_recv_def log_event_def)
  moreover have "events st1 = events st @ [Answered d (Some ?v)]"
    by (simp add: st1_def note_recv_def log_event_def)
  ultimately show ?case by (simp add: cs(1))
qed

lemma wire_nonempty: "wire L ct p \<noteq> []"
  by (cases p) (auto simp: bulk_wire_def)

lemma length_wires: "length ps \<le> length (concat (map (wire L RESP2) ps))"
proof (induction ps)
  case (Cons p ps)
  with wire_nonempty [of L RESP2 p] show ?case by (cases "wire L RESP2 p") simp_all
qed simp

text \<open>C14: replies reach their callbacks, end to end. If a connected client has sent commands and the
  server answers some of them in order, with any packets, the client takes the bytes apart again
  and calls the callback of each command with its own packet, in order, and keeps the rest
  waiting.\<close>

theorem replies_delivered:
  assumes "resp_lib (lib E)" "ready_for st" "input_buffer st = []" "callbacks st = cs @ rest" "length cs = length ps"
    "list_all (valid (lib E) RESP2) ps" "list_all2 (\<lambda>c p. quiet E c (Some (view (lib E) RESP2 p))) cs ps"
  shows "\<exists>st'. onMessage E now (concat (map (wire (lib E) RESP2) ps)) st = Some st' \<and> callbacks st' = rest \<and>
      events st' = events st @ map2 (\<lambda>c p. Answered c (Some (view (lib E) RESP2 p))) cs ps"
  using message_loop_replies [OF assms(1), of ps "length (concat (map (wire (lib E) RESP2) ps)) + 2"
      "st\<lparr>input_buffer := concat (map (wire (lib E) RESP2) ps)\<rparr>" cs rest now] assms
    length_wires [of ps "lib E"]
  by (auto simp: onMessage_def ready_for_def)

section \<open>Chunks do not matter\<close>

text \<open>Running a callback neither reads nor changes the codec and the input buffer.\<close>

abbreviation with_input :: "bytes \<Rightarrow> ('d, 'u) base_client \<Rightarrow> ('d, 'u) base_client" where
  "with_input x st \<equiv> st\<lparr>input_buffer := x\<rparr>"

lemma with_input_commute:
  "log_event e (with_input x st) = with_input x (log_event e st)"
  "set_promise r (with_input x st) = with_input x (set_promise r st)"
  "note_recv now (with_input x st) = with_input x (note_recv now st)"
  by (simp_all add: log_event_def set_promise_def note_recv_def)

lemma fold_option_commute:
  assumes "\<And>x s. f x (h s) = map_option h (f x s)"
  shows "fold_option f xs (h s) = map_option h (fold_option f xs s)"
  using assms by (induction xs arbitrary: s) (auto split: Option.bind_split)

lemma send_with_input:
  assumes "\<And>c st. rc c None (with_input x st) = map_option (with_input x) (rc c None st)"
  shows "send_with rc now c (with_input x st) = map_option (with_input x) (send_with rc now c st)"
  using assms by (cases "link st"; cases "codec_ptr st") (simp_all add: send_with_def Let_def log_event_def)

lemma run_callback_input:
  "run_callback n E now c resp (with_input x st) = map_option (with_input x) (run_callback n E now c resp st)"
proof (induction n arbitrary: c resp st)
  case (Suc n)
  let ?f = "\<lambda>(v, words). send_with (run_callback n E now) now (words, User v)"
  have "fold_option ?f xs (with_input x s) = map_option (with_input x) (fold_option ?f xs s)" for xs s
    by (rule fold_option_commute) (auto intro: send_with_input Suc.IH)
  then have "fold_option ?f xs (log_event e (s\<lparr>in_callback_context := b, input_buffer := x\<rparr>)) =
      map_option (with_input x) (fold_option ?f xs (log_event e (s\<lparr>in_callback_context := b\<rparr>)))" for xs e s b
    using with_input_commute(1) [of e x "s\<lparr>in_callback_context := b\<rparr>"] by metis
  note fold = this
  have swap: "log_event e (st\<lparr>input_buffer := x, in_callback_context := b\<rparr>) = log_event e (st\<lparr>in_callback_context := b, input_buffer := x\<rparr>)" for e b
    by (cases st) simp
  show ?case
  proof (cases "snd c")
    case (User u)
    then show ?thesis
      by (cases "fold_option ?f (react E u resp) (log_event (Answered c resp) (st\<lparr>in_callback_context := True\<rparr>))")
        (simp_all add: Let_def swap fold)
  qed (simp_all add: Let_def log_event_def set_promise_def)
qed simp

text \<open>What callbacks leave alone.\<close>

definition same_link :: "('d, 'u) base_client \<Rightarrow> ('d, 'u) base_client \<Rightarrow> bool" where
  "same_link st st' \<longleftrightarrow> link st' = link st \<and> codec_ptr st' = codec_ptr st \<and> input_buffer st' = input_buffer st \<and>
     server_addr st' = server_addr st"

lemma same_link_refl [simp]: "same_link st st"
  by (simp add: same_link_def)

lemma same_link_trans [trans]: "same_link a b \<Longrightarrow> same_link b c \<Longrightarrow> same_link a c"
  by (simp add: same_link_def)

lemma same_link_update [simp]:
  "same_link a (st\<lparr>in_callback_context := x\<rparr>) = same_link a st" "same_link a (log_event e st) = same_link a st"
  "same_link a (st\<lparr>callbacks := cs\<rparr>) = same_link a st" "same_link a (st\<lparr>last_send_req_time_ms := t\<rparr>) = same_link a st"
  "same_link a (set_promise r st) = same_link a st" "same_link a (note_recv t st) = same_link a st"
  "same_link (st\<lparr>callbacks := cs\<rparr>) a = same_link st a" "same_link a (st\<lparr>reconnect_timer := x\<rparr>) = same_link a st"
  by (simp_all add: same_link_def log_event_def set_promise_def note_recv_def)

lemma send_with_same_link:
  assumes "send_with rc now c st = Some st'" "\<And>c st'. rc c None st = Some st' \<Longrightarrow> same_link st st'"
  shows "same_link st st'"
  using assms by (cases "link st") (auto simp: send_with_def Let_def split: Option.bind_split_asm if_split_asm)

lemma run_callback_same_link: "run_callback n E now c resp st = Some st' \<Longrightarrow> same_link st st'"
proof (induction n arbitrary: c resp st st')
  case (Suc n)
  let ?st1 = "log_event (Answered c resp) (st\<lparr>in_callback_context := True\<rparr>)"
  have "fold_option (\<lambda>(v, words). send_with (run_callback n E now) now (words, User v)) xs ?st1 = Some st2 \<Longrightarrow> same_link st st2" for xs st2
    by (erule fold_option_invariant [where I = "same_link st"])
      (auto split: prod.split_asm intro: same_link_trans send_with_same_link [OF _ Suc.IH])
  with Suc.prems show ?case
    by (auto simp: Let_def split: callback.split_asm Option.bind_split_asm)
qed simp

lemma clearCallbacks_same_link: "clearCallbacks E now st = Some st' \<Longrightarrow> same_link st st'"
proof -
  have "clear_loop m E now st = Some (Done st') \<Longrightarrow> same_link st st'" for m
  proof (induction m arbitrary: st)
    case 0
    then show ?case by (simp add: clear_loop.simps [of 0] split: list.split_asm)
  next
    case (Suc m)
    then show ?case
      by (simp add: clear_loop.simps [of "Suc m"] split: list.split_asm Option.bind_split_asm)
        (metis run_callback_same_link same_link_trans same_link_update(7))
  qed
  then show "clearCallbacks E now st = Some st' \<Longrightarrow> same_link st st'"
    by (auto simp: clearCallbacks_def split: Option.bind_split_asm)
qed

lemma onRecvResponse_same_link: "onRecvResponse E now p st = Some st' \<Longrightarrow> same_link st st'"
  by (auto simp: onRecvResponse_def dest: run_callback_same_link split: list.split_asm)

text \<open>A reconnection ends the connection.\<close>

lemma reconnect_link:
  assumes "reconnect E now st = Some st'" "server_addr st \<noteq> []"
  shows "link st' = Connecting"
proof -
  have "onConnection_down E now st1 = Some st2 \<Longrightarrow> link st2 = link st1" for st1 st2
    by (auto simp: onConnection_down_def onDisconnected_def set_promise_def log_event_def same_link_def
        dest: clearCallbacks_same_link)
  with assms show ?thesis
    by (auto simp: reconnect_def doConnect_def Let_def log_event_def split: Option.bind_split_asm if_split_asm)
qed

lemma onRecvResponse_input:
  "onRecvResponse E now p (with_input x st) = map_option (with_input x) (onRecvResponse E now p st)"
proof (cases "callbacks st")
  case (Cons c cs)
  with run_callback_input [of "nesting E" E now c "Some p" x "st\<lparr>callbacks := cs\<rparr>"] show ?thesis
    by (cases st) (simp add: onRecvResponse_def)
qed (simp add: onRecvResponse_def)

text \<open>More input for the codec, with the fuel \<open>onMessage\<close> gives it.\<close>

lemma decode_input_success:
  assumes "codec_ok c" "decode_input E c s = Some (SUCCESS, (out, c'), s')"
  shows "decode_input E c (s @ t) = Some (SUCCESS, (out, c'), s' @ t)"
proof -
  have "decodeResponse string_source (lib E) (Suc (codec_levels c + length (s @ t))) c s = Some (SUCCESS, (out, c'), s')"
    by (rule decodeResponse_mono [OF _ assms(2) [unfolded decode_input_def]]) simp
  from decodeResponse_success [OF this assms(1)] show ?thesis by (simp add: decode_input_def)
qed

lemma decode_input_again:
  assumes "codec_ok c" "decode_input E c s = Some (AGAIN, (out, c'), s')" "decode_input E c' (s' @ t) = Some r"
  shows "settled (decode_input E c (s @ t)) = settled (decode_input E c' (s' @ t))"
proof -
  let ?f = "Suc (codec_levels c + length (s @ t))"
  have c': "codec_levels c' + length s' \<le> codec_levels c + length s"
    using decode_input_result [OF assms(1,2)] by (auto simp: codec_outcome_def)
  have "decodeResponse string_source (lib E) ?f c s = Some (AGAIN, (out, c'), s')"
    using decodeResponse_mono [OF _ assms(2) [unfolded decode_input_def]] by simp
  then have "settled (decodeResponse string_source (lib E) ?f c (s @ t)) =
      settled (decodeResponse string_source (lib E) ?f c' (s' @ t))"
    by (rule decodeResponse_again [OF assms(1)])
  moreover have "decodeResponse string_source (lib E) ?f c' (s' @ t) = Some r"
    by (rule decodeResponse_mono [OF _ assms(3) [unfolded decode_input_def]]) (use c' in simp)
  ultimately show ?thesis using assms(3) by (simp add: decode_input_def)
qed

lemma message_loop_up:
  assumes "link st = Up" "codec_ptr st = Some c" "decode_input E c (input_buffer st) = Some (ds, (out, c'), rest)"
  shows "message_loop (Suc m) E now st = (case ds of
      SUCCESS \<Rightarrow> do { (p, n) \<leftarrow> out; st2 \<leftarrow> onRecvResponse E now p (st\<lparr>codec_ptr := Some c', input_buffer := rest\<rparr>);
        message_loop m E now (note_recv now st2) }
    | AGAIN \<Rightarrow> Some (st\<lparr>codec_ptr := Some c', input_buffer := rest\<rparr>)
    | ERROR \<Rightarrow> do { st2 \<leftarrow> clearCallbacks E now (st\<lparr>codec_ptr := Some c', input_buffer := rest\<rparr>);
        st3 \<leftarrow> reconnect E now st2; message_loop m E now (note_recv now st3) })"
  using assms by (simp add: Let_def)

lemma message_loop_0 [simp]: "message_loop 0 E now st = None"
  by simp

lemma message_loop_not_up: "link st \<noteq> Up \<Longrightarrow> message_loop m E now st = (if m = 0 then None else Some st)"
  by (cases m) simp_all

declare message_loop.simps [simp del]

lemma message_loop_success:
  assumes "link st = Up" "codec_ptr st = Some c" "decode_input E c (input_buffer st) = Some (SUCCESS, (Some (p, j), c'), rest)"
    "onRecvResponse E now p (st\<lparr>codec_ptr := Some c', input_buffer := rest\<rparr>) = Some s2"
  shows "message_loop (Suc m) E now st = message_loop m E now (note_recv now s2)"
  unfolding message_loop_up [OF assms(1-3)] using assms(4) by simp

lemma message_loop_again:
  assumes "link st = Up" "codec_ptr st = Some c" "decode_input E c (input_buffer st) = Some (AGAIN, (out, c'), rest)"
  shows "message_loop (Suc m) E now st = Some (st\<lparr>codec_ptr := Some c', input_buffer := rest\<rparr>)"
  unfolding message_loop_up [OF assms(1-3)] by simp

text \<open>A client whose codec may be handed bytes.\<close>

definition fed :: "('d, 'u) base_client \<Rightarrow> bool" where
  "fed st \<longleftrightarrow> server_addr st \<noteq> [] \<and> (link st = Up \<longrightarrow> (\<exists>c. codec_ptr st = Some c \<and> codec_ok c))"

text \<open>The three outcomes of a round of the loop.\<close>

lemma message_loop_cases:
  assumes "fed st" "link st = Up" "message_loop (Suc m) E now st = Some st'"
  obtains
    (success) c c' p n rest s2 where "codec_ptr st = Some c" "codec_ok c"
      "decode_input E c (input_buffer st) = Some (SUCCESS, (Some (p, n), c'), rest)" "length rest < length (input_buffer st)"
      "onRecvResponse E now p (st\<lparr>codec_ptr := Some c', input_buffer := rest\<rparr>) = Some s2"
      "fed (note_recv now s2)" "input_buffer (note_recv now s2) = rest" "message_loop m E now (note_recv now s2) = Some st'"
  | (again) c c' out rest where "codec_ptr st = Some c" "codec_ok c"
      "decode_input E c (input_buffer st) = Some (AGAIN, (out, c'), rest)"
      "st' = st\<lparr>codec_ptr := Some c', input_buffer := rest\<rparr>"
  | (error) "link st' = Connecting" "m \<noteq> 0" "\<And>k. k \<noteq> 0 \<Longrightarrow> message_loop (Suc k) E now st = Some st'"
proof -
  obtain c where c: "codec_ptr st = Some c" "codec_ok c" using assms(1,2) by (auto simp: fed_def)
  have "decode_input E c (input_buffer st) \<noteq> None"
    using assms(2,3) c(1) by (cases "decode_input E c (input_buffer st)") (simp_all add: message_loop.simps)
  then obtain ds out c' rest where d: "decode_input E c (input_buffer st) = Some (ds, (out, c'), rest)" by auto
  note d = d decode_input_result [OF c(2) d]
  let ?st1 = "st\<lparr>codec_ptr := Some c', input_buffer := rest\<rparr>"
  note up = message_loop_up [OF assms(2) c(1) d(1)]
  show thesis
  proof (cases ds)
    case SUCCESS
    with d(2) obtain p n where "out = Some (p, n)" "resp_packet c' = None" "length rest < length (input_buffer st)"
      by (auto simp: codec_outcome_def)
    moreover from this SUCCESS assms(3) up obtain s2 where s2: "onRecvResponse E now p ?st1 = Some s2"
      "message_loop m E now (note_recv now s2) = Some st'" by (auto split: Option.bind_split_asm)
    moreover have "same_link ?st1 (note_recv now s2)" using onRecvResponse_same_link [OF s2(1)] by simp
    ultimately show thesis
      using assms(1) SUCCESS d(1) by (intro success [OF c]) (auto simp: same_link_def fed_def codec_ok_def)
  next
    case AGAIN
    with up assms(3) d(1) show thesis by (intro again [OF c]) auto
  next
    case ERROR
    with up assms(3) obtain s2 s3 where s: "clearCallbacks E now ?st1 = Some s2" "reconnect E now s2 = Some s3"
      "message_loop m E now (note_recv now s3) = Some st'" by (auto split: Option.bind_split_asm)
    have "server_addr s2 \<noteq> []" using clearCallbacks_same_link [OF s(1)] assms(1) by (simp add: same_link_def fed_def)
    from reconnect_link [OF s(2) this] have l: "link (note_recv now s3) = Connecting" by (simp add: note_recv_def)
    with s(3) have "m \<noteq> 0" "st' = note_recv now s3" by (auto simp: message_loop_not_up split: if_split_asm)
    with l up s ERROR show thesis by (intro error) (simp_all add: message_loop_not_up)
  qed
qed

text \<open>Every call of the loop has all the fuel it needs.\<close>

lemma message_loop_enough:
  "message_loop n E now st = Some st' \<Longrightarrow> fed st \<Longrightarrow> length (input_buffer st) + 2 \<le> m \<Longrightarrow> message_loop m E now st = Some st'"
proof (induction n arbitrary: st m)
  case (Suc n)
  obtain k where m: "m = Suc k" "length (input_buffer st) + 1 \<le> k" using Suc.prems(3) by (cases m) auto
  show ?case
  proof (cases "link st = Up")
    case True
    from Suc.prems(2) True Suc.prems(1) show ?thesis
    proof (cases rule: message_loop_cases)
      case (success c c' p j rest s2)
      have "message_loop k E now (note_recv now s2) = Some st'"
        by (rule Suc.IH [OF success(8,6)]) (use success(4,7) m(2) in simp)
      with message_loop_success [OF True success(1,3,5)] m(1) show ?thesis by simp
    next
      case (again c c' out rest)
      with message_loop_again [OF True again(1,3)] m(1) show ?thesis by simp
    next
      case error
      with m show ?thesis by simp
    qed
  qed (use Suc.prems(1) m in \<open>simp add: message_loop_not_up\<close>)
qed simp

lemma settled_inject: "settled x = settled (Some (ds, (out, c), s)) \<Longrightarrow> ds \<noteq> ERROR \<Longrightarrow> x = Some (ds, (out, c), s)"
  by (auto simp: settled_def split: if_split_asm)

lemma decode_input_ok: "codec_ok c \<Longrightarrow> decode_input E c s = Some (AGAIN, (out, c'), s') \<Longrightarrow> codec_ok c'"
  by (auto dest: decode_input_result simp: codec_outcome_def)

text \<open>Two clients that differ in codec and input only, and decode the same next packet.\<close>

lemma message_loop_same:
  assumes "message_loop k E now st' = Some st2" "link st2 = Up" "fed st'" "link st = Up" "link st' = Up"
    "codec_ptr st = Some c" "codec_ptr st' = Some c'" "\<And>x y. st\<lparr>codec_ptr := x, input_buffer := y\<rparr> = st'\<lparr>codec_ptr := x, input_buffer := y\<rparr>"
    "\<And>r. decode_input E c' (input_buffer st') = Some r \<Longrightarrow>
      settled (decode_input E c (input_buffer st)) = settled (decode_input E c' (input_buffer st'))"
  shows "message_loop k E now st = message_loop k E now st'"
proof -
  obtain j where k: "k = Suc j" using assms(1) by (cases k) auto
  show ?thesis
    using assms(3,5) assms(1) [unfolded k]
  proof (cases rule: message_loop_cases)
    case (success d d' p n rest s2)
    with assms(7) have d: "decode_input E c' (input_buffer st') = Some (SUCCESS, (Some (p, n), d'), rest)" by simp
    from assms(9) [OF this] d have "decode_input E c (input_buffer st) = Some (SUCCESS, (Some (p, n), d'), rest)"
      by (auto intro: settled_inject)
    with message_loop_success [OF assms(4,6) this, of now s2 j] message_loop_success [OF assms(5) success(1,3,5), of j]
      success(5) assms(8) k show ?thesis by simp
  next
    case (again d d' out rest)
    with assms(7) have d: "decode_input E c' (input_buffer st') = Some (AGAIN, (out, d'), rest)" by simp
    from assms(9) [OF this] d have "decode_input E c (input_buffer st) = Some (AGAIN, (out, d'), rest)"
      by (auto intro: settled_inject)
    with message_loop_again [OF assms(4,6) this, of j now] message_loop_again [OF assms(5) again(1,3), of j now]
      assms(8) k show ?thesis by simp
  qed (use assms(2) in simp)
qed

lemma message_loop_chunks:
  "message_loop m E now st = Some st1 \<Longrightarrow> fed st \<Longrightarrow> link st1 = Up \<Longrightarrow>
   message_loop k E now (with_input (input_buffer st1 @ ys) st1) = Some st2 \<Longrightarrow> link st2 = Up \<Longrightarrow>
   \<exists>n. message_loop n E now (with_input (input_buffer st @ ys) st) = Some st2"
proof (induction m arbitrary: st)
  case (Suc m)
  show ?case
  proof (cases "link st = Up")
    case True
    from Suc.prems(2) True Suc.prems(1) show ?thesis
    proof (cases rule: message_loop_cases)
      case (success c c' p j rest s2)
      let ?st1 = "st\<lparr>codec_ptr := Some c', input_buffer := rest\<rparr>"
      obtain n where n: "message_loop n E now (with_input (rest @ ys) (note_recv now s2)) = Some st2"
        using Suc.IH [OF success(8,6) Suc.prems(3,4,5)] unfolding success(7) by blast
      have "onRecvResponse E now p (with_input (rest @ ys) ?st1) = Some (with_input (rest @ ys) s2)"
        using success(5) by (simp only: onRecvResponse_input option.map)
      then have "message_loop (Suc n) E now (with_input (input_buffer st @ ys) st) =
          message_loop n E now (note_recv now (with_input (rest @ ys) s2))"
        using True success(1) decode_input_success [OF success(2,3), of ys]
        by (intro message_loop_success [of _ c E p j c' "rest @ ys"]) (cases st; simp)+
      with n with_input_commute(3) show ?thesis by metis
    next
      case (again c c' out rest)
      define S where "S x = st\<lparr>codec_ptr := Some c', input_buffer := x\<rparr>" for x
      have S: "link (S x) = Up" "codec_ptr (S x) = Some c'" "input_buffer (S x) = x" for x
        using True by (simp_all add: S_def)
      have "message_loop k E now (S (rest @ ys)) = Some st2"
        using Suc.prems(4) again(4) by (cases st) (simp add: S_def)
      moreover have "message_loop k E now (with_input (input_buffer st @ ys) st) = message_loop k E now (S (rest @ ys))"
      proof (rule message_loop_same [OF calculation Suc.prems(5)])
        fix r
        assume "decode_input E c' (input_buffer (S (rest @ ys))) = Some r"
        then have "decode_input E c' (rest @ ys) = Some r" by (simp only: S(3))
        from decode_input_again [OF again(2,3) this]
        show "settled (decode_input E c (input_buffer (with_input (input_buffer st @ ys) st))) =
            settled (decode_input E c' (input_buffer (S (rest @ ys))))"
          by (simp add: S(3))
      qed (use True again(1) S Suc.prems(2) decode_input_ok [OF again(2,3)] in \<open>cases st; simp add: S_def fed_def\<close>)+
      ultimately have "message_loop k E now (with_input (input_buffer st @ ys) st) = Some st2" by simp
      then show ?thesis by blast
    next
      case error
      with Suc.prems(3) show ?thesis by simp
    qed
  next
    case False
    with Suc.prems(1,3) show ?thesis by (simp add: message_loop_not_up)
  qed
qed simp

lemma fed_input [simp]: "fed (with_input x st) = fed st"
  by (simp add: fed_def)

text \<open>C15: the chunks in which bytes arrive do not matter. If a client is handed bytes in two pieces
  and the connection survives them, it ends in the very state it ends in when it is handed them
  in one piece: the same callbacks called with the same replies, the same commands sent from
  them, the same codec and the same bytes left over.\<close>

theorem chunks_do_not_matter:
  assumes "fed st" "onMessage E now xs st = Some st1" "link st1 = Up"
    "onMessage E now ys st1 = Some st2" "link st2 = Up"
  shows "onMessage E now (xs @ ys) st = Some st2"
proof -
  obtain n where "message_loop n E now (with_input (input_buffer st @ xs @ ys) st) = Some st2"
    using message_loop_chunks [OF assms(2) [unfolded onMessage_def] _ assms(3) assms(4) [unfolded onMessage_def] assms(5)]
      assms(1) by auto
  from message_loop_enough [OF this] assms(1) show ?thesis by (simp add: onMessage_def)
qed

section \<open>Connections that end\<close>

definition is_answer :: "('d, 'u) event \<Rightarrow> bool" where
  "is_answer e = (case e of Answered c r \<Rightarrow> True | _ \<Rightarrow> False)"

abbreviation answers :: "('d, 'u) base_client \<Rightarrow> ('d, 'u) event list" where
  "answers st \<equiv> filter is_answer (events st)"

text \<open>A callback that sends nothing when it is told that there is no reply.\<close>

definition resigned :: "('d, 'u) env \<Rightarrow> 'u pending \<Rightarrow> bool" where
  "resigned E c \<longleftrightarrow> (case snd c of User u \<Rightarrow> react E u None = [] | _ \<Rightarrow> True)"

text \<open>The promise of \<open>connect\<close>: still open as it was, or kept with an error.\<close>

definition is_promise :: "('d, 'u) event \<Rightarrow> bool" where
  "is_promise e = (case e of Promise_set r \<Rightarrow> True | _ \<Rightarrow> False)"

abbreviation promises :: "('d, 'u) base_client \<Rightarrow> ('d, 'u) event list" where
  "promises st \<equiv> filter is_promise (events st)"

definition promise_fails :: "('d, 'u) base_client \<Rightarrow> ('d, 'u) base_client \<Rightarrow> bool" where
  "promise_fails st st' \<longleftrightarrow> \<not> auth_promise st' \<and>
     (\<exists>e. promises st' = promises st @ (if auth_promise st then [Promise_set (setErr e)] else []))"

definition promise_open :: "('d, 'u) base_client \<Rightarrow> ('d, 'u) base_client \<Rightarrow> bool" where
  "promise_open st st' \<longleftrightarrow> auth_promise st' = auth_promise st \<and> promises st' = promises st \<or> promise_fails st st'"

lemma promise_open_refl [simp]: "promise_open st st"
  by (simp add: promise_open_def)

lemma promise_open_trans: "promise_open a b \<Longrightarrow> promise_open b c \<Longrightarrow> promise_open a c"
  by (auto simp: promise_open_def promise_fails_def split: if_splits)

lemma promise_open_set: "promise_open st (set_promise (setErr e) st)"
  by (auto simp: promise_open_def promise_fails_def set_promise_def log_event_def is_promise_def)

lemma promise_open_onDisconnected: "promise_open st s \<Longrightarrow> promise_fails st (onDisconnected s)"
  by (auto simp: promise_open_def promise_fails_def onDisconnected_def set_promise_def log_event_def is_promise_def)

lemma run_callback_resigned:
  fixes E :: "('d, 'u) env"
  assumes "resigned E c" "0 < n"
  obtains st' where "run_callback n E now c None st = Some st'" "same_link st st'" "callbacks st' = callbacks st"
    "answers st' = answers st @ [Answered c None]" "\<not> in_callback_context st'" "reconnect_timer st' = reconnect_timer st"
    "promise_open st st'"
proof -
  obtain k where n: "n = Suc k" using assms(2) by (cases n) auto
  define st1 where "st1 = log_event (Answered c None) (st\<lparr>in_callback_context := True\<rparr>)"
  define st2 where "st2 = (if snd c = Auth_callback then set_promise (status_result (None :: 'd packet option)) st1 else st1)"
  have "run_callback n E now c None st = Some (st2\<lparr>in_callback_context := False\<rparr>)"
    using assms(1) unfolding n resigned_def st2_def st1_def by (cases "snd c") (simp_all add: Let_def)
  then show thesis
    by (rule that) (simp_all add: st2_def st1_def log_event_def is_answer_def set_promise_def same_link_def
        status_result_def promise_open_def promise_fails_def is_promise_def, blast)
qed

lemma clear_loop_resigned:
  assumes "0 < nesting E"
  shows "list_all (resigned E) (callbacks st) \<Longrightarrow> length (callbacks st) \<le> m \<Longrightarrow> \<not> in_callback_context st \<Longrightarrow>
    \<exists>st'. clear_loop m E now st = Some (Done st') \<and> same_link st st' \<and> callbacks st' = [] \<and> \<not> in_callback_context st' \<and>
      answers st' = answers st @ map (\<lambda>c. Answered c None) (callbacks st) \<and> reconnect_timer st' = reconnect_timer st \<and>
      promise_open st st'"
proof (induction "callbacks st" arbitrary: st m)
  case Nil
  then show ?case by (simp add: clear_loop.simps [of m])
next
  case (Cons c cs)
  obtain k where m: "m = Suc k" "length cs \<le> k" using Cons.prems(2) Cons.hyps(2) [symmetric] by (cases m) auto
  have c: "resigned E c" "list_all (resigned E) cs" using Cons.prems(1) Cons.hyps(2) [symmetric] by simp_all
  obtain st1 where st1: "run_callback (nesting E) E now c None (st\<lparr>callbacks := cs\<rparr>) = Some st1"
    "same_link (st\<lparr>callbacks := cs\<rparr>) st1" "callbacks st1 = cs" "answers st1 = answers st @ [Answered c None]"
    "\<not> in_callback_context st1" "reconnect_timer st1 = reconnect_timer st" "promise_open (st\<lparr>callbacks := cs\<rparr>) st1"
    using run_callback_resigned [OF c(1) assms, where now = now and st = "st\<lparr>callbacks := cs\<rparr>"] by auto
  obtain st' where "clear_loop k E now st1 = Some (Done st')" "same_link st1 st'" "callbacks st' = []" "\<not> in_callback_context st'"
    "answers st' = answers st1 @ map (\<lambda>c. Answered c None) cs" "reconnect_timer st' = reconnect_timer st1" "promise_open st1 st'"
    using Cons.hyps(1) [OF st1(3) [symmetric], of k] st1(3,5) c(2) m(2) by auto
  moreover have "promise_open st st1" using st1(7) by (simp add: promise_open_def promise_fails_def)
  ultimately show ?case using st1 m(1) Cons.hyps(2) [symmetric]
    by (intro exI [of _ st'] conjI) (auto simp: clear_loop.simps [of "Suc k"] intro: same_link_trans promise_open_trans)
qed

lemma onConnection_down_resigned:
  assumes "0 < nesting E" "list_all (resigned E) (callbacks st)" "length (callbacks st) \<le> rounds E" "\<not> in_callback_context st"
  obtains st' where "onConnection_down E now st = Some st'" "link st' = link st" "server_addr st' = server_addr st"
    "callbacks st' = []" "answers st' = answers st @ map (\<lambda>c. Answered c None) (callbacks st)"
    "promise_fails st st'" "\<not> reconnect_timer st'" "\<not> in_callback_context st'"
proof -
  obtain s where "clearCallbacks E now st = Some s" "same_link st s" "callbacks s = []" "\<not> in_callback_context s"
    "answers s = answers st @ map (\<lambda>c. Answered c None) (callbacks st)" "promise_open st s"
    using clear_loop_resigned [OF assms(1-4), of now] assms(4)
    by (auto simp: clearCallbacks_def assertNotInCallbackContext_def ensure_def)
  then show thesis
    by (intro that [of "onDisconnected s"] promise_open_onDisconnected) (auto simp: onConnection_down_def onDisconnected_def set_promise_def log_event_def is_answer_def same_link_def)
qed

text \<open>C16: no command is forgotten. When a connection is lost and no waiting callback sends a command
  again when it is told so, then every command that still waits for its reply has its callback
  called exactly once, in order and without a reply; nobody is left waiting for the connection
  either: if the promise of \<open>connect\<close> is open it is kept, once and with an error, and the timer is
  off.\<close>

theorem lost_connection_answers_all:
  assumes "link st = Up" "\<not> in_callback_context st" "0 < nesting E" "length (callbacks st) \<le> rounds E"
    "list_all (resigned E) (callbacks st)"
  shows "\<exists>st' e. step E now Op_closed st = Some st' \<and> link st' = Down \<and> callbacks st' = [] \<and>
      filter is_answer (events st') = filter is_answer (events st) @ map (\<lambda>c. Answered c None) (callbacks st) \<and>
      filter is_promise (events st') = filter is_promise (events st) @ (if auth_promise st then [Promise_set (setErr e)] else []) \<and>
      \<not> auth_promise st' \<and> \<not> reconnect_timer st'"
proof -
  obtain st' where "onConnection_down E now (log_event Closed (st\<lparr>link := Down\<rparr>)) = Some st'" "link st' = Down"
    "callbacks st' = []" "answers st' = answers st @ map (\<lambda>c. Answered c None) (callbacks st)"
    "promise_fails st st'" "\<not> reconnect_timer st'"
    by (rule onConnection_down_resigned [OF assms(3), of "log_event Closed (st\<lparr>link := Down\<rparr>)" now])
      (use assms in \<open>simp_all add: log_event_def is_answer_def is_promise_def promise_fails_def\<close>)
  with assms(1) show ?thesis by (auto simp: promise_fails_def)
qed

text \<open>A server that has gone silent is given up. If the timer fires, nothing has come back since the
  last command and the interval is over, then every waiting callback is called once without a
  reply and the client is connecting anew; otherwise the timer changes nothing.\<close>

lemma silent_server_is_left:
  assumes "link st = Up" "\<not> in_callback_context st" "reconnect_timer st" "server_addr st \<noteq> []"
    "0 < nesting E" "length (callbacks st) \<le> rounds E" "list_all (resigned E) (callbacks st)"
  shows "if last_recv_resp_time_ms st \<le> last_send_req_time_ms st \<and>
        reconnect_interval_ms st \<le> now - last_send_req_time_ms st
    then \<exists>st'. step E now Op_cron st = Some st' \<and> link st' = Connecting \<and> callbacks st' = [] \<and>
      filter is_answer (events st') = filter is_answer (events st) @ map (\<lambda>c. Answered c None) (callbacks st) \<and>
      \<not> reconnect_timer st'
    else step E now Op_cron st = Some st"
proof -
  obtain st1 where st1: "onConnection_down E now (log_event Closed (st\<lparr>link := No_client\<rparr>)) = Some st1" "link st1 = No_client"
    "callbacks st1 = []" "answers st1 = answers st @ map (\<lambda>c. Answered c None) (callbacks st)" "\<not> reconnect_timer st1"
    "\<not> in_callback_context st1" "server_addr st1 = server_addr st"
    using onConnection_down_resigned [OF assms(5), of "log_event Closed (st\<lparr>link := No_client\<rparr>)" now] assms
    by (auto simp: log_event_def is_answer_def)
  then have "clearCallbacks E now st1 = Some st1"
    by (simp add: clearCallbacks_def assertNotInCallbackContext_def ensure_def clear_loop.simps)
  with st1 assms show ?thesis
    by (simp add: clientCron_def ensure_def Let_def reconnect_def doConnect_def assertNotInCallbackContext_def log_event_def is_answer_def)
qed

section \<open>Concrete clients\<close>

text \<open>Users that send nothing; users \<open>1\<close> that send a command again when it is not answered.\<close>

definition quiet_env :: "(int, nat) env" where
  "quiet_env = \<lparr>lib = plain_lib, react = \<lambda>u r. [], client_name = ''me'', nesting = 1, rounds = 5\<rparr>"

definition retrying_env :: "(int, nat) env" where
  "retrying_env = quiet_env\<lparr>react := \<lambda>u r. if u = 1 \<and> r = None then [(1, [''get'', ''k''])] else []\<rparr>"

definition sample_client :: "(int, nat) base_client" where
  "sample_client = new_base_client\<lparr>server_addr := ''a'', user_name := [], user_password := [], reconnect_interval_ms := -1\<rparr>"

definition waiting_client :: "(int, nat) base_client" where
  "waiting_client = sample_client\<lparr>link := Up, codec_ptr := Some (new_codec RESP2), reconnect_timer := True,
     callbacks := [([''get'', ''k''], User 0), ([''incr'', ''n''], User 1)]\<rparr>"

lemmas client_eval = quiet_env_def retrying_env_def sample_client_def waiting_client_def new_base_client_def new_codec_def

definition crlf :: bytes where
  "crlf = [CR, LF]"

text \<open>A command sent and answered; a command sent while the connection is down.\<close>

definition plain_ops :: "(int \<times> nat client_op) list" where
  "plain_ops = [(0, Op_connect), (1, Op_connected), (2, Op_send 0 [''get'', ''k'']),
     (3, Op_data (''+OK'' @ crlf @ ''$1'' @ crlf @ ''v'' @ crlf))]"

definition stale_ops :: "(int \<times> nat client_op) list" where
  "stale_ops = [(0, Op_connect), (1, Op_connected), (2, Op_data (''+OK'' @ crlf)), (3, Op_closed),
     (4, Op_send 0 [''get'', ''k'']), (5, Op_connected), (6, Op_data (''+OK'' @ crlf))]"

lemma small_numbers: "dec_int 1 = ''1''" "dec_int 7 = ''7''"
  by code_simp+

lemma sample_decodes:
  assumes "lib E = plain_lib" "resp_packet c = None" "codec_ver c = RESP2"
  shows "decode_input E c (CHR ''+'' # CHR ''O'' # CHR ''K'' # CR # LF # r) =
      Some (SUCCESS, (Some (SimpleStringPacket [] ''OK'', 5), c\<lparr>codec_err := [], resp_packet := None\<rparr>), r)"
    "decode_input E c (CHR ''$'' # CHR ''1'' # CR # LF # CHR ''v'' # CR # LF # r) =
      Some (SUCCESS, (Some (BulkStringPacket [] TYPE_COMMON (- 2) ''v'', 7), c\<lparr>codec_err := [], resp_packet := None\<rparr>), r)"
  using decode_input_wire [of E "SimpleStringPacket [] ''OK''" c r] decode_input_wire [of E "bulk_packet TYPE_COMMON ''v''" c r] assms resp_lib_plain
  by (simp_all add: valid_def one_line_def bulk_packet_def NOT_SET_SIZE_def bulk_wire_def small_numbers)

lemmas client_run = run_def connect_def doConnect_def assertNotInCallbackContext_def ensure_def Let_def log_event_def
  onConnection_up_def onConnected_def authentication_def set_promise_def sendCommandInLoop_def send_with_def
  onConnection_down_def onDisconnected_def clearCallbacks_def clear_loop.simps onMessage_def message_loop.simps
  eval_nat_numeral note_recv_def sample_decodes decode_input_empty onRecvResponse_def

lemma plain_ops_run: "(case run quiet_env plain_ops sample_client of None \<Rightarrow> False | Some st \<Rightarrow>
    callbacks st = [] \<and> link st = Up)" "orderly quiet_env plain_ops sample_client"
  by (simp_all add: client_eval plain_ops_def client_run crlf_def fresh_start_def)

theorem replies_match_commands_witness:
  "\<exists>st. run quiet_env plain_ops sample_client = Some st \<and> replay (events st) = Some []"
proof -
  obtain st where st: "run quiet_env plain_ops sample_client = Some st" "callbacks st = []" "link st = Up"
    using plain_ops_run by (auto split: option.split_asm)
  from replies_match_commands [OF st(1) [unfolded sample_client_def]] plain_ops_run(2) st show ?thesis
    by (auto simp: sample_client_def)
qed

text \<open>A command sent between two connections gets the reply of another. While the connection is
  down \<open>sendCommandInLoop\<close> still queues the callback although the bytes are dropped, and the
  connection that comes up does not clear the queue: the reply to the client's own
  \<open>CLIENT SETNAME\<close> is given to the stale command.\<close>

lemma stale_command_gets_wrong_reply:
  "\<exists>st. run quiet_env stale_ops sample_client = Some st \<and> replay (events st) = None \<and>
     last (events st) = Answered ([''get'', ''k''], User 0) (Some (SimpleStringPacket [] ''OK'')) \<and>
     filter (\<lambda>e. e = Wrote ([''get'', ''k''], User 0)) (events st) = [] \<and>
     callbacks st = [([''client'', ''setname'', ''me''], Setname_callback)]"
proof -
  have "(case run quiet_env stale_ops sample_client of None \<Rightarrow> False | Some st \<Rightarrow> replay (events st) = None \<and>
     last (events st) = Answered ([''get'', ''k''], User 0) (Some (SimpleStringPacket [] ''OK'')) \<and>
     filter (\<lambda>e. e = Wrote ([''get'', ''k''], User 0)) (events st) = [] \<and>
     callbacks st = [([''client'', ''setname'', ''me''], Setname_callback)])"
    by (simp add: client_eval stale_ops_def client_run crlf_def replay_def)
  then show ?thesis by (auto split: option.split_asm)
qed

text \<open>C17: a callback that tries again for ever is called for ever. If the callback of a waiting command
  sends the command anew when it gets no reply, then emptying the queue of a connection that was
  lost does not end: however many rounds of the loop are followed, none of them aborts, each calls
  the callback once more, and the command is in the queue again.\<close>

theorem resending_never_ends:
  assumes "link st = Down" "codec_ptr st \<noteq> None" "callbacks st = [c]" "snd c = User u" "react E u None = [(u, fst c)]"
    "0 < nesting E"
  shows "\<exists>st'. clear_loop m E now st = Some (Unfinished st') \<and> callbacks st' = [c] \<and>
      filter is_answer (events st') = filter is_answer (events st) @ replicate m (Answered c None)"
  using assms(1-3)
proof (induction m arbitrary: st)
  case (Suc m)
  obtain cd where cd: "codec_ptr st = Some cd" using Suc.prems(2) by auto
  obtain n where n: "nesting E = Suc n" using assms(6) by (cases "nesting E") auto
  have c: "(fst c, User u) = c" using assms(4) by (cases c) simp
  obtain st1 where st1: "run_callback (nesting E) E now c None (st\<lparr>callbacks := []\<rparr>) = Some st1" "link st1 = Down"
      "codec_ptr st1 \<noteq> None" "callbacks st1 = [c]" "answers st1 = answers st @ [Answered c None]"
    using Suc.prems(1) cd assms(4,5) c n by (simp add: Let_def log_event_def send_with_def is_answer_def)
  from Suc.IH [OF st1(2-4)] st1(1,5) Suc.prems(3) show ?case
    by (auto simp: clear_loop.simps [of "Suc m"])
qed (simp add: clear_loop.simps)

theorem resending_never_ends_witness:
  "\<exists>st'. clear_loop 1000 retrying_env 0 (waiting_client\<lparr>link := Down, callbacks := [([''get'', ''k''], User 1)]\<rparr>) =
     Some (Unfinished st') \<and> callbacks st' = [([''get'', ''k''], User 1)]"
  using resending_never_ends [of "waiting_client\<lparr>link := Down, callbacks := [([''get'', ''k''], User 1)]\<rparr>"
      "([''get'', ''k''], User 1)" 1 retrying_env 1000 0]
  by (auto simp: client_eval)

theorem replies_delivered_witness:
  "\<exists>st. onMessage quiet_env 5 (''+OK'' @ crlf @ '':7'' @ crlf) waiting_client = Some st \<and> callbacks st = [] \<and>
     events st = [Answered ([''get'', ''k''], User 0) (Some (SimpleStringPacket [] ''OK'')),
       Answered ([''incr'', ''n''], User 1) (Some (IntegerPacket [] 7))]"
  using replies_delivered [of quiet_env waiting_client "[([''get'', ''k''], User 0), ([''incr'', ''n''], User 1)]" "[]"
      "[SimpleStringPacket [] ''OK'', IntegerPacket [] 7]" 5] resp_lib_plain
  by (simp add: client_eval ready_for_def quiet_def valid_def one_line_def int64_range_def crlf_def small_numbers)

text \<open>A reply cut in the middle.\<close>

lemma cut_reply:
  "case onMessage quiet_env 5 ''+O'' waiting_client of None \<Rightarrow> False
   | Some st1 \<Rightarrow> link st1 = Up \<and> (case onMessage quiet_env 5 (''K'' @ crlf) st1 of None \<Rightarrow> False
     | Some st2 \<Rightarrow> link st2 = Up \<and> callbacks st2 = [([''incr'', ''n''], User 1)])"
  by (simp add: client_eval client_run crlf_def decode_input_def decodeResponse_def string_source_simps decode_resp_packet_def
      createPacket.simps simple_string_decode_def src_empty_def string_source_def find_line_def bad_magic_def decode.simps)

theorem chunks_do_not_matter_witness:
  "\<exists>st. onMessage quiet_env 5 (''+O'' @ ''K'' @ crlf) waiting_client = Some st \<and> callbacks st = [([''incr'', ''n''], User 1)]"
proof -
  obtain st1 st2 where st: "onMessage quiet_env 5 ''+O'' waiting_client = Some st1" "link st1 = Up"
    "onMessage quiet_env 5 (''K'' @ crlf) st1 = Some st2" "link st2 = Up" "callbacks st2 = [([''incr'', ''n''], User 1)]"
    using cut_reply by (auto split: option.split_asm)
  have "fed waiting_client" by (simp add: fed_def client_eval codec_ok_def)
  from chunks_do_not_matter [OF this st(1-4)] st(5) show ?thesis by blast
qed

theorem lost_connection_answers_all_witness:
  "\<exists>st. step quiet_env 5 Op_closed waiting_client = Some st \<and> callbacks st = [] \<and>
     filter is_answer (events st) = [Answered ([''get'', ''k''], User 0) None, Answered ([''incr'', ''n''], User 1) None]"
proof -
  have "link waiting_client = Up" "\<not> in_callback_context waiting_client" "0 < nesting quiet_env"
    "length (callbacks waiting_client) \<le> rounds quiet_env" "list_all (resigned quiet_env) (callbacks waiting_client)"
    by (simp_all add: client_eval resigned_def)
  from lost_connection_answers_all [OF this, of 5] show ?thesis by (auto simp: client_eval)
qed

end
