(* ===== verification/Stralgo.thy ===== *)
theory Stralgo
  imports Prelude "HOL-Library.Sublist"
begin

text \<open>
  \<open>common/Stralgo.cpp\<close>: the longest common subsequence of two strings, by a table filled row by
  row in one block of memory and a walk back through it that also collects the ranges in which
  the two strings match. Sizes and indexes are \<open>uint32_t\<close>. The guard at the top keeps the sizes in
  range, so they are natural numbers here; it does not keep the place of a cell in range, nor would
  it an entry, so these wrap around.
\<close>

definition UINT32_MAX :: nat where "UINT32_MAX = 2 ^ 32 - 1"
definition SIZE_MAX :: nat where "SIZE_MAX = 2 ^ 64 - 1"

record lcs_match_pos =
  pos_a :: "nat \<times> nat"
  pos_b :: "nat \<times> nat"
  match_len :: nat

section \<open>The table\<close>

text \<open>The macro \<open>LCS(A, B)\<close>: element \<open>B + A * (blen + 1)\<close> of the block, in 32 bits.\<close>

definition lcs_index :: "nat \<Rightarrow> nat \<Rightarrow> nat \<Rightarrow> nat" where
  "lcs_index blen i j = (j + i * (blen + 1)) mod 2 ^ 32"

definition lcs_at :: "nat \<Rightarrow> nat list \<Rightarrow> nat \<Rightarrow> nat \<Rightarrow> nat" where
  "lcs_at blen t i j = t ! lcs_index blen i j"

definition lcs_cell :: "bytes \<Rightarrow> bytes \<Rightarrow> nat list \<Rightarrow> nat \<Rightarrow> nat \<Rightarrow> nat" where
  "lcs_cell a b t i j =
     (let at = lcs_at (length b) t in
      if i = 0 \<or> j = 0 then 0
      else if a ! (i - 1) = b ! (j - 1) then (at (i - 1) (j - 1) + 1) mod 2 ^ 32
      else (let lcs1 = at (i - 1) j; lcs2 = at i (j - 1) in if lcs1 > lcs2 then lcs1 else lcs2))"

definition set_cell :: "bytes \<Rightarrow> bytes \<Rightarrow> nat \<Rightarrow> nat \<Rightarrow> nat list \<Rightarrow> nat list" where
  "set_cell a b i j t = t[lcs_index (length b) i j := lcs_cell a b t i j]"

definition fill_row :: "bytes \<Rightarrow> bytes \<Rightarrow> nat \<Rightarrow> nat list \<Rightarrow> nat list" where
  "fill_row a b i t = fold (set_cell a b i) [0..<Suc (length b)] t"

definition fill_table :: "bytes \<Rightarrow> bytes \<Rightarrow> nat list \<Rightarrow> nat list" where
  "fill_table a b t = fold (fill_row a b) [0..<Suc (length a)] t"

section \<open>The walk back\<close>

record lcs_walk =
  walk_i :: nat
  walk_j :: nat
  idx :: nat
  arange_start :: nat
  arange_end :: nat
  brange_start :: nat
  brange_end :: nat
  matchstr :: bytes
  matches :: "lcs_match_pos list"

text \<open>The branch for equal bytes: the flag says whether to emit the range. A write outside the string
  is a fault.\<close>

definition walk_match :: "bytes \<Rightarrow> lcs_walk \<Rightarrow> (bool \<times> lcs_walk) option" where
  "walk_match a w =
     (if \<not> (0 < idx w \<and> idx w \<le> length (matchstr w)) then None
      else let i = walk_i w; j = walk_j w;
          w1 = w\<lparr>matchstr := (matchstr w)[idx w - 1 := a ! (i - 1)]\<rparr>;
          (emit, w2) =
            (if arange_start w1 = length a
             then (False, w1\<lparr>arange_start := i - 1, arange_end := i - 1, brange_start := j - 1, brange_end := j - 1\<rparr>)
             else if arange_start w1 = i \<and> brange_start w1 = j
             then (False, w1\<lparr>arange_start := arange_start w1 - 1, brange_start := brange_start w1 - 1\<rparr>)
             else (True, w1))
      in Some (emit \<or> arange_start w2 = 0 \<or> brange_start w2 = 0, w2\<lparr>idx := idx w - 1, walk_i := i - 1, walk_j := j - 1\<rparr>))"

text \<open>The other branch.\<close>

definition walk_skip :: "bytes \<Rightarrow> bytes \<Rightarrow> nat list \<Rightarrow> lcs_walk \<Rightarrow> bool \<times> lcs_walk" where
  "walk_skip a b t w =
     (let i = walk_i w; j = walk_j w
      in (arange_start w \<noteq> length a,
          if lcs_at (length b) t (i - 1) j > lcs_at (length b) t i (j - 1) then w\<lparr>walk_i := i - 1\<rparr> else w\<lparr>walk_j := j - 1\<rparr>))"

text \<open>\<open>match_len\<close> is computed in 32 bits whether it is used or not.\<close>

definition range_len :: "lcs_walk \<Rightarrow> nat" where
  "range_len w = (arange_end w + 2 ^ 32 - arange_start w + 1) mod 2 ^ 32"

definition walk_emit :: "bytes \<Rightarrow> bool \<Rightarrow> nat \<Rightarrow> bool \<times> lcs_walk \<Rightarrow> lcs_walk" where
  "walk_emit a getidx minmatchlen = (\<lambda>(emit, w).
     let n = range_len w
     in if emit
        then w\<lparr>matches := matches w @ (if (minmatchlen = 0 \<or> n \<ge> minmatchlen) \<and> getidx
                 then [\<lparr>pos_a = (arange_start w, arange_end w), pos_b = (brange_start w, brange_end w), match_len = n\<rparr>]
                 else []),
               arange_start := length a\<rparr>
        else w)"

definition walk_step :: "bytes \<Rightarrow> bytes \<Rightarrow> nat list \<Rightarrow> bool \<Rightarrow> nat \<Rightarrow> lcs_walk \<Rightarrow> lcs_walk option" where
  "walk_step a b t getidx minmatchlen w = map_option (walk_emit a getidx minmatchlen)
     (if a ! (walk_i w - 1) = b ! (walk_j w - 1) then walk_match a w else Some (walk_skip a b t w))"

lemma walk_emit_indexes [simp]:
  "walk_i (walk_emit a g m x) = walk_i (snd x)" "walk_j (walk_emit a g m x) = walk_j (snd x)"
  by (simp_all add: walk_emit_def Let_def split_beta)

lemma walk_step_down:
  "walk_step a b t g m w = Some w' \<Longrightarrow> 0 < walk_i w \<Longrightarrow> 0 < walk_j w \<Longrightarrow>
   walk_i w' + walk_j w' < walk_i w + walk_j w"
  by (auto simp: walk_step_def walk_match_def walk_skip_def Let_def split_beta split: if_split_asm)

function walk :: "bytes \<Rightarrow> bytes \<Rightarrow> nat list \<Rightarrow> bool \<Rightarrow> nat \<Rightarrow> lcs_walk \<Rightarrow> lcs_walk option" where
  "walk a b t g m w =
     (if walk_i w > 0 \<and> walk_j w > 0
      then case walk_step a b t g m w of None \<Rightarrow> None | Some w' \<Rightarrow> walk a b t g m w'
      else Some w)"
  by pat_completeness auto
termination
  by (relation "measure (\<lambda>(a, b, t, g, m, w). walk_i w + walk_j w)") (auto simp: walk_step_down)

declare walk.simps [simp del]

section \<open>The function\<close>

text \<open>\<open>std::string::resize\<close>.\<close>

definition string_resize :: "nat \<Rightarrow> bytes \<Rightarrow> bytes" where
  "string_resize n s = take n s @ replicate (n - length s) (CHR 0x00)"

text \<open>The three results are references: an early return leaves them as they were. \<open>heap\<close> is what
  \<open>new uint32_t[lcsalloc]\<close> holds.\<close>

definition lcs ::
  "nat list \<Rightarrow> bytes \<Rightarrow> bytes \<Rightarrow> bool \<Rightarrow> bool \<Rightarrow> nat \<Rightarrow> bytes \<times> nat \<times> lcs_match_pos list \<Rightarrow>
   (bytes \<times> nat \<times> lcs_match_pos list) option" where
  "lcs heap a b getidx getlen minmatchlen = (\<lambda>(out, len, ms).
     if length a \<ge> UINT32_MAX - 1 \<or> length b \<ge> UINT32_MAX - 1 then Some (out, len, ms)
     else let
       alen = length a; blen = length b;
       lcssize = ((alen + 1) mod 2 ^ 32 * ((blen + 1) mod 2 ^ 32)) mod 2 ^ 64;
       lcsalloc = (lcssize * 4) mod 2 ^ 64
     in if \<not> (lcsalloc < SIZE_MAX \<and> lcsalloc div lcssize = 4) then Some (out, len, ms)
     else if length heap \<noteq> lcsalloc then None
     else let
       t = fill_table a b heap;
       computelcs = (getidx \<or> \<not> getlen);
       n = lcs_at blen t alen blen;
       w = \<lparr>walk_i = alen, walk_j = blen, idx = n, arange_start = alen, arange_end = 0, brange_start = 0, brange_end = 0,
            matchstr = (if computelcs then string_resize n out else out), matches = ms\<rparr>
     in map_option (\<lambda>w'. (matchstr w', n, matches w'))
          (if computelcs then walk a b t getidx minmatchlen w else Some w))"

section \<open>The table holds the lengths of longest common subsequences\<close>

fun best :: "bytes \<Rightarrow> bytes \<Rightarrow> nat" where
  "best [] ys = 0"
| "best xs [] = 0"
| "best (x # xs) (y # ys) = (if x = y then Suc (best xs ys) else max (best xs (y # ys)) (best (x # xs) ys))"

lemma best_nil [simp]: "best xs [] = 0"
  by (cases xs) simp_all

lemma best_upper: "subseq z xs \<Longrightarrow> subseq z ys \<Longrightarrow> length z \<le> best xs ys"
proof (induction xs ys arbitrary: z rule: best.induct)
  case (3 x xs y ys)
  show ?case
  proof (cases "z = [] \<or> x = y")
    case True
    with 3 show ?thesis by (cases z) (auto split: if_split_asm dest: subseq_Cons')
  next
    case False
    then have "subseq z xs \<or> subseq z ys"
      using 3(4,5) by (cases z) (auto split: if_split_asm)
    with False 3 show ?thesis by (auto simp: le_max_iff_disj simp del: subseq_Cons2_iff list_emb_Cons_iff1 list_emb_Cons_iff2)
  qed
qed simp_all

text \<open>The length of the longest common subsequence of two prefixes.\<close>

definition prefix_best :: "bytes \<Rightarrow> bytes \<Rightarrow> nat \<Rightarrow> nat \<Rightarrow> nat" where
  "prefix_best a b i j = best (rev (take i a)) (rev (take j b))"

lemma prefix_best_simps:
  "prefix_best a b 0 j = 0" "prefix_best a b i 0 = 0"
  "i < length a \<Longrightarrow> j < length b \<Longrightarrow> prefix_best a b (Suc i) (Suc j) =
     (if a ! i = b ! j then Suc (prefix_best a b i j) else max (prefix_best a b i (Suc j)) (prefix_best a b (Suc i) j))"
  by (simp_all add: prefix_best_def take_Suc_conv_app_nth)

lemma best_le: "best xs ys \<le> length xs"
  by (induction xs ys rule: best.induct) auto

lemma prefix_best_le: "prefix_best a b i j \<le> length a"
  using best_le [of "rev (take i a)" "rev (take j b)"] by (simp add: prefix_best_def)

lemma subseq_revI: "subseq xs ys \<Longrightarrow> subseq (rev xs) (rev ys)"
  by (induction rule: list_emb.induct) (auto simp: list_emb_append_mono)

lemma prefix_best_upper:
  assumes "subseq z a" "subseq z b"
  shows "length z \<le> prefix_best a b (length a) (length b)"
  using best_upper [OF subseq_revI [OF assms(1)] subseq_revI [OF assms(2)]] by (simp add: prefix_best_def)

definition filled :: "bytes \<Rightarrow> bytes \<Rightarrow> nat \<Rightarrow> nat list \<Rightarrow> bool" where
  "filled a b k t \<longleftrightarrow> (\<forall>i j. j \<le> length b \<longrightarrow> j + i * (length b + 1) < k \<longrightarrow> lcs_at (length b) t i j = prefix_best a b i j)"

lemma lcs_index_small: "j + i * (n + 1) < 2 ^ 32 \<Longrightarrow> lcs_index n i j = j + i * (n + 1)"
  unfolding lcs_index_def by (rule mod_less)

lemma cell_inject: "j + i * (n + 1) = j' + i' * (n + 1) \<Longrightarrow> j \<le> n \<Longrightarrow> j' \<le> n \<Longrightarrow> i = i' \<and> j = (j' :: nat)"
proof -
  assume e: "j + i * (n + 1) = j' + i' * (n + 1)" and "j \<le> n" "j' \<le> n"
  have *: "(k + l * (n + 1)) div (n + 1) = l" if "k \<le> n" for k l
    using that by (subst div_mult_self1) simp_all
  from e have "i = i'" using * [OF \<open>j \<le> n\<close>, of i] * [OF \<open>j' \<le> n\<close>, of i'] by simp
  with e show ?thesis by simp
qed

lemma lcs_cell_filled:
  assumes "filled a b (j + i * (length b + 1)) t" "i \<le> length a" "j \<le> length b" "length a < 2 ^ 32 - 1"
  shows "lcs_cell a b t i j = prefix_best a b i j"
proof (cases i; cases j)
  fix i' j' assume ij: "i = Suc i'" "j = Suc j'"
  have "lcs_at (length b) t i' j' = prefix_best a b i' j'" "lcs_at (length b) t i' j = prefix_best a b i' j"
    "lcs_at (length b) t i j' = prefix_best a b i j'"
    using assms ij by (auto simp: filled_def)
  moreover have "(prefix_best a b i' j' + 1) mod 2 ^ 32 = prefix_best a b i' j' + 1"
    using prefix_best_le [of a b i' j'] assms(4) by (intro mod_less) linarith
  ultimately show ?thesis using ij assms(2,3) by (simp add: lcs_cell_def prefix_best_simps Let_def)
qed (auto simp: lcs_cell_def prefix_best_simps)

text \<open>The table fits into the index type.\<close>

abbreviation small_table :: "bytes \<Rightarrow> bytes \<Rightarrow> bool" where
  "small_table a b \<equiv> length a < 2 ^ 32 - 1 \<and> (length a + 1) * (length b + 1) \<le> 2 ^ 32"

lemma cell_place:
  assumes "i \<le> length a" "j \<le> length b"
  shows "j + i * (length b + 1) < (length a + 1) * (length b + 1)"
  using assms mult_le_mono1 [of i "length a" "length b + 1"] by simp

lemma set_cell_filled:
  assumes "filled a b (j + i * (length b + 1)) t" "i \<le> length a" "j \<le> length b" "j + i * (length b + 1) < length t"
    "small_table a b"
  shows "filled a b (Suc j + i * (length b + 1)) (set_cell a b i j t)"
proof -
  have small: "lcs_index (length b) i' j' = j' + i' * (length b + 1)" if "j' + i' * (length b + 1) < Suc j + i * (length b + 1)" for i' j'
    using cell_place [OF assms(2,3)] assms(5) that by (intro lcs_index_small) linarith
  have place: "lcs_index (length b) i j = j + i * (length b + 1)" by (rule small) simp
  have "lcs_at (length b) (set_cell a b i j t) i' j' = prefix_best a b i' j'"
    if "j' \<le> length b" "j' + i' * (length b + 1) < Suc j + i * (length b + 1)" for i' j'
  proof (cases "j' + i' * (length b + 1) = j + i * (length b + 1)")
    case True
    with cell_inject [OF this] that assms show ?thesis
      by (auto simp: set_cell_def lcs_at_def lcs_cell_filled place simp del: mult_Suc_right)
  next
    case False
    with that assms(1) have "lcs_at (length b) t i' j' = prefix_best a b i' j'" by (simp add: filled_def)
    with False show ?thesis
      unfolding set_cell_def lcs_at_def place small [OF that(2)] by (simp only: nth_list_update_neq)
  qed
  then show ?thesis by (simp add: filled_def)
qed

lemma length_set_cell [simp]: "length (set_cell a b i j t) = length t"
  by (simp add: set_cell_def)

lemma row_prefix_filled:
  assumes "filled a b (i * (length b + 1)) t" "i \<le> length a" "(length b + 1) + i * (length b + 1) \<le> length t" "small_table a b"
  shows "k \<le> length b + 1 \<Longrightarrow> filled a b (k + i * (length b + 1)) (fold (set_cell a b i) [0..<k] t) \<and>
    length (fold (set_cell a b i) [0..<k] t) = length t"
proof (induction k)
  case (Suc k)
  then have "filled a b (k + i * (length b + 1)) (fold (set_cell a b i) [0..<k] t)"
    "length (fold (set_cell a b i) [0..<k] t) = length t" by simp_all
  with set_cell_filled [OF this(1) assms(2)] Suc.prems assms(3,4) show ?case by simp
qed (use assms in simp)

lemma fill_row_filled:
  assumes "filled a b (i * (length b + 1)) t" "i \<le> length a" "(length b + 1) + i * (length b + 1) \<le> length t" "small_table a b"
  shows "filled a b (Suc i * (length b + 1)) (fill_row a b i t) \<and> length (fill_row a b i t) = length t"
  using row_prefix_filled [OF assms, of "length b + 1"] by (simp add: fill_row_def add_ac)

lemma fill_table_filled:
  assumes "(length a + 1) * (length b + 1) \<le> length t" "i \<le> length a" "j \<le> length b" "small_table a b"
  shows "lcs_at (length b) (fill_table a b t) i j = prefix_best a b i j"
proof -
  have "filled a b (k * (length b + 1)) (fold (fill_row a b) [0..<k] t) \<and> length (fold (fill_row a b) [0..<k] t) = length t"
    if "k \<le> length a + 1" for k
    using that
  proof (induction k)
    case (Suc k)
    let ?r = "fold (fill_row a b) [0..<k] t"
    from Suc have "filled a b (k * (length b + 1)) ?r" "length ?r = length t" by simp_all
    moreover have "(length b + 1) + k * (length b + 1) \<le> (length a + 1) * (length b + 1)"
      using mult_le_mono1 [OF Suc.prems, of "length b + 1"] by simp
    ultimately show ?case
      using fill_row_filled [of a b k ?r] Suc.prems assms(1,4) by simp
  qed (simp add: filled_def)
  from this [of "length a + 1"] have "filled a b ((length a + 1) * (length b + 1)) (fill_table a b t)"
    by (simp add: fill_table_def)
  moreover have "j + i * (length b + 1) < (length a + 1) * (length b + 1)" by (rule cell_place [OF assms(2,3)])
  ultimately show ?thesis using assms(3) by (simp add: filled_def)
qed

section \<open>The walk collects one of them\<close>

definition substring :: "bytes \<Rightarrow> nat \<times> nat \<Rightarrow> bytes" where
  "substring s r = take (snd r + 1 - fst r) (drop (fst r) s)"

text \<open>A range of \<open>a\<close> and one of \<open>b\<close> that hold the same bytes.\<close>

definition same_text :: "bytes \<Rightarrow> bytes \<Rightarrow> nat \<times> nat \<Rightarrow> nat \<times> nat \<Rightarrow> bool" where
  "same_text a b p q \<longleftrightarrow> fst p \<le> snd p \<and> snd p < length a \<and> fst q \<le> snd q \<and> snd q < length b \<and>
     snd p - fst p = snd q - fst q \<and> substring a p = substring b q"

definition match_ok :: "bytes \<Rightarrow> bytes \<Rightarrow> nat \<Rightarrow> lcs_match_pos \<Rightarrow> bool" where
  "match_ok a b m p \<longleftrightarrow> same_text a b (pos_a p) (pos_b p) \<and> match_len p = snd (pos_a p) + 1 - fst (pos_a p) \<and> m \<le> match_len p"

text \<open>The range being tracked.\<close>

definition open_text :: "bytes \<Rightarrow> lcs_walk \<Rightarrow> bytes" where
  "open_text a w = (if arange_start w = length a then [] else substring a (arange_start w, arange_end w))"

text \<open>What is known of a walk, whatever the tracked range.\<close>

definition walk_inv :: "bytes \<Rightarrow> bytes \<Rightarrow> bool \<Rightarrow> nat \<Rightarrow> nat \<Rightarrow> lcs_match_pos list \<Rightarrow> lcs_walk \<Rightarrow> bool" where
  "walk_inv a b g m n ms w \<longleftrightarrow>
     walk_i w \<le> length a \<and> walk_j w \<le> length b \<and> idx w = prefix_best a b (walk_i w) (walk_j w) \<and>
     length (matchstr w) = n \<and> idx w \<le> n \<and>
     subseq (drop (idx w) (matchstr w)) (drop (walk_i w) a) \<and> subseq (drop (idx w) (matchstr w)) (drop (walk_j w) b) \<and>
     (arange_start w \<noteq> length a \<longrightarrow> same_text a b (arange_start w, arange_end w) (brange_start w, brange_end w)) \<and>
     (\<exists>new. matches w = ms @ new \<and> list_all (match_ok a b m) new \<and> (\<not> g \<longrightarrow> new = []) \<and>
        (g \<and> m \<le> 1 \<longrightarrow> drop (idx w) (matchstr w) = open_text a w @ concat (map (\<lambda>p. substring a (pos_a p)) (rev new))))"

text \<open>A tracked range begins where the walk is.\<close>

definition tracks :: "bytes \<Rightarrow> lcs_walk \<Rightarrow> bool" where
  "tracks a w \<longleftrightarrow> (arange_start w \<noteq> length a \<longrightarrow>
     0 < walk_i w \<and> 0 < walk_j w \<and> arange_start w = walk_i w \<and> brange_start w = walk_j w)"

lemma walk_emit_ok:
  assumes "walk_inv a b g m n ms w" "e \<longrightarrow> arange_start w \<noteq> length a" "\<not> e \<longrightarrow> tracks a w" "length a < 2 ^ 32"
  shows "walk_inv a b g m n ms (walk_emit a g m (e, w)) \<and> tracks a (walk_emit a g m (e, w))"
proof (cases e)
  case True
  with assms(1,2) have t: "same_text a b (arange_start w, arange_end w) (brange_start w, brange_end w)"
    by (simp add: walk_inv_def)
  then have "arange_start w \<le> arange_end w" "arange_end w < length a" by (simp_all add: same_text_def)
  then have "arange_end w + 2 ^ 32 - arange_start w + 1 = (arange_end w + 1 - arange_start w) + 2 ^ 32"
    "arange_end w + 1 - arange_start w < 2 ^ 32"
    using assms(4) by linarith+
  then have len: "range_len w = arange_end w + 1 - arange_start w"
    unfolding range_len_def by (simp only: mod_add_self2 mod_less)
  obtain new where new: "matches w = ms @ new" "list_all (match_ok a b m) new" "\<not> g \<longrightarrow> new = []"
    "g \<and> m \<le> 1 \<longrightarrow> drop (idx w) (matchstr w) = open_text a w @ concat (map (\<lambda>p. substring a (pos_a p)) (rev new))"
    using assms(1) by (auto simp: walk_inv_def)
  let ?p = "\<lparr>pos_a = (arange_start w, arange_end w), pos_b = (brange_start w, brange_end w),
      match_len = arange_end w + 1 - arange_start w\<rparr>"
  define new' where "new' = new @ (if (m = 0 \<or> m \<le> arange_end w + 1 - arange_start w) \<and> g then [?p] else [])"
  have emit: "walk_emit a g m (e, w) = w\<lparr>matches := ms @ new', arange_start := length a\<rparr>"
    using True new(1) by (simp add: walk_emit_def Let_def len new'_def)
  have "list_all (match_ok a b m) new'" "\<not> g \<longrightarrow> new' = []"
    using new(2,3) t by (auto simp: new'_def match_ok_def)
  moreover have "g \<and> m \<le> 1 \<longrightarrow> drop (idx w) (matchstr w) = concat (map (\<lambda>p. substring a (pos_a p)) (rev new'))"
    using new(4) t assms(2) True by (auto simp: new'_def open_text_def same_text_def)
  ultimately have "walk_inv a b g m n ms (w\<lparr>matches := ms @ new', arange_start := length a\<rparr>)"
    using assms(1) unfolding walk_inv_def
    by (elim conjE, intro conjI exI [of _ new']) (simp_all add: open_text_def)
  then show ?thesis using emit by (simp add: tracks_def)
qed (use assms in \<open>simp add: walk_emit_def\<close>)

text \<open>A range grown by one byte to the left.\<close>

lemma same_text_extend:
  assumes "same_text a b (Suc i, p) (Suc j, q)" "a ! i = b ! j"
  shows "same_text a b (i, p) (j, q)" "substring a (i, p) = a ! i # substring a (Suc i, p)"
proof -
  have "substring s (k, r) = s ! k # substring s (Suc k, r)" if "Suc k \<le> r" "r < length s" for s k r
    using that by (simp add: substring_def Cons_nth_drop_Suc [symmetric] Suc_diff_le)
  with assms show "same_text a b (i, p) (j, q)" "substring a (i, p) = a ! i # substring a (Suc i, p)"
    by (auto simp: same_text_def)
qed

lemma same_text_single:
  assumes "i < length a" "j < length b" "a ! i = b ! j"
  shows "same_text a b (i, i) (j, j)" "substring a (i, i) = [a ! i]"
  using assms by (simp_all add: same_text_def substring_def take_Suc_conv_app_nth hd_drop_conv_nth take_Suc)

lemma walk_match_ok:
  assumes "walk_inv a b g m n ms w" "tracks a w" "0 < walk_i w" "0 < walk_j w" "a ! (walk_i w - 1) = b ! (walk_j w - 1)"
  obtains e w' where "walk_match a w = Some (e, w')" "walk_inv a b g m n ms w'" "e \<longrightarrow> arange_start w' \<noteq> length a"
    "\<not> e \<longrightarrow> tracks a w'"
proof -
  obtain i j where ij: "walk_i w = Suc i" "walk_j w = Suc j" using assms(3,4) by (metis Suc_pred)
  have w: "i < length a" "j < length b" "a ! i = b ! j" "length (matchstr w) = n" "idx w \<le> n" "idx w = prefix_best a b (Suc i) (Suc j)"
    using assms(1,5) ij by (simp_all add: walk_inv_def)
  define k where "k = prefix_best a b i j"
  define s where "s = (matchstr w)[k := a ! i]"
  have k: "idx w = Suc k" "k < n" using w prefix_best_simps(3) [of i a j b] by (simp_all add: k_def)
  have s: "length s = n" "drop k s = a ! i # drop (Suc k) (matchstr w)"
    using w k by (simp_all add: s_def Cons_nth_drop_Suc [symmetric])
  define ends where "ends = (if arange_start w = length a then (i, j) else (arange_end w, brange_end w))"
  define w' where "w' = w\<lparr>matchstr := s, arange_start := i, arange_end := fst ends, brange_start := j, brange_end := snd ends,
      idx := k, walk_i := i, walk_j := j\<rparr>"
  have "walk_match a w = Some (i = 0 \<or> j = 0, w')"
    using assms(2) ij w k by (cases w) (auto simp: walk_match_def Let_def w'_def ends_def s_def tracks_def)
  moreover have same: "same_text a b (i, fst ends) (j, snd ends)" "open_text a w' = a ! i # open_text a w"
    using same_text_single [OF w(1-3)] same_text_extend [of a b i "arange_end w" j "brange_end w"] assms(1,2) w(1,3) ij
    by (auto simp: ends_def open_text_def w'_def walk_inv_def tracks_def)
  moreover have "walk_inv a b g m n ms w'"
    using assms(1) same w(1,2,3) k s ij by (auto simp: walk_inv_def w'_def k_def Cons_nth_drop_Suc [symmetric])
  moreover have "\<not> (i = 0 \<or> j = 0) \<longrightarrow> tracks a w'" by (simp add: tracks_def w'_def)
  ultimately show thesis using w(1) by (intro that) (auto simp: w'_def)
qed

lemma subseq_drop_pred: "subseq z (drop i s) \<Longrightarrow> subseq z (drop (i - 1) s)"
proof (cases "0 < i \<and> i - 1 < length s")
  case True
  assume z: "subseq z (drop i s)"
  have "drop (i - 1) s = s ! (i - 1) # drop i s" using True Cons_nth_drop_Suc [of "i - 1" s] by simp
  with z show ?thesis by (simp add: list_emb_Cons)
qed (auto simp: not_less)

text \<open>The table the walk reads.\<close>

abbreviation is_table :: "bytes \<Rightarrow> bytes \<Rightarrow> nat list \<Rightarrow> bool" where
  "is_table a b t \<equiv> \<forall>i j. i \<le> length a \<longrightarrow> j \<le> length b \<longrightarrow> lcs_at (length b) t i j = prefix_best a b i j"

lemma walk_skip_ok:
  assumes "walk_inv a b g m n ms w" "tracks a w" "0 < walk_i w" "0 < walk_j w" "a ! (walk_i w - 1) \<noteq> b ! (walk_j w - 1)"
    "is_table a b t" "walk_skip a b t w = (e, w')"
  shows "walk_inv a b g m n ms w'" "e \<longrightarrow> arange_start w' \<noteq> length a" "\<not> e \<longrightarrow> tracks a w'"
proof -
  obtain i j where ij: "walk_i w = Suc i" "walk_j w = Suc j" using assms(3,4) by (metis Suc_pred)
  have le: "Suc i \<le> length a" "Suc j \<le> length b" and idx: "idx w = prefix_best a b (Suc i) (Suc j)"
    using assms(1) ij by (simp_all add: walk_inv_def)
  have "lcs_at (length b) t i (Suc j) = prefix_best a b i (Suc j)" "lcs_at (length b) t (Suc i) j = prefix_best a b (Suc i) j"
    using assms(6) le by simp_all
  then have w': "w' = (if prefix_best a b i (Suc j) > prefix_best a b (Suc i) j then w\<lparr>walk_i := i\<rparr> else w\<lparr>walk_j := j\<rparr>)"
    and e: "e \<longleftrightarrow> arange_start w \<noteq> length a"
    using assms(7) ij by (auto simp: walk_skip_def Let_def)
  have "idx w = max (prefix_best a b i (Suc j)) (prefix_best a b (Suc i) j)"
    using idx prefix_best_simps(3) [of i a j b] le assms(5) ij by simp
  then have best: "idx w = prefix_best a b (walk_i w') (walk_j w')" using ij by (simp add: w')
  have "subseq z (drop (Suc k) s) \<Longrightarrow> subseq z (drop k s)" for z k and s :: bytes
    using subseq_drop_pred [of z "Suc k" s] by simp
  then have sub: "subseq z (drop (walk_i w) a) \<Longrightarrow> subseq z (drop (walk_i w') a)"
    "subseq z (drop (walk_j w) b) \<Longrightarrow> subseq z (drop (walk_j w') b)" for z
    using ij by (auto simp: w')
  have less: "walk_i w' \<le> walk_i w" "walk_j w' \<le> walk_j w" using ij by (auto simp: w')
  have same: "open_text a w' = open_text a w" "matches w' = matches w" "idx w' = idx w" "matchstr w' = matchstr w"
    "arange_start w' = arange_start w" "arange_end w' = arange_end w" "brange_start w' = brange_start w" "brange_end w' = brange_end w"
    by (simp_all add: w' open_text_def)
  show "walk_inv a b g m n ms w'"
    unfolding walk_inv_def same best [symmetric]
    using assms(1) [unfolded walk_inv_def] sub less order_trans by blast
  show "e \<longrightarrow> arange_start w' \<noteq> length a" "\<not> e \<longrightarrow> tracks a w'"
    by (simp_all add: e w' tracks_def)
qed

lemma walk_step_ok:
  assumes "walk_inv a b g m n ms w" "tracks a w" "0 < walk_i w" "0 < walk_j w" "is_table a b t" "length a < 2 ^ 32"
  obtains w' where "walk_step a b t g m w = Some w'" "walk_inv a b g m n ms w'" "tracks a w'"
proof -
  obtain e w' where w': "walk_step a b t g m w = Some (walk_emit a g m (e, w'))"
    "walk_inv a b g m n ms w'" "e \<longrightarrow> arange_start w' \<noteq> length a" "\<not> e \<longrightarrow> tracks a w'"
  proof (cases "a ! (walk_i w - 1) = b ! (walk_j w - 1)")
    case True
    from walk_match_ok [OF assms(1-4) True] obtain e w' where "walk_match a w = Some (e, w')" "walk_inv a b g m n ms w'"
      "e \<longrightarrow> arange_start w' \<noteq> length a" "\<not> e \<longrightarrow> tracks a w'" .
    with True show thesis by (intro that) (simp_all add: walk_step_def)
  next
    case False
    obtain e w' where s: "walk_skip a b t w = (e, w')" by force
    from walk_skip_ok [OF assms(1-4) False assms(5) s] False s show thesis by (intro that) (simp_all add: walk_step_def)
  qed
  from walk_emit_ok [OF w'(2-4) assms(6)] w'(1) that show thesis by blast
qed

lemma walk_ok:
  assumes "is_table a b t" "length a < 2 ^ 32"
  shows "walk_inv a b g m n ms w \<Longrightarrow> tracks a w \<Longrightarrow>
    \<exists>w'. walk a b t g m w = Some w' \<and> walk_inv a b g m n ms w' \<and> tracks a w' \<and> (walk_i w' = 0 \<or> walk_j w' = 0)"
proof (induction "walk_i w + walk_j w" arbitrary: w rule: less_induct)
  case less
  show ?case
  proof (cases "0 < walk_i w \<and> 0 < walk_j w")
    case True
    then obtain w1 where w1: "walk_step a b t g m w = Some w1" "walk_inv a b g m n ms w1" "tracks a w1"
      using walk_step_ok [OF less.prems _ _ assms] by auto
    from less.hyps [OF walk_step_down [OF w1(1)] w1(2,3)] True w1(1) show ?thesis
      by (simp add: walk.simps [of a b t g m w])
  next
    case False
    with less.prems show ?thesis by (auto simp: walk.simps [of a b t g m w])
  qed
qed

text \<open>The walk from the corner.\<close>

lemma walk_result:
  assumes "is_table a b t" "length a < 2 ^ 32"
  obtains s new where "map_option (\<lambda>w'. (matchstr w', n, matches w')) (walk a b t g m
      \<lparr>walk_i = length a, walk_j = length b, idx = prefix_best a b (length a) (length b), arange_start = length a, arange_end = 0,
       brange_start = 0, brange_end = 0, matchstr = string_resize (prefix_best a b (length a) (length b)) out, matches = ms\<rparr>)
      = Some (s, n, ms @ new)"
    "length s = prefix_best a b (length a) (length b)" "subseq s a" "subseq s b" "list_all (match_ok a b m) new" "\<not> g \<longrightarrow> new = []"
    "g \<and> m \<le> 1 \<longrightarrow> concat (map (\<lambda>p. substring a (pos_a p)) (rev new)) = s"
proof -
  let ?n = "prefix_best a b (length a) (length b)"
  define w0 where "w0 = \<lparr>walk_i = length a, walk_j = length b, idx = ?n, arange_start = length a, arange_end = 0,
       brange_start = 0, brange_end = 0, matchstr = string_resize ?n out, matches = ms\<rparr>"
  have "length (string_resize ?n out) = ?n" by (simp add: string_resize_def)
  then have "walk_inv a b g m ?n ms w0" "tracks a w0"
    by (simp_all add: walk_inv_def tracks_def w0_def open_text_def)
  from walk_ok [OF assms this] obtain w' where w': "walk a b t g m w0 = Some w'" "walk_inv a b g m ?n ms w'" "tracks a w'"
    "walk_i w' = 0 \<or> walk_j w' = 0" by blast
  then have z: "idx w' = 0" "arange_start w' = length a" by (auto simp: walk_inv_def tracks_def prefix_best_simps)
  have sub: "subseq (matchstr w') (drop (walk_i w') a)" "subseq (matchstr w') (drop (walk_j w') b)" "length (matchstr w') = ?n"
    using w'(2) z(1) by (simp_all add: walk_inv_def)
  have "subseq z (drop k s) \<Longrightarrow> subseq z s" for z k and s :: bytes
    using list_emb_append2 [of "(=)" z "drop k s" "take k s"] by simp
  then have "subseq (matchstr w') a" "subseq (matchstr w') b" using sub by blast+
  moreover obtain new where "matches w' = ms @ new" "list_all (match_ok a b m) new" "\<not> g \<longrightarrow> new = []"
    "g \<and> m \<le> 1 \<longrightarrow> concat (map (\<lambda>p. substring a (pos_a p)) (rev new)) = matchstr w'"
    using w'(2) z by (auto simp: walk_inv_def open_text_def)
  ultimately show thesis using w'(1) sub(3) by (intro that [of "matchstr w'" new]) (simp_all add: w0_def)
qed

text \<open>C18: \<open>Stralgo::lcs\<close> finds a longest common subsequence. For strings whose table has at most
  \<open>2 ^ 32\<close> cells, as many as the 32-bit index of a cell can tell apart, the run touches nothing outside its block and its strings; the length it reports is that of a common
  subsequence and no common subsequence is longer; the string it gives, when it computes one, is
  a common subsequence of that length; every range it reports holds the same bytes in both strings
  and has at least the length asked for, and put together backwards the ranges spell the string.\<close>

theorem lcs_correct:
  assumes "length a < UINT32_MAX - 1" "length b < UINT32_MAX - 1" "(length a + 1) * (length b + 1) \<le> 2 ^ 32"
    "length heap = (length a + 1) * (length b + 1) * 4"
  shows "\<exists>s n new. lcs heap a b getidx getlen m (out, len, ms) = Some (s, n, ms @ new) \<and>
     (\<exists>z. subseq z a \<and> subseq z b \<and> length z = n) \<and> (\<forall>z. subseq z a \<and> subseq z b \<longrightarrow> length z \<le> n) \<and>
     (if getidx \<or> \<not> getlen then subseq s a \<and> subseq s b \<and> length s = n else s = out) \<and>
     list_all (match_ok a b m) new \<and> (\<not> getidx \<longrightarrow> new = []) \<and>
     (getidx \<and> m \<le> 1 \<longrightarrow> concat (map (\<lambda>p. substring a (pos_a p)) (rev new)) = s)"
proof -
  let ?n = "prefix_best a b (length a) (length b)" and ?t = "fill_table a b heap"
  have "length a + 1 < 2 ^ 32" "length b + 1 < 2 ^ 32" using assms(1,2) by (simp_all add: UINT32_MAX_def)
  moreover define c where "c = (length a + 1) * (length b + 1)"
  moreover have c: "c * 4 < SIZE_MAX" "c < 2 ^ 64" "c * 4 < 2 ^ 64" "c \<noteq> 0" using assms(3) by (auto simp: SIZE_MAX_def c_def simp del: mult_Suc mult_Suc_right)
  ultimately have size: "((length a + 1) mod 2 ^ 32 * ((length b + 1) mod 2 ^ 32)) mod 2 ^ 64 = c" "c * 4 mod 2 ^ 64 = c * 4"
    by (simp_all only: mod_less)
  have "small_table a b" using assms(1,3) by (simp add: UINT32_MAX_def)
  with assms(4) have t: "is_table a b ?t" by (intro allI impI fill_table_filled) simp_all
  have len: "length a < 2 ^ 32" using assms(1) by (simp add: UINT32_MAX_def)
  obtain s0 new0 where w: "map_option (\<lambda>w'. (matchstr w', ?n, matches w')) (walk a b ?t getidx m
      \<lparr>walk_i = length a, walk_j = length b, idx = ?n, arange_start = length a, arange_end = 0,
       brange_start = 0, brange_end = 0, matchstr = string_resize ?n out, matches = ms\<rparr>)
      = Some (s0, ?n, ms @ new0)"
    "length s0 = ?n" "subseq s0 a" "subseq s0 b" "list_all (match_ok a b m) new0" "\<not> getidx \<longrightarrow> new0 = []"
    "getidx \<and> m \<le> 1 \<longrightarrow> concat (map (\<lambda>p. substring a (pos_a p)) (rev new0)) = s0"
    by (rule walk_result [OF t len, where n = ?n and g = getidx and m = m and out = out and ms = ms], rule that)
  have at: "lcs_at (length b) ?t (length a) (length b) = ?n" using t by simp
  have guards: "\<not> (length a \<ge> UINT32_MAX - 1 \<or> length b \<ge> UINT32_MAX - 1)" "\<not> \<not> (c * 4 < SIZE_MAX \<and> c * 4 div c = 4)"
    using assms(1,2) c by simp_all
  have guard: "\<not> length heap \<noteq> c * 4" using assms(4) by (simp only: c_def not_not)
  have "lcs heap a b getidx getlen m (out, len, ms) =
      (if getidx \<or> \<not> getlen then Some (s0, ?n, ms @ new0) else Some (out, ?n, ms))"
    unfolding lcs_def Let_def prod.case size if_not_P [OF guards(1)] if_not_P [OF guards(2)] if_not_P [OF guard] at
    using w(1) by (cases "getidx \<or> \<not> getlen") (simp_all only: if_True if_False option.map lcs_walk.simps)
  then show ?thesis using w prefix_best_upper [of _ a b] by auto
qed

theorem lcs_correct_witness:
  "\<exists>s n ms. lcs (replicate 80 7) ''axb'' ''acxb'' True False 0 ([], 0, []) = Some (s, n, ms) \<and>
     subseq s ''axb'' \<and> subseq s ''acxb'' \<and> length s = n \<and> concat (map (\<lambda>p. substring ''axb'' (pos_a p)) (rev ms)) = s"
  using lcs_correct [of "''axb''" "''acxb''" "replicate 80 7" True False 0 "[]" 0 "[]"]
  by (fastforce simp: UINT32_MAX_def SIZE_MAX_def)

text \<open>The guard of the code lets larger tables through, in which cells share their place: for two
  strings of 65536 bytes the cell of the prefixes of 65535 and one bytes is that of the empty ones.\<close>

lemma large_tables_alias:
  "lcs_index 65536 65535 1 = lcs_index 65536 0 0"
  "65536 < UINT32_MAX - 1 \<and> (65536 + 1) * (65536 + 1) * 4 < SIZE_MAX"
  by (simp_all add: lcs_index_def UINT32_MAX_def SIZE_MAX_def)

end
