(* ===== verification/Connection.thy ===== *)
theory Connection
  imports Prelude
begin

text \<open>
  \<open>network/TcpConnection.cpp\<close>, in its event loop: what a connection does with data to send, with
  the events of its socket, and when it ends. The buffers are their contents (theory Buffer has
  the blocks below them). Each call of the kernel and each veto of a \<open>before_\<close> callback is an
  argument; the other callbacks are entries of a log and do not call the connection back. The
  field \<open>kernel\<close> records what the kernel took, \<open>taken\<close> what the connection took from its callers.
\<close>

datatype conn_status = kDisconnected | kConnecting | kConnected | kDisconnecting

datatype conn_event =
    Connection_callback conn_status
  | Close_callback
  | Message_callback bytes
  | After_read nat
  | After_write nat
  | Write_complete
  | High_water nat

record connection =
  status :: conn_status
  in_buf :: bytes
  out_buf :: bytes
  reads :: bool
  writes :: bool
  kernel :: bytes
  taken :: bytes
  event_log :: "conn_event list"

definition new_connection :: connection where
  "new_connection = \<lparr>status = kDisconnected, in_buf = [], out_buf = [], reads = False, writes = False,
     kernel = [], taken = [], event_log = []\<rparr>"

text \<open>The classes of \<open>errno\<close> the code tells apart, and what \<open>write\<close> and \<open>read\<close> return.\<close>

datatype errno = Retriable | Broken_pipe | Other_errno

record write_result =
  nwritten :: int
  write_errno :: errno

datatype read_result = Got bytes | End_of_file | Read_errno errno

definition noting :: "conn_event \<Rightarrow> connection \<Rightarrow> connection" where
  "noting e c = c\<lparr>event_log := event_log c @ [e]\<rparr>"

section \<open>The end of a connection\<close>

definition handleClose :: "connection \<Rightarrow> connection option" where
  "handleClose c = (if status c = kDisconnected then Some c else do {
     ensure (status c = kDisconnecting);
     let c1 = c\<lparr>reads := False, writes := False, status := kDisconnected\<rparr>;
     Some (noting Close_callback (noting (Connection_callback kDisconnected) c1)) })"

definition handleError :: "connection \<Rightarrow> connection option" where
  "handleError c = handleClose (c\<lparr>status := kDisconnecting\<rparr>)"

definition close_conn :: "connection \<Rightarrow> connection option" where
  "close_conn c = (if status c = kDisconnecting \<or> status c = kDisconnected then Some c
     else handleClose (c\<lparr>status := kDisconnecting\<rparr>))"

definition attachedToLoop :: "connection \<Rightarrow> connection" where
  "attachedToLoop c = noting (Connection_callback kConnected) (c\<lparr>status := kConnected, reads := True\<rparr>)"

section \<open>Sending\<close>

text \<open>The part of \<open>sendInLoop\<close> after the direct write of \<open>n\<close> bytes.\<close>

definition queue_rest :: "nat \<Rightarrow> bytes \<Rightarrow> connection \<Rightarrow> connection" where
  "queue_rest high rest c =
     (if rest = [] then c
      else let old_len = length (out_buf c); current_size = old_len + length rest;
               c1 = (if current_size \<ge> high \<and> old_len < high then noting (High_water current_size) c else c)
           in c1\<lparr>out_buf := out_buf c1 @ rest, writes := True\<rparr>)"

definition sendInLoop :: "nat \<Rightarrow> bool \<Rightarrow> write_result \<Rightarrow> bytes \<Rightarrow> connection \<Rightarrow> connection option" where
  "sendInLoop high before_write r data c0 =
     (if status c0 \<noteq> kConnected then Some c0
      else if \<not> before_write then Some c0
      else let c = c0\<lparr>taken := taken c0 @ data\<rparr> in
        if \<not> writes c \<and> out_buf c = []
        then if nwritten r \<ge> 0
             then do {
               ensure (nwritten r \<le> int (length data));
               let n = nat (nwritten r);
               let c1 = noting (After_write n) (c\<lparr>kernel := kernel c @ take n data\<rparr>);
               let c2 = (if length data = n then noting Write_complete c1 else c1);
               Some (queue_rest high (drop n data) c2) }
             else if write_errno r = Broken_pipe then handleError c
             else Some (queue_rest high data c)
        else Some (queue_rest high data c))"

text \<open>\<open>send\<close>, in the loop thread.\<close>

definition send_data :: "nat \<Rightarrow> bool \<Rightarrow> write_result \<Rightarrow> bytes \<Rightarrow> connection \<Rightarrow> connection option" where
  "send_data high before_write r data c =
     (if status c \<noteq> kConnected then Some c else sendInLoop high before_write r data c)"

section \<open>Events of the socket\<close>

definition handleWrite :: "bool \<Rightarrow> write_result \<Rightarrow> connection \<Rightarrow> connection option" where
  "handleWrite before_write r c =
     (if \<not> before_write then Some c
      else if nwritten r > 0
      then do {
        ensure (nwritten r \<le> int (length (out_buf c)));
        let n = nat (nwritten r);
        let c1 = noting (After_write n) (c\<lparr>kernel := kernel c @ take n (out_buf c), out_buf := drop n (out_buf c)\<rparr>);
        Some (if out_buf c1 = [] then noting Write_complete (c1\<lparr>writes := False\<rparr>) else c1) }
      else if write_errno r = Broken_pipe then handleError c
      else Some c)"

text \<open>The message callback leaves what it does not use in the input buffer.\<close>

definition handleRead :: "bool \<Rightarrow> read_result \<Rightarrow> (bytes \<Rightarrow> bytes) \<Rightarrow> connection \<Rightarrow> connection option" where
  "handleRead before_read r unused c =
     (if \<not> before_read then Some c
      else case r of
        Got data \<Rightarrow>
          let buf = in_buf c @ data
          in Some (noting (Message_callback buf) (noting (After_read (length data)) (c\<lparr>in_buf := unused buf\<rparr>)))
      | End_of_file \<Rightarrow> handleError c
      | Read_errno e \<Rightarrow> if e = Retriable then Some c else handleError c)"

definition sendOutputBuffer :: "bool \<Rightarrow> bool \<Rightarrow> write_result \<Rightarrow> connection \<Rightarrow> connection option" where
  "sendOutputBuffer before_write1 before_write2 r c =
     (if out_buf c \<noteq> [] \<and> status c = kConnected
      then do {
        c1 \<leftarrow> handleWrite before_write1 r c;
        Some (if out_buf c1 \<noteq> [] \<and> status c1 = kConnected \<and> before_write2 then c1\<lparr>writes := True\<rparr> else c1) }
      else Some c)"

section \<open>The life of a connection\<close>

text \<open>What the event loop and the owner do with a connection. Read and write events come while they
  are asked for; a connection is attached once.\<close>

inductive conn_step :: "nat \<Rightarrow> connection \<Rightarrow> connection \<Rightarrow> bool" for high where
  step_attach: "event_log c = [] \<Longrightarrow> status c = kDisconnected \<Longrightarrow> conn_step high c (attachedToLoop c)"
| step_send: "send_data high v r data c = Some c' \<Longrightarrow> conn_step high c c'"
| step_flush: "sendOutputBuffer v w r c = Some c' \<Longrightarrow> conn_step high c c'"
| step_write: "writes c \<Longrightarrow> handleWrite v r c = Some c' \<Longrightarrow> conn_step high c c'"
| step_read: "reads c \<Longrightarrow> handleRead v d unused c = Some c' \<Longrightarrow> conn_step high c c'"
| step_close: "close_conn c = Some c' \<Longrightarrow> conn_step high c c'"

inductive_cases conn_stepE: "conn_step high c c'"

inductive conn_reachable :: "nat \<Rightarrow> connection \<Rightarrow> bool" for high where
  reach_new: "conn_reachable high new_connection"
| reach_step: "conn_reachable high c \<Longrightarrow> conn_step high c c' \<Longrightarrow> conn_reachable high c'"

definition life :: "connection \<Rightarrow> conn_event list" where
  "life c = filter (\<lambda>e. case e of Connection_callback s \<Rightarrow> True | Close_callback \<Rightarrow> True | _ \<Rightarrow> False) (event_log c)"

definition kept :: "connection \<Rightarrow> bool" where
  "kept c \<longleftrightarrow> (\<exists>rest. taken c = kernel c @ rest) \<and>
     (if status c = kConnected
      then taken c = kernel c @ out_buf c \<and> reads c \<and> (writes c \<longleftrightarrow> out_buf c \<noteq> []) \<and>
        life c = [Connection_callback kConnected]
      else status c = kDisconnected \<and> \<not> reads c \<and> \<not> writes c \<and>
        ((event_log c = [] \<and> out_buf c = [] \<and> taken c = kernel c) \<or>
         life c = [Connection_callback kConnected, Connection_callback kDisconnected, Close_callback]))"

lemma life_simps [simp]:
  "life (noting (Connection_callback s) c) = life c @ [Connection_callback s]" "life (noting Close_callback c) = life c @ [Close_callback]"
  "life (noting (After_write n) c) = life c" "life (noting (High_water n) c) = life c" "life (noting Write_complete c) = life c"
  "life (noting (After_read n) c) = life c" "life (noting (Message_callback d) c) = life c"
  "life (c\<lparr>status := s\<rparr>) = life c" "life (c\<lparr>reads := x\<rparr>) = life c" "life (c\<lparr>writes := x\<rparr>) = life c" "life (c\<lparr>in_buf := d\<rparr>) = life c"
  "life (c\<lparr>out_buf := d\<rparr>) = life c" "life (c\<lparr>kernel := d\<rparr>) = life c" "life (c\<lparr>taken := d\<rparr>) = life c"
  by (simp_all add: life_def noting_def)

lemma noting_simps [simp]:
  "status (noting e c) = status c" "out_buf (noting e c) = out_buf c" "reads (noting e c) = reads c" "writes (noting e c) = writes c"
  "kernel (noting e c) = kernel c" "taken (noting e c) = taken c" "event_log (noting e c) = event_log c @ [e]"
  by (simp_all add: noting_def)

lemma keptD:
  assumes "kept c" "status c = kConnected"
  shows "taken c = kernel c @ out_buf c" "reads c" "writes c \<longleftrightarrow> out_buf c \<noteq> []" "life c = [Connection_callback kConnected]"
  using assms by (simp_all add: kept_def)

lemma keptI:
  "status c = kConnected \<Longrightarrow> taken c = kernel c @ out_buf c \<Longrightarrow> reads c \<Longrightarrow> writes c = (out_buf c \<noteq> []) \<Longrightarrow>
    life c = [Connection_callback kConnected] \<Longrightarrow> kept c"
  by (simp add: kept_def)

lemma handleError_kept:
  assumes "handleError c = Some c'" "\<exists>rest. taken c = kernel c @ rest" "life c = [Connection_callback kConnected]"
  shows "kept c'"
  using assms by (auto simp: handleError_def handleClose_def kept_def ensure_def Let_def)

lemma queue_rest_kept:
  assumes "status c = kConnected" "reads c" "life c = [Connection_callback kConnected]" "taken c = kernel c @ out_buf c @ rest"
    "rest = [] \<longrightarrow> writes c = (out_buf c \<noteq> [])"
  shows "kept (queue_rest high rest c)"
  using assms by (auto simp: queue_rest_def Let_def intro: keptI)

lemma handleWrite_kept:
  assumes "handleWrite v r c = Some c'" "kept c" "status c = kConnected" "out_buf c \<noteq> []"
  shows "kept c'"
proof -
  note c = keptD [OF assms(2,3)]
  let ?c1 = "\<lambda>n. noting (After_write n) (c\<lparr>kernel := kernel c @ take n (out_buf c), out_buf := drop n (out_buf c)\<rparr>)"
  have "handleError c = Some c' \<Longrightarrow> kept c'" using c(1,4) by (auto intro: handleError_kept)
  moreover have "kept (if out_buf (?c1 n) = [] then noting Write_complete ((?c1 n)\<lparr>writes := False\<rparr>) else ?c1 n)" for n
    using c assms(3,4) by (auto intro!: keptI)
  moreover have "handleError c = Some c' \<or> c' = c \<or>
      (\<exists>n. c' = (if out_buf (?c1 n) = [] then noting Write_complete ((?c1 n)\<lparr>writes := False\<rparr>) else ?c1 n))"
    using assms(1) unfolding handleWrite_def Let_def by (auto simp: ensure_def split: if_split_asm)
  ultimately show ?thesis using assms(2) by blast
qed

lemma send_data_kept:
  assumes "send_data high v r data c = Some c'" "kept c"
  shows "kept c'"
proof (cases "status c = kConnected \<and> v")
  case True
  note c = keptD [OF assms(2) conjunct1 [OF True]]
  define c0 where "c0 = c\<lparr>taken := taken c @ data\<rparr>"
  let ?c1 = "\<lambda>n. noting (After_write n) (c0\<lparr>kernel := kernel c0 @ take n data\<rparr>)"
  have q: "kept (queue_rest high data c0)"
    using c True by (intro queue_rest_kept) (simp_all add: c0_def)
  have w: "kept (queue_rest high (drop n data) (if length data = n then noting Write_complete (?c1 n) else ?c1 n))"
    if "out_buf c = []" for n
    using c True that by (intro queue_rest_kept) (auto simp: c0_def)
  have e: "handleError c0 = Some c' \<Longrightarrow> kept c'"
    using c(1,4) by (auto intro: handleError_kept simp: c0_def)
  have "handleError c0 = Some c' \<or> c' = queue_rest high data c0 \<or>
      (out_buf c = [] \<and> (\<exists>n. c' = queue_rest high (drop n data) (if length data = n then noting Write_complete (?c1 n) else ?c1 n)))"
    using assms(1) True unfolding send_data_def sendInLoop_def Let_def c0_def [symmetric]
    by (auto simp: ensure_def split: if_split_asm) (simp_all add: c0_def)
  with q w e show ?thesis by blast
qed (use assms in \<open>auto simp: send_data_def sendInLoop_def split: if_split_asm\<close>)

lemma handleRead_kept:
  assumes "handleRead v d unused c = Some c'" "kept c" "status c = kConnected"
  shows "kept c'"
proof -
  note c = keptD [OF assms(2,3)]
  have "handleError c = Some c' \<Longrightarrow> kept c'" using c(1,4) by (auto intro: handleError_kept)
  with assms(1,2) c assms(3) show ?thesis
    by (auto simp: handleRead_def Let_def intro!: keptI split: if_split_asm read_result.split_asm)
qed

lemma sendOutputBuffer_kept:
  assumes "sendOutputBuffer v w r c = Some c'" "kept c"
  shows "kept c'"
proof (cases "out_buf c \<noteq> [] \<and> status c = kConnected")
  case True
  with assms(1) obtain c1 where c1: "handleWrite v r c = Some c1"
    "c' = (if out_buf c1 \<noteq> [] \<and> status c1 = kConnected \<and> w then c1\<lparr>writes := True\<rparr> else c1)"
    by (auto simp: sendOutputBuffer_def split: Option.bind_split_asm)
  have k: "kept c1" using handleWrite_kept [OF c1(1) assms(2)] True by simp
  then show ?thesis using keptD [OF k] unfolding c1(2) by (auto intro: keptI)
qed (use assms in \<open>auto simp: sendOutputBuffer_def\<close>)

lemma kept_events: "kept c \<Longrightarrow> writes c \<or> reads c \<Longrightarrow> status c = kConnected"
  by (auto simp: kept_def split: if_split_asm)

lemma conn_step_kept: "conn_step high c c' \<Longrightarrow> kept c \<Longrightarrow> kept c'"
proof (induction rule: conn_step.induct)
  case (step_attach c)
  then show ?case by (auto simp: attachedToLoop_def kept_def life_def)
next
  case (step_send v r data c c')
  then show ?case by (rule send_data_kept)
next
  case (step_flush v w r c c')
  then show ?case by (rule sendOutputBuffer_kept)
next
  case (step_write c v r c')
  then have "status c = kConnected" "out_buf c \<noteq> []" using kept_events keptD(3) by auto
  with step_write show ?case by (blast intro: handleWrite_kept)
next
  case (step_read c v d unused c')
  then show ?case using kept_events by (blast intro: handleRead_kept)
next
  case (step_close c c')
  show ?case
  proof (cases "status c = kConnected")
    case True
    with step_close have "handleError c = Some c'" by (simp add: close_conn_def handleError_def)
    then show ?thesis using keptD [OF step_close(2) True] by (auto intro: handleError_kept)
  next
    case False
    with step_close show ?thesis by (auto simp: close_conn_def kept_def split: if_split_asm)
  qed
qed

lemma conn_reachable_kept: "conn_reachable high c \<Longrightarrow> kept c"
proof (induction rule: conn_reachable.induct)
  case reach_new
  show ?case by (simp add: kept_def new_connection_def)
qed (rule conn_step_kept)

text \<open>C19: the bytes of a connection are kept in order. At every moment of its life what the kernel has
  taken is a beginning of what the callers gave it; while it is connected the rest is in the
  output buffer, byte for byte, reading is on and the write event is asked for exactly when
  there is something to write; once it is closed no event is asked for.\<close>

theorem bytes_in_order:
  assumes "conn_reachable high c"
  shows "(\<exists>rest. taken c = kernel c @ rest) \<and>
     (if status c = kConnected
      then taken c = kernel c @ out_buf c \<and> reads c \<and> (writes c \<longleftrightarrow> out_buf c \<noteq> [])
      else \<not> reads c \<and> \<not> writes c)"
  using conn_reachable_kept [OF assms] by (simp add: kept_def)

text \<open>A connection begins once and ends once. The connection callback is told once that it is up
  and at most once, right before the close callback, that it is down; what is sent afterwards
  reaches neither the kernel nor the buffer.\<close>

lemma ends_once:
  assumes "conn_reachable high c"
  shows "(case status c of
      kConnected \<Rightarrow> life c = [Connection_callback kConnected]
    | kDisconnected \<Rightarrow> event_log c = [] \<or> life c = [Connection_callback kConnected, Connection_callback kDisconnected, Close_callback]
    | _ \<Rightarrow> False) \<and>
    (status c = kConnected \<or> send_data high v r data c = Some c)"
  using conn_reachable_kept [OF assms] by (auto simp: kept_def send_data_def split: conn_status.split if_split_asm)

section \<open>The output drains\<close>

text \<open>Write events, as long as they are asked for.\<close>

fun write_events :: "write_result list \<Rightarrow> connection \<Rightarrow> connection option" where
  "write_events [] c = Some c"
| "write_events (r # rs) c =
     (if writes c then Option.bind (handleWrite True r c) (write_events rs) else write_events rs c)"

text \<open>A kernel that takes something of what it is offered.\<close>

definition accepts :: "write_result \<Rightarrow> nat \<Rightarrow> bool" where
  "accepts r n \<longleftrightarrow> 0 < nwritten r \<and> nwritten r \<le> int n"

fun accepts_all :: "write_result list \<Rightarrow> nat \<Rightarrow> bool" where
  "accepts_all [] n = True"
| "accepts_all (r # rs) n \<longleftrightarrow> n = 0 \<or> (accepts r n \<and> accepts_all rs (n - nat (nwritten r)))"

lemma write_events_off: "\<not> writes c \<Longrightarrow> write_events rs c = Some c"
  by (induction rs) simp_all

lemma write_events_drain:
  "writes c = (out_buf c \<noteq> []) \<Longrightarrow> accepts_all rs (length (out_buf c)) \<Longrightarrow> length (out_buf c) \<le> length rs \<Longrightarrow>
   \<exists>c'. write_events rs c = Some c' \<and> out_buf c' = [] \<and> kernel c' = kernel c @ out_buf c \<and> \<not> writes c' \<and> status c' = status c \<and>
     (out_buf c = [] \<or> last (event_log c') = Write_complete)"
proof (induction rs arbitrary: c)
  case (Cons r rs)
  show ?case
  proof (cases "out_buf c = []")
    case True
    with Cons.prems(1) show ?thesis by (simp add: write_events_off)
  next
    case False
    define n where "n = nat (nwritten r)"
    have n: "0 < n" "n \<le> length (out_buf c)" "nwritten r = int n" "accepts_all rs (length (out_buf c) - n)"
      using Cons.prems(2) False by (auto simp: accepts_def n_def)
    define c1 where "c1 = noting (After_write n) (c\<lparr>kernel := kernel c @ take n (out_buf c), out_buf := drop n (out_buf c)\<rparr>)"
    have w: "handleWrite True r c = Some (if out_buf c1 = [] then noting Write_complete (c1\<lparr>writes := False\<rparr>) else c1)"
      using n by (simp add: handleWrite_def Let_def ensure_def c1_def)
    show ?thesis
    proof (cases "out_buf c1 = []")
      case True
      then have "take n (out_buf c) = out_buf c" by (simp add: c1_def)
      with True w Cons.prems(1) False show ?thesis by (simp add: write_events_off c1_def)
    next
      case more: False
      have "\<exists>c'. write_events rs c1 = Some c' \<and> out_buf c' = [] \<and> kernel c' = kernel c1 @ out_buf c1 \<and> \<not> writes c' \<and>
          status c' = status c1 \<and> (out_buf c1 = [] \<or> last (event_log c') = Write_complete)"
        using n Cons.prems False more by (intro Cons.IH) (simp_all add: c1_def)
      with w more Cons.prems(1) False show ?thesis by (auto simp: c1_def)
    qed
  qed
qed simp

text \<open>C20: what is queued gets sent. If at every write event the kernel takes at least a byte, then after
  at most as many events as there are bytes in the output buffer all of them have been given to
  the kernel, in order, the write event is off and the owner has been told.\<close>

theorem output_drains:
  assumes "conn_reachable high c" "status c = kConnected" "accepts_all rs (length (out_buf c))" "length (out_buf c) \<le> length rs"
  shows "\<exists>c'. write_events rs c = Some c' \<and> kernel c' = taken c \<and> out_buf c' = [] \<and> \<not> writes c' \<and>
      (out_buf c = [] \<or> last (event_log c') = Write_complete)"
  using write_events_drain [OF _ assms(3,4)] keptD [OF conn_reachable_kept [OF assms(1)] assms(2)] by auto

definition queued_connection :: connection where
  "queued_connection = queue_rest 10 ''llo'' (noting (After_write 2)
     ((attachedToLoop new_connection)\<lparr>taken := ''hello'', kernel := ''he''\<rparr>))"

lemma queued_reachable: "conn_reachable 10 queued_connection"
proof -
  have "conn_reachable 10 (attachedToLoop new_connection)"
    by (rule reach_step [OF reach_new step_attach]) (simp_all add: new_connection_def)
  moreover have "send_data 10 True \<lparr>nwritten = 2, write_errno = Retriable\<rparr> ''hello'' (attachedToLoop new_connection) = Some queued_connection"
    by (simp add: send_data_def sendInLoop_def Let_def ensure_def queued_connection_def attachedToLoop_def new_connection_def
        noting_def queue_rest_def eval_nat_numeral)
  ultimately show ?thesis by (rule reach_step [OF _ step_send])
qed

theorem bytes_in_order_witness: "writes queued_connection \<and> kernel queued_connection @ out_buf queued_connection = ''hello''"
  using bytes_in_order [OF queued_reachable]
  by (simp add: queued_connection_def queue_rest_def attachedToLoop_def new_connection_def Let_def)

theorem output_drains_witness:
  "\<exists>c. write_events (replicate 3 \<lparr>nwritten = 1, write_errno = Other_errno\<rparr>) queued_connection = Some c \<and> kernel c = ''hello''"
  using output_drains [OF queued_reachable, of "replicate 3 \<lparr>nwritten = 1, write_errno = Other_errno\<rparr>"]
  by (simp add: queued_connection_def queue_rest_def attachedToLoop_def new_connection_def Let_def accepts_def eval_nat_numeral) blast

text \<open>A veto of the \<open>before_write_event_callback_\<close> loses what is sent: it is neither written nor queued.\<close>

lemma vetoed_send_is_lost: "send_data high False r data c = Some c"
  by (simp add: send_data_def sendInLoop_def)

end
