(* ===== verification/Containers.thy ===== *)
theory Containers
  imports Prelude "HOL-Library.AList" "HOL-Library.Signed_Division"
begin

text \<open>
  Small state of \<open>common/\<close>: the map with a bounded number of entries (\<open>LRUMap.hpp\<close>), the queue with a
  bound (\<open>BoundedQueue.hpp\<close>) and the rate limiter (\<open>TokenBucket.cpp\<close>).
\<close>

section \<open>LRUMap\<close>

text \<open>A hash map is an association list without duplicate keys. The list holds nodes; \<open>ki_map_\<close> points
  to them. A node is known by its number.\<close>

record ('k, 'v) lru_map =
  capacity :: nat
  kv_map :: "('k \<times> 'v) list"
  ki_map :: "('k \<times> nat) list"
  k_list :: "(nat \<times> 'k) list"
  next_node :: nat

definition lru_new :: "nat \<Rightarrow> ('k, 'v) lru_map" where
  "lru_new cap = \<lparr>capacity = cap, kv_map = [], ki_map = [], k_list = [], next_node = 0\<rparr>"

text \<open>\<open>splice\<close> of one node to the front; there is none for an iterator that does not point into the list.\<close>

definition splice_front :: "nat \<Rightarrow> (nat \<times> 'k) list \<Rightarrow> (nat \<times> 'k) list option" where
  "splice_front n xs = (case List.find (\<lambda>x. fst x = n) xs of
     None \<Rightarrow> None
   | Some x \<Rightarrow> Some (x # filter (\<lambda>y. fst y \<noteq> n) xs))"

definition lru_touch :: "'k \<Rightarrow> ('k, 'v) lru_map \<Rightarrow> ('k, 'v) lru_map option" where
  "lru_touch key m = do {
     n \<leftarrow> map_of (ki_map m) key;
     l \<leftarrow> splice_front n (k_list m);
     Some (m\<lparr>k_list := l\<rparr>) }"

text \<open>\<open>get\<close> gives an iterator, here the value it points to, or the end of the map.\<close>

definition lru_get :: "'k \<Rightarrow> ('k, 'v) lru_map \<Rightarrow> ('v option \<times> ('k, 'v) lru_map) option" where
  "lru_get key m = (case map_of (kv_map m) key of
     None \<Rightarrow> Some (None, m)
   | Some v \<Rightarrow> map_option (\<lambda>m'. (Some v, m')) (lru_touch key m))"

definition lru_put :: "'k \<Rightarrow> 'v \<Rightarrow> ('k, 'v) lru_map \<Rightarrow> ('k, 'v) lru_map option" where
  "lru_put key v m =
     (if map_of (kv_map m) key \<noteq> None
      then lru_touch key (m\<lparr>kv_map := AList.update key v (kv_map m)\<rparr>)
      else let m1 = m\<lparr>kv_map := AList.update key v (kv_map m), k_list := (next_node m, key) # k_list m,
                      ki_map := AList.update key (next_node m) (ki_map m), next_node := Suc (next_node m)\<rparr>
           in if length (kv_map m1) > capacity m1
              then let back = snd (last (k_list m1))
                   in Some (m1\<lparr>kv_map := AList.delete back (kv_map m1), ki_map := AList.delete back (ki_map m1),
                               k_list := butlast (k_list m1)\<rparr>)
              else Some m1)"

definition lru_clear :: "('k, 'v) lru_map \<Rightarrow> ('k, 'v) lru_map" where
  "lru_clear m = m\<lparr>kv_map := [], ki_map := [], k_list := []\<rparr>"

datatype ('k, 'v) lru_op = Lru_get 'k | Lru_put 'k 'v | Lru_clear

fun lru_step :: "('k, 'v) lru_op \<Rightarrow> ('k, 'v) lru_map \<Rightarrow> ('v option \<times> ('k, 'v) lru_map) option" where
  "lru_step (Lru_get key) m = lru_get key m"
| "lru_step (Lru_put key v) m = map_option (Pair None) (lru_put key v m)"
| "lru_step Lru_clear m = Some (None, lru_clear m)"

fun lru_run :: "('k, 'v) lru_op list \<Rightarrow> ('k, 'v) lru_map \<Rightarrow> ('v option list \<times> ('k, 'v) lru_map) option" where
  "lru_run [] m = Some ([], m)"
| "lru_run (op # ops) m = do {
     (v, m1) \<leftarrow> lru_step op m;
     (vs, m2) \<leftarrow> lru_run ops m1;
     Some (v # vs, m2) }"

text \<open>The specification: the entries, the most recently used first.\<close>

definition use_entry :: "'k \<Rightarrow> 'v \<Rightarrow> ('k \<times> 'v) list \<Rightarrow> ('k \<times> 'v) list" where
  "use_entry key v l = (key, v) # filter (\<lambda>e. fst e \<noteq> key) l"

fun spec_step :: "nat \<Rightarrow> ('k, 'v) lru_op \<Rightarrow> ('k \<times> 'v) list \<Rightarrow> 'v option \<times> ('k \<times> 'v) list" where
  "spec_step cap (Lru_get key) l = (case map_of l key of None \<Rightarrow> (None, l) | Some v \<Rightarrow> (Some v, use_entry key v l))"
| "spec_step cap (Lru_put key v) l = (None, take cap (use_entry key v l))"
| "spec_step cap Lru_clear l = (None, [])"

fun spec_run :: "nat \<Rightarrow> ('k, 'v) lru_op list \<Rightarrow> ('k \<times> 'v) list \<Rightarrow> 'v option list \<times> ('k \<times> 'v) list" where
  "spec_run cap [] l = ([], l)"
| "spec_run cap (op # ops) l = (let (v, l1) = spec_step cap op l; (vs, l2) = spec_run cap ops l1 in (v # vs, l2))"

definition entries :: "('k, 'v) lru_map \<Rightarrow> ('k \<times> 'v) list" where
  "entries m = map (\<lambda>(n, k). (k, the (map_of (kv_map m) k))) (k_list m)"

definition lru_ok :: "('k, 'v) lru_map \<Rightarrow> bool" where
  "lru_ok m \<longleftrightarrow> distinct (map snd (k_list m)) \<and> distinct (map fst (kv_map m)) \<and>
     fst ` set (kv_map m) = snd ` set (k_list m) \<and>
     (\<forall>n k. (n, k) \<in> set (k_list m) \<longleftrightarrow> map_of (ki_map m) k = Some n) \<and>
     (\<forall>x \<in> set (k_list m). fst x < next_node m) \<and> distinct (map fst (k_list m)) \<and>
     length (k_list m) \<le> capacity m"

lemma lru_ok_lengths: "lru_ok m \<Longrightarrow> length (kv_map m) = length (k_list m)"
  using distinct_card [of "map fst (kv_map m)"] distinct_card [of "map snd (k_list m)"]
  by (simp add: lru_ok_def)

lemma find_node: "distinct (map fst xs) \<Longrightarrow> (n, k) \<in> set xs \<Longrightarrow> List.find (\<lambda>x. fst x = n) xs = Some (n, k)"
  by (induction xs) force+

lemma node_unique:
  assumes "lru_ok m" "(n, k) \<in> set (k_list m)" "y \<in> set (k_list m)" "fst y = n \<or> snd y = k"
  shows "y = (n, k)"
proof -
  have "inj_on fst (set (k_list m))" "inj_on snd (set (k_list m))" using assms(1) by (simp_all add: lru_ok_def distinct_map)
  with assms(2-4) show ?thesis by (metis fst_conv inj_onD snd_conv)
qed

text \<open>The node of a key goes to the front.\<close>

lemma lru_touch_known:
  assumes "lru_ok m" "k \<in> snd ` set (k_list m)" "snd ` set (k_list m') = snd ` set (k_list m)"
  obtains n where "map_of (ki_map m) k = Some n" "(n, k) \<in> set (k_list m)"
    "lru_touch k m = Some (m\<lparr>k_list := (n, k) # filter (\<lambda>y. fst y \<noteq> n) (k_list m)\<rparr>)"
    "filter (\<lambda>y. fst y \<noteq> n) (k_list m) = filter (\<lambda>y. snd y \<noteq> k) (k_list m)"
proof -
  obtain n where n: "(n, k) \<in> set (k_list m)" using assms(2) by auto
  with assms(1) have ki: "map_of (ki_map m) k = Some n" by (auto simp: lru_ok_def)
  have "filter (\<lambda>y. fst y \<noteq> n) (k_list m) = filter (\<lambda>y. snd y \<noteq> k) (k_list m)"
  proof (rule filter_cong)
    fix y assume "y \<in> set (k_list m)"
    from node_unique [OF assms(1) n this] show "(fst y \<noteq> n) = (snd y \<noteq> k)" by (metis fst_conv snd_conv)
  qed simp
  moreover have "lru_touch k m = Some (m\<lparr>k_list := (n, k) # filter (\<lambda>y. fst y \<noteq> n) (k_list m)\<rparr>)"
    using ki n find_node [of "k_list m" n k] assms(1) by (simp add: lru_touch_def splice_front_def lru_ok_def)
  ultimately show thesis using that ki n by blast
qed

lemma lru_touch_ok:
  assumes "lru_ok m" "k \<in> snd ` set (k_list m)"
  obtains m' where "lru_touch k m = Some m'" "lru_ok m'" "kv_map m' = kv_map m" "capacity m' = capacity m"
    "entries m' = use_entry k (the (map_of (kv_map m) k)) (entries m)"
proof -
  obtain n where n: "map_of (ki_map m) k = Some n" "(n, k) \<in> set (k_list m)"
    "lru_touch k m = Some (m\<lparr>k_list := (n, k) # filter (\<lambda>y. fst y \<noteq> n) (k_list m)\<rparr>)"
    "filter (\<lambda>y. fst y \<noteq> n) (k_list m) = filter (\<lambda>y. snd y \<noteq> k) (k_list m)"
    using lru_touch_known [OF assms refl] .
  let ?l = "(n, k) # filter (\<lambda>y. snd y \<noteq> k) (k_list m)"
  have "y \<in> set ?l \<longleftrightarrow> y \<in> set (k_list m)" for y
    using n(2) node_unique [OF assms(1) n(2), of y] by (cases "snd y = k") auto
  then have set: "set ?l = set (k_list m)" by blast
  have "n \<notin> fst ` set (filter (\<lambda>y. snd y \<noteq> k) (k_list m))"
    using node_unique [OF assms(1) n(2)] by (auto simp: image_iff dest: sym)
  moreover have "k \<notin> snd ` set (filter (\<lambda>y. snd y \<noteq> k) (k_list m))" by auto
  ultimately have "distinct (map fst ?l)" "distinct (map snd ?l)"
    using assms(1) by (simp_all add: lru_ok_def distinct_map_filter)
  moreover from this(1) have "length ?l = length (k_list m)"
    using distinct_card [of ?l] distinct_card [of "k_list m"] set assms(1) by (simp add: lru_ok_def distinct_map del: set_simps)
  ultimately have "lru_ok (m\<lparr>k_list := ?l\<rparr>)" using assms(1) set by (simp add: lru_ok_def)
  moreover have "entries (m\<lparr>k_list := ?l\<rparr>) = use_entry k (the (map_of (kv_map m) k)) (entries m)"
    by (simp add: entries_def use_entry_def filter_map comp_def case_prod_unfold)
  ultimately show thesis using n(3,4) by (intro that) simp_all
qed

lemma map_of_entries: "lru_ok m \<Longrightarrow> map_of (entries m) k = map_of (kv_map m) k"
proof -
  assume m: "lru_ok m"
  have e: "entries m = map (\<lambda>k. (k, the (map_of (kv_map m) k))) (map snd (k_list m))"
    by (simp add: entries_def comp_def case_prod_unfold)
  show ?thesis
  proof (cases "k \<in> snd ` set (k_list m)")
    case True
    then have "map_of (entries m) k = Some (the (map_of (kv_map m) k))"
      unfolding e by (subst map_of_map_restrict) simp
    moreover have "map_of (kv_map m) k \<noteq> None" using True m by (simp add: lru_ok_def map_of_eq_None_iff)
    ultimately show ?thesis by simp
  next
    case False
    moreover from this m have "map_of (kv_map m) k = None" by (simp add: lru_ok_def map_of_eq_None_iff)
    ultimately show ?thesis unfolding e by (subst map_of_map_restrict) simp
  qed
qed

lemma lru_get_ok:
  assumes "lru_ok m"
  shows "\<exists>v m'. lru_get k m = Some (v, m') \<and> lru_ok m' \<and> capacity m' = capacity m \<and>
    (v, entries m') = spec_step cap (Lru_get k) (entries m)"
proof (cases "map_of (kv_map m) k")
  case None
  with assms show ?thesis by (simp add: lru_get_def map_of_entries)
next
  case (Some v)
  then have "k \<in> snd ` set (k_list m)" using assms by (metis lru_ok_def map_of_eq_None_iff option.distinct(1))
  from lru_touch_ok [OF assms this] Some assms show ?thesis by (auto simp: lru_get_def map_of_entries)
qed

lemma map_of_upd_same [simp]: "map_of (AList.update k v al) = (map_of al)(k \<mapsto> v)" "map_of (AList.delete k al) = (map_of al)(k := None)"
  by (simp_all add: AList.update_conv' AList.delete_conv')

lemma not_in_snd: "k \<notin> snd ` set l \<Longrightarrow> (a, k) \<notin> set l"
  by (metis image_eqI snd_conv)

text \<open>A put of a key that is there.\<close>

lemma lru_put_old:
  assumes "lru_ok m" "map_of (kv_map m) k \<noteq> None"
  shows "\<exists>m'. lru_put k v m = Some m' \<and> lru_ok m' \<and> capacity m' = capacity m \<and> entries m' = take (capacity m) (use_entry k v (entries m))"
proof -
  have k: "k \<in> snd ` set (k_list m)" using assms by (metis lru_ok_def map_of_eq_None_iff)
  define m1 where "m1 = m\<lparr>kv_map := AList.update k v (kv_map m)\<rparr>"
  have "fst ` set (AList.update k v (kv_map m)) = insert k (fst ` set (kv_map m))"
    by (simp flip: dom_map_of_conv_image_fst)
  then have ok: "lru_ok m1" using assms(1) k by (auto simp: lru_ok_def m1_def AList.distinct_update)
  obtain m' where m': "lru_touch k m1 = Some m'" "lru_ok m'" "kv_map m' = kv_map m1" "capacity m' = capacity m1"
    "entries m' = use_entry k (the (map_of (kv_map m1) k)) (entries m1)"
    using lru_touch_ok [OF ok, of k] k unfolding m1_def by auto
  have "use_entry k v (entries m1) = use_entry k v (entries m)"
    by (auto simp: use_entry_def entries_def m1_def filter_map comp_def case_prod_unfold)
  moreover have len: "length (entries m') = length (k_list m')" by (simp add: entries_def)
  moreover have "length (use_entry k v (entries m)) \<le> capacity m"
    using m' calculation assms(2) len by (simp add: lru_ok_def m1_def)
  ultimately show ?thesis using m' assms(2) by (auto simp: lru_put_def m1_def)
qed

text \<open>A put of a new key, before and after the entry at the back is given up.\<close>

definition lru_add :: "'k \<Rightarrow> 'v \<Rightarrow> ('k, 'v) lru_map \<Rightarrow> ('k, 'v) lru_map" where
  "lru_add k v m = m\<lparr>kv_map := AList.update k v (kv_map m), k_list := (next_node m, k) # k_list m,
     ki_map := AList.update k (next_node m) (ki_map m), next_node := Suc (next_node m)\<rparr>"

lemma lru_add_ok:
  assumes "lru_ok m" "map_of (kv_map m) k = None"
  shows "lru_ok ((lru_add k v m)\<lparr>capacity := Suc (capacity m)\<rparr>)" "entries (lru_add k v m) = use_entry k v (entries m)"
proof -
  have k: "k \<notin> snd ` set (k_list m)" using assms by (metis lru_ok_def map_of_eq_None_iff)
  have f: "fst ` set (AList.update k v (kv_map m)) = insert k (snd ` set (k_list m))"
    using assms(1) by (simp add: AList.dom_update lru_ok_def)
  have "next_node m \<notin> fst ` set (k_list m)" using assms(1) by (fastforce simp: lru_ok_def)
  moreover have "map_of (ki_map m) k \<noteq> Some n" for n
    using k assms(1) by (metis image_eqI lru_ok_def snd_conv)
  ultimately show "lru_ok ((lru_add k v m)\<lparr>capacity := Suc (capacity m)\<rparr>)"
    using assms(1) k f by (auto simp: lru_ok_def lru_add_def AList.distinct_update image_iff less_Suc_eq)
  have "map (\<lambda>(n, ka). (ka, the (if ka = k then Some v else map_of (kv_map m) ka))) (k_list m) = entries m"
    using not_in_snd [OF k] by (auto simp: entries_def intro!: map_cong)
  moreover have "filter (\<lambda>e. fst e \<noteq> k) (entries m) = entries m"
    using not_in_snd [OF k] by (auto simp: entries_def filter_id_conv)
  ultimately show "entries (lru_add k v m) = use_entry k v (entries m)"
    by (simp add: use_entry_def lru_add_def entries_def)
qed

lemma lru_drop_back:
  assumes "lru_ok m" "k_list m = l @ [(n, old)]" "length l \<le> c"
  shows "lru_ok (m\<lparr>kv_map := AList.delete old (kv_map m), ki_map := AList.delete old (ki_map m), k_list := l, capacity := c\<rparr>)"
    "entries (m\<lparr>kv_map := AList.delete old (kv_map m), ki_map := AList.delete old (ki_map m), k_list := l, capacity := c\<rparr>) = butlast (entries m)"
proof -
  have old: "old \<notin> snd ` set l" "n \<notin> fst ` set l" using assms(1,2) by (simp_all add: lru_ok_def)
  have "set (map fst (AList.delete old (kv_map m))) = fst ` set (kv_map m) - {old}"
    unfolding AList.delete_keys by simp
  also have "\<dots> = snd ` set l" using assms(1,2) old by (auto simp: lru_ok_def)
  finally have f: "fst ` set (AList.delete old (kv_map m)) = snd ` set l" by simp
  moreover have "(a, b) \<in> set l \<longleftrightarrow> b \<noteq> old \<and> map_of (ki_map m) b = Some a" for a b
    using assms(1,2) old unfolding lru_ok_def by (metis Un_iff empty_iff image_eqI insert_iff list.set(1,2) old.prod.inject set_append snd_conv)
  ultimately show "lru_ok (m\<lparr>kv_map := AList.delete old (kv_map m), ki_map := AList.delete old (ki_map m), k_list := l, capacity := c\<rparr>)"
    using assms by (simp add: lru_ok_def AList.distinct_delete)
  show "entries (m\<lparr>kv_map := AList.delete old (kv_map m), ki_map := AList.delete old (ki_map m), k_list := l, capacity := c\<rparr>) = butlast (entries m)"
    using assms(2) not_in_snd [OF old(1)] by (auto simp: entries_def intro!: map_cong)
qed

lemma lru_put_new:
  assumes "lru_ok m" "map_of (kv_map m) k = None"
  shows "\<exists>m'. lru_put k v m = Some m' \<and> lru_ok m' \<and> capacity m' = capacity m \<and> entries m' = take (capacity m) (use_entry k v (entries m))"
proof -
  define m1 where "m1 = lru_add k v m"
  have m1: "lru_ok (m1\<lparr>capacity := Suc (capacity m)\<rparr>)" "entries m1 = use_entry k v (entries m)" "capacity m1 = capacity m"
    using lru_add_ok [OF assms, of v] by (simp_all add: m1_def lru_add_def)
  have len: "length (kv_map m1) = length (k_list m1)" "length (entries m1) = length (k_list m1)"
    "length (k_list m1) \<le> Suc (capacity m)" "k_list m1 \<noteq> []"
    using lru_ok_lengths [OF m1(1)] m1(1) by (simp_all add: entries_def lru_ok_def) (simp add: m1_def lru_add_def)
  have put: "lru_put k v m = (if length (kv_map m1) > capacity m
      then Some (m1\<lparr>kv_map := AList.delete (snd (last (k_list m1))) (kv_map m1), ki_map := AList.delete (snd (last (k_list m1))) (ki_map m1),
                    k_list := butlast (k_list m1)\<rparr>) else Some m1)"
    using assms(2) by (simp add: lru_put_def Let_def m1_def lru_add_def)
  show ?thesis
  proof (cases "length (kv_map m1) > capacity m")
    case False
    then have "lru_ok m1" using m1(1) len(1) by (simp add: lru_ok_def m1_def lru_add_def)
    with False put m1(2,3) len show ?thesis by (simp flip: m1(2))
  next
    case True
    then have c: "length (k_list m1) = Suc (capacity m)" using len by simp
    obtain l n old where l: "k_list m1 = l @ [(n, old)]"
      using len(4) by (metis append_butlast_last_id prod.exhaust)
    from lru_drop_back [OF m1(1), of l n old "capacity m"] l c
    have "lru_ok (m1\<lparr>kv_map := AList.delete old (kv_map m1), ki_map := AList.delete old (ki_map m1), k_list := l\<rparr>)"
      "entries (m1\<lparr>kv_map := AList.delete old (kv_map m1), ki_map := AList.delete old (ki_map m1), k_list := l\<rparr>) = butlast (entries m1)"
      using m1(3) by (simp_all add: lru_ok_def entries_def)
    moreover have "butlast (entries m1) = take (capacity m) (entries m1)" using c len(2) by (simp add: butlast_conv_take)
    ultimately show ?thesis using True put l m1(2,3) by simp
  qed
qed

lemma lru_step_refines:
  assumes "lru_ok m"
  shows "\<exists>v m'. lru_step op m = Some (v, m') \<and> lru_ok m' \<and> capacity m' = capacity m \<and>
    (v, entries m') = spec_step (capacity m) op (entries m)"
proof (cases op)
  case (Lru_get k)
  with lru_get_ok [OF assms, of k "capacity m"] show ?thesis by simp
next
  case (Lru_put k v)
  with lru_put_old [OF assms] lru_put_new [OF assms] show ?thesis
    by (cases "map_of (kv_map m) k = None") fastforce+
next
  case Lru_clear
  with assms show ?thesis by (simp add: lru_clear_def lru_ok_def entries_def)
qed

lemma lru_run_refines:
  "lru_ok m \<Longrightarrow> \<exists>vs m'. lru_run ops m = Some (vs, m') \<and> lru_ok m' \<and> capacity m' = capacity m \<and>
    (vs, entries m') = spec_run (capacity m) ops (entries m)"
proof (induction ops arbitrary: m)
  case (Cons op ops)
  obtain v m1 where m1: "lru_step op m = Some (v, m1)" "lru_ok m1" "capacity m1 = capacity m"
    "spec_step (capacity m) op (entries m) = (v, entries m1)"
    using lru_step_refines [OF Cons.prems, of op] by metis
  from Cons.IH [OF m1(2)] m1 show ?case by (auto simp: Let_def split: prod.split)
qed simp

text \<open>C21: the map is a cache. Any run of operations on a new map of a capacity follows no iterator that
  is not in the list, answers every \<open>get\<close> as a list of entries would that puts what is used in
  front and keeps the first \<open>capacity\<close> of them, and holds those entries, at most as many as its
  capacity, at the end.\<close>

theorem lru_refines_cache:
  "\<exists>vs m'. lru_run ops (lru_new cap) = Some (vs, m') \<and> spec_run cap ops [] = (vs, entries m') \<and>
     length (kv_map m') \<le> cap \<and> map_of (kv_map m') = map_of (entries m')"
proof -
  have "lru_ok (lru_new cap)" by (simp add: lru_ok_def lru_new_def)
  from lru_run_refines [OF this, of ops] obtain vs m' where m': "lru_run ops (lru_new cap) = Some (vs, m')" "lru_ok m'"
    "capacity m' = cap" "spec_run cap ops [] = (vs, entries m')"
    by (auto simp: lru_new_def entries_def)
  moreover have "length (kv_map m') \<le> cap" using lru_ok_lengths [OF m'(2)] m'(2,3) by (simp add: lru_ok_def)
  ultimately show ?thesis using map_of_entries [OF m'(2)] by (auto simp: fun_eq_iff)
qed

section \<open>BoundedQueue\<close>

record 'a bounded_queue =
  max_size :: nat
  queue :: "'a list"

definition queue_put :: "'a \<Rightarrow> bool \<Rightarrow> 'a bounded_queue \<Rightarrow> bool \<times> 'a bounded_queue" where
  "queue_put t force q = (if length (queue q) > max_size q \<and> \<not> force then (False, q) else (True, q\<lparr>queue := queue q @ [t]\<rparr>))"

definition queue_take :: "'a bounded_queue \<Rightarrow> 'a option \<times> 'a bounded_queue" where
  "queue_take q = (case queue q of [] \<Rightarrow> (None, q) | t # ts \<Rightarrow> (Some t, q\<lparr>queue := ts\<rparr>))"

definition queue_clear :: "'a bounded_queue \<Rightarrow> 'a bounded_queue" where
  "queue_clear q = q\<lparr>queue := []\<rparr>"

text \<open>A put that is not forced is refused only beyond the bound, so the queue holds one element more
  than the bound says.\<close>

lemma queue_put_bound: "length (queue q) \<le> Suc (max_size q) \<Longrightarrow> length (queue (snd (queue_put t False q))) \<le> Suc (max_size q)"
  by (simp add: queue_put_def)

lemma queue_exceeds_bound:
  "queue_put t False \<lparr>max_size = 1, queue = [t]\<rparr> = (True, \<lparr>max_size = 1, queue = [t, t]\<rparr>)"
  by (simp add: queue_put_def)

section \<open>TokenBucket\<close>

text \<open>All numbers are \<open>int64_t\<close>; an overflow is undefined behaviour and a fault here. The strict limit
  goes through \<open>double\<close>: \<open>strict_add\<close> is the statement that adds new tokens times the factor of a
  percentage, \<open>strict_init\<close> the one that scales the capacity.\<close>

record doubles =
  strict_init :: "nat \<Rightarrow> int \<Rightarrow> int"
  strict_add :: "nat \<Rightarrow> int \<Rightarrow> int \<Rightarrow> int"

record token_bucket =
  tokens :: int
  max_tokens :: int
  tokens_per_sec :: int
  last_fill_time_ms :: int
  strict_limit_tokens :: int
  strict_limit_max_tokens :: int
  strict_percent :: nat

definition checked :: "int \<Rightarrow> int option" where
  "checked i = (if int64_range i then Some i else None)"

definition new_bucket :: "doubles \<Rightarrow> int \<Rightarrow> int \<Rightarrow> nat \<Rightarrow> int \<Rightarrow> token_bucket option" where
  "new_bucket D init_tokens tokens_per_second percent now = do {
     ensure (tokens_per_second > 0);
     let limit = strict_init D percent init_tokens;
     Some \<lparr>tokens = init_tokens, max_tokens = init_tokens, tokens_per_sec = tokens_per_second, last_fill_time_ms = now,
           strict_limit_tokens = limit, strict_limit_max_tokens = limit, strict_percent = percent\<rparr> }"

definition refillTokens :: "doubles \<Rightarrow> int \<Rightarrow> token_bucket \<Rightarrow> token_bucket option" where
  "refillTokens D now b =
     (if now > last_fill_time_ms b then do {
        d \<leftarrow> checked (now - last_fill_time_ms b);
        p \<leftarrow> checked (d * tokens_per_sec b);
        let new_tokens = p sdiv 1000;
        t \<leftarrow> checked (tokens b + new_tokens);
        let strict = strict_add D (strict_percent b) (strict_limit_tokens b) new_tokens;
        Some (b\<lparr>tokens := (if t > max_tokens b then max_tokens b else t),
                strict_limit_tokens := (if strict > strict_limit_max_tokens b then strict_limit_max_tokens b else strict),
                last_fill_time_ms := now\<rparr>) }
      else Some b)"

text \<open>\<open>consume\<close>: whether it succeeds, the estimate it sets when it does not, the bucket.\<close>

definition consume :: "doubles \<Rightarrow> int \<Rightarrow> int \<Rightarrow> token_bucket \<Rightarrow> ((bool \<times> int option) \<times> token_bucket) option" where
  "consume D now n b0 = do {
     b1 \<leftarrow> refillTokens D now b0;
     s \<leftarrow> checked (strict_limit_tokens b1 - n);
     let b = b1\<lparr>strict_limit_tokens := s\<rparr>;
     if tokens b \<ge> n
     then do { t \<leftarrow> checked (tokens b - n); Some ((True, None), b\<lparr>tokens := t\<rparr>) }
     else do {
       needed \<leftarrow> checked (n - tokens b);
       p \<leftarrow> checked (needed * 1000);
       Some ((False, Some (p sdiv tokens_per_sec b)), b\<lparr>tokens := 0\<rparr>) } }"

definition isStrictLimit :: "doubles \<Rightarrow> int \<Rightarrow> token_bucket \<Rightarrow> (bool \<times> token_bucket) option" where
  "isStrictLimit D now b = map_option (\<lambda>b1. (strict_limit_tokens b1 \<le> 0, b1)) (refillTokens D now b)"

text \<open>A run of requests \<open>(time, tokens)\<close>: how many tokens are granted.\<close>

fun consume_all :: "doubles \<Rightarrow> (int \<times> int) list \<Rightarrow> token_bucket \<Rightarrow> (int \<times> token_bucket) option" where
  "consume_all D [] b = Some (0, b)"
| "consume_all D ((now, n) # calls) b = do {
     (r, b1) \<leftarrow> consume D now n b;
     (granted, b2) \<leftarrow> consume_all D calls b1;
     Some ((if fst r then n else 0) + granted, b2) }"

lemma sdiv_nonneg: "0 \<le> p \<Longrightarrow> 0 < k \<Longrightarrow> p sdiv k = p div (k :: int)"
  by (simp add: signed_divide_int_def sgn_if)

definition bucket_ok :: "token_bucket \<Rightarrow> bool" where
  "bucket_ok b \<longleftrightarrow> 0 < tokens_per_sec b \<and> 0 \<le> tokens b \<and> tokens b \<le> max_tokens b"

lemma refill_ok:
  assumes "refillTokens D now b = Some b'" "bucket_ok b"
  shows "bucket_ok b'" "tokens_per_sec b' = tokens_per_sec b" "max_tokens b' = max_tokens b"
    "1000 * tokens b' \<le> 1000 * tokens b + tokens_per_sec b * (last_fill_time_ms b' - last_fill_time_ms b)"
    "last_fill_time_ms b \<le> last_fill_time_ms b'"
proof -
  let ?d = "now - last_fill_time_ms b"
  have "0 \<le> ?d * tokens_per_sec b" if "now > last_fill_time_ms b"
    using that assms(2) by (simp add: bucket_ok_def)
  then have p: "(?d * tokens_per_sec b) sdiv 1000 = ?d * tokens_per_sec b div 1000" "0 \<le> ?d * tokens_per_sec b div 1000"
    if "now > last_fill_time_ms b"
    using that by (simp_all add: sdiv_nonneg)
  have m: "1000 * (x div 1000) \<le> x" for x :: int by simp
  show "bucket_ok b'" "tokens_per_sec b' = tokens_per_sec b" "max_tokens b' = max_tokens b"
    "last_fill_time_ms b \<le> last_fill_time_ms b'"
    using assms p by (auto simp: refillTokens_def checked_def bucket_ok_def Let_def split: if_split_asm)
  show "1000 * tokens b' \<le> 1000 * tokens b + tokens_per_sec b * (last_fill_time_ms b' - last_fill_time_ms b)"
    using assms(1) p m [of "?d * tokens_per_sec b"]
    by (auto simp: refillTokens_def checked_def Let_def mult.commute split: if_split_asm)
qed

lemma consume_ok:
  assumes "consume D now n b = Some (r, b')" "bucket_ok b" "0 \<le> n"
  shows "bucket_ok b'" "tokens_per_sec b' = tokens_per_sec b" "max_tokens b' = max_tokens b"
    "1000 * ((if fst r then n else 0) + tokens b') \<le> 1000 * tokens b + tokens_per_sec b * (last_fill_time_ms b' - last_fill_time_ms b)"
    "last_fill_time_ms b \<le> last_fill_time_ms b'"
proof -
  obtain b1 where b1: "refillTokens D now b = Some b1" using assms(1) by (auto simp: consume_def split: Option.bind_split_asm)
  note ok = refill_ok [OF b1 assms(2)]
  show "bucket_ok b'" "tokens_per_sec b' = tokens_per_sec b" "max_tokens b' = max_tokens b" "last_fill_time_ms b \<le> last_fill_time_ms b'"
    "1000 * ((if fst r then n else 0) + tokens b') \<le> 1000 * tokens b + tokens_per_sec b * (last_fill_time_ms b' - last_fill_time_ms b)"
    using assms(1,3) b1 ok
    by (auto simp: consume_def Let_def checked_def bucket_ok_def split: if_split_asm)
qed

text \<open>C22: the bucket limits the rate. Whatever is asked of a bucket and whenever, the tokens granted are
  never more than its capacity plus the tokens that accrue between the first and the last
  refill; this holds from any state of the bucket, so for every window of time.\<close>

theorem rate_is_limited:
  assumes "consume_all D calls b = Some (granted, b')" "bucket_ok b" "list_all (\<lambda>(now, n). 0 \<le> n) calls"
  shows "1000 * granted \<le> 1000 * max_tokens b + tokens_per_sec b * (last_fill_time_ms b' - last_fill_time_ms b) \<and>
     0 \<le> tokens b' \<and> tokens b' \<le> max_tokens b"
proof -
  have "consume_all D calls b = Some (granted, b') \<Longrightarrow> bucket_ok b \<Longrightarrow> list_all (\<lambda>(now, n). 0 \<le> n) calls \<Longrightarrow>
      bucket_ok b' \<and> max_tokens b' = max_tokens b \<and>
      1000 * (granted + tokens b') \<le> 1000 * tokens b + tokens_per_sec b * (last_fill_time_ms b' - last_fill_time_ms b)"
  proof (induction calls arbitrary: b granted)
    case (Cons c calls)
    obtain now n where c: "c = (now, n)" by force
    obtain r b1 g where b1: "consume D now n b = Some (r, b1)" "consume_all D calls b1 = Some (g, b')"
      "granted = (if fst r then n else 0) + g"
      using Cons.prems(1) c by (auto split: Option.bind_split_asm prod.split_asm)
    have n: "0 \<le> n" using Cons.prems(3) c by simp
    note ok = consume_ok [OF b1(1) Cons.prems(2) n]
    from Cons.IH [OF b1(2) ok(1)] Cons.prems(3) c ok b1(3) show ?case by (simp add: algebra_simps)
  qed simp
  from this [OF assms] assms(2) show ?thesis by (simp add: bucket_ok_def)
qed

definition exact_doubles :: doubles where
  "exact_doubles = \<lparr>strict_init = (\<lambda>p t. max 100 (int p) * t div 100), strict_add = (\<lambda>p s n. s + max 100 (int p) * n div 100)\<rparr>"

definition sample_bucket :: token_bucket where
  "sample_bucket = \<lparr>tokens = 3, max_tokens = 3, tokens_per_sec = 2, last_fill_time_ms = 0, strict_limit_tokens = 3,
     strict_limit_max_tokens = 3, strict_percent = 100\<rparr>"

theorem rate_is_limited_witness:
  "\<exists>b. consume_all exact_doubles [(0, 2), (10, 2), (1010, 2), (1020, 1)] sample_bucket = Some (4, b) \<and>
     1000 * 4 \<le> 1000 * max_tokens sample_bucket + tokens_per_sec sample_bucket * (last_fill_time_ms b - 0)"
proof -
  obtain b where b: "consume_all exact_doubles [(0, 2), (10, 2), (1010, 2), (1020, 1)] sample_bucket = Some (4, b)"
    by (simp add: sample_bucket_def consume_def refillTokens_def checked_def int64_range_def Let_def exact_doubles_def
        signed_divide_int_def)
  have "bucket_ok sample_bucket" by (simp add: bucket_ok_def sample_bucket_def)
  from rate_is_limited [OF b this] have "1000 * 4 \<le> 1000 * max_tokens sample_bucket + tokens_per_sec sample_bucket * (last_fill_time_ms b - 0)"
    by (simp add: sample_bucket_def)
  with b show ?thesis by blast
qed

text \<open>A refill forgets the fraction of a token that has accrued: an empty bucket that is polled more often
  than a token accrues stays empty for ever.\<close>

lemma polled_bucket_starves:
  assumes "tokens b = 0" "0 < tokens_per_sec b" "list_all (\<lambda>(now, n). 0 < n) calls"
    "sorted_wrt (\<le>) (last_fill_time_ms b # map fst calls)"
    "list_all (\<lambda>(s, t). (t - s) * tokens_per_sec b < 1000) (zip (last_fill_time_ms b # map fst calls) (map fst calls))"
    "consume_all D calls b = Some (granted, b')"
  shows "granted = 0"
  using assms
proof (induction calls arbitrary: b granted)
  case (Cons c calls)
  obtain now n where c: "c = (now, n)" by force
  obtain r b1 g where b1: "consume D now n b = Some (r, b1)" "consume_all D calls b1 = Some (g, b')"
    "granted = (if fst r then n else 0) + g"
    using Cons.prems(6) c by (auto split: Option.bind_split_asm prod.split_asm)
  have t: "last_fill_time_ms b \<le> now" "(now - last_fill_time_ms b) * tokens_per_sec b < 1000" "0 < n"
    using Cons.prems(3,4,5) c by auto
  then have "(now - last_fill_time_ms b) * tokens_per_sec b sdiv 1000 = 0"
    using Cons.prems(2) by (simp add: sdiv_nonneg)
  then obtain b2 where b2: "refillTokens D now b = Some b2" "tokens b2 = 0 \<or> tokens b2 = max_tokens b \<and> max_tokens b < 0" "last_fill_time_ms b2 = now" "tokens_per_sec b2 = tokens_per_sec b"
    using b1(1) t(1) Cons.prems(1) by (auto simp: consume_def refillTokens_def checked_def Let_def split: Option.bind_split_asm if_split_asm)
  have "\<not> fst r" "tokens b1 = 0" "last_fill_time_ms b1 = now" "tokens_per_sec b1 = tokens_per_sec b"
    using b1(1) b2 t(3) by (auto simp: consume_def Let_def split: Option.bind_split_asm if_split_asm)
  with Cons.IH [OF _ _ _ _ _ b1(2)] Cons.prems c b1(3) show ?case by simp
qed simp

end
