(* ===== verification/CidrTrie.thy ===== *)
theory CidrTrie
  imports Prelude
begin

text \<open>
  \<open>common/CidrTrieTree.cpp\<close>: networks by the bits of their prefix. The nodes live in cells of memory
  that are only freed together, so a node is a value here; the walk of \<open>trieNodePut\<close> down the
  pointers is a recursion that rebuilds the path. Reading an address out of its range is a fault.
\<close>

datatype trie = Null | Node (left: trie) (right: trie) (as_number: "64 word") (as_in: bool)

definition createNode :: trie where
  "createNode = Node Null Null 0 False"

text \<open>\<open>(ip[i / 8] >> (7 - i % 8)) & 1\<close>; the sign of the \<open>char\<close> does not reach the lowest bit.\<close>

definition ip_bit :: "bytes \<Rightarrow> nat \<Rightarrow> bool option" where
  "ip_bit ip i = (if i div 8 < length ip then Some (odd (code (ip ! (i div 8)) div 2 ^ (7 - i mod 8))) else None)"

text \<open>The last bit adds the value. A second value for the same network is only logged.\<close>

fun set_value :: "64 word \<Rightarrow> trie \<Rightarrow> trie" where
  "set_value as Null = Null"
| "set_value as (Node l r a b) = (if b then Node l r a b else Node l r as True)"

text \<open>The loop from bit \<open>i\<close>, with \<open>k\<close> bits to go. A missing child is created on the way.\<close>

fun put_loop :: "bytes \<Rightarrow> 64 word \<Rightarrow> nat \<Rightarrow> nat \<Rightarrow> trie \<Rightarrow> trie option" where
  "put_loop ip as i 0 t = Some t"
| "put_loop ip as i (Suc k) Null = None"
| "put_loop ip as i (Suc k) (Node l r a b) = do {
     set \<leftarrow> ip_bit ip i;
     let child = (if set then r else l);
     let next = (if child = Null then createNode else child);
     new \<leftarrow> put_loop ip as (Suc i) k (if k = 0 then set_value as next else next);
     Some (if set then Node l new a b else Node new r a b) }"

definition trieNodePut :: "bytes \<Rightarrow> int \<Rightarrow> 64 word \<Rightarrow> trie \<Rightarrow> trie option" where
  "trieNodePut ip cidr as root = put_loop ip as 0 (nat cidr) (if root = Null then createNode else root)"

text \<open>The two loops of \<open>trieNodeSearch\<close> are one over the bits of \<open>cidr\<close> bytes.\<close>

fun search_loop :: "bytes \<Rightarrow> nat \<Rightarrow> nat \<Rightarrow> trie \<Rightarrow> (bool \<times> 64 word option) option" where
  "search_loop ip i 0 t = Some (False, None)"
| "search_loop ip i (Suc k) Null = None"
| "search_loop ip i (Suc k) (Node l r a b) = do {
     set \<leftarrow> ip_bit ip i;
     let current = (if set then r else l);
     if current = Null then Some (False, None)
     else if as_in current then Some (True, Some (as_number current))
     else search_loop ip (Suc i) k current }"

definition trieNodeSearch :: "bytes \<Rightarrow> int \<Rightarrow> trie \<Rightarrow> (bool \<times> 64 word option) option" where
  "trieNodeSearch ip cidr root =
     (if root = Null then Some (False, None)
      else if left root = Null \<and> right root = Null then Some (True, None)
      else search_loop ip 0 (8 * nat cidr) root)"

definition trie_empty :: "trie \<Rightarrow> bool" where
  "trie_empty root = (root = Null)"

definition trie_clear :: "trie \<Rightarrow> trie" where
  "trie_clear root = Null"

section \<open>Networks are bit strings\<close>

definition ip_bits :: "bytes \<Rightarrow> nat \<Rightarrow> nat \<Rightarrow> bool list" where
  "ip_bits ip i k = map (\<lambda>j. the (ip_bit ip j)) [i..<i + k]"

lemma ip_bits_Suc [simp]: "ip_bits ip i (Suc k) = the (ip_bit ip i) # ip_bits ip (Suc i) k" "ip_bits ip i 0 = []"
  by (simp_all add: ip_bits_def upt_conv_Cons del: upt_Suc)

lemma ip_bit_inside: "i < 8 * length ip \<Longrightarrow> ip_bit ip i = Some (the (ip_bit ip i))"
  by (simp add: ip_bit_def)

text \<open>The value at the end of a path.\<close>

fun stored :: "trie \<Rightarrow> bool list \<Rightarrow> 64 word option" where
  "stored Null bs = None"
| "stored (Node l r a b) [] = (if b then Some a else None)"
| "stored (Node l r a b) (c # cs) = stored (if c then r else l) cs"

lemma stored_createNode [simp]: "stored createNode bs = None"
  by (cases bs) (simp_all add: createNode_def)

lemma stored_set_value: "t \<noteq> Null \<Longrightarrow> stored (set_value as t) bs = (if bs = [] \<and> stored t [] = None then Some as else stored t bs)"
  by (cases t; cases bs) auto

lemma set_value_Null [simp]: "set_value as t = Null \<longleftrightarrow> t = Null"
  by (cases t) auto

lemma createNode_not_Null [simp]: "createNode \<noteq> Null"
  by (simp add: createNode_def)

lemma put_loop_stored:
  "t \<noteq> Null \<Longrightarrow> i + k \<le> 8 * length ip \<Longrightarrow> 0 < k \<Longrightarrow>
   \<exists>t'. put_loop ip as i k t = Some t' \<and> t' \<noteq> Null \<and> (left t' \<noteq> Null \<or> right t' \<noteq> Null) \<and>
     (\<forall>bs. stored t' bs = (if bs = ip_bits ip i k \<and> stored t bs = None then Some as else stored t bs))"
proof (induction k arbitrary: i t)
  case (Suc k)
  obtain l r a b where t: "t = Node l r a b" using Suc.prems(1) by (cases t) auto
  define set where "set = the (ip_bit ip i)"
  have bit: "ip_bit ip i = Some set" using Suc.prems(2) ip_bit_inside [of i ip] by (simp add: set_def)
  define child where "child = (if set then r else l)"
  define base where "base = (if child = Null then createNode else child)"
  define start where "start = (if k = 0 then set_value as base else base)"
  have base: "base \<noteq> Null" "stored base bs = stored child bs" for bs
    by (simp_all add: base_def)
  obtain new where new: "put_loop ip as (Suc i) k start = Some new" "new \<noteq> Null"
    "\<And>bs. stored new bs = (if bs = ip_bits ip (Suc i) k \<and> stored child bs = None then Some as else stored child bs)"
  proof (cases "k = 0")
    case True
    with base show thesis by (intro that [of start]) (auto simp: start_def stored_set_value)
  next
    case False
    then have start: "start = base" by (simp add: start_def)
    have "Suc i + k \<le> 8 * length ip" "0 < k" using False Suc.prems(2) by simp_all
    from Suc.IH [OF base(1) this] show thesis using that unfolding start base(2) by blast
  qed
  have "put_loop ip as i (Suc k) t = Option.bind (put_loop ip as (Suc i) k start)
      (\<lambda>new. Some (if set then Node l new a b else Node new r a b))"
    unfolding t put_loop.simps bit start_def base_def child_def Option.bind.simps Let_def ..
  then have put: "put_loop ip as i (Suc k) t = Some (if set then Node l new a b else Node new r a b)"
    using new(1) by simp
  have "stored (if set then Node l new a b else Node new r a b) bs =
      (if bs = ip_bits ip i (Suc k) \<and> stored t bs = None then Some as else stored t bs)" for bs
    using new(3) by (cases bs) (auto simp: t child_def set_def)
  with put new(2) show ?case by (cases set) auto
qed simp

text \<open>The values on a path, the shortest prefix first.\<close>

lemma search_loop_stored:
  "t \<noteq> Null \<Longrightarrow> i + k \<le> 8 * length ip \<Longrightarrow> search_loop ip i k t =
     Some (case List.find (\<lambda>j. stored t (take j (ip_bits ip i k)) \<noteq> None) [1..<Suc k] of
        None \<Rightarrow> (False, None)
      | Some j \<Rightarrow> (True, stored t (take j (ip_bits ip i k))))"
proof (induction k arbitrary: i t)
  case (Suc k)
  obtain l r a b where t: "t = Node l r a b" using Suc.prems(1) by (cases t) auto
  define set where "set = the (ip_bit ip i)"
  have bit: "ip_bit ip i = Some set" using Suc.prems(2) ip_bit_inside [of i ip] by (simp add: set_def)
  define child where "child = (if set then r else l)"
  have find: "List.find P [1..<Suc (Suc k)] = (if P 1 then Some 1 else map_option Suc (List.find (\<lambda>j. P (Suc j)) [1..<Suc k]))" for P
  proof -
    have "[1..<Suc (Suc k)] = 1 # map Suc [1..<Suc k]" by (simp add: map_Suc_upt upt_conv_Cons del: upt_Suc)
    moreover have "List.find P (map Suc xs) = map_option Suc (List.find (\<lambda>j. P (Suc j)) xs)" for xs by (induction xs) auto
    ultimately show ?thesis by simp
  qed
  have st: "stored t (take (Suc j) (ip_bits ip i (Suc k))) = stored child (take j (ip_bits ip (Suc i) k))" for j
    by (simp add: t child_def set_def)
  have step: "search_loop ip i (Suc k) t = (if child = Null then Some (False, None)
      else if as_in child then Some (True, Some (as_number child)) else search_loop ip (Suc i) k child)"
    unfolding t search_loop.simps bit by (simp add: Let_def child_def)
  have st1: "stored t (take 1 (ip_bits ip i (Suc k))) = stored child []" using st [of 0] by simp
  have found: "List.find (\<lambda>j. stored t (take j (ip_bits ip i (Suc k))) \<noteq> None) [1..<Suc (Suc k)] =
      (if stored child [] \<noteq> None then Some 1
       else map_option Suc (List.find (\<lambda>j. stored child (take j (ip_bits ip (Suc i) k)) \<noteq> None) [1..<Suc k]))"
    unfolding find st st1 ..
  show ?case
  proof (cases child)
    case Null
    moreover have "List.find (\<lambda>j. False) xs = None" for xs :: "nat list" by (induction xs) simp_all
    ultimately show ?thesis unfolding step found by (simp del: upt_Suc)
  next
    case (Node l' r' a' b')
    show ?thesis
    proof (cases b')
      case True
      with Node st1 show ?thesis unfolding step found by (simp del: upt_Suc ip_bits_Suc)
    next
      case False
      have "search_loop ip (Suc i) k child = Some (case List.find (\<lambda>j. stored child (take j (ip_bits ip (Suc i) k)) \<noteq> None) [1..<Suc k] of
          None \<Rightarrow> (False, None) | Some j \<Rightarrow> (True, stored child (take j (ip_bits ip (Suc i) k))))"
        using Suc.prems(2) Node by (intro Suc.IH) simp_all
      then show ?thesis
        using False Node st unfolding step found by (simp add: option.case_eq_if option.map_sel del: upt_Suc ip_bits_Suc)
    qed
  qed
qed simp

section \<open>Lookup\<close>

definition put_all :: "(bytes \<times> int \<times> 64 word) list \<Rightarrow> trie option" where
  "put_all ps = fold (\<lambda>(ip, cidr, as) t. Option.bind t (trieNodePut ip cidr as)) ps (Some Null)"

text \<open>The networks put, as bit strings with their values.\<close>

definition networks :: "(bytes \<times> int \<times> 64 word) list \<Rightarrow> (bool list \<times> 64 word) list" where
  "networks ps = map (\<lambda>(ip, cidr, as). (ip_bits ip 0 (nat cidr), as)) ps"

definition network_ok :: "bytes \<times> int \<times> 64 word \<Rightarrow> bool" where
  "network_ok = (\<lambda>(ip, cidr, as). 0 \<le> cidr \<and> cidr \<le> 8 * int (length ip))"

text \<open>Those of at least one bit, which the tree keeps.\<close>

definition kept :: "(bytes \<times> int \<times> 64 word) list \<Rightarrow> (bytes \<times> int \<times> 64 word) list" where
  "kept ps = filter (\<lambda>(ip, cidr, as). 0 < cidr) ps"

lemma put_all_stored:
  assumes "list_all network_ok ps" "ps \<noteq> []"
  shows "\<exists>t. put_all ps = Some t \<and> (if kept ps = [] then t = createNode else t \<noteq> Null \<and> (left t \<noteq> Null \<or> right t \<noteq> Null)) \<and>
    stored t = map_of (networks (kept ps))"
  using assms
proof (induction ps rule: rev_induct)
  case (snoc p ps)
  obtain ip cidr as where p: "p = (ip, cidr, as)" by (cases p)
  obtain t0 where t0: "put_all ps = Some t0" "stored t0 = map_of (networks (kept ps))"
    "kept ps = [] \<longrightarrow> t0 = Null \<or> t0 = createNode" "kept ps \<noteq> [] \<longrightarrow> t0 \<noteq> Null \<and> (left t0 \<noteq> Null \<or> right t0 \<noteq> Null)"
  proof (cases "ps = []")
    case True
    moreover have "stored Null = map_of []" by (rule ext) simp
    ultimately show thesis by (intro that [of Null]) (simp_all add: put_all_def networks_def kept_def del: map_of.simps)
  next
    case False
    with snoc obtain t0 where "put_all ps = Some t0" "stored t0 = map_of (networks (kept ps))"
      "if kept ps = [] then t0 = createNode else t0 \<noteq> Null \<and> (left t0 \<noteq> Null \<or> right t0 \<noteq> Null)" by auto
    then show thesis by (intro that [of t0]) (auto split: if_split_asm)
  qed
  define t1 where "t1 = (if t0 = Null then createNode else t0)"
  have t1: "t1 \<noteq> Null" "stored t1 bs = stored t0 bs" for bs by (simp_all add: t1_def)
  show ?case
  proof (cases "cidr = 0")
    case True
    then have "put_all (ps @ [p]) = Some t1" "kept (ps @ [p]) = kept ps"
      using t0(1) by (simp_all add: put_all_def p trieNodePut_def t1_def kept_def)
    moreover have "stored t1 = stored t0" by (rule ext) (rule t1(2))
    moreover have "kept ps = [] \<longrightarrow> t1 = createNode" "kept ps \<noteq> [] \<longrightarrow> t1 = t0" using t0(3,4) by (auto simp: t1_def)
    ultimately show ?thesis using t0(2,4) by auto
  next
    case False
    then have ok: "0 < nat cidr" "0 + nat cidr \<le> 8 * length ip" using snoc.prems(1) by (auto simp: network_ok_def p)
    from put_loop_stored [OF t1(1) ok(2) ok(1), of as] obtain t where
      t: "put_loop ip as 0 (nat cidr) t1 = Some t" "t \<noteq> Null" "left t \<noteq> Null \<or> right t \<noteq> Null"
        "\<forall>bs. stored t bs = (if bs = ip_bits ip 0 (nat cidr) \<and> stored t1 bs = None then Some as else stored t1 bs)"
      by blast
    have "put_all (ps @ [p]) = Some t"
      using t0(1) t(1) by (simp add: put_all_def p trieNodePut_def t1_def)
    moreover have "kept (ps @ [p]) = kept ps @ [p]" using ok(1) by (simp add: kept_def p)
    moreover from this have "stored t = map_of (networks (kept (ps @ [p])))"
      using t(4) t0(2) t1(2) by (auto simp: networks_def p map_add_def fun_eq_iff split: option.split)
    ultimately show ?thesis using t(2,3) by auto
  qed
qed simp

text \<open>C23: an address is in the shortest network that has it. After any networks have been put, among
  them one of at least one bit, a search gives the value of the shortest of those that is a prefix
  of the address, the first value that was put for it, and fails when there is none. Networks of no
  bits do not count then: they are found, without a value, only while there are no others.\<close>

theorem cidr_search:
  assumes "list_all network_ok ps" "ps \<noteq> []" "put_all ps = Some t" "0 \<le> n" "n \<le> int (length ip)"
  shows "trieNodeSearch ip n t =
     Some (if kept ps = [] then (True, None)
       else case List.find (\<lambda>j. map_of (networks (kept ps)) (take j (ip_bits ip 0 (8 * nat n))) \<noteq> None) [1..<Suc (8 * nat n)] of
         None \<Rightarrow> (False, None)
       | Some j \<Rightarrow> (True, map_of (networks (kept ps)) (take j (ip_bits ip 0 (8 * nat n)))))"
proof (cases "kept ps = []")
  case True
  with put_all_stored [OF assms(1,2)] assms(3) have "t = createNode" by auto
  with True show ?thesis by (simp add: trieNodeSearch_def createNode_def)
next
  case False
  then have t: "t \<noteq> Null" "left t \<noteq> Null \<or> right t \<noteq> Null" "stored t = map_of (networks (kept ps))"
    using put_all_stored [OF assms(1,2)] assms(3) by auto
  have "0 + 8 * nat n \<le> 8 * length ip" using assms(5) by simp
  moreover have "trieNodeSearch ip n t = search_loop ip 0 (8 * nat n) t"
    using t(1,2) by (auto simp: trieNodeSearch_def)
  ultimately show ?thesis
    using search_loop_stored [OF t(1), of 0 "8 * nat n" ip, unfolded t(3)] False by (simp only: if_False)
qed

theorem cidr_search_witness:
  "\<exists>t. put_all [([CHR 0x0A, CHR 0x00], 8, 1), ([CHR 0x0A, CHR 0x01], 16, 2)] = Some t \<and>
     trieNodeSearch [CHR 0x0A, CHR 0x01] 2 t = Some (True, Some 1) \<and> trieNodeSearch [CHR 0x0B, CHR 0x01] 2 t = Some (False, None)"
proof -
  let ?ps = "[([CHR 0x0A, CHR 0x00], 8, 1), ([CHR 0x0A, CHR 0x01], 16, 2)] :: (bytes \<times> int \<times> 64 word) list"
  have ok: "list_all network_ok ?ps" "?ps \<noteq> []" by (simp_all add: network_ok_def)
  obtain t where t: "put_all ?ps = Some t" using put_all_stored [OF ok] by blast
  have "trieNodeSearch [CHR 0x0A, CHR 0x01] 2 t = Some (True, Some 1)" "trieNodeSearch [CHR 0x0B, CHR 0x01] 2 t = Some (False, None)"
    by (subst cidr_search [OF ok t], simp, simp, code_simp)+
  with t show ?thesis by blast
qed

text \<open>The network of no bits is known only while it is alone.\<close>

lemma search_loop_numeral:
  "search_loop ip i (numeral m) (Node l r a b) = do {
     set \<leftarrow> ip_bit ip i;
     let current = (if set then r else l);
     if current = Null then Some (False, None)
     else if as_in current then Some (True, Some (as_number current))
     else search_loop ip (Suc i) (pred_numeral m) current }"
  by (simp add: numeral_eq_Suc)

lemma default_network_forgotten:
  "Option.bind (trieNodePut [a] 0 v Null) (trieNodeSearch [CHR 0x0B] 1) = Some (True, None)"
  "Option.bind (Option.bind (trieNodePut [a] 0 v Null) (trieNodePut [CHR 0x80] 1 w)) (trieNodeSearch [CHR 0x0B] 1) = Some (False, None)"
  by (simp_all add: trieNodePut_def trieNodeSearch_def createNode_def ip_bit_def code_def search_loop_numeral)

end
