(* ===== verification/Subscribe.thy ===== *)
theory Subscribe
  imports BaseClient "HOL-Library.AList"
begin

text \<open>
  \<open>client/TairSubscribeClient.cpp\<close>: subscriptions on one connection. The client keeps a queue of the
  calls that wait for their reply and two maps from channels and patterns to callbacks; replies
  to calls and messages arrive on the same stream. The queue, its clearing and the four states of
  the connection (\<open>link\<close>) are those of the base client. User callbacks are entries of a log.
  \<open>None\<close> is a failed \<open>runtimeAssert\<close> or a null pointer that is followed.
\<close>

section \<open>The client\<close>

datatype sub_kind = Sub | Unsub | Psub | Punsub

fun sub_word :: "sub_kind \<Rightarrow> bytes" where
  "sub_word Sub = ''subscribe''"
| "sub_word Unsub = ''unsubscribe''"
| "sub_word Psub = ''psubscribe''"
| "sub_word Punsub = ''punsubscribe''"

text \<open>What waits in \<open>callbacks_\<close>: a call with its callback for the count and its callback for messages,
  either of them possibly null, or a call of the base client: \<open>auth\<close>, with a user or without, and
  \<open>client setname\<close>.\<close>

datatype ('r, 'm) sub_call =
    Pubsub_call sub_kind bytes "'r option" "'m option"
  | Auth_call "bytes option" bytes
  | Setname_call bytes

fun call_words :: "('r, 'm) sub_call \<Rightarrow> bytes list" where
  "call_words (Pubsub_call k n r m) = [sub_word k, n]"
| "call_words (Auth_call None p) = [''auth'', p]"
| "call_words (Auth_call (Some u) p) = [''auth'', u, p]"
| "call_words (Setname_call n) = [''client'', ''setname'', n]"

datatype ('r, 'm) sub_event =
    Counted 'r "(bytes \<times> bytes \<times> int) tair_result"
  | Message 'm bytes bytes
  | Pmessage 'm bytes bytes bytes

record ('r, 'm) sub_client =
  waiting :: "('r, 'm) sub_call list"
  sub_callbacks :: "(bytes \<times> 'm option) list"
  psub_callbacks :: "(bytes \<times> 'm option) list"
  called :: "('r, 'm) sub_event list"

definition call_back :: "'r option \<Rightarrow> (bytes \<times> bytes \<times> int) tair_result \<Rightarrow> ('r, 'm) sub_client \<Rightarrow> ('r, 'm) sub_client" where
  "call_back callback result st = (case callback of None \<Rightarrow> st | Some r \<Rightarrow> st\<lparr>called := called st @ [Counted r result]\<rparr>)"

definition doSubscribeMessage :: "'d packet \<Rightarrow> ('r, 'm) sub_client \<Rightarrow> ('r, 'm) sub_client option" where
  "doSubscribeMessage resp st = (case getReplyData3 getReplyBulkStr resp of
     None \<Rightarrow> Some st
   | Some (type, channel, message) \<Rightarrow> do {
       ensure (type = ''message'');
       Some (case map_of (sub_callbacks st) channel of
         Some (Some m) \<Rightarrow> st\<lparr>called := called st @ [Message m channel message]\<rparr>
       | _ \<Rightarrow> st) })"

definition doPSubscribeMessage :: "'d packet \<Rightarrow> ('r, 'm) sub_client \<Rightarrow> ('r, 'm) sub_client option" where
  "doPSubscribeMessage resp st = (case getReplyData4 getReplyBulkStr resp of
     None \<Rightarrow> Some st
   | Some (type, pattern, channel, message) \<Rightarrow> do {
       ensure (type = ''pmessage'');
       Some (case map_of (psub_callbacks st) pattern of
         Some (Some m) \<Rightarrow> st\<lparr>called := called st @ [Pmessage m pattern channel message]\<rparr>
       | _ \<Rightarrow> st) })"

definition doPubSubCount ::
  "'d packet \<Rightarrow> 'r option \<Rightarrow> 'm option \<Rightarrow> 'm option \<Rightarrow> ('r, 'm) sub_client \<Rightarrow> ('r, 'm) sub_client option" where
  "doPubSubCount resp callback msg_callback pmsg_callback st = do {
     (type, channel, count) \<leftarrow> getReplyBulkBulkInteger resp;
     let st1 = (if type = ''subscribe'' then st\<lparr>sub_callbacks := AList.update channel msg_callback (sub_callbacks st)\<rparr>
                else if type = ''unsubscribe'' then st\<lparr>sub_callbacks := AList.delete channel (sub_callbacks st)\<rparr>
                else if type = ''psubscribe'' then st\<lparr>psub_callbacks := AList.update channel pmsg_callback (psub_callbacks st)\<rparr>
                else if type = ''punsubscribe'' then st\<lparr>psub_callbacks := AList.delete channel (psub_callbacks st)\<rparr>
                else st);
     Some (call_back callback (setValue (type, channel, count)) st1) }"

text \<open>The response may be null, when the connection is lost; it is followed all the same.\<close>

definition doPubSubResponse ::
  "'d packet option \<Rightarrow> 'r option \<Rightarrow> 'm option \<Rightarrow> 'm option \<Rightarrow> ('r, 'm) sub_client \<Rightarrow> ('r, 'm) sub_client option" where
  "doPubSubResponse resp callback msg_callback pmsg_callback st = do {
     p \<leftarrow> resp;
     if getReplyArraySize p = Some 3 then doPubSubCount p callback msg_callback pmsg_callback st
     else Some (call_back callback (case getReplyError p of
         Some e \<Rightarrow> setErr e
       | None \<Rightarrow> setErr ''unknown pub/sub response type'') st) }"

text \<open>The callback that \<open>subscribe\<close>, \<open>unSubscribe\<close>, \<open>psubscribe\<close> and \<open>unPsubscribe\<close> hand to
  \<open>sendCommand\<close>. Those of the base client do not touch the subscriptions.\<close>

fun run_call :: "('r, 'm) sub_call \<Rightarrow> 'd packet option \<Rightarrow> ('r, 'm) sub_client \<Rightarrow> ('r, 'm) sub_client option" where
  "run_call (Pubsub_call Sub n r m) resp st = doPubSubResponse resp r m None st"
| "run_call (Pubsub_call Psub n r m) resp st = doPubSubResponse resp r None m st"
| "run_call (Pubsub_call k n r m) resp st = doPubSubResponse resp r None None st"
| "run_call c resp st = Some st"

definition sub_onRecvResponse :: "'d packet \<Rightarrow> ('r, 'm) sub_client \<Rightarrow> ('r, 'm) sub_client option" where
  "sub_onRecvResponse resp st =
     (case getReplyArrayFirstBulkStr resp of
        Some t \<Rightarrow>
          if t = ''message'' then doSubscribeMessage resp st
          else if t = ''pmessage'' then doPSubscribeMessage resp st
          else (case waiting st of [] \<Rightarrow> None | c # cs \<Rightarrow> map_option (\<lambda>st1. st1\<lparr>waiting := cs\<rparr>) (run_call c (Some resp) st))
      | None \<Rightarrow> (case waiting st of [] \<Rightarrow> None | c # cs \<Rightarrow> map_option (\<lambda>st1. st1\<lparr>waiting := cs\<rparr>) (run_call c (Some resp) st)))"

text \<open>Sending queues the call; the words go to the connection, which drops them when it is closed.
  Without a connection that was ever up there is a null pointer, without a \<open>TcpClient\<close> the callback is
  called at once, with a null response.\<close>

fun send_call :: "link \<Rightarrow> ('r, 'm) sub_call \<Rightarrow> ('r, 'm) sub_client \<Rightarrow> (bytes list list \<times> ('r, 'm) sub_client) option" where
  "send_call No_client c st = map_option (Pair []) (run_call c (None :: unit packet option) st)"
| "send_call Connecting c st = None"
| "send_call Up c st = Some ([call_words c], st\<lparr>waiting := waiting st @ [c]\<rparr>)"
| "send_call Down c st = Some ([], st\<lparr>waiting := waiting st @ [c]\<rparr>)"

definition subscribe :: "bytes \<Rightarrow> 'r option \<Rightarrow> 'm option \<Rightarrow> ('r, 'm) sub_call" where
  "subscribe channel callback msg_callback = Pubsub_call Sub channel callback msg_callback"

definition unSubscribe :: "bytes \<Rightarrow> 'r option \<Rightarrow> ('r, 'm) sub_call" where
  "unSubscribe channel callback = Pubsub_call Unsub channel callback None"

definition psubscribe :: "bytes \<Rightarrow> 'r option \<Rightarrow> 'm option \<Rightarrow> ('r, 'm) sub_call" where
  "psubscribe pattern callback pmsg_callback = Pubsub_call Psub pattern callback pmsg_callback"

definition unPsubscribe :: "bytes \<Rightarrow> 'r option \<Rightarrow> ('r, 'm) sub_call" where
  "unPsubscribe pattern callback = Pubsub_call Punsub pattern callback None"

text \<open>\<open>onConnected\<close>: authentication and name, then all subscriptions again.\<close>

definition connect_calls :: "bytes \<Rightarrow> bytes \<Rightarrow> bytes \<Rightarrow> ('r, 'm) sub_client \<Rightarrow> ('r, 'm) sub_call list" where
  "connect_calls user password name st =
     (if user \<noteq> [] \<and> password \<noteq> [] then [Auth_call (Some user) password]
      else if password \<noteq> [] then [Auth_call None password] else []) @ [Setname_call name]
     @ map (\<lambda>(ch, m). subscribe ch None m) (sub_callbacks st)
     @ map (\<lambda>(pt, m). psubscribe pt None m) (psub_callbacks st)"

definition sub_onConnected :: "bytes \<Rightarrow> bytes \<Rightarrow> bytes \<Rightarrow> ('r, 'm) sub_client \<Rightarrow> bytes list list \<times> ('r, 'm) sub_client" where
  "sub_onConnected user password name st =
     (let cs = connect_calls user password name st in (map call_words cs, st\<lparr>waiting := waiting st @ cs\<rparr>))"

text \<open>\<open>clearCallbacks\<close> of the base client, when the connection is lost.\<close>

fun clear_waiting :: "('r, 'm) sub_call list \<Rightarrow> ('r, 'm) sub_client \<Rightarrow> ('r, 'm) sub_client option" where
  "clear_waiting [] st = Some (st\<lparr>waiting := []\<rparr>)"
| "clear_waiting (c # cs) st = Option.bind (run_call c (None :: unit packet option) st) (clear_waiting cs)"

text \<open>C26: a connection must not be lost while a subscription waits for its reply. The callback of such a
  call follows the null response, whatever the other waiting calls are.\<close>

theorem lost_subscription_crashes:
  assumes "Pubsub_call k n r m \<in> set cs"
  shows "clear_waiting cs st = None"
  using assms
proof (induction cs arbitrary: st)
  case (Cons c cs)
  have "run_call (Pubsub_call k n r m) (None :: unit packet option) st = None" for st :: "('a, 'b) sub_client"
    by (cases k) (simp_all add: doPubSubResponse_def)
  with Cons show ?case
    by (cases "run_call c (None :: unit packet option) st") auto
qed simp

theorem lost_subscription_crashes_witness:
  "clear_waiting [Setname_call ''me'', subscribe ''news'' (Some (0 :: nat)) (Some (1 :: nat))]
     \<lparr>waiting = [], sub_callbacks = [], psub_callbacks = [], called = []\<rparr> = None"
  by (rule lost_subscription_crashes [of Sub "''news''" "Some 0" "Some 1"]) (simp add: subscribe_def)

section \<open>Client and server\<close>

text \<open>Packets a server sends, as the codec hands them over.\<close>

definition bulk :: "bytes \<Rightarrow> 'd packet" where
  "bulk s = BulkStringPacket [] TYPE_COMMON (- 2) s"

definition array :: "'d packet list \<Rightarrow> 'd packet" where
  "array ps = ArrayPacket [] Array_class TYPE_COMMON ps 0 0 None"

definition count_reply :: "bytes \<Rightarrow> bytes \<Rightarrow> int \<Rightarrow> 'd packet" where
  "count_reply w n i = array [bulk w, bulk n, IntegerPacket [] i]"

definition message_packet :: "bytes \<Rightarrow> bytes \<Rightarrow> 'd packet" where
  "message_packet ch msg = array [bulk ''message'', bulk ch, bulk msg]"

definition pmessage_packet :: "bytes \<Rightarrow> bytes \<Rightarrow> bytes \<Rightarrow> 'd packet" where
  "pmessage_packet pt ch msg = array [bulk ''pmessage'', bulk pt, bulk ch, bulk msg]"

text \<open>The client and its connection: the requests and the replies on their way, what the server takes
  the client to be subscribed to, whether it has refused a request on this connection, and whether
  calls were waiting already when the connection came up: they were made while the last one was
  closed, and their words are lost.\<close>

record ('r, 'm) pubsub =
  client :: "('r, 'm) sub_client"
  connection :: link
  stale :: bool
  requests :: "bytes list list"
  replies :: "unit packet list"
  channels :: "bytes set"
  patterns :: "bytes set"
  refused :: bool

text \<open>The effect of a request on the subscriptions.\<close>

definition subscribed :: "bytes list \<Rightarrow> bytes set \<times> bytes set \<Rightarrow> bytes set \<times> bytes set" where
  "subscribed words CP = (case words of
     [w, n] \<Rightarrow>
       if w = ''subscribe'' then (insert n (fst CP), snd CP)
       else if w = ''unsubscribe'' then (fst CP - {n}, snd CP)
       else if w = ''psubscribe'' then (fst CP, insert n (snd CP))
       else if w = ''punsubscribe'' then (fst CP, snd CP - {n})
       else CP
   | _ \<Rightarrow> CP)"

text \<open>A reply to a request: the count of subscriptions, any number here, or a status.\<close>

inductive answers :: "'d packet \<Rightarrow> bytes list \<Rightarrow> bool" where
  answers_count: "answers (count_reply (sub_word k) n i) [sub_word k, n]"
| answers_auth: "answers (SimpleStringPacket [] s) [''auth'', p]"
| answers_user: "answers (SimpleStringPacket [] s) [''auth'', u, p]"
| answers_setname: "answers (SimpleStringPacket [] s) [''client'', ''setname'', n]"

text \<open>A connection that is up is closed: the waiting calls are told, and nothing of it is left.\<close>

definition leave :: "('r, 'm) pubsub \<Rightarrow> ('r, 'm) sub_client option" where
  "leave s = (if connection s = Up then clear_waiting (waiting (client s)) (client s) else Some (client s))"

definition off :: "link \<Rightarrow> ('r, 'm) sub_client \<Rightarrow> ('r, 'm) pubsub" where
  "off l c = \<lparr>client = c, connection = l, stale = False, requests = [], replies = [],
     channels = {}, patterns = {}, refused = False\<rparr>"

text \<open>A new \<open>TcpClient\<close> (\<open>connect\<close>, \<open>reconnect\<close>), a connection that comes up, an attempt to connect that
  fails, the loss of the connection and \<open>disconnect\<close> are steps of their own; calls are made at any time.\<close>

inductive pubsub_step :: "('r, 'm) pubsub \<Rightarrow> ('r, 'm) pubsub \<Rightarrow> bool" where
  step_call: "send_call (connection s) c (client s) = Some (ws, c') \<Longrightarrow>
    pubsub_step s (s\<lparr>client := c', requests := requests s @ ws\<rparr>)"
| step_serve: "requests s = words # rs \<Longrightarrow> answers p words \<Longrightarrow>
    subscribed words (channels s, patterns s) = (C, P) \<Longrightarrow>
    pubsub_step s (s\<lparr>requests := rs, replies := replies s @ [p], channels := C, patterns := P\<rparr>)"
| step_refuse: "requests s = words # rs \<Longrightarrow>
    pubsub_step s (s\<lparr>requests := rs, replies := replies s @ [ErrorPacket [] e], refused := True\<rparr>)"
| step_message: "ch \<in> channels s \<Longrightarrow> pubsub_step s (s\<lparr>replies := replies s @ [message_packet ch msg]\<rparr>)"
| step_pmessage: "pt \<in> patterns s \<Longrightarrow> pubsub_step s (s\<lparr>replies := replies s @ [pmessage_packet pt ch msg]\<rparr>)"
| step_receive: "replies s = p # ps \<Longrightarrow> sub_onRecvResponse p (client s) = Some c' \<Longrightarrow>
    pubsub_step s (s\<lparr>client := c', replies := ps\<rparr>)"
| step_connect: "leave s = Some c \<Longrightarrow> pubsub_step s (off Connecting c)"
| step_up: "connection s = Connecting \<or> connection s = Down \<Longrightarrow>
    sub_onConnected user password name (client s) = (ws, c') \<Longrightarrow>
    pubsub_step s ((off Up c')\<lparr>stale := waiting (client s) \<noteq> [], requests := ws\<rparr>)"
| step_fail: "connection s = Connecting \<or> connection s = Down \<Longrightarrow>
    clear_waiting (waiting (client s)) (client s) = Some c \<Longrightarrow> pubsub_step s (off (connection s) c)"
| step_lose: "connection s = Up \<Longrightarrow> leave s = Some c \<Longrightarrow> pubsub_step s (off Down c)"
| step_disconnect: "leave s = Some c \<Longrightarrow> pubsub_step s (off No_client c)"

inductive pubsub_reachable :: "('r, 'm) pubsub \<Rightarrow> bool" where
  reach_new: "pubsub_reachable (off No_client \<lparr>waiting = [], sub_callbacks = [], psub_callbacks = [], called = []\<rparr>)"
| reach_step: "pubsub_reachable s \<Longrightarrow> pubsub_step s s' \<Longrightarrow> pubsub_reachable s'"

text \<open>What the client has subscribed to once it has seen the replies on their way, given the calls that
  wait: each reply answers the oldest, and a message is about a subscription.\<close>

inductive flow :: "bytes set \<times> bytes set \<Rightarrow> ('r, 'm) sub_call list \<Rightarrow> 'd packet list \<Rightarrow> bytes list list \<Rightarrow> bytes set \<times> bytes set \<Rightarrow> bool" where
  flow_end: "rs = map call_words ws \<Longrightarrow> flow CP ws [] rs CP"
| flow_message: "ch \<in> fst CP \<Longrightarrow> flow CP ws ps rs CP' \<Longrightarrow> flow CP ws (message_packet ch msg # ps) rs CP'"
| flow_pmessage: "pt \<in> snd CP \<Longrightarrow> flow CP ws ps rs CP' \<Longrightarrow> flow CP ws (pmessage_packet pt ch msg # ps) rs CP'"
| flow_refusal: "flow CP ws ps rs CP' \<Longrightarrow> flow CP (c # ws) (ErrorPacket [] e # ps) rs CP'"
| flow_answer: "answers p (call_words c) \<Longrightarrow> flow (subscribed (call_words c) CP) ws ps rs CP' \<Longrightarrow> flow CP (c # ws) (p # ps) rs CP'"

definition subscriptions :: "('r, 'm) sub_client \<Rightarrow> bytes set \<times> bytes set" where
  "subscriptions c = (fst ` set (sub_callbacks c), fst ` set (psub_callbacks c))"

definition agrees :: "('r, 'm) pubsub \<Rightarrow> bool" where
  "agrees s \<longleftrightarrow> (\<exists>CP. flow (subscriptions (client s)) (waiting (client s)) (replies s) (requests s) CP \<and>
     channels s \<subseteq> fst CP \<and> patterns s \<subseteq> snd CP \<and>
     (refused s \<or> fold subscribed (requests s) (channels s, patterns s) = fold subscribed (requests s) CP))"

definition idle :: "('r, 'm) pubsub \<Rightarrow> bool" where
  "idle s \<longleftrightarrow> requests s = [] \<and> replies s = [] \<and> channels s = {} \<and> patterns s = {}"

definition in_step :: "('r, 'm) pubsub \<Rightarrow> bool" where
  "in_step s \<longleftrightarrow> (if connection s = Up then stale s \<or> agrees s else idle s)"

lemma flow_call: "flow CP ws ps rs CP' \<Longrightarrow> flow CP (ws @ [c]) ps (rs @ [call_words c]) CP'"
  by (induction rule: flow.induct) (auto intro: flow.intros)

lemma flow_serve:
  "flow CP ws ps rs CP' \<Longrightarrow> rs = words # rs' \<Longrightarrow> answers p words \<Longrightarrow> flow CP ws (ps @ [p]) rs' (subscribed words CP')"
proof (induction rule: flow.induct)
  case (flow_end rs ws CP)
  then obtain c cs where "ws = c # cs" "words = call_words c" "rs' = map call_words cs" by (cases ws) auto
  with flow_end.prems(2) show ?case by (auto intro!: flow_answer flow.flow_end)
qed (auto intro: flow.intros)

lemma flow_refuse: "flow CP ws ps rs CP' \<Longrightarrow> rs = words # rs' \<Longrightarrow> flow CP ws (ps @ [ErrorPacket [] e]) rs' CP'"
proof (induction rule: flow.induct)
  case (flow_end rs ws CP)
  then obtain c cs where "ws = c # cs" "rs' = map call_words cs" by (cases ws) auto
  then show ?case by (auto intro!: flow_refusal flow.flow_end)
qed (auto intro: flow.intros)

lemma flow_append_message: "flow CP ws ps rs CP' \<Longrightarrow> ch \<in> fst CP' \<Longrightarrow> flow CP ws (ps @ [message_packet ch msg]) rs CP'"
  by (induction rule: flow.induct) (auto intro: flow.intros)

lemma flow_append_pmessage: "flow CP ws ps rs CP' \<Longrightarrow> pt \<in> snd CP' \<Longrightarrow> flow CP ws (ps @ [pmessage_packet pt ch msg]) rs CP'"
  by (induction rule: flow.induct) (auto intro: flow.intros)

lemma subscribed_words:
  "subscribed [sub_word Sub, n] (C, P) = (insert n C, P)" "subscribed [sub_word Unsub, n] (C, P) = (C - {n}, P)"
  "subscribed [sub_word Psub, n] (C, P) = (C, insert n P)" "subscribed [sub_word Punsub, n] (C, P) = (C, P - {n})"
  by (simp_all add: subscribed_def)

lemma subscribed_else:
  assumes "w \<notin> range sub_word"
  shows "subscribed [w, n] CP = CP"
proof -
  have "w \<noteq> sub_word k" for k using assms by blast
  from this [of Sub] this [of Unsub] this [of Psub] this [of Punsub] show ?thesis
    by (simp add: subscribed_def)
qed

lemma subscribed_other: "length words \<noteq> 2 \<Longrightarrow> subscribed words CP = CP"
  by (cases words; cases "tl words"; cases "tl (tl words)") (simp_all add: subscribed_def)

lemma subscribed_mono:
  assumes "C \<subseteq> C'" "P \<subseteq> P'" "subscribed w (C, P) = (D, Q)" "subscribed w (C', P') = (D', Q')"
  shows "D \<subseteq> D' \<and> Q \<subseteq> Q'"
proof (cases "length w = 2")
  case True
  then obtain v n where "w = [v, n]" by (auto simp: length_Suc_conv numeral_2_eq_2)
  show ?thesis
  proof (cases "v \<in> range sub_word")
    case True
    then obtain k where "w = [sub_word k, n]" using \<open>w = [v, n]\<close> by blast
    with assms show ?thesis by (cases k) (auto simp only: subscribed_words)
  qed (use assms \<open>w = [v, n]\<close> in \<open>simp add: subscribed_else\<close>)
qed (use assms in \<open>auto simp: subscribed_other\<close>)

section \<open>The client's side of a step\<close>

lemma packet_views:
  "getReplyArrayFirstBulkStr (array (bulk s # ps)) = Some s"
  "getReplyArraySize (array ps) = Some (length ps)"
  "getReplyData3 getReplyBulkStr (message_packet ch msg) = Some (''message'', ch, msg)"
  "getReplyData4 getReplyBulkStr (pmessage_packet pt ch msg) = Some (''pmessage'', pt, ch, msg)"
  "getReplyBulkBulkInteger (count_reply w n i) = Some (w, n, i)"
  by (simp_all add: getReplyArrayFirstBulkStr_def getReplyArraySize_def getReplyData3_def getReplyData4_def
      getReplyBulkBulkInteger_def getReplyBulkStr_def getReplyInteger_def array_def bulk_def message_packet_def
      pmessage_packet_def count_reply_def)

lemma call_back_same [simp]:
  "waiting (call_back r x st) = waiting st" "subscriptions (call_back r x st) = subscriptions st"
  by (simp_all add: call_back_def subscriptions_def split: option.split)

lemma message_inject:
  "message_packet ch msg = message_packet ch' msg' \<longleftrightarrow> ch = ch' \<and> msg = msg'"
  "pmessage_packet pt ch msg = pmessage_packet pt' ch' msg' \<longleftrightarrow> pt = pt' \<and> ch = ch' \<and> msg = msg'"
  "message_packet ch msg \<noteq> pmessage_packet pt ch' msg'"
  by (auto simp: message_packet_def pmessage_packet_def array_def bulk_def)

lemma receive_message:
  "sub_onRecvResponse (message_packet ch msg) st =
     Some (case map_of (sub_callbacks st) ch of Some (Some m) \<Rightarrow> st\<lparr>called := called st @ [Message m ch msg]\<rparr> | _ \<Rightarrow> st)"
  by (simp add: sub_onRecvResponse_def doSubscribeMessage_def packet_views message_packet_def)
    (simp add: packet_views flip: message_packet_def)

lemma receive_pmessage:
  "sub_onRecvResponse (pmessage_packet pt ch msg) st =
     Some (case map_of (psub_callbacks st) pt of Some (Some m) \<Rightarrow> st\<lparr>called := called st @ [Pmessage m pt ch msg]\<rparr> | _ \<Rightarrow> st)"
  by (simp add: sub_onRecvResponse_def doPSubscribeMessage_def packet_views pmessage_packet_def)
    (simp add: packet_views flip: pmessage_packet_def)


lemma count_reply_size: "getReplyArraySize (count_reply w n i) = Some 3"
  by (simp add: count_reply_def packet_views)

lemma counted:
  "doPubSubResponse (Some (count_reply (sub_word k) n i)) r m pm st =
     Some (call_back r (setValue (sub_word k, n, i)) (case k of
       Sub \<Rightarrow> st\<lparr>sub_callbacks := AList.update n m (sub_callbacks st)\<rparr>
     | Unsub \<Rightarrow> st\<lparr>sub_callbacks := AList.delete n (sub_callbacks st)\<rparr>
     | Psub \<Rightarrow> st\<lparr>psub_callbacks := AList.update n pm (psub_callbacks st)\<rparr>
     | Punsub \<Rightarrow> st\<lparr>psub_callbacks := AList.delete n (psub_callbacks st)\<rparr>))"
  by (cases k) (simp_all add: doPubSubResponse_def doPubSubCount_def packet_views count_reply_size)

lemma dom_update_keys: "fst ` set (AList.update n m l) = insert n (fst ` set l)"
  by (induction l) auto

lemma dom_delete_keys: "fst ` set (AList.delete n l) = fst ` set l - {n}"
  by (auto simp: AList.delete_eq)

lemma run_call_counted:
  "\<exists>st'. run_call (Pubsub_call k n r m) (Some (count_reply (sub_word k) n i)) st = Some st' \<and>
     subscriptions st' = subscribed [sub_word k, n] (subscriptions st)"
proof -
  have keys: "subscriptions (st\<lparr>sub_callbacks := AList.update n m (sub_callbacks st)\<rparr>) = subscribed [sub_word Sub, n] (subscriptions st)"
    "subscriptions (st\<lparr>sub_callbacks := AList.delete n (sub_callbacks st)\<rparr>) = subscribed [sub_word Unsub, n] (subscriptions st)"
    "subscriptions (st\<lparr>psub_callbacks := AList.update n m (psub_callbacks st)\<rparr>) = subscribed [sub_word Psub, n] (subscriptions st)"
    "subscriptions (st\<lparr>psub_callbacks := AList.delete n (psub_callbacks st)\<rparr>) = subscribed [sub_word Punsub, n] (subscriptions st)"
    by (simp_all only: subscriptions_def subscribed_words) (simp_all add: dom_update_keys dom_delete_keys)
  show ?thesis
    by (cases k) (simp_all only: run_call.simps counted sub_kind.case option.inject call_back_same keys ex_simps simp_thms)
qed

lemma answer_views:
  "getReplyArrayFirstBulkStr (SimpleStringPacket er s) = None" "getReplyArrayFirstBulkStr (ErrorPacket er s) = None"
  "getReplyArraySize (ErrorPacket er s) = None" "getReplyError (ErrorPacket er s) = Some s"
  "getReplyArrayFirstBulkStr (count_reply w n i) = Some w"
  by (simp_all add: getReplyArrayFirstBulkStr_def getReplyArraySize_def getReplyError_def count_reply_def array_def
      bulk_def getReplyBulkStr_def)

lemma onRecvResponse_call:
  assumes "\<And>t. getReplyArrayFirstBulkStr p = Some t \<Longrightarrow> t \<noteq> ''message'' \<and> t \<noteq> ''pmessage''" "waiting st = c # cs"
    "run_call c (Some p) st = Some st'"
  shows "sub_onRecvResponse p st = Some (st'\<lparr>waiting := cs\<rparr>)"
  using assms by (simp add: sub_onRecvResponse_def split: option.split)

lemma receive_refusal:
  assumes "waiting st = c # cs" and p: "p = ErrorPacket [] e"
  shows "\<exists>st'. sub_onRecvResponse p st = Some st' \<and> subscriptions st' = subscriptions st \<and> waiting st' = cs"
proof -
  have "\<exists>st'. run_call c (Some p) st = Some st' \<and> subscriptions st' = subscriptions st"
  proof (cases c)
    case (Pubsub_call k n r m)
    then show ?thesis
      by (cases k) (simp_all add: p doPubSubResponse_def answer_views)
  qed simp_all
  then obtain st' where st': "run_call c (Some p) st = Some st'" "subscriptions st' = subscriptions st"
    by blast
  have "sub_onRecvResponse p st = Some (st'\<lparr>waiting := cs\<rparr>)"
    by (rule onRecvResponse_call [OF _ assms(1) st'(1)]) (simp add: p answer_views)
  then show ?thesis
    using st'(2) by (simp add: subscriptions_def)
qed

lemma receive_answer:
  assumes "waiting st = c # cs" "answers p (call_words c)"
  shows "\<exists>st'. sub_onRecvResponse p st = Some st' \<and> subscriptions st' = subscribed (call_words c) (subscriptions st) \<and> waiting st' = cs"
proof -
  have "(\<forall>t. getReplyArrayFirstBulkStr p = Some t \<longrightarrow> t \<noteq> ''message'' \<and> t \<noteq> ''pmessage'') \<and>
    (\<exists>st'. run_call c (Some p) st = Some st' \<and> subscriptions st' = subscribed (call_words c) (subscriptions st))"
    using assms(2)
  proof cases
    case (answers_count k n i)
    then obtain r m where "c = Pubsub_call k n r m"
      by (cases c rule: call_words.cases; cases k) (auto elim: sub_word.elims)
    then show ?thesis
      using answers_count run_call_counted [of k n r m i st] by (cases k) (simp_all add: answer_views)
  next
    case (answers_auth s x)
    then have "c = Auth_call None x" by (cases c rule: call_words.cases) (auto elim: sub_word.elims)
    then show ?thesis by (simp add: answers_auth answer_views subscribed_def)
  next
    case (answers_user s u x)
    then have "c = Auth_call (Some u) x" by (cases c rule: call_words.cases) auto
    then show ?thesis by (simp add: answers_user answer_views subscribed_def)
  next
    case (answers_setname s x)
    then have "c = Setname_call x" by (cases c rule: call_words.cases) auto
    then show ?thesis by (simp add: answers_setname answer_views subscribed_def)
  qed
  then obtain st' where st': "run_call c (Some p) st = Some st'" "subscriptions st' = subscribed (call_words c) (subscriptions st)"
    "\<And>t. getReplyArrayFirstBulkStr p = Some t \<Longrightarrow> t \<noteq> ''message'' \<and> t \<noteq> ''pmessage''"
    by blast
  have "sub_onRecvResponse p st = Some (st'\<lparr>waiting := cs\<rparr>)"
    by (rule onRecvResponse_call [OF st'(3) assms(1) st'(1)])
  then show ?thesis
    using st'(2) by (simp add: subscriptions_def)
qed

lemma clear_waiting_subscriptions:
  "clear_waiting cs st = Some st' \<Longrightarrow> subscriptions st' = subscriptions st \<and> waiting st' = []"
proof (induction cs arbitrary: st)
  case (Cons c cs)
  have "run_call c (None :: unit packet option) st = Some st1 \<Longrightarrow> subscriptions st1 = subscriptions st" for st1
  proof (cases c)
    case (Pubsub_call k n r m)
    then show "run_call c (None :: unit packet option) st = Some st1 \<Longrightarrow> subscriptions st1 = subscriptions st"
      by (cases k) (simp_all add: doPubSubResponse_def)
  qed simp_all
  with Cons show ?case
    by (cases "run_call c (None :: unit packet option) st") auto
qed (auto simp: subscriptions_def)

lemma resubscribed_channels:
  "fold subscribed (map call_words (map (\<lambda>(ch, m). subscribe ch None m) l)) (C, P) = (fst ` set l \<union> C, P)"
  by (induction l arbitrary: C) (auto simp: subscribe_def subscribed_def)

lemma resubscribed_patterns:
  "fold subscribed (map call_words (map (\<lambda>(pt, m). psubscribe pt None m) l)) (C, P) = (C, fst ` set l \<union> P)"
  by (induction l arbitrary: P) (auto simp: psubscribe_def subscribed_def)

lemma resubscribed:
  "fold subscribed (map call_words (connect_calls user password name st)) (C, P) =
     (fst (subscriptions st) \<union> C, snd (subscriptions st) \<union> P)"
proof -
  have "subscribed [''auth'', x] (C, P) = (C, P)" "subscribed [''auth'', u, x] (C, P) = (C, P)"
    "subscribed [''client'', ''setname'', x] (C, P) = (C, P)" for u x
    by (simp_all add: subscribed_def)
  then show ?thesis
    by (simp add: connect_calls_def subscriptions_def resubscribed_channels resubscribed_patterns del: map_map)
qed

section \<open>Every reachable state is in step\<close>

lemma agreesI:
  "flow (subscriptions (client s)) (waiting (client s)) (replies s) (requests s) CP \<Longrightarrow> channels s \<subseteq> fst CP \<Longrightarrow>
   patterns s \<subseteq> snd CP \<Longrightarrow> refused s \<or> fold subscribed (requests s) (channels s, patterns s) = fold subscribed (requests s) CP \<Longrightarrow>
   agrees s"
  unfolding agrees_def by blast

lemma receive_keeps_flow:
  assumes "flow (subscriptions c) (waiting c) (p # ps) rs CP" "sub_onRecvResponse p c = Some c'"
  shows "flow (subscriptions c') (waiting c') ps rs CP"
  using assms(1)
proof cases
  case (flow_message ch msg)
  then show ?thesis
    using assms(2) by (auto simp: receive_message subscriptions_def split: option.splits)
next
  case (flow_pmessage pt ch msg)
  then show ?thesis
    using assms(2) by (auto simp: receive_pmessage subscriptions_def split: option.splits)
next
  case (flow_refusal ws d e)
  then show ?thesis
    using receive_refusal [of c d ws p e] assms(2) by auto
next
  case (flow_answer d ws)
  then show ?thesis
    using receive_answer [of c d ws p] assms(2) by auto
qed

text \<open>While the connection is up.\<close>

lemma step_agrees:
  assumes "pubsub_step s s'" "agrees s" "connection s = Up" "connection s' = Up"
  shows "agrees s'"
proof -
  obtain CP where CP: "flow (subscriptions (client s)) (waiting (client s)) (replies s) (requests s) CP"
    "channels s \<subseteq> fst CP" "patterns s \<subseteq> snd CP"
    "refused s \<or> fold subscribed (requests s) (channels s, patterns s) = fold subscribed (requests s) CP"
    using assms(2) unfolding agrees_def by blast
  from assms(1) show ?thesis
  proof cases
    case (step_call c words c')
    with CP assms(3) show ?thesis
      by (intro agreesI [of _ CP]) (auto simp: subscriptions_def intro: flow_call)
  next
    case (step_serve words rs p C P)
    then have "C \<subseteq> fst (subscribed words CP) \<and> P \<subseteq> snd (subscribed words CP)"
      using subscribed_mono [of "channels s" "fst CP" "patterns s" "snd CP" words C P] CP(2,3)
      by (cases "subscribed words CP") simp
    with step_serve CP show ?thesis
      by (intro agreesI [of _ "subscribed words CP"]) (auto intro: flow_serve)
  next
    case (step_refuse words rs e)
    with CP show ?thesis
      by (intro agreesI [of _ CP]) (auto intro: flow_refuse)
  next
    case (step_message ch msg)
    with CP show ?thesis
      by (intro agreesI [of _ CP]) (auto intro: flow_append_message)
  next
    case (step_pmessage pt ch msg)
    with CP show ?thesis
      by (intro agreesI [of _ CP]) (auto intro: flow_append_pmessage)
  next
    case (step_receive p ps c')
    with CP show ?thesis
      by (intro agreesI [of _ CP]) (auto intro: receive_keeps_flow)
  qed (use assms(3,4) in \<open>simp_all add: off_def\<close>)
qed

text \<open>A connection that comes up and finds no call waiting.\<close>

lemma up_agrees:
  assumes "waiting c = []" "sub_onConnected user password name c = (ws, c')"
  shows "agrees ((off Up c')\<lparr>stale := False, requests := ws\<rparr>)"
proof -
  have c': "waiting c' = connect_calls user password name c" "ws = map call_words (waiting c')" "subscriptions c' = subscriptions c"
    using assms by (auto simp: sub_onConnected_def Let_def subscriptions_def)
  have "fold subscribed ws ({}, {}) = fold subscribed ws (subscriptions c)"
    using resubscribed [of user password name c "{}" "{}"]
      resubscribed [of user password name c "fst (subscriptions c)" "snd (subscriptions c)"] c'(1,2) by simp
  with c' show ?thesis
    by (intro agreesI [of _ "subscriptions c"]) (simp_all add: off_def flow_end)
qed

lemma step_in_step:
  assumes "pubsub_step s s'" "in_step s"
  shows "in_step s'"
proof (cases "connection s = Up \<and> connection s' = Up")
  case True
  from assms(1) have "stale s' = stale s"
    by cases (use True in \<open>auto simp: off_def\<close>)
  with True assms(2) show ?thesis
    using step_agrees [OF assms(1)] by (auto simp: in_step_def)
next
  case False
  from assms(1) show ?thesis
  proof cases
    case (step_call c ws c')
    with False assms(2) show ?thesis
      by (cases "connection s") (auto simp: in_step_def idle_def)
  next
    case (step_up user password name ws c')
    then show ?thesis
      using up_agrees [of "client s" user password name ws c'] by (simp add: in_step_def off_def)
  qed (use False assms(2) in \<open>auto simp: in_step_def idle_def off_def\<close>)
qed

lemma reachable_in_step: "pubsub_reachable s \<Longrightarrow> in_step s"
proof (induction rule: pubsub_reachable.induct)
  case reach_new
  show ?case by (simp add: in_step_def idle_def off_def)
qed (rule step_in_step)

lemma reachable_agrees: "pubsub_reachable s \<Longrightarrow> connection s = Up \<Longrightarrow> \<not> stale s \<Longrightarrow> agrees s"
  using reachable_in_step [of s] by (simp add: in_step_def)

section \<open>What the client is promised\<close>

lemma flow_first:
  assumes "flow (subscriptions c) (waiting c) (p # ps) rs CP"
  obtains (answered) c' where "sub_onRecvResponse p c = Some c'" "\<nexists>ch msg. p = message_packet ch msg" "\<nexists>pt ch msg. p = pmessage_packet pt ch msg"
  | (message) ch msg m where "p = message_packet ch msg" "map_of (sub_callbacks c) ch = Some m"
  | (pmessage) pt ch msg m where "p = pmessage_packet pt ch msg" "map_of (psub_callbacks c) pt = Some m"
  using assms
proof cases
  case (flow_message ch msg)
  then have "map_of (sub_callbacks c) ch \<noteq> None"
    by (simp add: subscriptions_def map_of_eq_None_iff)
  then show ?thesis using message flow_message(1) by blast
next
  case (flow_pmessage pt ch msg)
  then have "map_of (psub_callbacks c) pt \<noteq> None"
    by (simp add: subscriptions_def map_of_eq_None_iff)
  then show ?thesis using pmessage flow_pmessage(1) by blast
next
  case (flow_refusal ws d e)
  then show ?thesis
    using receive_refusal [of c d ws p e] answered by (auto simp: message_packet_def pmessage_packet_def array_def)
next
  case (flow_answer d ws)
  have "getReplyArrayFirstBulkStr p \<noteq> Some ''message'' \<and> getReplyArrayFirstBulkStr p \<noteq> Some ''pmessage''"
    using flow_answer(2)
  proof cases
    case (answers_count k n i)
    then show ?thesis by (cases k) (simp_all add: answer_views)
  qed (simp_all add: answer_views)
  then have "\<nexists>ch msg. p = message_packet ch msg" "\<nexists>pt ch msg. p = pmessage_packet pt ch msg"
    by (auto simp: message_packet_def pmessage_packet_def packet_views)
  then show ?thesis
    using receive_answer [of c d ws p] flow_answer answered by blast
qed

text \<open>C24: in every state a client and its server can reach, with calls, requests, refusals, messages,
  lost connections, failed attempts and new connections in any order, provided that no call was waiting
  when the present connection came up, the client takes the next thing the server has sent; a message on
  a channel and a message on a pattern find the entry of the channel or the pattern, and its callback, where
  one was given, is called with the message and nothing else is called.\<close>

theorem messages_reach_callbacks:
  assumes "pubsub_reachable s" "\<not> stale s" "replies s = p # ps"
  shows "\<exists>c'. sub_onRecvResponse p (client s) = Some c' \<and>
    (\<forall>ch msg. p = message_packet ch msg \<longrightarrow> (\<exists>m. map_of (sub_callbacks (client s)) ch = Some m \<and>
       called c' = called (client s) @ (case m of None \<Rightarrow> [] | Some f \<Rightarrow> [Message f ch msg]))) \<and>
    (\<forall>pt ch msg. p = pmessage_packet pt ch msg \<longrightarrow> (\<exists>m. map_of (psub_callbacks (client s)) pt = Some m \<and>
       called c' = called (client s) @ (case m of None \<Rightarrow> [] | Some f \<Rightarrow> [Pmessage f pt ch msg])))"
proof -
  have "connection s = Up"
    using reachable_in_step [OF assms(1)] assms(3) by (simp add: in_step_def idle_def split: if_split_asm)
  then obtain CP where "flow (subscriptions (client s)) (waiting (client s)) (p # ps) (requests s) CP"
    using reachable_agrees [OF assms(1)] assms(2,3) unfolding agrees_def by auto
  then show ?thesis
  proof (cases rule: flow_first)
    case (message ch msg m)
    then show ?thesis
      by (cases m) (auto simp: receive_message message_inject)
  next
    case (pmessage pt ch msg m)
    then show ?thesis
      by (cases m) (auto simp: receive_pmessage message_inject message_inject(3) [symmetric])
  qed auto
qed

text \<open>C25: while the connection is up, provided that no call was waiting when it came up, and once no request
  and no reply is on its way, no call waits, and the channels and patterns for which the client keeps a
  callback contain those the server takes it to be subscribed to; they are the same if the server has refused
  no request on this connection. New connections, which subscribe anew, keep this so.\<close>

theorem subscriptions_agree:
  assumes "pubsub_reachable s" "connection s = Up" "\<not> stale s" "requests s = []" "replies s = []"
  shows "waiting (client s) = [] \<and> channels s \<subseteq> fst ` set (sub_callbacks (client s)) \<and>
    patterns s \<subseteq> fst ` set (psub_callbacks (client s)) \<and>
    (refused s \<or> channels s = fst ` set (sub_callbacks (client s)) \<and> patterns s = fst ` set (psub_callbacks (client s)))"
proof -
  obtain CP where "flow (subscriptions (client s)) (waiting (client s)) (replies s) [] CP"
    "channels s \<subseteq> fst CP" "patterns s \<subseteq> snd CP" "refused s \<or> (channels s, patterns s) = CP"
    using reachable_agrees [OF assms(1-3)] assms(4,5) unfolding agrees_def assms(4) fold_simps(1) by blast
  then show ?thesis
    using assms(5) by cases (auto simp: subscriptions_def)
qed

section \<open>Runs\<close>

lemma take_step: "pubsub_reachable s \<Longrightarrow> pubsub_step s t \<Longrightarrow> t = s' \<Longrightarrow> pubsub_reachable s'"
  by (blast intro: reach_step)

text \<open>A client with these callbacks for channels and these calls waiting.\<close>

definition sample_sub :: "(bytes \<times> nat option) list \<Rightarrow> (nat, nat) sub_call list \<Rightarrow> (nat, nat) sub_client" where
  "sample_sub subs cs = \<lparr>waiting = cs, sub_callbacks = subs, psub_callbacks = [], called = []\<rparr>"

abbreviation set_me :: "bytes list" where
  "set_me \<equiv> [''client'', ''setname'', ''me'']"

lemmas run_simps = sample_sub_def off_def leave_def sub_onConnected_def connect_calls_def subscribe_def
  sub_onRecvResponse_def answer_views call_back_def doPubSubResponse_def subscribed_def

text \<open>The first connection comes up and the client gives itself a name.\<close>

lemma run_up:
  "pubsub_reachable ((off Up (sample_sub [] [Setname_call ''me'']))\<lparr>requests := [set_me]\<rparr>)"
proof -
  have "pubsub_reachable (off No_client (sample_sub [] []))"
    using reach_new by (simp add: sample_sub_def)
  then have "pubsub_reachable (off Connecting (sample_sub [] []))"
    by (rule take_step [OF _ step_connect [where c = "sample_sub [] []"]]) (simp_all add: run_simps)
  then show ?thesis
    by (rule take_step [OF _ step_up [where user = "[]" and password = "[]" and name = "''me''"]]) (simp_all add: run_simps)
qed

lemma run_named:
  "pubsub_reachable (off Up (sample_sub [] []))"
proof (rule take_step [OF take_step [OF run_up step_serve [OF _ answers_setname [of "''OK''" "''me''"], where C = "{}" and P = "{}" and rs = "[]"] refl]
    step_receive [where p = "SimpleStringPacket [] ''OK''" and c' = "sample_sub [] []" and ps = "[]"]])
qed (simp_all add: run_simps)

lemma run_subscribed:
  "pubsub_reachable ((off Up (sample_sub [(''news'', Some 1)] []))\<lparr>channels := {''news''}\<rparr>)"
proof -
  have "pubsub_reachable ((off Up (sample_sub [] [subscribe ''news'' None (Some 1)]))\<lparr>requests := [[''subscribe'', ''news'']]\<rparr>)"
    by (rule take_step [OF run_named step_call [where c = "subscribe ''news'' None (Some 1)" and ws = "[[''subscribe'', ''news'']]"
          and c' = "sample_sub [] [subscribe ''news'' None (Some 1)]"]]) (simp_all add: run_simps)
  from take_step [OF this step_serve [OF _ answers_count [of Sub "''news''" 1], where C = "{''news''}" and P = "{}" and rs = "[]"] refl]
  show ?thesis
    by (rule take_step [OF _ step_receive [where p = "count_reply ''subscribe'' ''news'' 1" and ps = "[]" and
            c' = "sample_sub [(''news'', Some 1)] []"]]) (simp_all add: run_simps doPubSubCount_def packet_views count_reply_size)
qed

theorem messages_reach_callbacks_witness:
  "\<exists>c'. sub_onRecvResponse (message_packet ''news'' ''hi'' :: unit packet) (sample_sub [(''news'', Some 1)] []) =
    Some c' \<and> called c' = [Message 1 ''news'' ''hi'']"
  using messages_reach_callbacks [OF reach_step [OF run_subscribed pubsub_step.step_message [of "''news''" _ "''hi''"]],
      of "message_packet ''news'' ''hi''" "[]"]
  by (auto simp: message_inject sample_sub_def off_def)

theorem subscriptions_agree_witness:
  "waiting (sample_sub [(''news'', Some 1)] []) = [] \<and> {''news''} = fst ` set [(''news'', Some (1 :: nat))]"
  using subscriptions_agree [OF run_subscribed] by (simp add: off_def sample_sub_def)

text \<open>The proviso is needed. A channel that is subscribed to while the connection is down is never asked for:
  on the next connection the call is given the reply to \<open>client setname\<close>, which it does not understand,
  and with nothing on its way any more a call waits that will not be answered.\<close>

lemma call_while_down:
  "\<exists>s :: (nat, nat) pubsub. pubsub_reachable s \<and> connection s = Up \<and> requests s = [] \<and> replies s = [] \<and> \<not> refused s \<and>
     waiting (client s) = [Setname_call ''me''] \<and> channels s = {} \<and>
     called (client s) = [Counted 7 (setErr ''unknown pub/sub response type'')]"
proof -
  let ?c = "subscribe ''news'' (Some 7) (Some 1) :: (nat, nat) sub_call"
  have "pubsub_reachable (off Down (sample_sub [] []))"
    by (rule take_step [OF run_named step_lose [where c = "sample_sub [] []"]]) (simp_all add: run_simps)
  then have "pubsub_reachable (off Down (sample_sub [] [?c]))"
    by (rule take_step [OF _ step_call [where c = ?c and ws = "[]" and c' = "sample_sub [] [?c]"]]) (simp_all add: run_simps)
  then have "pubsub_reachable ((off Up (sample_sub [] [?c, Setname_call ''me'']))\<lparr>stale := True, requests := [set_me]\<rparr>)"
    by (rule take_step [OF _ step_up [where user = "[]" and password = "[]" and name = "''me''"]]) (simp_all add: run_simps)
  from take_step [OF this step_serve [OF _ answers_setname [of "''OK''" "''me''"], where C = "{}" and P = "{}" and rs = "[]"] refl]
  have "pubsub_reachable ((off Up ((sample_sub [] [Setname_call ''me''])\<lparr>called := [Counted 7 (setErr ''unknown pub/sub response type'')]\<rparr>))\<lparr>stale := True\<rparr>)"
    by (rule take_step [OF _ step_receive [where p = "SimpleStringPacket [] ''OK''" and ps = "[]" and c' =
          "(sample_sub [] [Setname_call ''me''])\<lparr>called := [Counted 7 (setErr ''unknown pub/sub response type'')]\<rparr>"]])
      (simp_all add: run_simps getReplyArraySize_def getReplyError_def)
  then show ?thesis
    by - (rule exI, rule conjI, assumption, simp add: run_simps)
qed

end
