(* ===== verification/KeyHash.thy ===== *)
theory KeyHash
  imports CRC
begin

text \<open>
  \<open>common/KeyHash.cpp\<close>: the hash slot of a key. Only the part between the first brace and the
  next closing one counts when there is such a part.
\<close>

definition SLOTS_NUM :: nat where
  "SLOTS_NUM = 16384"

definition SLOTS_NUM_MASK :: "16 word" where
  "SLOTS_NUM_MASK = 0x3FFF"

text \<open>A \<open>size_t\<close> passed as an \<open>int\<close>.\<close>

definition int_of_size :: "nat \<Rightarrow> int" where
  "int_of_size n = sint (word_of_nat n :: 32 word)"

lemma int_of_size_small [simp]: "n < 2 ^ 31 \<Longrightarrow> int_of_size n = int n"
  by (simp add: int_of_size_def signed_of_nat signed_take_bit_int_eq_self)

definition keyHashSlot :: "bytes \<Rightarrow> 16 word" where
  "keyHashSlot key = (case find_byte (CHR ''{'') key of
     None \<Rightarrow> crc16 key (int_of_size (length key)) AND SLOTS_NUM_MASK
   | Some s \<Rightarrow> (case find_byte (CHR ''}'') (drop (s + 1) key) of
       None \<Rightarrow> crc16 key (int_of_size (length key)) AND SLOTS_NUM_MASK
     | Some n \<Rightarrow> (let e = s + 1 + n in
         if e = s + 1 then crc16 key (int_of_size (length key)) AND SLOTS_NUM_MASK
         else crc16 (drop (s + 1) key) (int_of_size (e - s - 1)) AND SLOTS_NUM_MASK)))"

section \<open>The hash tag\<close>

definition hash_tag :: "bytes \<Rightarrow> bytes" where
  "hash_tag key =
    (let rest = tl (dropWhile (\<lambda>c. c \<noteq> CHR ''{'') key); tag = takeWhile (\<lambda>c. c \<noteq> CHR ''}'') rest
     in if CHR ''{'' \<in> set key \<and> CHR ''}'' \<in> set rest \<and> tag \<noteq> [] then tag else key)"

lemma find_byte_Some_While:
  "find_byte c xs = Some k \<Longrightarrow> takeWhile (\<lambda>d. d \<noteq> c) xs = take k xs \<and> dropWhile (\<lambda>d. d \<noteq> c) xs = drop k xs \<and> c \<in> set xs"
proof (induction xs arbitrary: k)
  case (Cons d xs)
  then show ?case by (cases "d = c") auto
qed simp

lemma unat_mask_slots: "unat (w AND SLOTS_NUM_MASK) = unat w mod SLOTS_NUM"
proof -
  have "w AND SLOTS_NUM_MASK = take_bit 14 w" by (simp add: SLOTS_NUM_MASK_def take_bit_eq_mask mask_eq_exp_minus_1)
  then have "unat (w AND SLOTS_NUM_MASK) = take_bit 14 (unat w)" by (simp only: unsigned_take_bit_eq)
  then show ?thesis by (simp add: SLOTS_NUM_def take_bit_eq_mod)
qed

lemma keyHashSlot_less: "unat (keyHashSlot key) < SLOTS_NUM"
  by (auto simp: keyHashSlot_def unat_mask_slots Let_def split: option.splits) (simp_all add: SLOTS_NUM_def)

lemma crc16_register: "crc16 buf len = fold (\<lambda>b c. (shift16 ^^ 8) (c XOR push_bit 8 (word_of_nat (code b)))) (take (nat len) buf) 0"
  by (simp add: crc16_def crc16_loop_register)

lemma keyHashSlot_tag:
  assumes "length key < 2 ^ 31"
  shows "unat (keyHashSlot key) = unat (register16 (hash_tag key)) mod SLOTS_NUM"
proof (cases "find_byte (CHR ''{'') key")
  case None
  then have "hash_tag key = key" by (simp add: hash_tag_def Let_def find_byte_None)
  with None assms show ?thesis by (simp add: keyHashSlot_def unat_mask_slots crc16_register register16_def)
next
  case (Some s)
  note brace = Some find_byte_Some_While [OF Some]
  have rest: "tl (dropWhile (\<lambda>c. c \<noteq> CHR ''{'') key) = drop (s + 1) key"
    using brace by (simp add: tl_drop drop_Suc)
  show ?thesis
  proof (cases "find_byte (CHR ''}'') (drop (s + 1) key)")
    case None
    then have "hash_tag key = key" by (simp add: hash_tag_def Let_def rest find_byte_None)
    with None brace assms show ?thesis by (simp add: keyHashSlot_def unat_mask_slots crc16_register register16_def)
  next
    case (Some n)
    have n: "n + (s + 1) < length key" using find_byte_bound [OF Some] by auto
    then have "takeWhile (\<lambda>c. c \<noteq> CHR ''}'') (drop (s + 1) key) = [] \<longleftrightarrow> n = 0"
      using find_byte_Some_While [OF Some] by auto
    then have "hash_tag key = (if n = 0 then key else take n (drop (s + 1) key))"
      using find_byte_Some_While [OF Some] conjunct2 [OF conjunct2 [OF brace(2)]]
      by (simp add: hash_tag_def Let_def rest)
    with Some brace assms n show ?thesis
      by (simp add: keyHashSlot_def unat_mask_slots crc16_register register16_def)
  qed
qed

text \<open>Keys with one tag share a slot, so that commands on several keys can be served by one node.\<close>

lemma hash_tag_braces:
  "CHR ''{'' \<notin> set a \<Longrightarrow> CHR ''}'' \<notin> set b \<Longrightarrow> b \<noteq> [] \<Longrightarrow> hash_tag (a @ ''{'' @ b @ ''}'' @ c) = b"
  by (auto simp: hash_tag_def Let_def dropWhile_append2 takeWhile_append2 dropWhile_append takeWhile_append)

lemma same_tag_same_slot:
  "hash_tag k1 = hash_tag k2 \<Longrightarrow> length k1 < 2 ^ 31 \<Longrightarrow> length k2 < 2 ^ 31 \<Longrightarrow> keyHashSlot k1 = keyHashSlot k2"
  using keyHashSlot_tag [of k1] keyHashSlot_tag [of k2] by (simp add: word_unat_eq_iff)

text \<open>Keys that share a hash tag have the same slot, whatever surrounds the tag.\<close>

lemma tagged_keys_share_slot:
  assumes "CHR ''{'' \<notin> set a" "CHR ''{'' \<notin> set a'" "CHR ''}'' \<notin> set b" "b \<noteq> []"
    "length (a @ b @ c) < 2 ^ 30" "length (a' @ b @ c') < 2 ^ 30"
  shows "keyHashSlot (a @ ''{'' @ b @ ''}'' @ c) = keyHashSlot (a' @ ''{'' @ b @ ''}'' @ c')"
  using assms by (intro same_tag_same_slot) (simp_all add: hash_tag_braces [of _ b, simplified])

end
