(* ===== verification/SlotsBitset.thy ===== *)
theory SlotsBitset
  imports KeyHash StringUtil
begin

text \<open>
  \<open>common/SlotsBitset.cpp\<close>: a set of hash slots, kept as a \<open>std::bitset\<close> of \<open>SLOTS_NUM\<close> bits, here
  the list of its bits, and its text like \<open>1,2-10,20-30,47\<close>. \<open>absl::StrSplit\<close> is a parameter. The
  loops over all slots are folds over their indices; \<open>scan\<close> is what both of them compute.
\<close>

section \<open>The operations\<close>

type_synonym slots = "bool list"

definition slots_fill :: "slots \<Rightarrow> slots" where
  "slots_fill bs = replicate SLOTS_NUM True"

definition slots_has :: "slots \<Rightarrow> 16 word \<Rightarrow> bool" where
  "slots_has bs n = (if unat n < SLOTS_NUM then bs ! unat n else False)"

definition slots_add :: "slots \<Rightarrow> 16 word \<Rightarrow> bool \<times> slots" where
  "slots_add bs n = (if unat n < SLOTS_NUM \<and> \<not> slots_has bs n then (True, bs[unat n := True]) else (False, bs))"

definition slots_none :: "slots \<Rightarrow> bool" where
  "slots_none bs = list_all (\<lambda>x. \<not> x) bs"

definition slots_all :: "slots \<Rightarrow> bool" where
  "slots_all bs = list_all (\<lambda>x. x) bs"

definition slots_and :: "slots \<Rightarrow> slots \<Rightarrow> slots" where
  "slots_and bs cs = map2 (\<and>) bs cs"

definition slots_or :: "slots \<Rightarrow> slots \<Rightarrow> slots" where
  "slots_or bs cs = map2 (\<or>) bs cs"

definition slots_not :: "slots \<Rightarrow> slots" where
  "slots_not bs = map Not bs"

definition isSlotsConflict :: "slots \<Rightarrow> slots \<Rightarrow> bool" where
  "isSlotsConflict bs cs = list_ex (\<lambda>x. x) (slots_and bs cs)"

text \<open>The loops that set bits no segment has set before; \<open>None\<close> is \<open>return false\<close>.\<close>

fun set_new :: "nat list \<Rightarrow> slots \<Rightarrow> slots option" where
  "set_new [] bs = Some bs"
| "set_new (i # is) bs = (if bs ! i then None else set_new is (bs[i := True]))"

definition load_segment :: "(bytes \<Rightarrow> char \<Rightarrow> bytes list) \<Rightarrow> bytes \<Rightarrow> slots \<Rightarrow> slots option" where
  "load_segment split seg bs =
     (if CHR ''-'' \<in> set seg then
        (case split seg (CHR ''-'') of
           [a, b] \<Rightarrow> do {
             n1 \<leftarrow> string2ll a;
             n2 \<leftarrow> string2ll b;
             if n1 > n2 then None
             else if \<not> (0 \<le> n1 \<and> n1 \<le> n2 \<and> n2 < int SLOTS_NUM) then None
             else set_new [nat n1..<Suc (nat n2)] bs }
         | _ \<Rightarrow> None)
      else do {
        n \<leftarrow> string2ll seg;
        if \<not> (0 \<le> n \<and> n < int SLOTS_NUM) then None else set_new [nat n] bs })"

fun load_segments :: "(bytes \<Rightarrow> char \<Rightarrow> bytes list) \<Rightarrow> bytes list \<Rightarrow> slots \<Rightarrow> slots option" where
  "load_segments split [] bs = Some bs"
| "load_segments split (seg # segs) bs = Option.bind (load_segment split seg bs) (load_segments split segs)"

definition loadFromString :: "(bytes \<Rightarrow> char \<Rightarrow> bytes list) \<Rightarrow> bytes \<Rightarrow> slots \<Rightarrow> bool \<times> slots" where
  "loadFromString split slots bs =
     (if slots = [] then (False, bs)
      else case load_segments split (split slots (CHR '','')) (replicate SLOTS_NUM False) of
        None \<Rightarrow> (False, bs)
      | Some tmp \<Rightarrow> (True, tmp))"

definition to_string_step :: "slots \<Rightarrow> nat \<Rightarrow> bytes \<times> int \<Rightarrow> bytes \<times> int" where
  "to_string_step bs i st =
     (let (str, start) = st;
          (str1, start1) = (if bs ! i \<and> start = - 1 then (str @ (if str \<noteq> [] then '','' else []) @ dec_int (int i), int i) else (str, start));
          (str2, start2) = (if \<not> bs ! i
             then (if start1 \<noteq> - 1 \<and> start1 \<noteq> int i - 1 then str1 @ ''-'' @ dec_int (int i - 1) else str1, - 1)
             else (str1, start1))
      in (if bs ! i \<and> i = SLOTS_NUM - 1 \<and> start2 \<noteq> int i then str2 @ ''-'' @ dec_int (int i) else str2, start2))"

definition toString :: "slots \<Rightarrow> bytes" where
  "toString bs = fst (fold (to_string_step bs) [0..<SLOTS_NUM] ([], - 1))"

text \<open>\<open>result.back().second = n\<close>, on a vector that is not empty.\<close>

definition set_back :: "nat \<Rightarrow> (nat \<times> nat) list \<Rightarrow> (nat \<times> nat) list" where
  "set_back n r = butlast r @ [(fst (last r), n)]"

definition to_ranges_step :: "slots \<Rightarrow> nat \<Rightarrow> (nat \<times> nat) list \<times> int \<Rightarrow> (nat \<times> nat) list \<times> int" where
  "to_ranges_step bs i st =
     (let (result, start) = st;
          (result1, start1) = (if bs ! i \<and> start = - 1 then (result @ [(i, 0)], int i) else (result, start));
          (result2, start2) = (if \<not> bs ! i then (if start1 \<noteq> - 1 then set_back (i - 1) result1 else result1, - 1) else (result1, start1))
      in (if bs ! i \<and> i = SLOTS_NUM - 1 then set_back i result2 else result2, start2))"

definition toRanges :: "slots \<Rightarrow> (nat \<times> nat) list" where
  "toRanges bs = fst (fold (to_ranges_step bs) [0..<SLOTS_NUM] ([], - 1))"

section \<open>The runs of a bitset\<close>

text \<open>The maximal runs of bits that are on among the first ones, with the run that is still open.\<close>

fun scan :: "slots \<Rightarrow> nat \<Rightarrow> (nat \<times> nat) list \<times> nat option" where
  "scan bs 0 = ([], None)"
| "scan bs (Suc k) = (case scan bs k of
     (R, None) \<Rightarrow> if bs ! k then (R, Some k) else (R, None)
   | (R, Some a) \<Rightarrow> if bs ! k then (R, Some a) else (R @ [(a, k - 1)], None))"

definition runs :: "slots \<Rightarrow> (nat \<times> nat) list" where
  "runs bs = (case scan bs SLOTS_NUM of (R, None) \<Rightarrow> R | (R, Some a) \<Rightarrow> R @ [(a, SLOTS_NUM - 1)])"

definition segment :: "nat \<times> nat \<Rightarrow> bytes" where
  "segment r = (if fst r = snd r then dec_nat (fst r) else dec_nat (fst r) @ ''-'' @ dec_nat (snd r))"

text \<open>Ranges in order with gaps between them that hold exactly the bits that are on.\<close>

definition exact_ranges :: "(nat \<times> nat) list \<Rightarrow> slots \<Rightarrow> nat \<Rightarrow> bool" where
  "exact_ranges R bs k \<longleftrightarrow> (\<forall>(a, b) \<in> set R. a \<le> b \<and> b < k) \<and> sorted_wrt (\<lambda>(a, b) (c, d). Suc b < c) R \<and>
     (\<forall>i < k. bs ! i \<longleftrightarrow> (\<exists>(a, b) \<in> set R. a \<le> i \<and> i \<le> b))"

definition scan_ok :: "slots \<Rightarrow> nat \<Rightarrow> (nat \<times> nat) list \<times> nat option \<Rightarrow> bool" where
  "scan_ok bs k st \<longleftrightarrow> (case st of
     (R, None) \<Rightarrow> exact_ranges R bs k \<and> (k = 0 \<or> \<not> bs ! (k - 1))
   | (R, Some a) \<Rightarrow> a < k \<and> exact_ranges R bs a \<and> (a = 0 \<or> \<not> bs ! (a - 1)) \<and> (\<forall>i. a \<le> i \<longrightarrow> i < k \<longrightarrow> bs ! i))"

lemma exact_ranges_close:
  assumes "exact_ranges R bs a" "a \<le> k" "a = 0 \<or> \<not> bs ! (a - 1)" "\<forall>i. a \<le> i \<longrightarrow> i \<le> k \<longrightarrow> bs ! i"
  shows "exact_ranges (R @ [(a, k)]) bs (Suc k)"
proof -
  have "Suc d < a" if "(c, d) \<in> set R" for c d
  proof -
    have "d < a" "c \<le> d" using assms(1) that by (auto simp: exact_ranges_def)
    moreover have "\<exists>(c, e) \<in> set R. c \<le> d \<and> d \<le> e" using that \<open>c \<le> d\<close> by blast
    then have "bs ! d" using assms(1) \<open>d < a\<close> unfolding exact_ranges_def by blast
    ultimately show ?thesis using assms(3) by (cases "Suc d = a") auto
  qed
  moreover have "bs ! i \<longleftrightarrow> (\<exists>(c, d) \<in> set (R @ [(a, k)]). c \<le> i \<and> i \<le> d)" if "i < Suc k" for i
  proof (cases "i < a")
    case True
    then show ?thesis using assms(1) by (simp add: exact_ranges_def)
  next
    case False
    then show ?thesis using that assms(4) by simp
  qed
  moreover have "\<forall>(c, d) \<in> set (R @ [(a, k)]). c \<le> d \<and> d < Suc k"
    using assms(1,2) by (force simp: exact_ranges_def)
  ultimately show ?thesis
    using assms(1) unfolding exact_ranges_def sorted_wrt_append by auto
qed

lemma exact_ranges_off: "exact_ranges R bs k \<Longrightarrow> \<not> bs ! k \<Longrightarrow> exact_ranges R bs (Suc k)"
  by (force simp: exact_ranges_def less_Suc_eq)

lemma scan_is_ok: "scan_ok bs k (scan bs k)"
proof (induction k)
  case (Suc k)
  obtain R s where s: "scan bs k = (R, s)" by fastforce
  show ?case
  proof (cases s)
    case None
    then show ?thesis using Suc s exact_ranges_off [of R bs k] by (auto simp: scan_ok_def less_Suc_eq)
  next
    case (Some a)
    then have "a < k" "exact_ranges R bs a" "a = 0 \<or> \<not> bs ! (a - 1)" "\<forall>i. a \<le> i \<longrightarrow> i < k \<longrightarrow> bs ! i"
      using Suc s by (auto simp: scan_ok_def)
    then have "exact_ranges (R @ [(a, k - 1)]) bs (Suc (k - 1))"
      by (intro exact_ranges_close) auto
    then show ?thesis
      using Suc s Some \<open>a < k\<close> exact_ranges_off [of "R @ [(a, k - 1)]" bs k] by (auto simp: scan_ok_def less_Suc_eq)
  qed
qed (simp add: scan_ok_def exact_ranges_def)

lemma runs_exact: "exact_ranges (runs bs) bs SLOTS_NUM"
proof -
  obtain R s where s: "scan bs SLOTS_NUM = (R, s)" by fastforce
  show ?thesis
  proof (cases s)
    case None
    then show ?thesis using scan_is_ok [of bs SLOTS_NUM] s by (simp add: runs_def scan_ok_def)
  next
    case (Some a)
    then have "a < SLOTS_NUM" "exact_ranges R bs a" "a = 0 \<or> \<not> bs ! (a - 1)" "\<forall>i. a \<le> i \<longrightarrow> i < SLOTS_NUM \<longrightarrow> bs ! i"
      using scan_is_ok [of bs SLOTS_NUM] s by (auto simp: scan_ok_def)
    then have "exact_ranges (R @ [(a, SLOTS_NUM - 1)]) bs (Suc (SLOTS_NUM - 1))"
      by (intro exact_ranges_close) auto
    then show ?thesis using s Some by (simp add: runs_def SLOTS_NUM_def)
  qed
qed

section \<open>The loops compute the runs\<close>

fun start_of :: "nat option \<Rightarrow> int" where
  "start_of None = - 1"
| "start_of (Some a) = int a"

fun open_range :: "nat option \<Rightarrow> (nat \<times> nat) list" where
  "open_range None = []"
| "open_range (Some a) = [(a, 0)]"

fun open_label :: "nat option \<Rightarrow> bytes list" where
  "open_label None = []"
| "open_label (Some a) = [dec_nat a]"

lemma segment_not_Nil [simp]: "segment r \<noteq> []"
  by (simp add: segment_def)

lemma labels_not_Nil: "join d (map segment R @ open_label s) = [] \<longleftrightarrow> map segment R @ open_label s = []"
  by (rule join_eq_Nil) (cases s; auto)

lemma set_back_snoc [simp]: "set_back n (r @ [(a, b)]) = r @ [(a, n)]"
  by (simp add: set_back_def)

lemma scan_open: "scan bs k = (R, Some a) \<Longrightarrow> a < k"
  using scan_is_ok [of bs k] by (simp add: scan_ok_def)

lemma to_ranges_scan:
  "k < SLOTS_NUM \<Longrightarrow> scan bs k = (R, s) \<Longrightarrow>
   fold (to_ranges_step bs) [0..<k] ([], - 1) = (R @ open_range s, start_of s)"
proof (induction k arbitrary: R s)
  case (Suc k)
  obtain Q t where t: "scan bs k = (Q, t)" by fastforce
  then have "fold (to_ranges_step bs) [0..<k] ([], - 1) = (Q @ open_range t, start_of t)"
    using Suc by simp
  then have e: "fold (to_ranges_step bs) [0..<Suc k] ([], - 1) = to_ranges_step bs k (Q @ open_range t, start_of t)"
    by simp
  have "k \<noteq> SLOTS_NUM - 1" using Suc.prems by simp
  then show ?case
    unfolding e using Suc.prems(2) t by (cases t; cases "bs ! k") (auto simp: to_ranges_step_def)
qed simp

lemma toRanges_runs: "toRanges bs = runs bs"
proof -
  let ?k = "SLOTS_NUM - 1"
  obtain R s where s: "scan bs ?k = (R, s)" by fastforce
  have "[0..<SLOTS_NUM] = [0..<?k] @ [?k]" "?k < SLOTS_NUM" "SLOTS_NUM = Suc ?k" by (simp_all add: SLOTS_NUM_def flip: upt_Suc_append)
  then have "toRanges bs = fst (to_ranges_step bs ?k (R @ open_range s, start_of s))"
    using to_ranges_scan [OF _ s] by (simp add: toRanges_def)
  moreover have "scan bs SLOTS_NUM = scan bs (Suc ?k)" by (simp add: SLOTS_NUM_def)
  ultimately show ?thesis
    using s by (cases s) (auto simp: runs_def to_ranges_step_def)
qed

lemma runs_last:
  assumes "scan bs (SLOTS_NUM - 1) = (R, s)"
  shows "runs bs = R @ (if bs ! (SLOTS_NUM - 1) then [(case s of None \<Rightarrow> SLOTS_NUM - 1 | Some a \<Rightarrow> a, SLOTS_NUM - 1)]
    else (case s of None \<Rightarrow> [] | Some a \<Rightarrow> [(a, SLOTS_NUM - 1 - 1)]))"
proof -
  have "scan bs SLOTS_NUM = scan bs (Suc (SLOTS_NUM - 1))" by (simp add: SLOTS_NUM_def)
  then have "scan bs SLOTS_NUM = (case (R, s) of
       (R, None) \<Rightarrow> if bs ! (SLOTS_NUM - 1) then (R, Some (SLOTS_NUM - 1)) else (R, None)
     | (R, Some a) \<Rightarrow> if bs ! (SLOTS_NUM - 1) then (R, Some a) else (R @ [(a, SLOTS_NUM - 1 - 1)], None))"
    by (simp only: scan.simps(2) assms)
  then show ?thesis
    unfolding runs_def by (simp split: option.split)
qed

lemma join_segment:
  "join d (map segment R @ [segment (a, b)]) =
     (if a = b then join d (map segment R @ [dec_nat a]) else join d (map segment R @ [dec_nat a]) @ ''-'' @ dec_nat b)"
  by (simp add: segment_def join_snoc)

lemma join_segments_eq_Nil: "join d (map segment R) = [] \<longleftrightarrow> R = []"
  using labels_not_Nil [of d R None] by simp

lemma string_on:
  assumes "bs ! k"
  shows "k \<noteq> SLOTS_NUM - 1 \<Longrightarrow> to_string_step bs k (join (CHR '','') (map segment R), - 1) =
      (join (CHR '','') (map segment R @ [dec_nat k]), int k)"
    and "k \<noteq> SLOTS_NUM - 1 \<Longrightarrow> to_string_step bs k (str, int a) = (str, int a)"
    and "k = SLOTS_NUM - 1 \<Longrightarrow> fst (to_string_step bs k (join (CHR '','') (map segment R), - 1)) =
      join (CHR '','') (map segment (R @ [(k, k)]))"
    and "k = SLOTS_NUM - 1 \<Longrightarrow> a < k \<Longrightarrow> fst (to_string_step bs k (join (CHR '','') (map segment R @ [dec_nat a]), int a)) =
      join (CHR '','') (map segment (R @ [(a, k)]))"
  using assms by (auto simp: to_string_step_def join_segments_eq_Nil join_snoc [of _ _ "dec_nat _"] join_segment dec_int_nonneg)

lemma string_off:
  assumes "\<not> bs ! k"
  shows "to_string_step bs k (str, - 1) = (str, - 1)"
    and "a < k \<Longrightarrow> to_string_step bs k (join (CHR '','') (map segment R @ [dec_nat a]), int a) =
      (join (CHR '','') (map segment (R @ [(a, k - 1)])), - 1)"
  using assms
  by (auto simp: to_string_step_def join_segment dec_int_nonneg nat_diff_distrib' split: if_split)

lemma to_string_scan:
  "k < SLOTS_NUM \<Longrightarrow> scan bs k = (R, s) \<Longrightarrow>
   fold (to_string_step bs) [0..<k] ([], - 1) = (join (CHR '','') (map segment R @ open_label s), start_of s)"
proof (induction k arbitrary: R s)
  case (Suc k)
  obtain Q t where t: "scan bs k = (Q, t)" by fastforce
  then have "fold (to_string_step bs) [0..<k] ([], - 1) = (join (CHR '','') (map segment Q @ open_label t), start_of t)"
    using Suc by simp
  then have e: "fold (to_string_step bs) [0..<Suc k] ([], - 1) =
      to_string_step bs k (join (CHR '','') (map segment Q @ open_label t), start_of t)"
    by simp
  have "k \<noteq> SLOTS_NUM - 1" using Suc.prems by simp
  then show ?case
    unfolding e using Suc.prems(2) t scan_open [of bs k Q]
    by (cases t; cases "bs ! k") (auto simp del: map_append simp: string_on string_off)
qed (simp add: join_def)

lemma toString_runs: "toString bs = join (CHR '','') (map segment (runs bs))"
proof -
  let ?k = "SLOTS_NUM - 1"
  obtain R s where s: "scan bs ?k = (R, s)" by fastforce
  have "[0..<SLOTS_NUM] = [0..<?k] @ [?k]" "?k < SLOTS_NUM" by (simp_all add: SLOTS_NUM_def flip: upt_Suc_append)
  then have e: "toString bs = fst (to_string_step bs ?k (join (CHR '','') (map segment R @ open_label s), start_of s))"
    using to_string_scan [OF _ s] by (simp add: toString_def)
  show ?thesis
    unfolding e runs_last [OF s] using scan_open [of bs ?k R] s
    by (cases s; cases "bs ! ?k") (simp_all del: map_append add: string_on string_off)
qed

section \<open>Reading the text back\<close>

lemma set_new_fresh:
  "distinct is \<Longrightarrow> \<forall>i \<in> set is. i < length bs \<and> \<not> bs ! i \<Longrightarrow>
   set_new is bs = Some (map (\<lambda>i. bs ! i \<or> i \<in> set is) [0..<length bs])"
proof (induction "is" arbitrary: bs)
  case Nil
  show ?case by (simp add: map_nth)
next
  case (Cons i "is")
  then have "set_new is (bs[i := True]) = Some (map (\<lambda>j. bs[i := True] ! j \<or> j \<in> set is) [0..<length bs])"
    by (subst Cons.IH) (auto simp: nth_list_update)
  with Cons.prems show ?case
    by (auto simp: nth_list_update)
qed

lemma no_minus: "CHR ''-'' \<notin> set (dec_nat n)" "CHR '','' \<notin> set (dec_nat n)"
  using dec_nat_digits [of "CHR ''-''" n] dec_nat_digits [of "CHR '',''" n] by (auto simp: is_digit_def code_def)

lemma string2ll_slot: "n < SLOTS_NUM \<Longrightarrow> string2ll (dec_nat n) = Some (int n)"
  by (simp add: string2ll_iff dec_int_nonneg int64_range_def SLOTS_NUM_def)

definition covered :: "(nat \<times> nat) list \<Rightarrow> nat \<Rightarrow> bool" where
  "covered R i \<longleftrightarrow> (\<exists>(a, b) \<in> set R. a \<le> i \<and> i \<le> b)"

context str_split
begin

lemma load_segment_segment:
  assumes "a \<le> b" "b < SLOTS_NUM"
  shows "load_segment split (segment (a, b)) bs = set_new [a..<Suc b] bs"
proof (cases "a = b")
  case True
  then show ?thesis
    using assms by (simp add: load_segment_def segment_def no_minus string2ll_slot)
next
  case False
  have "split (dec_nat a @ CHR ''-'' # dec_nat b) (CHR ''-'') = [dec_nat a, dec_nat b]"
    by (rule split_two) (simp_all add: no_minus)
  then show ?thesis
    using assms False by (simp add: load_segment_def segment_def string2ll_slot)
qed

lemma load_segments_ranges:
  "length bs = SLOTS_NUM \<Longrightarrow> \<forall>(a, b) \<in> set R. a \<le> b \<and> b < SLOTS_NUM \<Longrightarrow> sorted_wrt (\<lambda>(a, b) (c, d). Suc b < c) R \<Longrightarrow>
    \<forall>i. covered R i \<longrightarrow> \<not> bs ! i \<Longrightarrow>
    load_segments split (map segment R) bs = Some (map (\<lambda>i. bs ! i \<or> covered R i) [0..<SLOTS_NUM])"
proof (induction R arbitrary: bs)
  case Nil
  then show ?case by (simp add: covered_def map_nth flip: Nil(1))
next
  case (Cons r R)
  obtain a b where r: "r = (a, b)" by fastforce
  have cov: "covered (r # R) i \<longleftrightarrow> a \<le> i \<and> i \<le> b \<or> covered R i" for i
    by (simp add: covered_def r)
  have apart: "\<not> covered R i" if "i \<le> b" for i
    using Cons.prems(3) that by (fastforce simp: covered_def r)
  let ?cs = "map (\<lambda>i. bs ! i \<or> i \<in> set [a..<Suc b]) [0..<SLOTS_NUM]"
  have "load_segment split (segment r) bs = Some ?cs"
  proof -
    have "\<forall>i \<in> set [a..<Suc b]. i < length bs \<and> \<not> bs ! i"
      using Cons.prems(1,2,4) by (auto simp: cov [unfolded r] r)
    then show ?thesis
      using Cons.prems(1,2) set_new_fresh [of "[a..<Suc b]" bs] by (simp add: load_segment_segment r del: upt_Suc)
  qed
  moreover have "load_segments split (map segment R) ?cs = Some (map (\<lambda>i. ?cs ! i \<or> covered R i) [0..<SLOTS_NUM])"
  proof (rule Cons.IH)
    show "\<forall>i. covered R i \<longrightarrow> \<not> ?cs ! i"
    proof (intro allI impI)
      fix i
      assume "covered R i"
      then have "i < SLOTS_NUM" "\<not> i \<le> b" "\<not> bs ! i"
        using Cons.prems(2,4) apart by (auto simp: cov) (fastforce simp: covered_def)
      then show "\<not> ?cs ! i" by simp
    qed
  qed (use Cons.prems in auto)
  ultimately show ?case
    by (auto simp: cov)
qed

end

section \<open>What the bitset is promised\<close>

text \<open>The ranges of a slot set. \<open>toRanges\<close> gives non-empty ranges of slots in increasing order, with at
  least one slot between two of them, so as few as possible, and a slot is in the set exactly when one of
  them holds it.\<close>

lemma ranges_are_exact:
  "sorted_wrt (\<lambda>(a, b) (c, d). Suc b < c) (toRanges bs) \<and> list_all (\<lambda>(a, b). a \<le> b \<and> b < SLOTS_NUM) (toRanges bs) \<and>
   filter (\<lambda>i. bs ! i) [0..<SLOTS_NUM] = filter (\<lambda>i. list_ex (\<lambda>(a, b). a \<le> i \<and> i \<le> b) (toRanges bs)) [0..<SLOTS_NUM]"
proof -
  have e: "exact_ranges (toRanges bs) bs SLOTS_NUM"
    by (simp add: toRanges_runs runs_exact)
  then have "bs ! i \<longleftrightarrow> list_ex (\<lambda>(a, b). a \<le> i \<and> i \<le> b) (toRanges bs)" if "i < SLOTS_NUM" for i
    using that by (simp add: exact_ranges_def list_ex_iff)
  then show ?thesis
    using e by (auto simp: exact_ranges_def list_all_iff intro: filter_cong)
qed

lemma ranges_on: "bs ! i \<Longrightarrow> i < SLOTS_NUM \<Longrightarrow> runs bs \<noteq> []"
  using runs_exact [of bs] by (auto simp: exact_ranges_def)

text \<open>C27: the text of a slot set. \<open>loadFromString\<close> reads the text that \<open>toString\<close> writes for any set of slots
  but the empty one, whatever set it is read into, and gets the same set; it relies on \<open>absl::StrSplit\<close> only
  for undoing the joining of pieces that do not contain the delimiter.\<close>

theorem slots_text_roundtrip:
  assumes "str_split split" "length bs = SLOTS_NUM" "\<not> slots_none bs"
  shows "loadFromString split (toString bs) old = (True, bs)"
proof -
  let ?R = "runs bs"
  have e: "exact_ranges ?R bs SLOTS_NUM" by (rule runs_exact)
  obtain i where "i < SLOTS_NUM" "bs ! i"
    using assms(2,3) by (auto simp: slots_none_def list_all_length)
  then have R: "?R \<noteq> []" by (rule ranges_on [rotated])
  have "CHR '','' \<notin> set (segment r)" for r by (simp add: segment_def no_minus)
  then have "split (toString bs) (CHR '','') = map segment ?R"
    using str_split.split_join [OF assms(1)] R unfolding toString_runs by simp
  moreover have "toString bs \<noteq> []" by (simp add: toString_runs join_segments_eq_Nil R)
  moreover have "load_segments split (map segment ?R) (replicate SLOTS_NUM False) = Some bs"
  proof -
    have "load_segments split (map segment ?R) (replicate SLOTS_NUM False) =
        Some (map (\<lambda>i. replicate SLOTS_NUM False ! i \<or> covered ?R i) [0..<SLOTS_NUM])"
    proof (rule str_split.load_segments_ranges [OF assms(1)])
      show "\<forall>i. covered ?R i \<longrightarrow> \<not> replicate SLOTS_NUM False ! i"
        using e by (auto simp: exact_ranges_def covered_def)
    qed (use e in \<open>simp_all add: exact_ranges_def\<close>)
    also have "map (\<lambda>i. replicate SLOTS_NUM False ! i \<or> covered ?R i) [0..<SLOTS_NUM] = bs"
      using e assms(2) by (intro nth_equalityI) (simp_all add: exact_ranges_def covered_def)
    finally show ?thesis .
  qed
  ultimately show ?thesis by (simp add: loadFromString_def)
qed

theorem slots_text_roundtrip_witness:
  "loadFromString split_on (toString (replicate SLOTS_NUM True)) [] = (True, replicate SLOTS_NUM True)"
  by (rule slots_text_roundtrip [OF split_on.str_split_axioms]) (simp_all add: slots_none_def list_all_length exI [of _ 0] SLOTS_NUM_def)

text \<open>The set of no slots has the empty text, which is not read back.\<close>

lemma no_slots_text: "slots_none bs \<Longrightarrow> length bs = SLOTS_NUM \<Longrightarrow> loadFromString split (toString bs) old = (False, old)"
proof -
  assume "slots_none bs" "length bs = SLOTS_NUM"
  then have off: "\<not> bs ! i" if "i < SLOTS_NUM" for i
    using that by (simp add: slots_none_def list_all_length)
  have "runs bs = []"
  proof (cases "runs bs")
    case (Cons r R)
    obtain a b where "r = (a, b)" by fastforce
    then have "a < SLOTS_NUM" "bs ! a"
      using runs_exact [of bs] Cons by (auto simp: exact_ranges_def)
    with off show ?thesis by blast
  qed
  then show ?thesis by (simp add: loadFromString_def toString_runs)
qed

text \<open>The other operations are those of a set.\<close>

lemma slots_add_set:
  "length bs = SLOTS_NUM \<Longrightarrow> slots_has (snd (slots_add bs n)) m \<longleftrightarrow> slots_has bs m \<or> m = n \<and> unat n < SLOTS_NUM"
  "fst (slots_add bs n) \<longleftrightarrow> unat n < SLOTS_NUM \<and> \<not> slots_has bs n"
  by (auto simp: slots_add_def slots_has_def nth_list_update dest: unsigned_word_eqI)

lemma slots_ops_set:
  assumes "length bs = SLOTS_NUM" "length cs = SLOTS_NUM"
  shows "slots_has (slots_and bs cs) n \<longleftrightarrow> slots_has bs n \<and> slots_has cs n"
    "slots_has (slots_or bs cs) n \<longleftrightarrow> slots_has bs n \<or> slots_has cs n"
    "unat n < SLOTS_NUM \<Longrightarrow> slots_has (slots_not bs) n \<longleftrightarrow> \<not> slots_has bs n"
    "slots_has (slots_fill bs) n \<longleftrightarrow> unat n < SLOTS_NUM"
  using assms by (simp_all add: slots_has_def slots_and_def slots_or_def slots_not_def slots_fill_def)

lemma slots_conflict:
  assumes "length bs = SLOTS_NUM" "length cs = SLOTS_NUM"
  shows "isSlotsConflict bs cs \<longleftrightarrow> (\<exists>n. slots_has bs n \<and> slots_has cs n)"
proof
  assume "isSlotsConflict bs cs"
  then obtain i where "i < SLOTS_NUM" "bs ! i" "cs ! i"
    using assms by (auto simp: isSlotsConflict_def slots_and_def list_ex_length)
  then show "\<exists>n. slots_has bs n \<and> slots_has cs n"
    by (intro exI [of _ "word_of_nat i"]) (simp add: slots_has_def unat_of_nat SLOTS_NUM_def)
next
  assume "\<exists>n. slots_has bs n \<and> slots_has cs n"
  then show "isSlotsConflict bs cs"
    using assms by (auto simp: isSlotsConflict_def slots_and_def slots_has_def list_ex_length split: if_splits)
qed

end
