(* ===== verification/Sha256.thy ===== *)
theory Sha256
  imports Endian
begin

text \<open>
  The SHA-256 part of \<open>common/Sha.cpp\<close>: the compression function on the words of a block, the context
  that takes a message piece by piece, and the padding at the end. The reference is the standard's:
  pad the whole message and run the compression function over its blocks. Lemmas are about the
  context; \<open>hashed\<close> relates it to the bytes it has taken.
\<close>

unbundle bit_operations_syntax

type_synonym octets = "8 word list"

section \<open>Blocks and padding\<close>

fun blocks :: "octets \<Rightarrow> octets list" where
  "blocks m = (if length m < 64 then [] else take 64 m # blocks (drop 64 m))"

declare blocks.simps [simp del]

definition be32 :: "octets \<Rightarrow> nat \<Rightarrow> 32 word" where
  "be32 d j = push_bit 24 (ucast (d ! j)) OR push_bit 16 (ucast (d ! (j + 1))) OR push_bit 8 (ucast (d ! (j + 2))) OR ucast (d ! (j + 3))"

definition be64_octets :: "64 word \<Rightarrow> octets" where
  "be64_octets n = map (\<lambda>i. ucast (drop_bit (56 - 8 * i) n)) [0..<8]"

definition be32_octets :: "32 word \<Rightarrow> octets" where
  "be32_octets n = map (\<lambda>i. ucast (drop_bit (24 - 8 * i) n)) [0..<4]"

text \<open>A one bit, the fewest zero bits, and the length of the message in bits.\<close>

definition pad :: "octets \<Rightarrow> octets" where
  "pad m = m @ 0x80 # replicate ((119 - length m mod 64) mod 64) 0 @ be64_octets (word_of_nat (8 * length m))"

section \<open>The compression function\<close>

definition ROTRIGHT :: "32 word \<Rightarrow> nat \<Rightarrow> 32 word" where
  "ROTRIGHT a b = drop_bit b a OR push_bit (32 - b) a"

definition CH :: "32 word \<Rightarrow> 32 word \<Rightarrow> 32 word \<Rightarrow> 32 word" where
  "CH x y z = (x AND y) XOR (NOT x AND z)"

definition MAJ :: "32 word \<Rightarrow> 32 word \<Rightarrow> 32 word \<Rightarrow> 32 word" where
  "MAJ x y z = (x AND y) XOR (x AND z) XOR (y AND z)"

definition EP0 :: "32 word \<Rightarrow> 32 word" where "EP0 x = ROTRIGHT x 2 XOR ROTRIGHT x 13 XOR ROTRIGHT x 22"
definition EP1 :: "32 word \<Rightarrow> 32 word" where "EP1 x = ROTRIGHT x 6 XOR ROTRIGHT x 11 XOR ROTRIGHT x 25"
definition SIG0 :: "32 word \<Rightarrow> 32 word" where "SIG0 x = ROTRIGHT x 7 XOR ROTRIGHT x 18 XOR drop_bit 3 x"
definition SIG1 :: "32 word \<Rightarrow> 32 word" where "SIG1 x = ROTRIGHT x 17 XOR ROTRIGHT x 19 XOR drop_bit 10 x"

definition k256 :: "32 word list" where
  "k256 =
     0x428a2f98 # 0x71374491 # 0xb5c0fbcf # 0xe9b5dba5 # 0x3956c25b # 0x59f111f1 # 0x923f82a4 # 0xab1c5ed5
     # 0xd807aa98 # 0x12835b01 # 0x243185be # 0x550c7dc3 # 0x72be5d74 # 0x80deb1fe # 0x9bdc06a7 # 0xc19bf174
     # 0xe49b69c1 # 0xefbe4786 # 0x0fc19dc6 # 0x240ca1cc # 0x2de92c6f # 0x4a7484aa # 0x5cb0a9dc # 0x76f988da
     # 0x983e5152 # 0xa831c66d # 0xb00327c8 # 0xbf597fc7 # 0xc6e00bf3 # 0xd5a79147 # 0x06ca6351 # 0x14292967
     # 0x27b70a85 # 0x2e1b2138 # 0x4d2c6dfc # 0x53380d13 # 0x650a7354 # 0x766a0abb # 0x81c2c92e # 0x92722c85
     # 0xa2bfe8a1 # 0xa81a664b # 0xc24b8b70 # 0xc76c51a3 # 0xd192e819 # 0xd6990624 # 0xf40e3585 # 0x106aa070
     # 0x19a4c116 # 0x1e376c08 # 0x2748774c # 0x34b0bcb5 # 0x391c0cb3 # 0x4ed8aa4a # 0x5b9cca4f # 0x682e6ff3
     # 0x748f82ee # 0x78a5636f # 0x84c87814 # 0x8cc70208 # 0x90befffa # 0xa4506ceb # 0xbef9a3f7 # 0xc67178f2 # []"

definition sha256_words :: "octets \<Rightarrow> 32 word list" where
  "sha256_words d = fold (\<lambda>i m. m @ [SIG1 (m ! (i - 2)) + m ! (i - 7) + SIG0 (m ! (i - 15)) + m ! (i - 16)]) [16..<64]
     (map (\<lambda>i. be32 d (4 * i)) [0..<16])"

fun sha256_round :: "32 word list \<Rightarrow> nat \<Rightarrow> 32 word list \<Rightarrow> 32 word list" where
  "sha256_round m i [a, b, c, d, e, f, g, h] =
     (let t1 = h + EP1 e + CH e f g + k256 ! i + m ! i;
          t2 = EP0 a + MAJ a b c
      in [t1 + t2, a, b, c, d + t1, e, f, g])"
| "sha256_round m i s = s"

definition sha256_transform :: "octets \<Rightarrow> 32 word list \<Rightarrow> 32 word list" where
  "sha256_transform d state = map2 (+) state (fold (sha256_round (sha256_words d)) [0..<64] state)"

section \<open>The context\<close>

record sha256_ctx =
  data :: octets
  datalen :: nat
  bitlen :: "64 word"
  hash_state :: "32 word list"

definition sha256_start :: "32 word list" where
  "sha256_start = [0x6a09e667, 0xbb67ae85, 0x3c6ef372, 0xa54ff53a, 0x510e527f, 0x9b05688c, 0x1f83d9ab, 0x5be0cd19]"

text \<open>The bytes of the block are not initialised: they are an argument.\<close>

definition sha256_init :: "octets \<Rightarrow> sha256_ctx" where
  "sha256_init junk = \<lparr>data = junk, datalen = 0, bitlen = 0, hash_state = sha256_start\<rparr>"

definition sha256_byte :: "8 word \<Rightarrow> sha256_ctx \<Rightarrow> sha256_ctx" where
  "sha256_byte x ctx =
     (let ctx1 = ctx\<lparr>data := (data ctx)[datalen ctx := x], datalen := datalen ctx + 1\<rparr>
      in if datalen ctx1 = 64
         then ctx1\<lparr>hash_state := sha256_transform (data ctx1) (hash_state ctx1), bitlen := bitlen ctx1 + 512, datalen := 0\<rparr>
         else ctx1)"

text \<open>The index is a 32-bit integer and the length is not, so the loop need not end.\<close>

partial_function (option) sha256_update_loop :: "octets \<Rightarrow> 32 word \<Rightarrow> sha256_ctx \<Rightarrow> sha256_ctx option" where
  "sha256_update_loop d i ctx =
     (if unat i < length d then sha256_update_loop d (i + 1) (sha256_byte (d ! unat i) ctx) else Some ctx)"

definition sha256_update :: "octets \<Rightarrow> sha256_ctx \<Rightarrow> sha256_ctx option" where
  "sha256_update d ctx = sha256_update_loop d 0 ctx"

text \<open>Write \<open>x\<close> at \<open>i\<close> and zeros from there up to \<open>n\<close>.\<close>

definition put_padding :: "nat \<Rightarrow> nat \<Rightarrow> octets \<Rightarrow> octets" where
  "put_padding i n d = fold (\<lambda>j d. d[j := 0]) [Suc i..<n] (d[i := 0x80])"

definition put_length :: "64 word \<Rightarrow> octets \<Rightarrow> octets" where
  "put_length n d = fold (\<lambda>i d. d[63 - i := ucast (drop_bit (8 * i) n)]) [0..<8] d"

definition sha256_final :: "sha256_ctx \<Rightarrow> octets" where
  "sha256_final ctx =
     (let (d, st) = (if datalen ctx < 56 then (put_padding (datalen ctx) 56 (data ctx), hash_state ctx)
        else (let d = put_padding (datalen ctx) 64 (data ctx)
              in (replicate 56 0 @ drop 56 d, sha256_transform d (hash_state ctx))));
          n = bitlen ctx + word_of_nat (datalen ctx * 8);
          st1 = sha256_transform (put_length n d) st
      in concat (map be32_octets st1))"

section \<open>The standard\<close>

definition sha256 :: "octets \<Rightarrow> octets" where
  "sha256 m = concat (map be32_octets (fold sha256_transform (blocks (pad m)) sha256_start))"

section \<open>The context follows the message\<close>

lemma blocks_short: "length m < 64 \<Longrightarrow> blocks m = []"
  by (simp add: blocks.simps)

lemma blocks_one: "length m = 64 \<Longrightarrow> blocks m = [m]"
  by (simp add: blocks.simps [of m] blocks_short)

lemma blocks_append: "length p mod 64 = 0 \<Longrightarrow> blocks (p @ r) = blocks p @ blocks r"
proof (induction p rule: blocks.induct)
  case (1 p)
  show ?case
  proof (cases "length p < 64")
    case True
    with "1.prems" show ?thesis by (simp add: blocks_short)
  next
    case False
    moreover have "length (drop 64 p) mod 64 = 0" using "1.prems" False by (simp add: le_mod_geq)
    ultimately show ?thesis
      using "1.IH" by (simp add: blocks.simps [of "p @ r"] blocks.simps [of p])
  qed
qed

definition whole :: "octets \<Rightarrow> nat" where
  "whole m = 64 * (length m div 64)"

lemma whole_le: "whole m \<le> length m"
  by (simp add: whole_def)

lemma whole_split: "take (whole m) m @ drop (whole m) m = m" "length (take (whole m) m) mod 64 = 0"
  "length (drop (whole m) m) = length m mod 64"
proof -
  show "length (take (whole m) m) mod 64 = 0" using whole_le [of m] by (simp only: length_take min_absorb2) (simp add: whole_def)
  show "length (drop (whole m) m) = length m mod 64" by (simp only: length_drop whole_def minus_mult_div_eq_mod)
qed simp

lemma whole_snoc:
  "whole (m @ [x]) = (if Suc (length m mod 64) = 64 then whole m + 64 else whole m)"
  "length (m @ [x]) mod 64 = (if Suc (length m mod 64) = 64 then 0 else Suc (length m mod 64))"
  by (simp_all add: whole_def div_Suc mod_Suc)

lemma blocks_whole: "blocks m = blocks (take (whole m) m)"
proof -
  have "blocks m = blocks (take (whole m) m) @ blocks (drop (whole m) m)"
    using blocks_append [OF whole_split(2)] whole_split(1) by metis
  then show ?thesis using blocks_short [of "drop (whole m) m"] whole_split(3) [of m] by simp
qed

lemma blocks_tail: "blocks (m @ t) = blocks m @ blocks (drop (whole m) m @ t)"
  using blocks_append [OF whole_split(2) [of m], of "drop (whole m) m @ t"] by (simp flip: blocks_whole append_assoc)

definition hashed :: "octets \<Rightarrow> sha256_ctx \<Rightarrow> bool" where
  "hashed m ctx \<longleftrightarrow> length (data ctx) = 64 \<and> datalen ctx = length m mod 64 \<and>
     take (datalen ctx) (data ctx) = drop (whole m) m \<and>
     hash_state ctx = fold sha256_transform (blocks m) sha256_start \<and>
     bitlen ctx = word_of_nat (8 * whole m)"

lemma hashed_init: "length junk = 64 \<Longrightarrow> hashed [] (sha256_init junk)"
  by (simp add: hashed_def sha256_init_def whole_def blocks_short)

lemma hashed_byte:
  assumes "hashed m ctx"
  shows "hashed (m @ [x]) (sha256_byte x ctx)"
proof -
  let ?r = "drop (whole m) m"
  let ?d = "(data ctx)[datalen ctx := x]"
  have l: "length (data ctx) = 64" "datalen ctx = length m mod 64" "take (datalen ctx) (data ctx) = ?r"
    using assms unfolding hashed_def by blast+
  then have lt: "datalen ctx < length (data ctx)" by simp
  then have d: "take (Suc (datalen ctx)) ?d = ?r @ [x]"
    by (simp add: take_Suc_conv_app_nth l(3))
  show ?thesis
  proof (cases "Suc (datalen ctx) = 64")
    case True
    then have "?d = ?r @ [x]" using d l(1) by (metis length_list_update order_refl take_all)
    moreover have "blocks (m @ [x]) = blocks m @ [?r @ [x]]"
      using True l(2) whole_split(3) [of m] by (subst blocks_tail) (simp add: blocks_one)
    moreover have "length (m @ [x]) = whole (m @ [x])"
      using True l(2) whole_split(3) [of m] whole_le [of m] by (simp only: whole_snoc length_drop) simp
    ultimately show ?thesis
      using assms True l(2) unfolding hashed_def whole_snoc by (simp add: sha256_byte_def Let_def)
  next
    case False
    moreover have "blocks (m @ [x]) = blocks m"
      using False l(1,2) lt whole_split(3) [of m] by (subst blocks_tail) (simp add: blocks_short)
    ultimately show ?thesis
      using assms d l(2) whole_le [of m] unfolding hashed_def whole_snoc by (simp add: sha256_byte_def Let_def)
  qed
qed

lemma hashed_bytes: "hashed m ctx \<Longrightarrow> hashed (m @ d) (fold sha256_byte d ctx)"
proof (induction d arbitrary: m ctx)
  case (Cons x d)
  from Cons.IH [OF hashed_byte [OF Cons.prems, of x]] show ?case by simp
qed simp

lemma sha256_update_loop_fold:
  assumes "length d < 2 ^ 32"
  shows "unat i \<le> length d \<Longrightarrow> sha256_update_loop d i ctx = Some (fold sha256_byte (drop (unat i) d) ctx)"
proof (induction "length d - unat i" arbitrary: i ctx)
  case 0
  then show ?case by (simp add: sha256_update_loop.simps)
next
  case (Suc n)
  then have lt: "unat i < length d" by simp
  have "Suc (unat i) < 2 ^ LENGTH(32)" using lt assms by simp
  then have next_i: "unat (i + 1) = Suc (unat i)" by (simp add: unat_word_ariths)
  then have "sha256_update_loop d (i + 1) (sha256_byte (d ! unat i) ctx) =
      Some (fold sha256_byte (drop (unat (i + 1)) d) (sha256_byte (d ! unat i) ctx))"
    using Suc(2) lt by (intro Suc(1)) simp_all
  with lt next_i show ?case
    by (simp add: sha256_update_loop.simps [of d i] Cons_nth_drop_Suc [symmetric])
qed

lemma sha256_update_hashed:
  "hashed m ctx \<Longrightarrow> length d < 2 ^ 32 \<Longrightarrow> \<exists>ctx'. sha256_update d ctx = Some ctx' \<and> hashed (m @ d) ctx'"
  using sha256_update_loop_fold [of d 0 ctx] hashed_bytes [of m ctx d] by (simp add: sha256_update_def)

text \<open>A piece of four gigabytes or more is never taken.\<close>

lemma sha256_update_loop_short:
  assumes "sha256_update_loop d i ctx = Some ctx'"
  shows "length d < 2 ^ 32"
proof (rule sha256_update_loop.raw_induct [where P = "\<lambda>d i ctx ctx'. length d < 2 ^ 32", OF _ assms])
  fix f :: "octets \<Rightarrow> 32 word \<Rightarrow> sha256_ctx \<Rightarrow> sha256_ctx option" and d i ctx ctx'
  assume IH: "\<And>d i ctx ctx'. f d i ctx = Some ctx' \<Longrightarrow> length d < 2 ^ 32"
    and f: "(if unat i < length d then f d (i + 1) (sha256_byte (d ! unat i) ctx) else Some ctx) = Some ctx'"
  have "unat i < 2 ^ LENGTH(32)" by (rule unsigned_less)
  then show "length d < 2 ^ 32" using f by (cases "unat i < length d") (auto dest: IH)
qed

lemma sha256_update_endless: "2 ^ 32 \<le> length d \<Longrightarrow> sha256_update d ctx = None"
  unfolding sha256_update_def by (metis not_le not_None_eq sha256_update_loop_short)

section \<open>The end of a message\<close>

lemma fold_zeros:
  "i \<le> n \<Longrightarrow> n \<le> length d \<Longrightarrow> fold (\<lambda>j d. d[j := 0]) [i..<n] d = take i d @ replicate (n - i) 0 @ drop n d"
proof (induction n)
  case (Suc n)
  show ?case
  proof (cases "i = Suc n")
    case False
    then have "fold (\<lambda>j d. d[j := 0]) [i..<n] d = take i d @ replicate (n - i) 0 @ drop n d"
      using Suc by simp
    moreover have "drop n d = d ! n # drop (Suc n) d" using Suc.prems by (simp add: Cons_nth_drop_Suc)
    ultimately show ?thesis
      using False Suc.prems by (simp add: list_update_append Suc_diff_le replicate_append_same)
  qed (use Suc.prems in simp)
qed simp

lemma put_padding_eq:
  assumes "i < n" "n \<le> length d"
  shows "put_padding i n d = take i d @ 0x80 # replicate (n - Suc i) 0 @ drop n d"
proof -
  have "put_padding i n d = take (Suc i) (d[i := 0x80]) @ replicate (n - Suc i) 0 @ drop n (d[i := 0x80])"
    unfolding put_padding_def using assms by (intro fold_zeros) auto
  then show ?thesis
    using assms by (simp add: take_Suc_conv_app_nth)
qed

lemma be64_octets_expand:
  "be64_octets n = [ucast (drop_bit 56 n), ucast (drop_bit 48 n), ucast (drop_bit 40 n), ucast (drop_bit 32 n),
     ucast (drop_bit 24 n), ucast (drop_bit 16 n), ucast (drop_bit 8 n), ucast n]"
  by (simp add: be64_octets_def eval_nat_numeral upt_rec [of 0])

lemma put_length_eq:
  assumes "length d = 64"
  shows "put_length n d = take 56 d @ be64_octets n"
proof -
  obtain a b c e f g h i where l: "drop 56 d = [a, b, c, e, f, g, h, i]"
    using list8 [of "drop 56 d"] assms by auto
  have "put_length n (take 56 d @ drop 56 d) = take 56 d @ be64_octets n"
    unfolding l be64_octets_expand using assms
    by (simp add: put_length_def upt_conv_Cons list_update_append)
  then show ?thesis by simp
qed

lemma length_be64_octets [simp]: "length (be64_octets n) = 8"
  by (simp add: be64_octets_def)

lemma sha256_final_hashed:
  assumes "hashed m ctx"
  shows "sha256_final ctx = sha256 m"
proof -
  let ?r = "drop (whole m) m"
  let ?n = "word_of_nat (8 * length m) :: 64 word"
  define k where "k = datalen ctx"
  have l: "length (data ctx) = 64" "k = length m mod 64" "take k (data ctx) = ?r"
    "hash_state ctx = fold sha256_transform (blocks m) sha256_start"
    using assms unfolding hashed_def k_def by blast+
  have k: "length ?r = k" "k < 64" by (simp_all add: whole_split(3) l(2) del: length_drop)
  have "whole m + k = length m"
    by (simp add: whole_def l(2))
  then have n: "bitlen ctx + word_of_nat (k * 8) = ?n"
    using assms unfolding hashed_def by (metis add_mult_distrib2 mult.commute of_nat_add)
  have e: "sha256 m = concat (map be32_octets (fold sha256_transform
      (blocks (?r @ 0x80 # replicate ((119 - k) mod 64) 0 @ be64_octets ?n)) (hash_state ctx)))"
    unfolding sha256_def pad_def l(4) using blocks_tail [of m "0x80 # replicate ((119 - k) mod 64) 0 @ be64_octets ?n"]
    by (simp add: l(2))
  show ?thesis
  proof (cases "k < 56")
    case True
    then have "(119 - k) mod 64 = 55 - k" by (simp add: mod_if)
    moreover have "put_length ?n (put_padding k 56 (data ctx)) = ?r @ 0x80 # replicate (55 - k) 0 @ be64_octets ?n"
    proof -
      have "length (?r @ 0x80 # replicate (55 - k) 0) = 56" using True k by simp
      moreover have "put_padding k 56 (data ctx) = (?r @ 0x80 # replicate (55 - k) 0) @ drop 56 (data ctx)"
        using True l k by (simp add: put_padding_eq)
      ultimately show ?thesis
        using l(1) by (subst put_length_eq) (simp_all del: append_assoc)
    qed
    ultimately show ?thesis
      unfolding e sha256_final_def using True k n by (simp add: Let_def blocks_one flip: k_def)
  next
    case False
    then have z: "(119 - k) mod 64 = 63 - k + 56" using k by (simp add: mod_if)
    let ?b = "?r @ 0x80 # replicate (63 - k) 0"
    have "put_padding k 64 (data ctx) = ?b"
      using l k by (simp add: put_padding_eq)
    moreover have "put_length ?n (replicate 56 0 @ drop 56 ?b) = replicate 56 0 @ be64_octets ?n"
      using k by (simp add: put_length_eq)
    moreover have "blocks (?b @ (replicate 56 0 @ be64_octets ?n)) = [?b, replicate 56 0 @ be64_octets ?n]"
      using k by (subst blocks_append) (simp_all add: blocks_one)
    ultimately show ?thesis
      unfolding e sha256_final_def z replicate_add using False n by (simp add: Let_def flip: k_def)
  qed
qed

text \<open>The standard's example.\<close>

lemma sha256_abc: "sha256 [0x61, 0x62, 0x63] =
  [0xba, 0x78, 0x16, 0xbf, 0x8f, 0x01, 0xcf, 0xea, 0x41, 0x41, 0x40, 0xde, 0x5d, 0xae, 0x22, 0x23,
   0xb0, 0x03, 0x61, 0xa3, 0x96, 0x17, 0x7a, 0x9c, 0xb4, 0x10, 0xff, 0x61, 0xf2, 0x00, 0x15, 0xad]"
  by code_simp

section \<open>A message in pieces\<close>

fun sha256_updates :: "octets list \<Rightarrow> sha256_ctx \<Rightarrow> sha256_ctx option" where
  "sha256_updates [] ctx = Some ctx"
| "sha256_updates (d # ds) ctx = Option.bind (sha256_update d ctx) (sha256_updates ds)"

lemma sha256_updates_hashed:
  "hashed m ctx \<Longrightarrow> \<forall>d \<in> set ds. length d < 2 ^ 32 \<Longrightarrow>
   \<exists>ctx'. sha256_updates ds ctx = Some ctx' \<and> hashed (m @ concat ds) ctx'"
proof (induction ds arbitrary: m ctx)
  case (Cons d ds)
  then obtain ctx1 where ctx1: "sha256_update d ctx = Some ctx1" "hashed (m @ d) ctx1"
    using sha256_update_hashed [of m ctx d] by auto
  show ?case
    using Cons.IH [OF ctx1(2)] Cons.prems(2) ctx1(1) by simp
qed simp

text \<open>SHA-256. However a message is cut into pieces, each of less than four gigabytes, and whatever the
  block held before, taking the pieces one after the other returns, and the digest at the end is the
  compression function run over the blocks of the padded message, with its length in bits as a 64-bit
  integer in the last eight bytes.\<close>

lemma sha256_of_pieces:
  assumes "length junk = 64" "\<forall>d \<in> set ds. length d < 2 ^ 32"
  shows "map_option sha256_final (sha256_updates ds (sha256_init junk)) = Some (sha256 (concat ds))"
proof -
  obtain ctx where "sha256_updates ds (sha256_init junk) = Some ctx" "hashed (concat ds) ctx"
    using sha256_updates_hashed [OF hashed_init [OF assms(1)] assms(2)] by auto
  then show ?thesis by (simp add: sha256_final_hashed)
qed

end
