(* ===== verification/Sha1.thy ===== *)
theory Sha1
  imports Sha256
begin

text \<open>
  The SHA-1 part of \<open>common/Sha.cpp\<close>: the unrolled compression function, which renames its five
  registers instead of moving them and keeps the message schedule in the sixteen words of the block,
  the context and its end, and the digests made of it. The reference is the standard's schedule of
  eighty words and its five moving registers, run over the blocks of the padded message.
\<close>

section \<open>The compression function\<close>

definition rol :: "32 word \<Rightarrow> nat \<Rightarrow> 32 word" where
  "rol v n = push_bit n v OR drop_bit (32 - n) v"

text \<open>The union of the block and sixteen words, on a little-endian host.\<close>

definition le32 :: "octets \<Rightarrow> nat \<Rightarrow> 32 word" where
  "le32 d j = ucast (d ! j) OR push_bit 8 (ucast (d ! (j + 1))) OR push_bit 16 (ucast (d ! (j + 2))) OR push_bit 24 (ucast (d ! (j + 3)))"

definition blk0 :: "nat \<Rightarrow> 32 word list \<Rightarrow> 32 word list" where
  "blk0 i l = l[i := (rol (l ! i) 24 AND 0xFF00FF00) OR (rol (l ! i) 8 AND 0x00FF00FF)]"

definition blk :: "nat \<Rightarrow> 32 word list \<Rightarrow> 32 word list" where
  "blk i l = l[i mod 16 := rol (l ! ((i + 13) mod 16) XOR l ! ((i + 8) mod 16) XOR l ! ((i + 2) mod 16) XOR l ! (i mod 16)) 1]"

text \<open>One of the eighty macro calls, on the registers \<open>a\<close> to \<open>e\<close> and the block: call number \<open>i\<close> names
  them in the order of \<open>register i\<close>.\<close>

definition register :: "nat \<Rightarrow> nat \<Rightarrow> nat" where
  "register i n = (n + 4 * i) mod 5"

definition macro_value :: "nat \<Rightarrow> 32 word \<Rightarrow> 32 word \<Rightarrow> 32 word \<Rightarrow> 32 word" where
  "macro_value i w x y =
     (if i < 20 then ((w AND (x XOR y)) XOR y)
      else if i < 40 then (w XOR x XOR y)
      else if i < 60 then (((w OR x) AND y) OR (w AND x))
      else (w XOR x XOR y))"

definition macro_constant :: "nat \<Rightarrow> 32 word" where
  "macro_constant i =
     (if i < 20 then 0x5A827999 else if i < 40 then 0x6ED9EBA1 else if i < 60 then 0x8F1BBCDC else 0xCA62C1D6)"

definition sha1_macro :: "nat \<Rightarrow> 32 word list \<times> 32 word list \<Rightarrow> 32 word list \<times> 32 word list" where
  "sha1_macro i st =
     (let (regs, block) = st;
          v = regs ! register i 0; w = regs ! register i 1; x = regs ! register i 2; y = regs ! register i 3;
          block1 = (if i < 16 then blk0 i block else blk i block);
          z = regs ! register i 4 + macro_value i w x y + block1 ! (i mod 16) + macro_constant i + rol v 5
      in (regs[register i 4 := z, register i 1 := rol w 30], block1))"

definition sha1_transform :: "octets \<Rightarrow> 32 word list \<Rightarrow> 32 word list" where
  "sha1_transform buffer state =
     map2 (+) state (fst (fold sha1_macro [0..<80] (state, map (\<lambda>i. le32 buffer (4 * i)) [0..<16])))"

section \<open>The context\<close>

record sha1_ctx =
  sha1_state :: "32 word list"
  count0 :: "32 word"
  count1 :: "32 word"
  buffer :: octets

definition sha1_start :: "32 word list" where
  "sha1_start = [0x67452301, 0xEFCDAB89, 0x98BADCFE, 0x10325476, 0xC3D2E1F0]"

definition sha1_init :: "octets \<Rightarrow> sha1_ctx" where
  "sha1_init junk = \<lparr>sha1_state = sha1_start, count0 = 0, count1 = 0, buffer = junk\<rparr>"

text \<open>\<open>memcpy(&buffer[j], d, length d)\<close>; \<open>None\<close> past the end of the buffer.\<close>

definition copy_to :: "octets \<Rightarrow> nat \<Rightarrow> octets \<Rightarrow> octets option" where
  "copy_to b j d = (if j + length d \<le> length b then Some (take j b @ d @ drop (j + length d) b) else None)"

text \<open>The blocks that are hashed where they are; \<open>None\<close> if they are not there or the loop does not end.\<close>

partial_function (option) sha1_blocks :: "octets \<Rightarrow> 32 word \<Rightarrow> 32 word list \<Rightarrow> (32 word list \<times> 32 word) option" where
  "sha1_blocks d i state =
     (if i + 63 < word_of_nat (length d)
      then (if unat i + 64 \<le> length d then sha1_blocks d (i + 64) (sha1_transform (take 64 (drop (unat i) d)) state) else None)
      else Some (state, i))"

definition sha1_update :: "octets \<Rightarrow> sha1_ctx \<Rightarrow> sha1_ctx option" where
  "sha1_update d ctx =
     (let len = word_of_nat (length d) :: 32 word;
          c0 = count0 ctx + push_bit 3 len;
          ctx1 = ctx\<lparr>count0 := c0, count1 := (if c0 < count0 ctx then count1 ctx + 1 else count1 ctx) + drop_bit 29 len\<rparr>;
          j = drop_bit 3 (count0 ctx) AND 63
      in if j + len > 63 then do {
           let i = 64 - j;
           ensure (unat i \<le> length d);
           b \<leftarrow> copy_to (buffer ctx) (unat j) (take (unat i) d);
           (state, i') \<leftarrow> sha1_blocks d i (sha1_transform b (sha1_state ctx));
           b' \<leftarrow> copy_to b 0 (drop (unat i') d);
           Some (ctx1\<lparr>sha1_state := state, buffer := b'\<rparr>) }
         else do {
           b \<leftarrow> copy_to (buffer ctx) (unat j) d;
           Some (ctx1\<lparr>buffer := b\<rparr>) })"

partial_function (option) sha1_fill :: "sha1_ctx \<Rightarrow> sha1_ctx option" where
  "sha1_fill ctx =
     (if count0 ctx AND 504 \<noteq> 448 then Option.bind (sha1_update [0] ctx) sha1_fill else Some ctx)"

text \<open>The context is wiped at the end: only the digest is left.\<close>

definition sha1_final :: "sha1_ctx \<Rightarrow> octets option" where
  "sha1_final ctx = do {
     let finalcount = map (\<lambda>i. ucast (drop_bit ((3 - i mod 4) * 8) (if i \<ge> 4 then count0 ctx else count1 ctx))) [0..<8];
     ctx1 \<leftarrow> sha1_update [0x80] ctx;
     ctx2 \<leftarrow> sha1_fill ctx1;
     ctx3 \<leftarrow> sha1_update finalcount ctx2;
     Some (map (\<lambda>i. ucast (drop_bit ((3 - i mod 4) * 8) (sha1_state ctx3 ! (i div 4)))) [0..<20]) }"

definition hex_digest :: "octets \<Rightarrow> bytes" where
  "hex_digest hash = concat (map (\<lambda>x. [''0123456789abcdef'' ! unat (drop_bit 4 (x AND 0xF0)), ''0123456789abcdef'' ! unat (x AND 0xF)]) hash)"

definition sha1_once :: "octets \<Rightarrow> octets \<Rightarrow> octets option" where
  "sha1_once junk d = Option.bind (sha1_update d (sha1_init junk)) sha1_final"

definition sha1hex :: "octets \<Rightarrow> octets \<Rightarrow> bytes option" where
  "sha1hex junk script = map_option (\<lambda>hash. hex_digest hash @ [CHR 0x00]) (sha1_once junk script)"

definition xorDigest :: "octets \<Rightarrow> octets \<Rightarrow> octets \<Rightarrow> octets option" where
  "xorDigest junk digest d = map_option (map2 (XOR) digest) (sha1_once junk d)"

definition mixDigest :: "octets \<Rightarrow> octets \<Rightarrow> octets \<Rightarrow> octets option" where
  "mixDigest junk digest d = Option.bind (xorDigest junk digest d) (sha1_once junk)"

section \<open>The standard\<close>

fun sha1_word :: "octets \<Rightarrow> nat \<Rightarrow> 32 word" where
  "sha1_word d t = (if t < 16 then be32 d (4 * t)
     else rol (sha1_word d (t - 3) XOR sha1_word d (t - 8) XOR sha1_word d (t - 14) XOR sha1_word d (t - 16)) 1)"

declare sha1_word.simps [simp del]

definition Ch :: "32 word \<Rightarrow> 32 word \<Rightarrow> 32 word \<Rightarrow> 32 word" where
  "Ch x y z = (x AND y) XOR (NOT x AND z)"

definition Parity :: "32 word \<Rightarrow> 32 word \<Rightarrow> 32 word \<Rightarrow> 32 word" where
  "Parity x y z = x XOR y XOR z"

definition Maj :: "32 word \<Rightarrow> 32 word \<Rightarrow> 32 word \<Rightarrow> 32 word" where
  "Maj x y z = (x AND y) XOR (x AND z) XOR (y AND z)"

definition sha1_function :: "nat \<Rightarrow> 32 word \<Rightarrow> 32 word \<Rightarrow> 32 word \<Rightarrow> 32 word" where
  "sha1_function t = [Ch, Parity, Maj, Parity] ! (t div 20)"

definition sha1_constant :: "nat \<Rightarrow> 32 word" where
  "sha1_constant t = [0x5a827999, 0x6ed9eba1, 0x8f1bbcdc, 0xca62c1d6] ! (t div 20)"

fun sha1_round :: "octets \<Rightarrow> nat \<Rightarrow> 32 word list \<Rightarrow> 32 word list" where
  "sha1_round m t [a, b, c, d, e] =
     [rol a 5 + sha1_function t b c d + e + sha1_constant t + sha1_word m t, a, rol b 30, c, d]"
| "sha1_round m t s = s"

definition sha1_compress :: "octets \<Rightarrow> 32 word list \<Rightarrow> 32 word list" where
  "sha1_compress m h = map2 (+) h (fold (sha1_round m) [0..<80] h)"

definition sha1 :: "octets \<Rightarrow> octets" where
  "sha1 m = concat (map be32_octets (fold sha1_compress (blocks (pad m)) sha1_start))"

section \<open>The unrolled compression function is the standard's\<close>

lemma byte_swap:
  "(rol (le32 d j) 24 AND 0xFF00FF00) OR (rol (le32 d j) 8 AND 0x00FF00FF) = be32 d j"
proof (rule bit_word_eqI)
  fix n
  assume n: "n < LENGTH(32)"
  have m: "(0xFF00FF00 :: 32 word) = push_bit 24 (mask 8) OR push_bit 8 (mask 8)"
    "(0x00FF00FF :: 32 word) = push_bit 16 (mask 8) OR mask 8"
    by (simp_all add: mask_eq_exp_minus_1)
  have b: "\<not> bit x k" if "8 \<le> k" for k and x :: "8 word"
    using that bit_imp_le_length [of x k] by auto
  have "\<exists>k < 8. n = k \<or> n = k + 8 \<or> n = k + 16 \<or> n = k + 24"
  proof (intro exI conjI)
    have "n div 8 = 0 \<or> n div 8 = 1 \<or> n div 8 = 2 \<or> n div 8 = 3" using n by (simp add: div_less_iff_less_mult) linarith
    then show "n = n mod 8 \<or> n = n mod 8 + 8 \<or> n = n mod 8 + 16 \<or> n = n mod 8 + 24"
      using mod_mult_div_eq [of n 8] by (elim disjE) (simp_all only: mult.right_neutral, simp_all)
  qed simp
  then obtain k where k: "k < 8" "n = k \<or> n = k + 8 \<or> n = k + 16 \<or> n = k + 24" by blast
  show "bit ((rol (le32 d j) 24 AND 0xFF00FF00) OR (rol (le32 d j) 8 AND 0x00FF00FF)) n \<longleftrightarrow> bit (be32 d j) n"
    using k(2) unfolding le32_def be32_def rol_def m by (elim disjE) (use k(1) in \<open>simp_all add: bit_simps b\<close>)
qed

lemma macro_value_function: "i < 80 \<Longrightarrow> macro_value i x y z = sha1_function i x y z"
proof -
  have ch: "((x AND (y XOR z)) XOR z) = Ch x y z" and maj: "((x OR y) AND z) OR (x AND y) = Maj x y z"
    by (rule bit_word_eqI; auto simp: Ch_def Maj_def bit_simps)+
  assume "i < 80"
  then consider "i < 20" "i div 20 = 0" | "\<not> i < 20" "i < 40" "i div 20 = 1" | "\<not> i < 40" "i < 60" "i div 20 = 2" | "\<not> i < 60" "i div 20 = 3"
    by linarith
  then show "macro_value i x y z = sha1_function i x y z"
    by cases (simp_all add: macro_value_def sha1_function_def ch maj Parity_def)
qed

lemma macro_constant_constant: "i < 80 \<Longrightarrow> macro_constant i = sha1_constant i"
proof -
  assume "i < 80"
  then consider "i < 20" "i div 20 = 0" | "\<not> i < 20" "i < 40" "i div 20 = 1" | "\<not> i < 40" "i < 60" "i div 20 = 2" | "\<not> i < 60" "i div 20 = 3"
    by linarith
  then show "macro_constant i = sha1_constant i"
    by cases (simp_all add: macro_constant_def sha1_constant_def)
qed

definition schedule_ok :: "octets \<Rightarrow> nat \<Rightarrow> 32 word list \<Rightarrow> bool" where
  "schedule_ok d i block \<longleftrightarrow> length block = 16 \<and> (\<forall>t < i. i \<le> t + 16 \<longrightarrow> block ! (t mod 16) = sha1_word d t) \<and>
     (\<forall>t < 16. i \<le> t \<longrightarrow> block ! t = le32 d (4 * t))"

lemma schedule_step:
  assumes "schedule_ok d i block" "block1 = (if i < 16 then blk0 i block else blk i block)"
  shows "schedule_ok d (Suc i) block1" "block1 ! (i mod 16) = sha1_word d i"
proof -
  have l: "length block = 16" and W: "\<And>t. t < i \<Longrightarrow> i \<le> t + 16 \<Longrightarrow> block ! (t mod 16) = sha1_word d t"
    and le: "\<And>t. t < 16 \<Longrightarrow> i \<le> t \<Longrightarrow> block ! t = le32 d (4 * t)"
    using assms(1) by (auto simp: schedule_ok_def)
  show 1: "block1 ! (i mod 16) = sha1_word d i"
  proof (cases "i < 16")
    case True
    then show ?thesis
      using le [of i] l byte_swap [of d "4 * i"] by (simp add: assms(2) blk0_def sha1_word.simps [of d i])
  next
    case False
    have e: "i + 13 = i - 3 + 16" "i + 8 = i - 8 + 16" "i + 2 = i - 14 + 16" "i = i - 16 + 16"
      using False by linarith+
    have W': "block ! ((i - c) mod 16) = sha1_word d (i - c)" if "0 < c" "c \<le> 16" for c
      by (rule W) (use False that in linarith)+
    have W'': "block ! ((i - 3) mod 16) = sha1_word d (i - 3)" "block ! ((i - 8) mod 16) = sha1_word d (i - 8)"
      "block ! ((i - 14) mod 16) = sha1_word d (i - 14)" "block ! ((i - 16) mod 16) = sha1_word d (i - 16)"
      by (rule W'; simp)+
    have "(i + 13) mod 16 = (i - 3) mod 16" "(i + 8) mod 16 = (i - 8) mod 16" "(i + 2) mod 16 = (i - 14) mod 16"
      by (simp_all only: e(1,2,3) mod_add_self2)
    moreover have "i mod 16 = (i - 16) mod 16"
      using mod_add_self2 [of "i - 16" 16] by (simp only: e(4) [symmetric])
    moreover have "blk i block ! (i mod 16) =
        rol (block ! ((i + 13) mod 16) XOR block ! ((i + 8) mod 16) XOR block ! ((i + 2) mod 16) XOR block ! (i mod 16)) 1"
      unfolding blk_def by (rule nth_list_update_eq) (simp add: l)
    ultimately have "blk i block ! (i mod 16) =
        rol (sha1_word d (i - 3) XOR sha1_word d (i - 8) XOR sha1_word d (i - 14) XOR sha1_word d (i - 16)) 1"
      by (simp only: W'')
    then show ?thesis
      using False by (simp add: assms(2) sha1_word.simps [of d i])
  qed
  have other: "block1 ! k = block ! k" if "k \<noteq> i mod 16" for k
    using that by (cases "i < 16") (simp_all add: assms(2) blk0_def blk_def)
  have "block1 ! (t mod 16) = sha1_word d t" if "t < Suc i" "Suc i \<le> t + 16" for t
  proof (cases "t = i")
    case False
    then have "\<not> 16 dvd i - t" using that by (intro nat_dvd_not_less) auto
    then have "t mod 16 \<noteq> i mod 16" using that mod_eq_dvd_iff_nat [of t i 16] by auto
    then show ?thesis using False that W [of t] by (simp add: other)
  qed (simp add: 1)
  moreover have "block1 ! t = le32 d (4 * t)" if "t < 16" "Suc i \<le> t" for t
    using that le [of t] by (simp add: other)
  ultimately show "schedule_ok d (Suc i) block1"
    using l by (simp add: schedule_ok_def assms(2) blk0_def blk_def)
qed

definition arranged :: "nat \<Rightarrow> 32 word list \<Rightarrow> 32 word list" where
  "arranged i regs = map (\<lambda>n. regs ! register i n) [0..<5]"

lemma register_mod: "register i n = (n + 4 * (i mod 5)) mod 5"
  unfolding register_def by (metis mod_add_right_eq mod_mult_right_eq)

lemma register_row:
  "i mod 5 = 0 \<Longrightarrow> map (register i) [0, 1, 2, 3, 4] = [0, 1, 2, 3, 4]"
  "i mod 5 = 1 \<Longrightarrow> map (register i) [0, 1, 2, 3, 4] = [4, 0, 1, 2, 3]"
  "i mod 5 = 2 \<Longrightarrow> map (register i) [0, 1, 2, 3, 4] = [3, 4, 0, 1, 2]"
  "i mod 5 = 3 \<Longrightarrow> map (register i) [0, 1, 2, 3, 4] = [2, 3, 4, 0, 1]"
  "i mod 5 = 4 \<Longrightarrow> map (register i) [0, 1, 2, 3, 4] = [1, 2, 3, 4, 0]"
  by (simp_all add: register_mod)

lemma arranged_row: "arranged i regs = map ((!) regs) (map (register i) [0, 1, 2, 3, 4])"
proof -
  have "[0..<5] = [0, 1, 2, 3, 4 :: nat]" by code_simp
  then show ?thesis by (simp add: arranged_def)
qed

lemma arranged_id:
  assumes "length regs = 5" "i mod 5 = 0"
  shows "arranged i regs = regs"
proof -
  obtain a b c e f where "regs = [a, b, c, e, f]"
    using assms(1) by (auto simp: length_Suc_conv eval_nat_numeral)
  then show ?thesis
    unfolding arranged_row register_row(1) [OF assms(2)] by simp
qed

lemma arranged_step:
  assumes "length regs = 5" "i < 80" "schedule_ok d i block"
  shows "arranged (Suc i) (fst (sha1_macro i (regs, block))) = sha1_round d i (arranged i regs)"
proof -
  obtain a b c e f where r: "regs = [a, b, c, e, f]"
    using assms(1) by (auto simp: length_Suc_conv eval_nat_numeral)
  have w: "(if i < 16 then blk0 i block else blk i block) ! (i mod 16) = sha1_word d i"
    using schedule_step(2) [OF assms(3) refl] .
  note round = macro_value_function [OF assms(2)] macro_constant_constant [OF assms(2)]
  have "i mod 5 = 0 \<or> i mod 5 = 1 \<or> i mod 5 = 2 \<or> i mod 5 = 3 \<or> i mod 5 = 4" by linarith
  then show ?thesis
    unfolding r sha1_macro_def Let_def prod.case w fst_conv round
    by (elim disjE; simp add: arranged_row register_row mod_Suc; simp add: register_mod mod_Suc add_ac)
qed

lemma sha1_macros:
  assumes "length h = 5"
  shows "i \<le> 80 \<Longrightarrow> \<exists>regs block. fold sha1_macro [0..<i] (h, map (\<lambda>i. le32 d (4 * i)) [0..<16]) = (regs, block) \<and>
    length regs = 5 \<and> arranged i regs = fold (sha1_round d) [0..<i] h \<and> schedule_ok d i block"
proof (induction i)
  case 0
  have "arranged 0 h = h"
    using assms by (simp add: arranged_id)
  then show ?case
    using assms by (simp add: schedule_ok_def)
next
  case (Suc i)
  then obtain regs block where IH: "fold sha1_macro [0..<i] (h, map (\<lambda>i. le32 d (4 * i)) [0..<16]) = (regs, block)"
    "length regs = 5" "arranged i regs = fold (sha1_round d) [0..<i] h" "schedule_ok d i block"
    by auto
  obtain regs1 block1 where s: "sha1_macro i (regs, block) = (regs1, block1)" by fastforce
  then have "length regs1 = 5" "schedule_ok d (Suc i) block1"
    using IH(2) schedule_step(1) [OF IH(4) refl] by (auto simp: sha1_macro_def Let_def)
  moreover have "arranged (Suc i) regs1 = fold (sha1_round d) [0..<Suc i] h"
    using arranged_step [OF IH(2) _ IH(4)] Suc.prems s IH(3) by simp
  ultimately show ?case
    using IH(1) s by simp
qed

lemma sha1_transform_compress: "length h = 5 \<Longrightarrow> sha1_transform d h = sha1_compress d h"
proof -
  assume h: "length h = 5"
  then obtain regs block where "fold sha1_macro [0..<80] (h, map (\<lambda>i. le32 d (4 * i)) [0..<16]) = (regs, block)"
    "length regs = 5" "arranged 80 regs = fold (sha1_round d) [0..<80] h"
    using sha1_macros [of h 80 d] by auto
  moreover have "arranged 80 regs = regs"
    using \<open>length regs = 5\<close> by (simp add: arranged_id)
  ultimately show "sha1_transform d h = sha1_compress d h"
    by (simp only: sha1_transform_def sha1_compress_def fst_conv)
qed

lemma length_sha1_compress [simp]: "length h = 5 \<Longrightarrow> length (sha1_compress d h) = 5"
proof -
  have "length h = 5 \<Longrightarrow> length (fold (sha1_round d) ts h) = 5" for ts
  proof (induction ts arbitrary: h)
    case (Cons t ts)
    then have "length (sha1_round d t h) = 5" by (auto simp: length_Suc_conv eval_nat_numeral)
    then show ?case using Cons.IH by simp
  qed simp
  then show "length h = 5 \<Longrightarrow> length (sha1_compress d h) = 5" by (simp add: sha1_compress_def)
qed

section \<open>The context follows the message\<close>

definition hashed1 :: "octets \<Rightarrow> sha1_ctx \<Rightarrow> bool" where
  "hashed1 m ctx \<longleftrightarrow> length (buffer ctx) = 64 \<and> take (length m mod 64) (buffer ctx) = drop (whole m) m \<and>
     sha1_state ctx = fold sha1_compress (blocks m) sha1_start \<and>
     count0 ctx = word_of_nat (8 * length m) \<and> count1 ctx = word_of_nat (8 * length m div 2 ^ 32)"

lemma hashed1_init: "length junk = 64 \<Longrightarrow> hashed1 [] (sha1_init junk)"
  by (simp add: hashed1_def sha1_init_def whole_def blocks_short)

lemma length_compressed: "length h = 5 \<Longrightarrow> length (fold sha1_compress bs h) = 5"
  by (induction bs arbitrary: h) simp_all

lemma sha1_blocks_run:
  assumes "length d + 63 < 2 ^ 32" "length state = 5"
  shows "unat i \<le> length d \<Longrightarrow> sha1_blocks d i state =
    Some (fold sha1_compress (blocks (drop (unat i) d)) state, i + word_of_nat (whole (drop (unat i) d)))"
  using assms(2)
proof (induction "length d - unat i" arbitrary: i state rule: less_induct)
  case less
  have len: "unat (word_of_nat (length d) :: 32 word) = length d"
    using assms(1) by (simp add: unat_of_nat)
  have i63: "unat (i + 63) = unat i + 63"
    using assms(1) less.prems(1) by (simp add: unat_word_ariths)
  have test: "i + 63 < word_of_nat (length d) \<longleftrightarrow> unat i + 64 \<le> length d"
    by (simp only: word_less_nat_alt len i63) linarith
  show ?case
  proof (cases "unat i + 64 \<le> length d")
    case True
    then have i64: "unat (i + 64) = unat i + 64"
      using assms(1) by (simp add: unat_word_ariths)
    have w: "whole (drop (unat i) d) = 64 + whole (drop (unat (i + 64)) d)"
      using True unfolding i64 whole_def by (simp add: le_div_geq [of 64 "length d - unat i"])
    have b: "blocks (drop (unat i) d) = take 64 (drop (unat i) d) # blocks (drop (unat (i + 64)) d)"
      using True unfolding i64 by (subst blocks.simps) (simp add: add.commute)
    have "sha1_blocks d (i + 64) (sha1_compress (take 64 (drop (unat i) d)) state) =
        Some (fold sha1_compress (blocks (drop (unat (i + 64)) d)) (sha1_compress (take 64 (drop (unat i) d)) state),
          i + 64 + word_of_nat (whole (drop (unat (i + 64)) d)))"
      using True i64 less.prems(2) by (intro less.hyps) simp_all
    then show ?thesis
      using True less.prems(2) by (simp add: sha1_blocks.simps [of d i] test sha1_transform_compress b w)
  next
    case False
    then have "length (drop (unat i) d) < 64" by simp
    then show ?thesis
      using False by (simp add: sha1_blocks.simps [of d i] test blocks_short whole_def)
  qed
qed

lemma carry:
  fixes x y :: nat
  assumes "0 < n"
  shows "(x + y) div n = (if (x + y) mod n < x mod n then x div n + 1 else x div n) + y div n"
proof -
  have e: "(x + y) div n = x div n + y div n + (x mod n + y mod n) div n" by (rule div_add1_eq)
  have r: "x mod n < n" "y mod n < n" using assms by simp_all
  show ?thesis
  proof (cases "x mod n + y mod n < n")
    case True
    then have "(x + y) mod n = x mod n + y mod n" by (metis mod_add_eq mod_less)
    then show ?thesis using e True by simp
  next
    case False
    let ?a = "x mod n + y mod n"
    have "?a mod n = (?a - n) mod n" by (rule le_mod_geq) (use False in linarith)
    moreover have "(?a - n) mod n = ?a - n" by (rule mod_less) (use r False in linarith)
    moreover have "n * Suc 1 = n + n" by simp
    then have "?a div n = 1" by (intro div_nat_eqI) (use r False in linarith)+
    moreover have "(x + y) mod n = ?a mod n" by (rule mod_add_eq [symmetric])
    ultimately have "(x + y) mod n = ?a - n" "?a div n = 1" by (simp_all only:)
    then show ?thesis using e r False by simp
  qed
qed

lemma unat_drop_bit: "unat (drop_bit n w) = unat w div 2 ^ n" for w :: "'a :: len word"
proof -
  have "unat (drop_bit n w) = drop_bit n (take_bit LENGTH('a) (unat w))" by (rule unsigned_drop_bit_eq)
  also have "take_bit LENGTH('a) (unat w) = unat w" by (rule take_bit_nat_eq_self) (rule unsigned_less)
  also have "drop_bit n (unat w) = unat w div 2 ^ n" by (rule drop_bit_eq_div)
  finally show ?thesis .
qed

lemma count_update:
  fixes c :: "32 word"
  assumes "c = word_of_nat (8 * x)" "c0 = c + push_bit 3 (word_of_nat y)" "y < 2 ^ 32"
  shows "c0 = word_of_nat (8 * (x + y))"
    and "(if c0 < c then word_of_nat (8 * x div 2 ^ 32) + 1 else word_of_nat (8 * x div 2 ^ 32)) + drop_bit 29 (word_of_nat y :: 32 word) =
      word_of_nat (8 * (x + y) div 2 ^ 32)"
proof -
  show c0: "c0 = word_of_nat (8 * (x + y))"
    by (simp add: assms(1,2) push_bit_eq_mult algebra_simps)
  have u: "unat (word_of_nat z :: 32 word) = z mod 2 ^ 32" for z by (simp add: unat_of_nat)
  have "c0 < c \<longleftrightarrow> (8 * x + 8 * y) mod 2 ^ 32 < 8 * x mod 2 ^ 32"
    unfolding c0 assms(1) word_less_nat_alt u by (simp add: algebra_simps)
  moreover have "unat (drop_bit 29 (word_of_nat y :: 32 word)) = y div 2 ^ 29"
    using assms(3) by (simp only: unat_drop_bit u mod_less)
  then have "drop_bit 29 (word_of_nat y :: 32 word) = word_of_nat (8 * y div 2 ^ 32)"
    by (intro word_unat_eq_iff [THEN iffD2]) (use assms(3) in \<open>simp add: u\<close>)
  moreover have "8 * (x + y) div 2 ^ 32 = (if (8 * x + 8 * y) mod 2 ^ 32 < 8 * x mod 2 ^ 32 then 8 * x div 2 ^ 32 + 1 else 8 * x div 2 ^ 32) + 8 * y div 2 ^ 32"
    using carry [of "2 ^ 32" "8 * x" "8 * y"] by (simp add: algebra_simps)
  ultimately show "(if c0 < c then word_of_nat (8 * x div 2 ^ 32) + 1 else word_of_nat (8 * x div 2 ^ 32)) + drop_bit 29 (word_of_nat y :: 32 word) =
      word_of_nat (8 * (x + y) div 2 ^ 32)"
    by simp
qed

lemma count_index: "unat (drop_bit 3 (word_of_nat (8 * x) :: 32 word) AND 63) = x mod 64"
proof -
  have "drop_bit 3 (word_of_nat (8 * x) :: 32 word) AND 63 = take_bit 6 (drop_bit 3 (word_of_nat (8 * x)))"
    by (simp add: take_bit_eq_mask mask_eq_exp_minus_1)
  then have "unat (drop_bit 3 (word_of_nat (8 * x) :: 32 word) AND 63) = take_bit 6 (unat (drop_bit 3 (word_of_nat (8 * x) :: 32 word)))"
    by (simp only: unsigned_take_bit_eq)
  also have "\<dots> = unat (drop_bit 3 (word_of_nat (8 * x) :: 32 word)) mod 64"
    by (simp only: take_bit_eq_mod) simp
  finally have "unat (drop_bit 3 (word_of_nat (8 * x) :: 32 word) AND 63) = unat (drop_bit 3 (word_of_nat (8 * x) :: 32 word)) mod 64" .
  moreover have "unat (drop_bit 3 (word_of_nat (8 * x) :: 32 word)) = 8 * x mod 2 ^ 32 div 8"
    unfolding unat_drop_bit unat_of_nat by simp
  moreover have "8 * x mod 2 ^ 32 div 8 = x mod 2 ^ 29"
    using mult_mod_right [of 8 x "2 ^ 29"] by simp
  ultimately show ?thesis by (simp add: mod_mod_cancel)
qed

lemma tail_append: "length p mod 64 = 0 \<Longrightarrow> drop (whole (p @ r)) (p @ r) = drop (whole r) r"
proof -
  assume "length p mod 64 = 0"
  then obtain q where q: "length p = 64 * q" by (auto simp: mod_eq_0_iff_dvd)
  then have "whole (p @ r) = length p + whole r" by (simp add: whole_def div_add1_eq [of "64 * q"])
  then show ?thesis by simp
qed

lemma tail_message: "drop (whole (m @ d)) (m @ d) = drop (whole (drop (whole m) m @ d)) (drop (whole m) m @ d)"
  using tail_append [OF whole_split(2) [of m], of "drop (whole m) m @ d"] by (simp flip: append_assoc)

lemma tail_length: "length m mod 64 = length (drop (whole m) m)"
  by (simp only: whole_split(3))

lemma hashed1_intro:
  assumes "length b = 64" "r = drop (whole m) m" "t = drop (whole (r @ d)) (r @ d)" "take (length t) b = t"
    "s = fold sha1_compress (blocks m @ blocks (r @ d)) sha1_start"
    "c0 = word_of_nat (8 * (length m + length d))" "c1 = word_of_nat (8 * (length m + length d) div 2 ^ 32)"
  shows "hashed1 (m @ d) \<lparr>sha1_state = s, count0 = c0, count1 = c1, buffer = b\<rparr>"
proof -
  have "drop (whole (m @ d)) (m @ d) = t" unfolding assms(2,3) by (rule tail_message)
  moreover have "length (m @ d) mod 64 = length t" using tail_length [of "m @ d"] calculation by (simp only:)
  moreover have "blocks (m @ d) = blocks m @ blocks (r @ d)" unfolding assms(2) by (rule blocks_tail)
  ultimately show ?thesis
    using assms by (simp add: hashed1_def)
qed

lemma copy_to_0: "length t \<le> length b \<Longrightarrow> copy_to b 0 t = Some (t @ drop (length t) b)"
  by (simp add: copy_to_def)

lemma sha1_update_hashed:
  assumes "hashed1 m ctx" "length d + 63 < 2 ^ 32"
  shows "\<exists>ctx'. sha1_update d ctx = Some ctx' \<and> hashed1 (m @ d) ctx'"
proof -
  let ?len = "word_of_nat (length d) :: 32 word"
  let ?j = "drop_bit 3 (count0 ctx) AND 63"
  let ?c0 = "count0 ctx + push_bit 3 ?len"
  let ?c1 = "(if ?c0 < count0 ctx then count1 ctx + 1 else count1 ctx) + drop_bit 29 ?len"
  define r where "r = drop (whole m) m"
  define k where "k = length r"
  have c: "length (buffer ctx) = 64" "take k (buffer ctx) = r" "sha1_state ctx = fold sha1_compress (blocks m) sha1_start"
    "count0 ctx = word_of_nat (8 * length m)" "count1 ctx = word_of_nat (8 * length m div 2 ^ 32)"
    using assms(1) unfolding hashed1_def k_def r_def tail_length by blast+
  have k: "k < 64" unfolding k_def r_def tail_length [symmetric] by simp
  have counts: "?c0 = word_of_nat (8 * (length m + length d))" "?c1 = word_of_nat (8 * (length m + length d) div 2 ^ 32)"
    using count_update [OF c(4) refl, of "length d"] assms(2) unfolding c(5) by simp_all
  have j: "unat ?j = k"
    unfolding c(4) count_index k_def r_def tail_length ..
  have len: "unat ?len = length d"
    using assms(2) by (simp add: unat_of_nat)
  have "unat (?j + ?len) = k + length d"
    using assms(2) k by (simp only: unat_word_ariths j len) simp
  then have test: "?j + ?len > 63 \<longleftrightarrow> 64 \<le> k + length d"
    by (simp add: word_less_nat_alt) linarith
  have s5: "length (sha1_state ctx) = 5"
    unfolding c(3) by (rule length_compressed) (simp add: sha1_start_def)
  show ?thesis
  proof (cases "64 \<le> k + length d")
    case True
    let ?d = "drop (64 - k) d"
    define b where "b = r @ take (64 - k) d"
    define t where "t = drop (whole ?d) ?d"
    define b' where "b' = t @ drop (length t) b"
    have lb: "length b = 64" using True k by (simp add: b_def k_def)
    have lt: "length t < 64" unfolding t_def tail_length [symmetric] by simp
    have j64: "?j \<le> 64" using k by (simp only: word_le_nat_alt j) simp
    have i: "unat (64 - ?j) = 64 - k" by (simp add: unat_sub [OF j64] j)
    have copy1: "copy_to (buffer ctx) (unat ?j) (take (unat (64 - ?j)) d) = Some b"
      using True k c(1,2) by (simp add: copy_to_def i j b_def)
    let ?s = "fold sha1_compress (blocks ?d) (sha1_compress b (sha1_state ctx))"
    let ?i = "64 - ?j + word_of_nat (whole ?d)"
    have run: "sha1_blocks d (64 - ?j) (sha1_transform b (sha1_state ctx)) = Some (?s, ?i)"
      using sha1_blocks_run [OF assms(2), of "sha1_compress b (sha1_state ctx)" "64 - ?j"] True s5
      by (simp add: i sha1_transform_compress)
    have "64 - k + whole ?d \<le> length d" using whole_le [of ?d] True by simp
    then have "unat ?i = 64 - k + whole ?d"
      using assms(2) by (simp add: unat_word_ariths i unat_of_nat)
    then have dd: "drop (unat ?i) d = t" by (simp add: t_def add.commute)
    have copy2: "copy_to b 0 (drop (unat ?i) d) = Some b'"
      unfolding dd b'_def by (rule copy_to_0) (use lb lt in simp)
    have update: "sha1_update d ctx = Some (ctx\<lparr>count0 := ?c0, count1 := ?c1, sha1_state := ?s, buffer := b'\<rparr>)"
      unfolding sha1_update_def Let_def using True
      by (simp add: test i copy1 [unfolded i] run copy2)
    have rd: "r @ d = b @ ?d" by (simp add: b_def)
    have tl: "t = drop (whole (r @ d)) (r @ d)"
      unfolding rd t_def by (rule tail_append [symmetric]) (simp add: lb)
    have "hashed1 (m @ d) \<lparr>sha1_state = ?s, count0 = ?c0, count1 = ?c1, buffer = b'\<rparr>"
    proof (rule hashed1_intro [OF _ r_def tl _ _ counts])
      show "length b' = 64" using lb lt by (simp add: b'_def)
      show "take (length t) b' = t" by (simp add: b'_def)
      show "?s = fold sha1_compress (blocks m @ blocks (r @ d)) sha1_start"
        unfolding rd c(3) using lb by (simp add: blocks_append blocks_one)
    qed
    then show ?thesis using update by (cases ctx) simp
  next
    case False
    let ?b = "r @ d @ drop (k + length d) (buffer ctx)"
    have "copy_to (buffer ctx) (unat ?j) d = Some ?b"
      using False c(1,2) by (simp add: copy_to_def j)
    then have "sha1_update d ctx = Some (ctx\<lparr>count0 := ?c0, count1 := ?c1, buffer := ?b\<rparr>)"
      unfolding sha1_update_def Let_def using False by (simp add: test)
    moreover have "blocks (r @ d) = []" "drop (whole (r @ d)) (r @ d) = r @ d"
      using False by (simp_all add: blocks_short whole_def k_def)
    then have "hashed1 (m @ d) \<lparr>sha1_state = sha1_state ctx, count0 = ?c0, count1 = ?c1, buffer = ?b\<rparr>"
      using False c(1,3) counts by (intro hashed1_intro [OF _ r_def refl]) (simp_all add: k_def)
    ultimately show ?thesis by (cases ctx) simp
  qed
qed

section \<open>The end of a message\<close>

lemma octet:
  "k + 8 \<le> LENGTH('a) \<Longrightarrow> ucast (drop_bit k (word_of_nat x :: 'a :: len word)) = (word_of_nat (x div 2 ^ k) :: 8 word)"
  by (rule bit_word_eqI) (auto simp: bit_simps simp flip: drop_bit_eq_div)

lemma count_octets:
  "map (\<lambda>i. ucast (drop_bit ((3 - i mod 4) * 8) (if i \<ge> 4 then word_of_nat (8 * x) else word_of_nat (8 * x div 2 ^ 32) :: 32 word))) [0..<8] =
     be64_octets (word_of_nat (8 * x))"
  unfolding be64_octets_def
proof (rule map_cong [OF refl])
  fix i :: nat
  assume "i \<in> set [0..<8]"
  then have i: "i < 8" by simp
  show "ucast (drop_bit ((3 - i mod 4) * 8) (if i \<ge> 4 then word_of_nat (8 * x) else word_of_nat (8 * x div 2 ^ 32) :: 32 word)) =
    (ucast (drop_bit (56 - 8 * i) (word_of_nat (8 * x) :: 64 word)) :: 8 word)"
  proof (cases "i \<ge> 4")
    case True
    then have "i mod 4 = i - 4" using i by (simp add: le_mod_geq)
    then have k: "(3 - i mod 4) * 8 = 56 - 8 * i" "56 - 8 * i + 8 \<le> LENGTH(32)" using True by simp_all
    show ?thesis using k(2) unfolding k(1) by (simp only: True if_True) (subst (1 2) octet, simp_all)
  next
    case False
    then have k: "(3 - i mod 4) * 8 = 24 - 8 * i" by simp
    have "8 * x div 2 ^ 32 div 2 ^ (24 - 8 * i) = 8 * x div 2 ^ (32 + (24 - 8 * i))"
      by (simp only: div_mult2_eq power_add)
    moreover have "32 + (24 - 8 * i) = 56 - 8 * i" using False by simp
    ultimately have "8 * x div 2 ^ 32 div 2 ^ (24 - 8 * i) = 8 * x div 2 ^ (56 - 8 * i)" by (simp only:)
    then show ?thesis unfolding k by (simp only: False if_False) (subst (1 2) octet, simp_all)
  qed
qed

lemma fill_test: "(word_of_nat (8 * x) :: 32 word) AND 504 \<noteq> 448 \<longleftrightarrow> x mod 64 \<noteq> 56"
proof -
  let ?y = "drop_bit 3 (word_of_nat (8 * x) :: 32 word) AND 63"
  have "(word_of_nat (8 * x) :: 32 word) AND 504 = push_bit 3 ?y"
  proof -
    have e: "(504 :: 32 word) = push_bit 3 63" by simp
    have "c AND push_bit 3 m = push_bit 3 (drop_bit 3 c AND m)" for c m :: "32 word"
      by (rule bit_word_eqI) (auto simp: bit_simps)
    then show ?thesis unfolding e .
  qed
  then have "unat ((word_of_nat (8 * x) :: 32 word) AND 504) = 8 * (x mod 64)"
    by (simp only: push_bit_eq_mult unat_word_ariths count_index) simp
  then show ?thesis
    by (simp only: word_unat_eq_iff) simp
qed

lemma fill_mod:
  fixes k :: nat
  assumes "k < 64"
  shows "(120 - k) mod 64 = (if k \<le> 56 then 56 - k else 120 - k)"
proof (cases "k \<le> 56")
  case True
  then have "120 - k = 64 + (56 - k)" by simp
  then have "(120 - k) mod 64 = (56 - k) mod 64" by (simp only: mod_add_self1)
  then show ?thesis using True by simp
qed simp

lemma fill_count:
  assumes "k < 64" "Suc n = (120 - k) mod 64"
  shows "n = (120 - (if Suc k = 64 then 0 else Suc k)) mod 64"
proof (cases "Suc k = 64")
  case False
  then have "Suc k < 64" using assms(1) by simp
  then show ?thesis
    using assms unfolding fill_mod [OF assms(1)] by (cases "k < 56"; cases "k = 56") (simp_all only: fill_mod if_False False, auto)
qed (use assms in simp)

lemma sha1_fill_hashed:
  "hashed1 m ctx \<Longrightarrow> \<exists>ctx'. sha1_fill ctx = Some ctx' \<and> hashed1 (m @ replicate ((120 - length m mod 64) mod 64) 0) ctx'"
proof (induction "(120 - length m mod 64) mod 64" arbitrary: m ctx)
  case 0
  then have "length m mod 64 = 56" using fill_mod [of "length m mod 64"] by (simp split: if_splits)
  moreover have "count0 ctx = word_of_nat (8 * length m)" using 0(2) unfolding hashed1_def by blast
  ultimately have "sha1_fill ctx = Some ctx"
    by (subst sha1_fill.simps) (simp only: fill_test if_False simp_thms)
  with 0 show ?case by (simp flip: 0(1))
next
  case (Suc n)
  then have ne: "length m mod 64 \<noteq> 56" by (intro notI) simp
  obtain ctx1 where ctx1: "sha1_update [0] ctx = Some ctx1" "hashed1 (m @ [0]) ctx1"
    using sha1_update_hashed [OF Suc(3), of "[0]"] by auto
  have n: "n = (120 - length (m @ [0]) mod 64) mod 64"
    using fill_count [of "length m mod 64" n] Suc(2) ne by (simp add: mod_Suc)
  have "count0 ctx = word_of_nat (8 * length m)" using Suc(3) unfolding hashed1_def by blast
  then have "sha1_fill ctx = sha1_fill ctx1"
    using ne ctx1(1) by (subst sha1_fill.simps) (simp only: fill_test if_True bind.simps simp_thms)
  moreover have "(m @ [0]) @ replicate n 0 = m @ replicate (Suc n) 0" by simp
  ultimately show ?case
    using Suc(1) [OF n ctx1(2)] Suc(2) n by metis
qed

lemma digest_octets:
  "length s = 5 \<Longrightarrow> map (\<lambda>i. ucast (drop_bit ((3 - i mod 4) * 8) (s ! (i div 4)))) [0..<20] = concat (map be32_octets s)"
proof -
  assume "length s = 5"
  then obtain a b c d e where "s = [a, b, c, d, e]" by (auto simp: length_Suc_conv eval_nat_numeral)
  then show "map (\<lambda>i. ucast (drop_bit ((3 - i mod 4) * 8) (s ! (i div 4)))) [0..<20] = concat (map be32_octets s)"
    by (simp add: be32_octets_def upt_conv_Cons)
qed

lemma sha1_final_hashed:
  assumes "hashed1 m ctx"
  shows "sha1_final ctx = Some (sha1 m)"
proof -
  have counts: "count0 ctx = word_of_nat (8 * length m)" "count1 ctx = word_of_nat (8 * length m div 2 ^ 32)"
    using assms unfolding hashed1_def by blast+
  obtain ctx1 where ctx1: "sha1_update [0x80] ctx = Some ctx1" "hashed1 (m @ [0x80]) ctx1"
    using sha1_update_hashed [OF assms, of "[0x80]"] by auto
  let ?z = "(120 - length (m @ [0x80]) mod 64) mod 64"
  obtain ctx2 where ctx2: "sha1_fill ctx1 = Some ctx2" "hashed1 ((m @ [0x80]) @ replicate ?z 0) ctx2"
    using sha1_fill_hashed [OF ctx1(2)] by blast
  obtain ctx3 where ctx3: "sha1_update (be64_octets (word_of_nat (8 * length m))) ctx2 = Some ctx3"
    "hashed1 (((m @ [0x80]) @ replicate ?z 0) @ be64_octets (word_of_nat (8 * length m))) ctx3"
    using sha1_update_hashed [OF ctx2(2), of "be64_octets (word_of_nat (8 * length m))"] by auto
  have "?z = (119 - length m mod 64) mod 64"
    by (simp add: mod_Suc)
  then have p: "((m @ [0x80]) @ replicate ?z 0) @ be64_octets (word_of_nat (8 * length m)) = pad m"
    by (simp add: pad_def)
  have s: "sha1_state ctx3 = fold sha1_compress (blocks (pad m)) sha1_start"
    using ctx3(2) unfolding p hashed1_def by blast
  have "sha1_final ctx = Some (map (\<lambda>i. ucast (drop_bit ((3 - i mod 4) * 8) (sha1_state ctx3 ! (i div 4)))) [0..<20])"
    unfolding sha1_final_def counts count_octets Let_def ctx1(1) bind.simps ctx2(1) ctx3(1) ..
  then show ?thesis
    unfolding sha1_def s by (subst (asm) digest_octets) (simp_all add: length_compressed sha1_start_def)
qed

section \<open>A message in pieces\<close>

fun sha1_updates :: "octets list \<Rightarrow> sha1_ctx \<Rightarrow> sha1_ctx option" where
  "sha1_updates [] ctx = Some ctx"
| "sha1_updates (d # ds) ctx = Option.bind (sha1_update d ctx) (sha1_updates ds)"

lemma sha1_updates_hashed:
  "hashed1 m ctx \<Longrightarrow> \<forall>d \<in> set ds. length d + 63 < 2 ^ 32 \<Longrightarrow>
   \<exists>ctx'. sha1_updates ds ctx = Some ctx' \<and> hashed1 (m @ concat ds) ctx'"
proof (induction ds arbitrary: m ctx)
  case (Cons d ds)
  then obtain ctx1 where ctx1: "sha1_update d ctx = Some ctx1" "hashed1 (m @ d) ctx1"
    using sha1_update_hashed [of m ctx d] by auto
  show ?case
    using Cons.IH [OF ctx1(2)] Cons.prems(2) ctx1(1) by simp
qed simp

text \<open>C28: SHA-1. However a message is cut into pieces, each at least 63 bytes shorter than four gigabytes, and
  whatever the buffer held before, taking the pieces one after the other and finishing stays within the
  buffer and the pieces and ends, and the digest is the standard's: the eighty rounds on the eighty word
  schedule, run over the blocks of the padded message. The unrolled code never moves a register and keeps
  sixteen words of the schedule.\<close>

theorem sha1_of_pieces:
  assumes "length junk = 64" "\<forall>d \<in> set ds. length d + 63 < 2 ^ 32"
  shows "Option.bind (sha1_updates ds (sha1_init junk)) sha1_final = Some (sha1 (concat ds))"
proof -
  obtain ctx where "sha1_updates ds (sha1_init junk) = Some ctx" "hashed1 (concat ds) ctx"
    using sha1_updates_hashed [OF hashed1_init [OF assms(1)] assms(2)] by auto
  then show ?thesis by (simp add: sha1_final_hashed)
qed

theorem sha1_of_pieces_witness:
  "Option.bind (sha1_updates [[0x61], [], [0x62, 0x63]] (sha1_init (replicate 64 7))) sha1_final = Some (sha1 [0x61, 0x62, 0x63])"
  using sha1_of_pieces [of "replicate 64 7" "[[0x61], [], [0x62, 0x63]]"] by simp

lemma sha1_once_sha1: "length junk = 64 \<Longrightarrow> length d + 63 < 2 ^ 32 \<Longrightarrow> sha1_once junk d = Some (sha1 d)"
  using sha1_update_hashed [OF hashed1_init, of junk d] by (auto simp: sha1_once_def sha1_final_hashed)

lemma mixDigest_sha1:
  assumes "length junk = 64" "length d + 63 < 2 ^ 32" "length digest = 20"
  shows "mixDigest junk digest d = Some (sha1 (map2 (XOR) digest (sha1 d)))"
  using assms by (simp add: mixDigest_def xorDigest_def sha1_once_sha1)

end
