(* ===== verification/Params.thy ===== *)
theory Params
  imports Prelude
begin

text \<open>
  \<open>client/params/\<close>: the optional arguments of the commands. A parameter object keeps the set of
  keywords its builder methods have been called for and the values of these calls;
  \<open>addParamsToArgv\<close> appends the words of the keywords in the set. A value field is not
  initialised by the constructor: the models of the constructors take its first value as an
  argument. \<open>std::to_string\<close> on integers is \<open>dec_int\<close>; on doubles it is the parameter \<open>ds\<close>.
\<close>

section \<open>Keywords\<close>

datatype keyword =
    KW_NX | KW_XX | KW_GT | KW_LT | KW_REPLACE | KW_ABSTTL | KW_IDLETIME | KW_FREQ | KW_MATCH
  | KW_COUNT | KW_TYPE | KW_BY | KW_LIMIT | KW_GET | KW_ASC | KW_DESC | KW_ALPHA | KW_DB
  | KW_START | KW_END | KW_BIT | KW_BYTE | KW_KEEPTTL | KW_EX | KW_PX | KW_EXAT | KW_PXAT
  | KW_PERSIST | KW_BEFORE | KW_AFTER | KW_CH | KW_INCR | KW_BYSCORE | KW_BYLEX | KW_REV
  | KW_WITHSCORES | KW_WEIGHTS | KW_AGGREGATE

record params =
  kwds :: "keyword set"

definition addParams :: "keyword \<Rightarrow> 'a params_scheme \<Rightarrow> 'a params_scheme" where
  "addParams k p = p\<lparr>kwds := insert k (kwds p)\<rparr>"

definition containParams :: "keyword \<Rightarrow> 'a params_scheme \<Rightarrow> bool" where
  "containParams k p \<longleftrightarrow> k \<in> kwds p"

text \<open>The words a keyword adds when it has been set.\<close>

definition words_of :: "keyword \<Rightarrow> 'a params_scheme \<Rightarrow> bytes list \<Rightarrow> bytes list" where
  "words_of k p ws = (if containParams k p then ws else [])"

lemma params_simps [simp]:
  "kwds (addParams k p) = insert k (kwds p)" "containParams k p \<longleftrightarrow> k \<in> kwds p"
  by (simp_all add: addParams_def containParams_def)

section \<open>Enumerations\<close>

datatype bit_operation = AND_op | OR_op | XOR_op | NOT_op

fun bitOperationToString :: "bit_operation \<Rightarrow> bytes" where
  "bitOperationToString AND_op = ''AND''"
| "bitOperationToString OR_op = ''OR''"
| "bitOperationToString XOR_op = ''XOR''"
| "bitOperationToString NOT_op = ''NOT''"

datatype geo_unit = Unit_M | Unit_KM | Unit_FT | Unit_MI

fun geoUnitToString :: "geo_unit \<Rightarrow> bytes" where
  "geoUnitToString Unit_M = ''M''"
| "geoUnitToString Unit_KM = ''KM''"
| "geoUnitToString Unit_FT = ''FT''"
| "geoUnitToString Unit_MI = ''MI''"

datatype list_direction = Dir_BEFORE | Dir_AFTER | Dir_LEFT | Dir_RIGHT

fun listDirectionToString :: "list_direction \<Rightarrow> bytes" where
  "listDirectionToString Dir_BEFORE = ''BEFORE''"
| "listDirectionToString Dir_AFTER = ''AFTER''"
| "listDirectionToString Dir_LEFT = ''LEFT''"
| "listDirectionToString Dir_RIGHT = ''RIGHT''"

datatype zrem_range_option = Rem_BYSCORE | Rem_BYLEX | Rem_BYRANK

fun zremRangeOptionToString :: "zrem_range_option \<Rightarrow> bytes" where
  "zremRangeOptionToString Rem_BYSCORE = ''BYSCORE''"
| "zremRangeOptionToString Rem_BYLEX = ''BYLEX''"
| "zremRangeOptionToString Rem_BYRANK = ''BYRANK''"

section \<open>\<open>ExpireParams\<close>\<close>

type_synonym expire_params = params

definition new_expire_params :: "expire_params" where
  "new_expire_params = \<lparr>kwds = {}\<rparr>"

datatype expire_call =
    Expire_nx
  | Expire_xx
  | Expire_gt
  | Expire_lt

fun call_expire :: "expire_call \<Rightarrow> expire_params \<Rightarrow> expire_params" where
  "call_expire Expire_nx p = addParams KW_NX p"
| "call_expire Expire_xx p = addParams KW_XX p"
| "call_expire Expire_gt p = addParams KW_GT p"
| "call_expire Expire_lt p = addParams KW_LT p"

definition expire_words :: "expire_params \<Rightarrow> bytes list" where
  "expire_words p =
     words_of KW_NX p [''NX'']
   @ words_of KW_XX p [''XX'']
   @ words_of KW_GT p [''GT'']
   @ words_of KW_LT p [''LT'']"

section \<open>\<open>CopyParams\<close>\<close>

record copy_params = params +
  copy_db :: int

definition new_copy_params :: "int \<Rightarrow> copy_params" where
  "new_copy_params db0 = \<lparr>kwds = {}, copy_db = db0\<rparr>"

datatype copy_call =
    Copy_db int
  | Copy_replace

fun call_copy :: "copy_call \<Rightarrow> copy_params \<Rightarrow> copy_params" where
  "call_copy (Copy_db db) p = (addParams KW_DB p)\<lparr>copy_db := db\<rparr>"
| "call_copy Copy_replace p = addParams KW_REPLACE p"

definition copy_words :: "copy_params \<Rightarrow> bytes list" where
  "copy_words p =
     words_of KW_DB p [''DB'', dec_int (copy_db p)]
   @ words_of KW_REPLACE p [''REPLACE'']"

section \<open>\<open>RestoreParams\<close>\<close>

record restore_params = params +
  restore_idletime :: int
  restore_freq :: int

definition new_restore_params :: "int \<Rightarrow> int \<Rightarrow> restore_params" where
  "new_restore_params idletime0 freq0 = \<lparr>kwds = {}, restore_idletime = idletime0, restore_freq = freq0\<rparr>"

datatype restore_call =
    Restore_replace
  | Restore_absttl
  | Restore_idletime int
  | Restore_freq int

fun call_restore :: "restore_call \<Rightarrow> restore_params \<Rightarrow> restore_params" where
  "call_restore Restore_replace p = addParams KW_REPLACE p"
| "call_restore Restore_absttl p = addParams KW_ABSTTL p"
| "call_restore (Restore_idletime idletime) p = (addParams KW_IDLETIME p)\<lparr>restore_idletime := idletime\<rparr>"
| "call_restore (Restore_freq freq) p = (addParams KW_FREQ p)\<lparr>restore_freq := freq\<rparr>"

definition restore_words :: "restore_params \<Rightarrow> bytes list" where
  "restore_words p =
     words_of KW_REPLACE p [''REPLACE'']
   @ words_of KW_ABSTTL p [''ABSTTL'']
   @ words_of KW_IDLETIME p [''IDLETIME'', dec_int (restore_idletime p)]
   @ words_of KW_FREQ p [''FREQ'', dec_int (restore_freq p)]"

section \<open>\<open>ScanParams\<close>\<close>

record scan_params = params +
  scan_match :: bytes
  scan_count :: int
  scan_type :: bytes

definition new_scan_params :: "int \<Rightarrow> scan_params" where
  "new_scan_params cnt0 = \<lparr>kwds = {}, scan_match = [], scan_count = cnt0, scan_type = []\<rparr>"

datatype scan_call =
    Scan_match bytes
  | Scan_count int
  | Scan_type bytes

fun call_scan :: "scan_call \<Rightarrow> scan_params \<Rightarrow> scan_params" where
  "call_scan (Scan_match m) p = (addParams KW_MATCH p)\<lparr>scan_match := m\<rparr>"
| "call_scan (Scan_count c) p = (addParams KW_COUNT p)\<lparr>scan_count := c\<rparr>"
| "call_scan (Scan_type t) p = (addParams KW_TYPE p)\<lparr>scan_type := t\<rparr>"

definition scan_words :: "scan_params \<Rightarrow> bytes list" where
  "scan_words p =
     words_of KW_MATCH p [''MATCH'', scan_match p]
   @ words_of KW_COUNT p [''COUNT'', dec_int (scan_count p)]
   @ words_of KW_TYPE p [''TYPE'', scan_type p]"

section \<open>\<open>SortParams\<close>\<close>

record sort_params = params +
  sort_by_pattern :: bytes
  sort_offset :: int
  sort_count :: int
  sort_get_pattern :: "bytes list"

definition new_sort_params :: "int \<Rightarrow> int \<Rightarrow> sort_params" where
  "new_sort_params off0 cnt0 = \<lparr>kwds = {}, sort_by_pattern = [], sort_offset = off0, sort_count = cnt0, sort_get_pattern = []\<rparr>"

datatype sort_call =
    Sort_by bytes
  | Sort_limit int int
  | Sort_get "bytes list"
  | Sort_asc
  | Sort_desc
  | Sort_alpha

fun call_sort :: "sort_call \<Rightarrow> sort_params \<Rightarrow> sort_params" where
  "call_sort (Sort_by pat) p = (addParams KW_BY p)\<lparr>sort_by_pattern := pat\<rparr>"
| "call_sort (Sort_limit off c) p = (addParams KW_LIMIT p)\<lparr>sort_offset := off, sort_count := c\<rparr>"
| "call_sort (Sort_get pats) p = (addParams KW_GET p)\<lparr>sort_get_pattern := pats\<rparr>"
| "call_sort Sort_asc p = addParams KW_ASC p"
| "call_sort Sort_desc p = addParams KW_DESC p"
| "call_sort Sort_alpha p = addParams KW_ALPHA p"

definition sort_words :: "sort_params \<Rightarrow> bytes list" where
  "sort_words p =
     words_of KW_BY p [''BY'', sort_by_pattern p]
   @ words_of KW_LIMIT p [''LIMIT'', dec_int (sort_offset p), dec_int (sort_count p)]
   @ words_of KW_GET p (concat (map (\<lambda>g. [''GET'', g]) (sort_get_pattern p)))
   @ words_of KW_ASC p [''ASC'']
   @ words_of KW_DESC p [''DESC'']
   @ words_of KW_ALPHA p [''ALPHA'']"

section \<open>\<open>BitPositonParams\<close>\<close>

record bit_params = params +
  bit_start :: int
  bit_end :: int

definition new_bit_params :: "int \<Rightarrow> int \<Rightarrow> bit_params" where
  "new_bit_params start0 stop0 = \<lparr>kwds = {}, bit_start = start0, bit_end = stop0\<rparr>"

datatype bit_call =
    Bit_start int
  | Bit_end int
  | Bit_byte
  | Bit_bit

fun call_bit :: "bit_call \<Rightarrow> bit_params \<Rightarrow> bit_params" where
  "call_bit (Bit_start s) p = (addParams KW_START p)\<lparr>bit_start := s\<rparr>"
| "call_bit (Bit_end e) p = (addParams KW_END p)\<lparr>bit_end := e\<rparr>"
| "call_bit Bit_byte p = addParams KW_BYTE p"
| "call_bit Bit_bit p = addParams KW_BIT p"

definition bit_words :: "bit_params \<Rightarrow> bytes list" where
  "bit_words p =
     words_of KW_START p [dec_int (bit_start p)]
   @ words_of KW_END p [dec_int (bit_end p)]
   @ words_of KW_BYTE p [''BYTE'']
   @ words_of KW_BIT p [''BIT'']"

section \<open>\<open>SetParams\<close>\<close>

record set_params = params +
  set_ex :: int
  set_px :: int
  set_exat :: int
  set_pxat :: int

definition new_set_params :: "int \<Rightarrow> int \<Rightarrow> int \<Rightarrow> int \<Rightarrow> set_params" where
  "new_set_params ex0 px0 exat0 pxat0 = \<lparr>kwds = {}, set_ex = ex0, set_px = px0, set_exat = exat0, set_pxat = pxat0\<rparr>"

datatype set_call =
    Set_nx
  | Set_xx
  | Set_keepttl
  | Set_ex int
  | Set_px int
  | Set_exat int
  | Set_pxat int

fun call_set :: "set_call \<Rightarrow> set_params \<Rightarrow> set_params" where
  "call_set Set_nx p = addParams KW_NX p"
| "call_set Set_xx p = addParams KW_XX p"
| "call_set Set_keepttl p = addParams KW_KEEPTTL p"
| "call_set (Set_ex ex) p = (addParams KW_EX p)\<lparr>set_ex := ex\<rparr>"
| "call_set (Set_px px) p = (addParams KW_PX p)\<lparr>set_px := px\<rparr>"
| "call_set (Set_exat exat) p = (addParams KW_EXAT p)\<lparr>set_exat := exat\<rparr>"
| "call_set (Set_pxat pxat) p = (addParams KW_PXAT p)\<lparr>set_pxat := pxat\<rparr>"

definition set_words :: "set_params \<Rightarrow> bytes list" where
  "set_words p =
     words_of KW_NX p [''NX'']
   @ words_of KW_XX p [''XX'']
   @ words_of KW_KEEPTTL p [''KEEPTTL'']
   @ words_of KW_EX p [''EX'', dec_int (set_ex p)]
   @ words_of KW_PX p [''PX'', dec_int (set_px p)]
   @ words_of KW_EXAT p [''EXAT'', dec_int (set_exat p)]
   @ words_of KW_PXAT p [''PXAT'', dec_int (set_pxat p)]"

section \<open>\<open>GetExParams\<close>\<close>

record getex_params = params +
  getex_ex :: int
  getex_px :: int
  getex_exat :: int
  getex_pxat :: int

definition new_getex_params :: "int \<Rightarrow> int \<Rightarrow> int \<Rightarrow> int \<Rightarrow> getex_params" where
  "new_getex_params ex0 px0 exat0 pxat0 = \<lparr>kwds = {}, getex_ex = ex0, getex_px = px0, getex_exat = exat0, getex_pxat = pxat0\<rparr>"

datatype getex_call =
    Getex_persist
  | Getex_ex int
  | Getex_px int
  | Getex_exat int
  | Getex_pxat int

fun call_getex :: "getex_call \<Rightarrow> getex_params \<Rightarrow> getex_params" where
  "call_getex Getex_persist p = addParams KW_PERSIST p"
| "call_getex (Getex_ex ex) p = (addParams KW_EX p)\<lparr>getex_ex := ex\<rparr>"
| "call_getex (Getex_px px) p = (addParams KW_PX p)\<lparr>getex_px := px\<rparr>"
| "call_getex (Getex_exat exat) p = (addParams KW_EXAT p)\<lparr>getex_exat := exat\<rparr>"
| "call_getex (Getex_pxat pxat) p = (addParams KW_PXAT p)\<lparr>getex_pxat := pxat\<rparr>"

definition getex_words :: "getex_params \<Rightarrow> bytes list" where
  "getex_words p =
     words_of KW_PERSIST p [''PERSIST'']
   @ words_of KW_EX p [''EX'', dec_int (getex_ex p)]
   @ words_of KW_PX p [''PX'', dec_int (getex_px p)]
   @ words_of KW_EXAT p [''EXAT'', dec_int (getex_exat p)]
   @ words_of KW_PXAT p [''PXAT'', dec_int (getex_pxat p)]"

section \<open>\<open>ZAddParams\<close>\<close>

type_synonym zadd_params = params

definition new_zadd_params :: "zadd_params" where
  "new_zadd_params = \<lparr>kwds = {}\<rparr>"

datatype zadd_call =
    Zadd_nx
  | Zadd_xx
  | Zadd_gt
  | Zadd_lt
  | Zadd_ch

fun call_zadd :: "zadd_call \<Rightarrow> zadd_params \<Rightarrow> zadd_params" where
  "call_zadd Zadd_nx p = addParams KW_NX p"
| "call_zadd Zadd_xx p = addParams KW_XX p"
| "call_zadd Zadd_gt p = addParams KW_GT p"
| "call_zadd Zadd_lt p = addParams KW_LT p"
| "call_zadd Zadd_ch p = addParams KW_CH p"

definition zadd_words :: "zadd_params \<Rightarrow> bytes list" where
  "zadd_words p =
     words_of KW_NX p [''NX'']
   @ words_of KW_XX p [''XX'']
   @ words_of KW_GT p [''GT'']
   @ words_of KW_LT p [''LT'']
   @ words_of KW_CH p [''CH'']"

section \<open>\<open>ZRangeParams\<close>\<close>

record zrange_params = params +
  zrange_offset :: int
  zrange_count :: int

definition new_zrange_params :: "int \<Rightarrow> int \<Rightarrow> zrange_params" where
  "new_zrange_params off0 cnt0 = \<lparr>kwds = {}, zrange_offset = off0, zrange_count = cnt0\<rparr>"

datatype zrange_call =
    Zrange_byscore
  | Zrange_bylex
  | Zrange_rev
  | Zrange_limit int int
  | Zrange_withscores

fun call_zrange :: "zrange_call \<Rightarrow> zrange_params \<Rightarrow> zrange_params" where
  "call_zrange Zrange_byscore p = addParams KW_BYSCORE p"
| "call_zrange Zrange_bylex p = addParams KW_BYLEX p"
| "call_zrange Zrange_rev p = addParams KW_REV p"
| "call_zrange (Zrange_limit off c) p = (addParams KW_LIMIT p)\<lparr>zrange_offset := off, zrange_count := c\<rparr>"
| "call_zrange Zrange_withscores p = addParams KW_WITHSCORES p"

definition zrange_words :: "zrange_params \<Rightarrow> bytes list" where
  "zrange_words p =
     words_of KW_BYSCORE p [''BYSCORE'']
   @ words_of KW_BYLEX p [''BYLEX'']
   @ words_of KW_REV p [''REV'']
   @ words_of KW_LIMIT p [''LIMIT'', dec_int (zrange_offset p), dec_int (zrange_count p)]
   @ words_of KW_WITHSCORES p [''WITHSCORES'']"

section \<open>\<open>ZInterUnionParams\<close>\<close>

record 'd zinter_params = params +
  zinter_weights :: "'d list"
  zinter_aggregate :: bytes

definition new_zinter_params :: "'d zinter_params" where
  "new_zinter_params = \<lparr>kwds = {}, zinter_weights = [], zinter_aggregate = []\<rparr>"

datatype 'd zinter_call =
    Zinter_weights "'d list"
  | Zinter_aggregate bytes

fun call_zinter :: "'d zinter_call \<Rightarrow> 'd zinter_params \<Rightarrow> 'd zinter_params" where
  "call_zinter (Zinter_weights ws) p = (addParams KW_WEIGHTS p)\<lparr>zinter_weights := ws\<rparr>"
| "call_zinter (Zinter_aggregate t) p = (addParams KW_AGGREGATE p)\<lparr>zinter_aggregate := t\<rparr>"

definition zinter_words :: "('d \<Rightarrow> bytes) \<Rightarrow> 'd zinter_params \<Rightarrow> bytes list" where
  "zinter_words ds p =
     words_of KW_WEIGHTS p (''WEIGHTS'' # map ds (zinter_weights p))
   @ words_of KW_AGGREGATE p [''AGGREGATE'', zinter_aggregate p]"

section \<open>\<open>GeoAddParams\<close>\<close>

type_synonym geoadd_params = params

definition new_geoadd_params :: "geoadd_params" where
  "new_geoadd_params = \<lparr>kwds = {}\<rparr>"

datatype geoadd_call =
    Geoadd_nx
  | Geoadd_xx
  | Geoadd_ch

fun call_geoadd :: "geoadd_call \<Rightarrow> geoadd_params \<Rightarrow> geoadd_params" where
  "call_geoadd Geoadd_nx p = addParams KW_NX p"
| "call_geoadd Geoadd_xx p = addParams KW_XX p"
| "call_geoadd Geoadd_ch p = addParams KW_CH p"

definition geoadd_words :: "geoadd_params \<Rightarrow> bytes list" where
  "geoadd_words p =
     words_of KW_NX p [''NX'']
   @ words_of KW_XX p [''XX'']
   @ words_of KW_CH p [''CH'']"

section \<open>What is sent\<close>

text \<open>The same builder calls on two objects that differ in their uninitialised fields only.\<close>

lemma copy_same:
  "kwds p = kwds q \<and> (KW_DB \<in> kwds p \<longrightarrow> copy_db p = copy_db q) \<Longrightarrow>
   copy_words (fold call_copy cs p) = copy_words (fold call_copy cs q)"
proof (induction cs arbitrary: p q)
  case (Cons c cs)
  then show ?case by (cases c) (simp_all add: addParams_def)
qed (auto simp: copy_words_def words_of_def)

lemma restore_same:
  "kwds p = kwds q \<and> (KW_IDLETIME \<in> kwds p \<longrightarrow> restore_idletime p = restore_idletime q) \<and> (KW_FREQ \<in> kwds p \<longrightarrow> restore_freq p = restore_freq q) \<Longrightarrow>
   restore_words (fold call_restore cs p) = restore_words (fold call_restore cs q)"
proof (induction cs arbitrary: p q)
  case (Cons c cs)
  then show ?case by (cases c) (simp_all add: addParams_def)
qed (auto simp: restore_words_def words_of_def)

lemma scan_same:
  "kwds p = kwds q \<and> scan_match p = scan_match q \<and> scan_type p = scan_type q \<and> (KW_COUNT \<in> kwds p \<longrightarrow> scan_count p = scan_count q) \<Longrightarrow>
   scan_words (fold call_scan cs p) = scan_words (fold call_scan cs q)"
proof (induction cs arbitrary: p q)
  case (Cons c cs)
  then show ?case by (cases c) (simp_all add: addParams_def)
qed (auto simp: scan_words_def words_of_def)

lemma sort_same:
  "kwds p = kwds q \<and> sort_by_pattern p = sort_by_pattern q \<and> sort_get_pattern p = sort_get_pattern q \<and> (KW_LIMIT \<in> kwds p \<longrightarrow> sort_offset p = sort_offset q) \<and> (KW_LIMIT \<in> kwds p \<longrightarrow> sort_count p = sort_count q) \<Longrightarrow>
   sort_words (fold call_sort cs p) = sort_words (fold call_sort cs q)"
proof (induction cs arbitrary: p q)
  case (Cons c cs)
  then show ?case by (cases c) (simp_all add: addParams_def)
qed (auto simp: sort_words_def words_of_def)

lemma bit_same:
  "kwds p = kwds q \<and> (KW_START \<in> kwds p \<longrightarrow> bit_start p = bit_start q) \<and> (KW_END \<in> kwds p \<longrightarrow> bit_end p = bit_end q) \<Longrightarrow>
   bit_words (fold call_bit cs p) = bit_words (fold call_bit cs q)"
proof (induction cs arbitrary: p q)
  case (Cons c cs)
  then show ?case by (cases c) (simp_all add: addParams_def)
qed (auto simp: bit_words_def words_of_def)

lemma set_same:
  "kwds p = kwds q \<and> (KW_EX \<in> kwds p \<longrightarrow> set_ex p = set_ex q) \<and> (KW_PX \<in> kwds p \<longrightarrow> set_px p = set_px q) \<and> (KW_EXAT \<in> kwds p \<longrightarrow> set_exat p = set_exat q) \<and> (KW_PXAT \<in> kwds p \<longrightarrow> set_pxat p = set_pxat q) \<Longrightarrow>
   set_words (fold call_set cs p) = set_words (fold call_set cs q)"
proof (induction cs arbitrary: p q)
  case (Cons c cs)
  then show ?case by (cases c) (simp_all add: addParams_def)
qed (auto simp: set_words_def words_of_def)

lemma getex_same:
  "kwds p = kwds q \<and> (KW_EX \<in> kwds p \<longrightarrow> getex_ex p = getex_ex q) \<and> (KW_PX \<in> kwds p \<longrightarrow> getex_px p = getex_px q) \<and> (KW_EXAT \<in> kwds p \<longrightarrow> getex_exat p = getex_exat q) \<and> (KW_PXAT \<in> kwds p \<longrightarrow> getex_pxat p = getex_pxat q) \<Longrightarrow>
   getex_words (fold call_getex cs p) = getex_words (fold call_getex cs q)"
proof (induction cs arbitrary: p q)
  case (Cons c cs)
  then show ?case by (cases c) (simp_all add: addParams_def)
qed (auto simp: getex_words_def words_of_def)

lemma zrange_same:
  "kwds p = kwds q \<and> (KW_LIMIT \<in> kwds p \<longrightarrow> zrange_offset p = zrange_offset q) \<and> (KW_LIMIT \<in> kwds p \<longrightarrow> zrange_count p = zrange_count q) \<Longrightarrow>
   zrange_words (fold call_zrange cs p) = zrange_words (fold call_zrange cs q)"
proof (induction cs arbitrary: p q)
  case (Cons c cs)
  then show ?case by (cases c) (simp_all add: addParams_def)
qed (auto simp: zrange_words_def words_of_def)

text \<open>No value is sent that nobody set. Whatever the uninitialised fields of a parameter
  object hold, and whatever builder methods are called on it in whatever order, the words it adds
  to a command are the same.\<close>

lemma params_initialised:
  "copy_words (fold call_copy copys (new_copy_params a0)) = copy_words (fold call_copy copys (new_copy_params a1)) \<and>
   restore_words (fold call_restore restores (new_restore_params a0 b0)) = restore_words (fold call_restore restores (new_restore_params a1 b1)) \<and>
   scan_words (fold call_scan scans (new_scan_params a0)) = scan_words (fold call_scan scans (new_scan_params a1)) \<and>
   sort_words (fold call_sort sorts (new_sort_params a0 b0)) = sort_words (fold call_sort sorts (new_sort_params a1 b1)) \<and>
   bit_words (fold call_bit bits (new_bit_params a0 b0)) = bit_words (fold call_bit bits (new_bit_params a1 b1)) \<and>
   set_words (fold call_set sets (new_set_params a0 b0 c0 d0)) = set_words (fold call_set sets (new_set_params a1 b1 c1 d1)) \<and>
   getex_words (fold call_getex getexs (new_getex_params a0 b0 c0 d0)) = getex_words (fold call_getex getexs (new_getex_params a1 b1 c1 d1)) \<and>
   zrange_words (fold call_zrange zranges (new_zrange_params a0 b0)) = zrange_words (fold call_zrange zranges (new_zrange_params a1 b1))"
  by (intro conjI copy_same restore_same scan_same sort_same bit_same set_same getex_same zrange_same)
    (simp_all add: new_copy_params_def new_restore_params_def new_scan_params_def new_sort_params_def
    new_bit_params_def new_set_params_def new_getex_params_def new_zrange_params_def)

text \<open>The argument of the last call of a kind.\<close>

definition last_of :: "('c \<Rightarrow> 'v option) \<Rightarrow> 'c list \<Rightarrow> 'v option" where
  "last_of f cs = fold (\<lambda>c v. case f c of None \<Rightarrow> v | Some x \<Rightarrow> Some x) cs None"

lemma last_of_snoc [simp]: "last_of f [] = None" "last_of f (cs @ [c]) = (case f c of None \<Rightarrow> last_of f cs | Some v \<Rightarrow> Some v)"
  by (simp_all add: last_of_def cong: option.case_cong)

definition with_value :: "bytes \<Rightarrow> int option \<Rightarrow> bytes list" where
  "with_value w v = (case v of None \<Rightarrow> [] | Some i \<Rightarrow> [w, dec_int i])"

fun ex_of :: "set_call \<Rightarrow> int option" where "ex_of (Set_ex i) = Some i" | "ex_of _ = None"
fun px_of :: "set_call \<Rightarrow> int option" where "px_of (Set_px i) = Some i" | "px_of _ = None"
fun exat_of :: "set_call \<Rightarrow> int option" where "exat_of (Set_exat i) = Some i" | "exat_of _ = None"
fun pxat_of :: "set_call \<Rightarrow> int option" where "pxat_of (Set_pxat i) = Some i" | "pxat_of _ = None"

lemma set_calls_state:
  fixes cs a b c d
  defines "p \<equiv> fold call_set cs (new_set_params a b c d)"
  shows "(KW_NX \<in> kwds p \<longleftrightarrow> Set_nx \<in> set cs) \<and> (KW_XX \<in> kwds p \<longleftrightarrow> Set_xx \<in> set cs) \<and>
    (KW_KEEPTTL \<in> kwds p \<longleftrightarrow> Set_keepttl \<in> set cs) \<and>
    last_of ex_of cs = (if KW_EX \<in> kwds p then Some (set_ex p) else None) \<and>
    last_of px_of cs = (if KW_PX \<in> kwds p then Some (set_px p) else None) \<and>
    last_of exat_of cs = (if KW_EXAT \<in> kwds p then Some (set_exat p) else None) \<and>
    last_of pxat_of cs = (if KW_PXAT \<in> kwds p then Some (set_pxat p) else None)"
  unfolding p_def
proof (induction cs rule: rev_induct)
  case (snoc c cs)
  then show ?case by (cases c) (simp_all add: addParams_def)
qed (simp add: new_set_params_def)

text \<open>The options of a set command are what the builder was told: a flag is sent when its
  method was called, an expiry with the value of the last call, in the one fixed order, each at
  most once.\<close>

lemma set_words_last:
  "set_words (fold call_set cs (new_set_params a b c d)) =
     (if Set_nx \<in> set cs then [''NX''] else []) @ (if Set_xx \<in> set cs then [''XX''] else []) @
     (if Set_keepttl \<in> set cs then [''KEEPTTL''] else []) @
     with_value ''EX'' (last_of ex_of cs) @ with_value ''PX'' (last_of px_of cs) @
     with_value ''EXAT'' (last_of exat_of cs) @ with_value ''PXAT'' (last_of pxat_of cs)"
  using set_calls_state [of cs a b c d] by (simp add: set_words_def words_of_def with_value_def)

text \<open>An end of a bit range without a start is sent as if it were the start.\<close>

lemma bit_end_alone: "bit_words (fold call_bit [Bit_end i] (new_bit_params a b)) = bit_words (fold call_bit [Bit_start i] (new_bit_params a b))"
  by (simp add: bit_words_def words_of_def new_bit_params_def)

end
