(* ===== verification/Commands.thy ===== *)
theory Commands
  imports Params Reply
begin

text \<open>
  \<open>client/TairAsyncClient.cpp\<close>: the commands of the client. Every method is a constructor of the
  group of its section of the file; overloads are told apart by a suffix. For each group, \<open>argv_...\<close>
  is the vector of words the method sends and \<open>reply_...\<close> the way it reads the reply. A double is
  written by \<open>std::to_string\<close>, the parameter \<open>ds\<close>.
\<close>

section \<open>Words of a geo member\<close>

definition geo_members :: "('d \<Rightarrow> bytes) \<Rightarrow> ('d \<times> 'd \<times> bytes) list \<Rightarrow> bytes list" where
  "geo_members ds members = concat (map (\<lambda>(longitude, latitude, name). [ds longitude, ds latitude, name]) members)"

section \<open>Keys: deletion and expiry\<close>

datatype key_command =
    Del bytes
  | Del_keys "bytes list"
  | Unlink bytes
  | Unlink_keys "bytes list"
  | Exists bytes
  | Exists_keys "bytes list"
  | Expire bytes int
  | Expire_params bytes int expire_params
  | Expireat bytes int
  | Expireat_params bytes int expire_params
  | Persist bytes
  | Pexpire bytes int
  | Pexpire_params bytes int expire_params
  | Pexpireat bytes int
  | Pexpireat_params bytes int expire_params
  | Ttl bytes
  | Pttl bytes

primrec argv_key :: "key_command \<Rightarrow> bytes list" where
  "argv_key (Del key) = [''del'', key]"
| "argv_key (Del_keys keys) = [''del''] @ keys"
| "argv_key (Unlink key) = [''unlink'', key]"
| "argv_key (Unlink_keys keys) = [''unlink''] @ keys"
| "argv_key (Exists key) = [''exists'', key]"
| "argv_key (Exists_keys keys) = [''exists''] @ keys"
| "argv_key (Expire key timeout) = [''expire'', key, dec_int timeout]"
| "argv_key (Expire_params key timeout params) = [''expire'', key, dec_int timeout] @ expire_words params"
| "argv_key (Expireat key timestamp) = [''expireat'', key, dec_int timestamp]"
| "argv_key (Expireat_params key timestamp params) = [''expireat'', key, dec_int timestamp] @ expire_words params"
| "argv_key (Persist key) = [''persist'', key]"
| "argv_key (Pexpire key timeout) = [''pexpire'', key, dec_int timeout]"
| "argv_key (Pexpire_params key timeout params) = [''pexpire'', key, dec_int timeout] @ expire_words params"
| "argv_key (Pexpireat key timestamp) = [''pexpireat'', key, dec_int timestamp]"
| "argv_key (Pexpireat_params key timestamp params) = [''pexpireat'', key, dec_int timestamp] @ expire_words params"
| "argv_key (Ttl key) = [''ttl'', key]"
| "argv_key (Pttl key) = [''pttl'', key]"

primrec reply_key :: "key_command \<Rightarrow> reply_kind" where
  "reply_key (Del key) = Integer_reply"
| "reply_key (Del_keys keys) = Integer_reply"
| "reply_key (Unlink key) = Integer_reply"
| "reply_key (Unlink_keys keys) = Integer_reply"
| "reply_key (Exists key) = Integer_reply"
| "reply_key (Exists_keys keys) = Integer_reply"
| "reply_key (Expire key timeout) = Integer_reply"
| "reply_key (Expire_params key timeout params) = Integer_reply"
| "reply_key (Expireat key timestamp) = Integer_reply"
| "reply_key (Expireat_params key timestamp params) = Integer_reply"
| "reply_key (Persist key) = Integer_reply"
| "reply_key (Pexpire key timeout) = Integer_reply"
| "reply_key (Pexpire_params key timeout params) = Integer_reply"
| "reply_key (Pexpireat key timestamp) = Integer_reply"
| "reply_key (Pexpireat_params key timestamp params) = Integer_reply"
| "reply_key (Ttl key) = Integer_reply"
| "reply_key (Pttl key) = Integer_reply"

section \<open>Keys: the rest of the generic commands\<close>

datatype keyspace_command =
    Touch "bytes list"
  | Dump bytes
  | Restore bytes int bytes
  | Restore_params bytes int bytes restore_params
  | Keys bytes
  | Move bytes int
  | Randomkey
  | Rename bytes bytes
  | Renamenx bytes bytes
  | Type bytes
  | Scan bytes
  | Scan_params bytes scan_params
  | Sort bytes
  | Sort_params bytes sort_params
  | SortStore bytes bytes
  | SortStore_params bytes bytes sort_params
  | Copy bytes bytes
  | Copy_params bytes bytes copy_params

primrec argv_keyspace :: "keyspace_command \<Rightarrow> bytes list" where
  "argv_keyspace (Touch keys) = [''touch''] @ keys"
| "argv_keyspace (Dump key) = [''dump'', key]"
| "argv_keyspace (Restore key ttl val) = [''restore'', key, dec_int ttl, val]"
| "argv_keyspace (Restore_params key ttl val params) = [''restore'', key, dec_int ttl, val] @ restore_words params"
| "argv_keyspace (Keys pattern) = [''keys'', pattern]"
| "argv_keyspace (Move key db) = [''move'', key, dec_int db]"
| "argv_keyspace Randomkey = [''randomkey'']"
| "argv_keyspace (Rename key newkey) = [''rename'', key, newkey]"
| "argv_keyspace (Renamenx key newkey) = [''renamenx'', key, newkey]"
| "argv_keyspace (Type key) = [''type'', key]"
| "argv_keyspace (Scan cursor) = [''scan'', cursor]"
| "argv_keyspace (Scan_params cursor params) = [''scan'', cursor] @ scan_words params"
| "argv_keyspace (Sort key) = [''sort'', key]"
| "argv_keyspace (Sort_params key params) = [''sort'', key] @ sort_words params"
| "argv_keyspace (SortStore key storekey) = [''sort'', key, ''store'', storekey]"
| "argv_keyspace (SortStore_params key storekey params) = [''sort'', key, ''store'', storekey] @ sort_words params"
| "argv_keyspace (Copy key destkey) = [''copy'', key, destkey]"
| "argv_keyspace (Copy_params key destkey params) = [''copy'', key, destkey] @ copy_words params"

primrec reply_keyspace :: "keyspace_command \<Rightarrow> reply_kind" where
  "reply_keyspace (Touch keys) = Integer_reply"
| "reply_keyspace (Dump key) = String_ptr"
| "reply_keyspace (Restore key ttl val) = Status_reply"
| "reply_keyspace (Restore_params key ttl val params) = Status_reply"
| "reply_keyspace (Keys pattern) = Vector_string"
| "reply_keyspace (Move key db) = Integer_reply"
| "reply_keyspace Randomkey = String_ptr"
| "reply_keyspace (Rename key newkey) = Status_reply"
| "reply_keyspace (Renamenx key newkey) = Integer_reply"
| "reply_keyspace (Type key) = Status_reply"
| "reply_keyspace (Scan cursor) = Scan_reply"
| "reply_keyspace (Scan_params cursor params) = Scan_reply"
| "reply_keyspace (Sort key) = Vector_string_ptr"
| "reply_keyspace (Sort_params key params) = Vector_string_ptr"
| "reply_keyspace (SortStore key storekey) = Integer_reply"
| "reply_keyspace (SortStore_params key storekey params) = Integer_reply"
| "reply_keyspace (Copy key destkey) = Integer_reply"
| "reply_keyspace (Copy_params key destkey params) = Integer_reply"

section \<open>Strings, to \<open>set\<close>\<close>

datatype string_command =
    Append bytes bytes
  | Bitcount bytes
  | Bitcount_params bytes bit_params
  | Bitfield bytes "bytes list"
  | BitfieldRo bytes "bytes list"
  | Bitop bit_operation "bytes list"
  | Bitpos bytes int
  | Bitpos_params bytes int bit_params
  | Setbit bytes int int
  | Getbit bytes int
  | Decr bytes
  | Decrby bytes int
  | Getrange bytes int int
  | Getset bytes bytes
  | Set_params bytes bytes set_params
  | Set bytes bytes

primrec argv_string :: "string_command \<Rightarrow> bytes list" where
  "argv_string (Append key val) = [''append'', key, val]"
| "argv_string (Bitcount key) = [''bitcount'', key]"
| "argv_string (Bitcount_params key params) = [''bitcount'', key] @ bit_words params"
| "argv_string (Bitfield key args) = [''bitfield'', key] @ args"
| "argv_string (BitfieldRo key args) = [''bitfield_ro'', key] @ args"
| "argv_string (Bitop oper keys) = [''bitop'', bitOperationToString oper] @ keys"
| "argv_string (Bitpos key b) = [''bitpos'', key, dec_int b]"
| "argv_string (Bitpos_params key b params) = [''bitpos'', key, dec_int b] @ bit_words params"
| "argv_string (Setbit key off val) = [''setbit'', key, dec_int off, dec_int val]"
| "argv_string (Getbit key off) = [''getbit'', key, dec_int off]"
| "argv_string (Decr key) = [''decr'', key]"
| "argv_string (Decrby key decrement) = [''decrby'', key, dec_int decrement]"
| "argv_string (Getrange key from fin) = [''getrange'', key, dec_int from, dec_int fin]"
| "argv_string (Getset key val) = [''getset'', key, val]"
| "argv_string (Set_params key val params) = [''set'', key, val] @ set_words params"
| "argv_string (Set key val) = [''set'', key, val]"

primrec reply_string :: "string_command \<Rightarrow> reply_kind" where
  "reply_string (Append key val) = Integer_reply"
| "reply_string (Bitcount key) = Integer_reply"
| "reply_string (Bitcount_params key params) = Integer_reply"
| "reply_string (Bitfield key args) = Vector_integer_ptr"
| "reply_string (BitfieldRo key args) = Vector_integer_ptr"
| "reply_string (Bitop oper keys) = Integer_reply"
| "reply_string (Bitpos key b) = Integer_reply"
| "reply_string (Bitpos_params key b params) = Integer_reply"
| "reply_string (Setbit key off val) = Integer_reply"
| "reply_string (Getbit key off) = Integer_reply"
| "reply_string (Decr key) = Integer_reply"
| "reply_string (Decrby key decrement) = Integer_reply"
| "reply_string (Getrange key from fin) = Bulk_reply"
| "reply_string (Getset key val) = String_ptr"
| "reply_string (Set_params key val params) = Status_reply"
| "reply_string (Set key val) = Status_reply"

section \<open>Strings, from \<open>get\<close>\<close>

datatype 'd value_command =
    Get bytes
  | Incr bytes
  | Incrby bytes int
  | Incrbyfloat bytes 'd
  | Mget "bytes list"
  | Mset "bytes list"
  | Msetnx "bytes list"
  | Psetex bytes int bytes
  | Setex bytes int bytes
  | Setnx bytes bytes
  | Setrange bytes int bytes
  | Strlen bytes
  | Getdel bytes
  | Getex bytes getex_params

primrec argv_value :: "('d \<Rightarrow> bytes) \<Rightarrow> 'd value_command \<Rightarrow> bytes list" where
  "argv_value ds (Get key) = [''get'', key]"
| "argv_value ds (Incr key) = [''incr'', key]"
| "argv_value ds (Incrby key increment) = [''incrby'', key, dec_int increment]"
| "argv_value ds (Incrbyfloat key increment) = [''incrbyfloat'', key, ds increment]"
| "argv_value ds (Mget keys) = [''mget''] @ keys"
| "argv_value ds (Mset kvs) = [''mset''] @ kvs"
| "argv_value ds (Msetnx kvs) = [''msetnx''] @ kvs"
| "argv_value ds (Psetex key milliseconds val) = [''psetex'', key, dec_int milliseconds, val]"
| "argv_value ds (Setex key seconds val) = [''setex'', key, dec_int seconds, val]"
| "argv_value ds (Setnx key val) = [''setnx'', key, val]"
| "argv_value ds (Setrange key off val) = [''setrange'', key, dec_int off, val]"
| "argv_value ds (Strlen key) = [''strlen'', key]"
| "argv_value ds (Getdel key) = [''getdel'', key]"
| "argv_value ds (Getex key params) = [''getex'', key] @ getex_words params"

primrec reply_value :: "'d value_command \<Rightarrow> reply_kind" where
  "reply_value (Get key) = String_ptr"
| "reply_value (Incr key) = Integer_reply"
| "reply_value (Incrby key increment) = Integer_reply"
| "reply_value (Incrbyfloat key increment) = Bulk_reply"
| "reply_value (Mget keys) = Vector_string_ptr"
| "reply_value (Mset kvs) = Status_reply"
| "reply_value (Msetnx kvs) = Integer_reply"
| "reply_value (Psetex key milliseconds val) = Status_reply"
| "reply_value (Setex key seconds val) = Status_reply"
| "reply_value (Setnx key val) = Integer_reply"
| "reply_value (Setrange key off val) = Integer_reply"
| "reply_value (Strlen key) = Integer_reply"
| "reply_value (Getdel key) = String_ptr"
| "reply_value (Getex key params) = String_ptr"

section \<open>Lists\<close>

datatype list_command =
    Blpop "bytes list" int
  | Brpop "bytes list" int
  | Brpoplpush bytes bytes int
  | Lindex bytes int
  | Linsert bytes list_direction bytes bytes
  | Llen bytes
  | Lpop bytes
  | Lpop_count bytes int
  | Lpush bytes "bytes list"
  | Lpushx bytes "bytes list"
  | Lrange bytes int int
  | Lrem bytes int bytes
  | Lset bytes int bytes
  | Ltrim bytes int int
  | Rpop bytes
  | Rpop_count bytes int
  | Rpoplpush bytes bytes
  | Rpush bytes "bytes list"
  | Rpushx bytes "bytes list"
  | Lmove bytes bytes list_direction list_direction
  | Blmove bytes bytes list_direction list_direction int

primrec argv_list :: "list_command \<Rightarrow> bytes list" where
  "argv_list (Blpop keys timeout) = [''blpop''] @ keys @ [dec_int timeout]"
| "argv_list (Brpop keys timeout) = [''brpop''] @ keys @ [dec_int timeout]"
| "argv_list (Brpoplpush src dest timeout) = [''brpoplpush'', src, dest, dec_int timeout]"
| "argv_list (Lindex key idx) = [''lindex'', key, dec_int idx]"
| "argv_list (Linsert key direction pivot element) = [''linsert'', key, listDirectionToString direction, pivot, element]"
| "argv_list (Llen key) = [''llen'', key]"
| "argv_list (Lpop key) = [''lpop'', key]"
| "argv_list (Lpop_count key cnt) = [''lpop'', key, dec_int cnt]"
| "argv_list (Lpush key elements) = [''lpush'', key] @ elements"
| "argv_list (Lpushx key elements) = [''lpushx'', key] @ elements"
| "argv_list (Lrange key from to) = [''lrange'', key, dec_int from, dec_int to]"
| "argv_list (Lrem key cnt element) = [''lrem'', key, dec_int cnt, element]"
| "argv_list (Lset key idx element) = [''lset'', key, dec_int idx, element]"
| "argv_list (Ltrim key from to) = [''ltrim'', key, dec_int from, dec_int to]"
| "argv_list (Rpop key) = [''rpop'', key]"
| "argv_list (Rpop_count key cnt) = [''rpop'', key, dec_int cnt]"
| "argv_list (Rpoplpush src dest) = [''rpoplpush'', src, dest]"
| "argv_list (Rpush key elements) = [''rpush'', key] @ elements"
| "argv_list (Rpushx key elements) = [''rpushx'', key] @ elements"
| "argv_list (Lmove src dest ldir rdir) = [''lmove'', src, dest, listDirectionToString ldir, listDirectionToString rdir]"
| "argv_list (Blmove src dest ldir rdir timeout) = [''blmove'', src, dest, listDirectionToString ldir, listDirectionToString rdir, dec_int timeout]"

primrec reply_list :: "list_command \<Rightarrow> reply_kind" where
  "reply_list (Blpop keys timeout) = Vector_string"
| "reply_list (Brpop keys timeout) = Vector_string"
| "reply_list (Brpoplpush src dest timeout) = String_ptr"
| "reply_list (Lindex key idx) = String_ptr"
| "reply_list (Linsert key direction pivot element) = Integer_reply"
| "reply_list (Llen key) = Integer_reply"
| "reply_list (Lpop key) = String_ptr"
| "reply_list (Lpop_count key cnt) = Vector_string"
| "reply_list (Lpush key elements) = Integer_reply"
| "reply_list (Lpushx key elements) = Integer_reply"
| "reply_list (Lrange key from to) = Vector_string"
| "reply_list (Lrem key cnt element) = Integer_reply"
| "reply_list (Lset key idx element) = Status_reply"
| "reply_list (Ltrim key from to) = Status_reply"
| "reply_list (Rpop key) = String_ptr"
| "reply_list (Rpop_count key cnt) = Vector_string"
| "reply_list (Rpoplpush src dest) = String_ptr"
| "reply_list (Rpush key elements) = Integer_reply"
| "reply_list (Rpushx key elements) = Integer_reply"
| "reply_list (Lmove src dest ldir rdir) = String_ptr"
| "reply_list (Blmove src dest ldir rdir timeout) = String_ptr"

section \<open>Sets\<close>

datatype set_command =
    Sadd bytes "bytes list"
  | Scard bytes
  | Sismember bytes bytes
  | Smembers bytes
  | Smove bytes bytes bytes
  | Srem bytes "bytes list"
  | Spop bytes
  | Spop_count bytes int
  | Srandmember bytes
  | Srandmember_count bytes int
  | Sdiff "bytes list"
  | Sinter "bytes list"
  | Sunion "bytes list"
  | Sdiffstore bytes "bytes list"
  | Sinterstore bytes "bytes list"
  | Sunionstore bytes "bytes list"
  | Sscan bytes bytes
  | Sscan_params bytes bytes scan_params
  | Smismember bytes "bytes list"

primrec argv_set :: "set_command \<Rightarrow> bytes list" where
  "argv_set (Sadd key members) = [''sadd'', key] @ members"
| "argv_set (Scard key) = [''scard'', key]"
| "argv_set (Sismember key mem) = [''sismember'', key, mem]"
| "argv_set (Smembers key) = [''smembers'', key]"
| "argv_set (Smove src dest mem) = [''smove'', src, dest, mem]"
| "argv_set (Srem key members) = [''srem'', key] @ members"
| "argv_set (Spop key) = [''spop'', key]"
| "argv_set (Spop_count key cnt) = [''spop'', key, dec_int cnt]"
| "argv_set (Srandmember key) = [''srandmember'', key]"
| "argv_set (Srandmember_count key cnt) = [''srandmember'', key, dec_int cnt]"
| "argv_set (Sdiff keys) = [''sdiff''] @ keys"
| "argv_set (Sinter keys) = [''sinter''] @ keys"
| "argv_set (Sunion keys) = [''sunion''] @ keys"
| "argv_set (Sdiffstore dest keys) = [''sdiffstore'', dest] @ keys"
| "argv_set (Sinterstore dest keys) = [''sinterstore'', dest] @ keys"
| "argv_set (Sunionstore dest keys) = [''sunionstore'', dest] @ keys"
| "argv_set (Sscan key cursor) = [''sscan'', key, cursor]"
| "argv_set (Sscan_params key cursor params) = [''sscan'', key, cursor] @ scan_words params"
| "argv_set (Smismember key members) = [''smismember'', key] @ members"

primrec reply_set :: "set_command \<Rightarrow> reply_kind" where
  "reply_set (Sadd key members) = Integer_reply"
| "reply_set (Scard key) = Integer_reply"
| "reply_set (Sismember key mem) = Integer_reply"
| "reply_set (Smembers key) = Vector_string"
| "reply_set (Smove src dest mem) = Integer_reply"
| "reply_set (Srem key members) = Integer_reply"
| "reply_set (Spop key) = String_ptr"
| "reply_set (Spop_count key cnt) = Vector_string"
| "reply_set (Srandmember key) = String_ptr"
| "reply_set (Srandmember_count key cnt) = Vector_string"
| "reply_set (Sdiff keys) = Vector_string"
| "reply_set (Sinter keys) = Vector_string"
| "reply_set (Sunion keys) = Vector_string"
| "reply_set (Sdiffstore dest keys) = Integer_reply"
| "reply_set (Sinterstore dest keys) = Integer_reply"
| "reply_set (Sunionstore dest keys) = Integer_reply"
| "reply_set (Sscan key cursor) = Scan_reply"
| "reply_set (Sscan_params key cursor params) = Scan_reply"
| "reply_set (Smismember key members) = Vector_integer"

section \<open>Hashes\<close>

datatype 'd hash_command =
    Hdel bytes "bytes list"
  | Hexists bytes bytes
  | Hget bytes bytes
  | Hgetall bytes
  | Hincrby bytes bytes int
  | Hincrbyfloat bytes bytes 'd
  | Hkeys bytes
  | Hvals bytes
  | Hlen bytes
  | Hmget bytes "bytes list"
  | Hset bytes bytes bytes
  | Hset_kvs bytes "bytes list"
  | Hsetnx bytes bytes bytes
  | Hstrlen bytes bytes
  | Hscan bytes bytes
  | Hscan_params bytes bytes scan_params
  | Hrandfield bytes
  | Hrandfield_count bytes int

primrec argv_hash :: "('d \<Rightarrow> bytes) \<Rightarrow> 'd hash_command \<Rightarrow> bytes list" where
  "argv_hash ds (Hdel key names) = [''hdel'', key] @ names"
| "argv_hash ds (Hexists key field) = [''hexists'', key, field]"
| "argv_hash ds (Hget key field) = [''hget'', key, field]"
| "argv_hash ds (Hgetall key) = [''hgetall'', key]"
| "argv_hash ds (Hincrby key field increment) = [''hincrby'', key, field, dec_int increment]"
| "argv_hash ds (Hincrbyfloat key field increment) = [''hincrbyfloat'', key, field, ds increment]"
| "argv_hash ds (Hkeys key) = [''hkeys'', key]"
| "argv_hash ds (Hvals key) = [''hvals'', key]"
| "argv_hash ds (Hlen key) = [''hlen'', key]"
| "argv_hash ds (Hmget key names) = [''hmget'', key] @ names"
| "argv_hash ds (Hset key field val) = [''hset'', key, field, val]"
| "argv_hash ds (Hset_kvs key kvs) = [''hset'', key] @ kvs"
| "argv_hash ds (Hsetnx key field val) = [''hsetnx'', key, field, val]"
| "argv_hash ds (Hstrlen key field) = [''hstrlen'', key, field]"
| "argv_hash ds (Hscan key cursor) = [''hscan'', key, cursor]"
| "argv_hash ds (Hscan_params key cursor params) = [''hscan'', key, cursor] @ scan_words params"
| "argv_hash ds (Hrandfield key) = [''hrandfield'', key]"
| "argv_hash ds (Hrandfield_count key cnt) = [''hrandfield'', key, dec_int cnt]"

primrec reply_hash :: "'d hash_command \<Rightarrow> reply_kind" where
  "reply_hash (Hdel key names) = Integer_reply"
| "reply_hash (Hexists key field) = Integer_reply"
| "reply_hash (Hget key field) = String_ptr"
| "reply_hash (Hgetall key) = Vector_string"
| "reply_hash (Hincrby key field increment) = Integer_reply"
| "reply_hash (Hincrbyfloat key field increment) = Bulk_reply"
| "reply_hash (Hkeys key) = Vector_string"
| "reply_hash (Hvals key) = Vector_string"
| "reply_hash (Hlen key) = Integer_reply"
| "reply_hash (Hmget key names) = Vector_string_ptr"
| "reply_hash (Hset key field val) = Integer_reply"
| "reply_hash (Hset_kvs key kvs) = Integer_reply"
| "reply_hash (Hsetnx key field val) = Integer_reply"
| "reply_hash (Hstrlen key field) = Integer_reply"
| "reply_hash (Hscan key cursor) = Scan_reply"
| "reply_hash (Hscan_params key cursor params) = Scan_reply"
| "reply_hash (Hrandfield key) = String_ptr"
| "reply_hash (Hrandfield_count key cnt) = Vector_string"

section \<open>Sorted sets, to \<open>zremrange\<close>\<close>

datatype zset_command =
    Zadd bytes "bytes list"
  | Zadd_params bytes zadd_params "bytes list"
  | Zincrby bytes int bytes
  | Zscore bytes bytes
  | Zrank bytes bytes
  | Zrevrank bytes bytes
  | Zcard bytes
  | Zcount bytes bytes bytes
  | Zlexcount bytes bytes bytes
  | Zpopmax bytes int
  | Zpopmin bytes int
  | Bzpopmax "bytes list" int
  | Bzpopmin "bytes list" int
  | Zrange bytes bytes bytes
  | Zrange_params bytes bytes bytes zrange_params
  | Zrangestore bytes bytes bytes bytes
  | Zrangestore_params bytes bytes bytes bytes zrange_params
  | Zrem bytes "bytes list"
  | Zremrange zrem_range_option bytes bytes bytes

primrec argv_zset :: "zset_command \<Rightarrow> bytes list" where
  "argv_zset (Zadd key elements) = [''zadd'', key] @ elements"
| "argv_zset (Zadd_params key params elements) = [''zadd'', key] @ zadd_words params @ elements"
| "argv_zset (Zincrby key increment mem) = [''zincrby'', key, dec_int increment, mem]"
| "argv_zset (Zscore key mem) = [''zscore'', key, mem]"
| "argv_zset (Zrank key mem) = [''zrank'', key, mem]"
| "argv_zset (Zrevrank key mem) = [''zrevrank'', key, mem]"
| "argv_zset (Zcard key) = [''zcard'', key]"
| "argv_zset (Zcount key lo hi) = [''zcount'', key, lo, hi]"
| "argv_zset (Zlexcount key lo hi) = [''zlexcount'', key, lo, hi]"
| "argv_zset (Zpopmax key cnt) = [''zpopmax'', key, dec_int cnt]"
| "argv_zset (Zpopmin key cnt) = [''zpopmin'', key, dec_int cnt]"
| "argv_zset (Bzpopmax keys timeout) = [''bzpopmax''] @ keys @ [dec_int timeout]"
| "argv_zset (Bzpopmin keys timeout) = [''bzpopmin''] @ keys @ [dec_int timeout]"
| "argv_zset (Zrange key from to) = [''zrange'', key, from, to]"
| "argv_zset (Zrange_params key from to params) = [''zrange'', key, from, to] @ zrange_words params"
| "argv_zset (Zrangestore dest src lo hi) = [''zrangestore'', dest, src, lo, hi]"
| "argv_zset (Zrangestore_params dest src lo hi params) = [''zrangestore'', dest, src, lo, hi] @ zrange_words params"
| "argv_zset (Zrem key members) = [''zrem'', key] @ members"
| "argv_zset (Zremrange opt key first fin) = [''zremrange'' @ zremRangeOptionToString opt, key, first, fin]"

primrec reply_zset :: "zset_command \<Rightarrow> reply_kind" where
  "reply_zset (Zadd key elements) = Integer_reply"
| "reply_zset (Zadd_params key params elements) = Integer_reply"
| "reply_zset (Zincrby key increment mem) = Bulk_reply"
| "reply_zset (Zscore key mem) = String_ptr"
| "reply_zset (Zrank key mem) = Integer_ptr"
| "reply_zset (Zrevrank key mem) = Integer_ptr"
| "reply_zset (Zcard key) = Integer_reply"
| "reply_zset (Zcount key lo hi) = Integer_reply"
| "reply_zset (Zlexcount key lo hi) = Integer_reply"
| "reply_zset (Zpopmax key cnt) = Vector_string"
| "reply_zset (Zpopmin key cnt) = Vector_string"
| "reply_zset (Bzpopmax keys timeout) = Vector_string"
| "reply_zset (Bzpopmin keys timeout) = Vector_string"
| "reply_zset (Zrange key from to) = Vector_string"
| "reply_zset (Zrange_params key from to params) = Vector_string"
| "reply_zset (Zrangestore dest src lo hi) = Integer_reply"
| "reply_zset (Zrangestore_params dest src lo hi params) = Integer_reply"
| "reply_zset (Zrem key members) = Integer_reply"
| "reply_zset (Zremrange opt key first fin) = Integer_reply"

section \<open>Sorted sets, from \<open>zinter\<close>\<close>

datatype 'd zset_op_command =
    Zinter "bytes list"
  | Zinter_params "bytes list" "'d zinter_params"
  | Zinterstore bytes "bytes list"
  | Zinterstore_params bytes "bytes list" "'d zinter_params"
  | Zunion "bytes list"
  | Zunion_params "bytes list" "'d zinter_params"
  | Zunionstore bytes "bytes list"
  | Zunionstore_params bytes "bytes list" "'d zinter_params"
  | Zdiff "bytes list"
  | ZdiffWithScores "bytes list"
  | Zdiffstore bytes "bytes list"
  | ZdiffstoreWithScores bytes "bytes list"
  | Zmscore bytes "bytes list"
  | Zrandmember bytes
  | Zrandmember_count bytes int
  | Zscan bytes bytes
  | Zscan_params bytes bytes scan_params

primrec argv_zset_op :: "('d \<Rightarrow> bytes) \<Rightarrow> 'd zset_op_command \<Rightarrow> bytes list" where
  "argv_zset_op ds (Zinter keys) = [''zinter'', dec_int (int (length keys))] @ keys"
| "argv_zset_op ds (Zinter_params keys params) = [''zinter'', dec_int (int (length keys))] @ keys @ zinter_words ds params"
| "argv_zset_op ds (Zinterstore dest keys) = [''zinterstore'', dest, dec_int (int (length keys))] @ keys"
| "argv_zset_op ds (Zinterstore_params dest keys params) = [''zinterstore'', dest, dec_int (int (length keys))] @ keys @ zinter_words ds params"
| "argv_zset_op ds (Zunion keys) = [''zunion'', dec_int (int (length keys))] @ keys"
| "argv_zset_op ds (Zunion_params keys params) = [''zunion'', dec_int (int (length keys))] @ keys @ zinter_words ds params"
| "argv_zset_op ds (Zunionstore dest keys) = [''zunionstore'', dest, dec_int (int (length keys))] @ keys"
| "argv_zset_op ds (Zunionstore_params dest keys params) = [''zunionstore'', dest, dec_int (int (length keys))] @ keys @ zinter_words ds params"
| "argv_zset_op ds (Zdiff keys) = [''zdiff'', dec_int (int (length keys))] @ keys"
| "argv_zset_op ds (ZdiffWithScores keys) = [''zdiff'', dec_int (int (length keys))] @ keys @ [''withscores'']"
| "argv_zset_op ds (Zdiffstore dest keys) = [''zdiffstore'', dest, dec_int (int (length keys))] @ keys"
| "argv_zset_op ds (ZdiffstoreWithScores dest keys) = [''zdiffstore'', dest, dec_int (int (length keys))] @ keys @ [''withscores'']"
| "argv_zset_op ds (Zmscore key members) = [''zmscore'', key] @ members"
| "argv_zset_op ds (Zrandmember key) = [''zrandmember'', key]"
| "argv_zset_op ds (Zrandmember_count key cnt) = [''zrandmember'', key, dec_int cnt]"
| "argv_zset_op ds (Zscan key cursor) = [''zscan'', key, cursor]"
| "argv_zset_op ds (Zscan_params key cursor params) = [''zscan'', key, cursor] @ scan_words params"

primrec reply_zset_op :: "'d zset_op_command \<Rightarrow> reply_kind" where
  "reply_zset_op (Zinter keys) = Vector_string"
| "reply_zset_op (Zinter_params keys params) = Vector_string"
| "reply_zset_op (Zinterstore dest keys) = Integer_reply"
| "reply_zset_op (Zinterstore_params dest keys params) = Integer_reply"
| "reply_zset_op (Zunion keys) = Vector_string"
| "reply_zset_op (Zunion_params keys params) = Vector_string"
| "reply_zset_op (Zunionstore dest keys) = Integer_reply"
| "reply_zset_op (Zunionstore_params dest keys params) = Integer_reply"
| "reply_zset_op (Zdiff keys) = Vector_string"
| "reply_zset_op (ZdiffWithScores keys) = Vector_string"
| "reply_zset_op (Zdiffstore dest keys) = Integer_reply"
| "reply_zset_op (ZdiffstoreWithScores dest keys) = Integer_reply"
| "reply_zset_op (Zmscore key members) = Vector_string_ptr"
| "reply_zset_op (Zrandmember key) = String_ptr"
| "reply_zset_op (Zrandmember_count key cnt) = Vector_string"
| "reply_zset_op (Zscan key cursor) = Scan_reply"
| "reply_zset_op (Zscan_params key cursor params) = Scan_reply"

section \<open>HyperLogLog and geo\<close>

datatype 'd geo_command =
    Pfadd bytes "bytes list"
  | Pfcount "bytes list"
  | Pfmerge bytes "bytes list"
  | Geoadd bytes "('d \<times> 'd \<times> bytes) list"
  | Geoadd_params bytes geoadd_params "('d \<times> 'd \<times> bytes) list"
  | Geodist bytes bytes bytes geo_unit
  | Geohash bytes "bytes list"
  | Geopos bytes "bytes list"
  | Georadius bytes 'd 'd 'd geo_unit
  | Georadiusbymember bytes bytes 'd geo_unit

primrec argv_geo :: "('d \<Rightarrow> bytes) \<Rightarrow> 'd geo_command \<Rightarrow> bytes list" where
  "argv_geo ds (Pfadd key elements) = [''pfadd'', key] @ elements"
| "argv_geo ds (Pfcount keys) = [''pfcount''] @ keys"
| "argv_geo ds (Pfmerge dest keys) = [''pfmerge'', dest] @ keys"
| "argv_geo ds (Geoadd key members) = [''geoadd'', key] @ geo_members ds members"
| "argv_geo ds (Geoadd_params key params members) = [''geoadd'', key] @ geoadd_words params @ geo_members ds members"
| "argv_geo ds (Geodist key member1 member2 u) = [''geodist'', key, member1, member2, geoUnitToString u]"
| "argv_geo ds (Geohash key members) = [''geohash'', key] @ members"
| "argv_geo ds (Geopos key members) = [''geopos'', key] @ members"
| "argv_geo ds (Georadius key longitude latitude radius u) = [''georadius'', key, ds longitude, ds latitude, ds radius, geoUnitToString u]"
| "argv_geo ds (Georadiusbymember key mem radius u) = [''georadiusbymember'', key, mem, ds radius, geoUnitToString u]"

primrec reply_geo :: "'d geo_command \<Rightarrow> reply_kind" where
  "reply_geo (Pfadd key elements) = Integer_reply"
| "reply_geo (Pfcount keys) = Integer_reply"
| "reply_geo (Pfmerge dest keys) = Status_reply"
| "reply_geo (Geoadd key members) = Integer_reply"
| "reply_geo (Geoadd_params key params members) = Integer_reply"
| "reply_geo (Geodist key member1 member2 u) = String_ptr"
| "reply_geo (Geohash key members) = Vector_string_ptr"
| "reply_geo (Geopos key members) = Geopos_reply"
| "reply_geo (Georadius key longitude latitude radius u) = Vector_string"
| "reply_geo (Georadiusbymember key mem radius u) = Vector_string"

section \<open>Streams\<close>

datatype stream_command =
    Xadd bytes bytes "bytes list"
  | Xlen bytes
  | Xdel bytes "bytes list"
  | Xack bytes bytes "bytes list"
  | XgroupCreate bytes bytes bytes
  | XgroupCreateConsumer bytes bytes bytes
  | XgroupDelConsumer bytes bytes bytes
  | XgroupDestroy bytes bytes
  | XgroupSetID bytes bytes
  | Xpending bytes bytes
  | Xrange bytes bytes bytes
  | Xrevrange bytes bytes bytes
  | Xread int "bytes list" "bytes list"
  | Xreadgroup bytes bytes "bytes list" "bytes list"
  | Xtrim bytes bytes int
  | Xsetid bytes bytes

primrec argv_stream :: "stream_command \<Rightarrow> bytes list" where
  "argv_stream (Xadd key entry_id elements) = [''xadd'', key, entry_id] @ elements"
| "argv_stream (Xlen key) = [''xlen'', key]"
| "argv_stream (Xdel key ids) = [''xdel'', key] @ ids"
| "argv_stream (Xack key grp ids) = [''xack'', key, grp] @ ids"
| "argv_stream (XgroupCreate key grp entry_id) = [''xgroup'', ''create'', key, grp, entry_id]"
| "argv_stream (XgroupCreateConsumer key grp consumer) = [''xgroup'', ''createconsumer'', key, grp, consumer]"
| "argv_stream (XgroupDelConsumer key grp consumer) = [''xgroup'', ''delconsumer'', key, grp, consumer]"
| "argv_stream (XgroupDestroy key grp) = [''xgroup'', ''destroy'', key, grp]"
| "argv_stream (XgroupSetID key grp) = [''xgroup'', ''setid'', key, grp]"
| "argv_stream (Xpending key grp) = [''xpending'', key, grp]"
| "argv_stream (Xrange key from fin) = [''xrange'', key, from, fin]"
| "argv_stream (Xrevrange key fin from) = [''xrevrange'', key, fin, from]"
| "argv_stream (Xread cnt keys ids) = [''xread'', ''count'', dec_int cnt, ''streams''] @ keys @ ids"
| "argv_stream (Xreadgroup grp consumer keys ids) = [''xreadgroup'', ''group'', grp, consumer, ''streams''] @ keys @ ids"
| "argv_stream (Xtrim key strategy threshold) = [''xtrim'', key, strategy, dec_int threshold]"
| "argv_stream (Xsetid key last_id) = [''xsetid'', key, last_id]"

primrec reply_stream :: "stream_command \<Rightarrow> reply_kind" where
  "reply_stream (Xadd key entry_id elements) = Bulk_reply"
| "reply_stream (Xlen key) = Integer_reply"
| "reply_stream (Xdel key ids) = Integer_reply"
| "reply_stream (Xack key grp ids) = Integer_reply"
| "reply_stream (XgroupCreate key grp entry_id) = Status_reply"
| "reply_stream (XgroupCreateConsumer key grp consumer) = Integer_reply"
| "reply_stream (XgroupDelConsumer key grp consumer) = Integer_reply"
| "reply_stream (XgroupDestroy key grp) = Integer_reply"
| "reply_stream (XgroupSetID key grp) = Status_reply"
| "reply_stream (Xpending key grp) = Xpending_reply"
| "reply_stream (Xrange key from fin) = Xrange_reply"
| "reply_stream (Xrevrange key fin from) = Xrange_reply"
| "reply_stream (Xread cnt keys ids) = Xread_reply"
| "reply_stream (Xreadgroup grp consumer keys ids) = Xread_reply"
| "reply_stream (Xtrim key strategy threshold) = Integer_reply"
| "reply_stream (Xsetid key last_id) = Status_reply"

section \<open>Scripts, connection, server, pubsub, cluster\<close>

datatype server_command =
    Eval bytes "bytes list" "bytes list"
  | EvalRo bytes "bytes list" "bytes list"
  | Evalsha bytes "bytes list" "bytes list"
  | EvalshaRo bytes "bytes list" "bytes list"
  | ScriptLoad bytes
  | ScriptFlush
  | ScriptKill
  | ScriptExists "bytes list"
  | Auth bytes
  | Auth_user bytes bytes
  | Quit
  | Flushall
  | Publish bytes bytes
  | ClusterPublish bytes bytes bytes int
  | ClusterNodes

primrec argv_server :: "server_command \<Rightarrow> bytes list" where
  "argv_server (Eval script keys args) = [''eval'', script, dec_int (int (length keys))] @ keys @ args"
| "argv_server (EvalRo script keys args) = [''eval_ro'', script, dec_int (int (length keys))] @ keys @ args"
| "argv_server (Evalsha sha1 keys args) = [''evalsha'', sha1, dec_int (int (length keys))] @ keys @ args"
| "argv_server (EvalshaRo sha1 keys args) = [''evalsha_ro'', sha1, dec_int (int (length keys))] @ keys @ args"
| "argv_server (ScriptLoad script) = [''script'', ''load'', script]"
| "argv_server ScriptFlush = [''script'', ''flush'']"
| "argv_server ScriptKill = [''script'', ''kill'']"
| "argv_server (ScriptExists sha1s) = [''script'', ''exists''] @ sha1s"
| "argv_server (Auth password) = [''auth'', password]"
| "argv_server (Auth_user user password) = [''auth'', user, password]"
| "argv_server Quit = [''quit'']"
| "argv_server Flushall = [''flushall'']"
| "argv_server (Publish channel message) = [''publish'', channel, message]"
| "argv_server (ClusterPublish channel message nm flag) = [''clusterpublish'', channel, message, nm, dec_int flag]"
| "argv_server ClusterNodes = [''cluster'', ''nodes'']"

primrec reply_server :: "server_command \<Rightarrow> reply_kind" where
  "reply_server (Eval script keys args) = Packet_reply"
| "reply_server (EvalRo script keys args) = Packet_reply"
| "reply_server (Evalsha sha1 keys args) = Packet_reply"
| "reply_server (EvalshaRo sha1 keys args) = Packet_reply"
| "reply_server (ScriptLoad script) = Bulk_reply"
| "reply_server ScriptFlush = Status_reply"
| "reply_server ScriptKill = Status_reply"
| "reply_server (ScriptExists sha1s) = Vector_integer"
| "reply_server (Auth password) = Status_reply"
| "reply_server (Auth_user user password) = Status_reply"
| "reply_server Quit = Status_reply"
| "reply_server Flushall = Status_reply"
| "reply_server (Publish channel message) = Integer_reply"
| "reply_server (ClusterPublish channel message nm flag) = Integer_reply"
| "reply_server ClusterNodes = Bulk_reply"

section \<open>All commands\<close>

datatype 'd command =
    Key_command key_command
  | Keyspace_command keyspace_command
  | String_command string_command
  | Value_command "'d value_command"
  | List_command list_command
  | Set_command set_command
  | Hash_command "'d hash_command"
  | Zset_command zset_command
  | Zset_op_command "'d zset_op_command"
  | Geo_command "'d geo_command"
  | Stream_command stream_command
  | Server_command server_command

text \<open>The words a command method passes to \<open>sendCommand\<close>, and how it reads the reply.\<close>

primrec argv :: "('d \<Rightarrow> bytes) \<Rightarrow> 'd command \<Rightarrow> bytes list" where
  "argv ds (Key_command c) = argv_key c"
| "argv ds (Keyspace_command c) = argv_keyspace c"
| "argv ds (String_command c) = argv_string c"
| "argv ds (Value_command c) = argv_value ds c"
| "argv ds (List_command c) = argv_list c"
| "argv ds (Set_command c) = argv_set c"
| "argv ds (Hash_command c) = argv_hash ds c"
| "argv ds (Zset_command c) = argv_zset c"
| "argv ds (Zset_op_command c) = argv_zset_op ds c"
| "argv ds (Geo_command c) = argv_geo ds c"
| "argv ds (Stream_command c) = argv_stream c"
| "argv ds (Server_command c) = argv_server c"

primrec reply_of :: "'d command \<Rightarrow> reply_kind" where
  "reply_of (Key_command c) = reply_key c"
| "reply_of (Keyspace_command c) = reply_keyspace c"
| "reply_of (String_command c) = reply_string c"
| "reply_of (Value_command c) = reply_value c"
| "reply_of (List_command c) = reply_list c"
| "reply_of (Set_command c) = reply_set c"
| "reply_of (Hash_command c) = reply_hash c"
| "reply_of (Zset_command c) = reply_zset c"
| "reply_of (Zset_op_command c) = reply_zset_op c"
| "reply_of (Geo_command c) = reply_geo c"
| "reply_of (Stream_command c) = reply_stream c"
| "reply_of (Server_command c) = reply_server c"

section \<open>The keys of a command\<close>

text \<open>The keys a server finds in a command: the specification the routing in a cluster is measured
  against. \<open>mset\<close> takes keys and values in turn.\<close>

fun every_other :: "'a list \<Rightarrow> 'a list" where
  "every_other (k # v # kvs) = k # every_other kvs"
| "every_other kvs = kvs"

primrec keys_key :: "key_command \<Rightarrow> bytes list" where
  "keys_key (Del key) = [key]"
| "keys_key (Del_keys keys) = keys"
| "keys_key (Unlink key) = [key]"
| "keys_key (Unlink_keys keys) = keys"
| "keys_key (Exists key) = [key]"
| "keys_key (Exists_keys keys) = keys"
| "keys_key (Expire key timeout) = [key]"
| "keys_key (Expire_params key timeout params) = [key]"
| "keys_key (Expireat key timestamp) = [key]"
| "keys_key (Expireat_params key timestamp params) = [key]"
| "keys_key (Persist key) = [key]"
| "keys_key (Pexpire key timeout) = [key]"
| "keys_key (Pexpire_params key timeout params) = [key]"
| "keys_key (Pexpireat key timestamp) = [key]"
| "keys_key (Pexpireat_params key timestamp params) = [key]"
| "keys_key (Ttl key) = [key]"
| "keys_key (Pttl key) = [key]"

primrec keys_keyspace :: "keyspace_command \<Rightarrow> bytes list" where
  "keys_keyspace (Touch keys) = keys"
| "keys_keyspace (Dump key) = [key]"
| "keys_keyspace (Restore key ttl val) = [key]"
| "keys_keyspace (Restore_params key ttl val params) = [key]"
| "keys_keyspace (Keys pattern) = []"
| "keys_keyspace (Move key db) = [key]"
| "keys_keyspace Randomkey = []"
| "keys_keyspace (Rename key newkey) = [key, newkey]"
| "keys_keyspace (Renamenx key newkey) = [key, newkey]"
| "keys_keyspace (Type key) = [key]"
| "keys_keyspace (Scan cursor) = []"
| "keys_keyspace (Scan_params cursor params) = []"
| "keys_keyspace (Sort key) = [key]"
| "keys_keyspace (Sort_params key params) = [key]"
| "keys_keyspace (SortStore key storekey) = [key, storekey]"
| "keys_keyspace (SortStore_params key storekey params) = [key, storekey]"
| "keys_keyspace (Copy key destkey) = [key, destkey]"
| "keys_keyspace (Copy_params key destkey params) = [key, destkey]"

primrec keys_string :: "string_command \<Rightarrow> bytes list" where
  "keys_string (Append key val) = [key]"
| "keys_string (Bitcount key) = [key]"
| "keys_string (Bitcount_params key params) = [key]"
| "keys_string (Bitfield key args) = [key]"
| "keys_string (BitfieldRo key args) = [key]"
| "keys_string (Bitop oper keys) = keys"
| "keys_string (Bitpos key b) = [key]"
| "keys_string (Bitpos_params key b params) = [key]"
| "keys_string (Setbit key off val) = [key]"
| "keys_string (Getbit key off) = [key]"
| "keys_string (Decr key) = [key]"
| "keys_string (Decrby key decrement) = [key]"
| "keys_string (Getrange key from fin) = [key]"
| "keys_string (Getset key val) = [key]"
| "keys_string (Set_params key val params) = [key]"
| "keys_string (Set key val) = [key]"

primrec keys_value :: "'d value_command \<Rightarrow> bytes list" where
  "keys_value (Get key) = [key]"
| "keys_value (Incr key) = [key]"
| "keys_value (Incrby key increment) = [key]"
| "keys_value (Incrbyfloat key increment) = [key]"
| "keys_value (Mget keys) = keys"
| "keys_value (Mset kvs) = every_other kvs"
| "keys_value (Msetnx kvs) = every_other kvs"
| "keys_value (Psetex key milliseconds val) = [key]"
| "keys_value (Setex key seconds val) = [key]"
| "keys_value (Setnx key val) = [key]"
| "keys_value (Setrange key off val) = [key]"
| "keys_value (Strlen key) = [key]"
| "keys_value (Getdel key) = [key]"
| "keys_value (Getex key params) = [key]"

primrec keys_list :: "list_command \<Rightarrow> bytes list" where
  "keys_list (Blpop keys timeout) = keys"
| "keys_list (Brpop keys timeout) = keys"
| "keys_list (Brpoplpush src dest timeout) = [src, dest]"
| "keys_list (Lindex key idx) = [key]"
| "keys_list (Linsert key direction pivot element) = [key]"
| "keys_list (Llen key) = [key]"
| "keys_list (Lpop key) = [key]"
| "keys_list (Lpop_count key cnt) = [key]"
| "keys_list (Lpush key elements) = [key]"
| "keys_list (Lpushx key elements) = [key]"
| "keys_list (Lrange key from to) = [key]"
| "keys_list (Lrem key cnt element) = [key]"
| "keys_list (Lset key idx element) = [key]"
| "keys_list (Ltrim key from to) = [key]"
| "keys_list (Rpop key) = [key]"
| "keys_list (Rpop_count key cnt) = [key]"
| "keys_list (Rpoplpush src dest) = [src, dest]"
| "keys_list (Rpush key elements) = [key]"
| "keys_list (Rpushx key elements) = [key]"
| "keys_list (Lmove src dest ldir rdir) = [src, dest]"
| "keys_list (Blmove src dest ldir rdir timeout) = [src, dest]"

primrec keys_set :: "set_command \<Rightarrow> bytes list" where
  "keys_set (Sadd key members) = [key]"
| "keys_set (Scard key) = [key]"
| "keys_set (Sismember key mem) = [key]"
| "keys_set (Smembers key) = [key]"
| "keys_set (Smove src dest mem) = [src, dest]"
| "keys_set (Srem key members) = [key]"
| "keys_set (Spop key) = [key]"
| "keys_set (Spop_count key cnt) = [key]"
| "keys_set (Srandmember key) = [key]"
| "keys_set (Srandmember_count key cnt) = [key]"
| "keys_set (Sdiff keys) = keys"
| "keys_set (Sinter keys) = keys"
| "keys_set (Sunion keys) = keys"
| "keys_set (Sdiffstore dest keys) = [dest] @ keys"
| "keys_set (Sinterstore dest keys) = [dest] @ keys"
| "keys_set (Sunionstore dest keys) = [dest] @ keys"
| "keys_set (Sscan key cursor) = [key]"
| "keys_set (Sscan_params key cursor params) = [key]"
| "keys_set (Smismember key members) = [key]"

primrec keys_hash :: "'d hash_command \<Rightarrow> bytes list" where
  "keys_hash (Hdel key names) = [key]"
| "keys_hash (Hexists key field) = [key]"
| "keys_hash (Hget key field) = [key]"
| "keys_hash (Hgetall key) = [key]"
| "keys_hash (Hincrby key field increment) = [key]"
| "keys_hash (Hincrbyfloat key field increment) = [key]"
| "keys_hash (Hkeys key) = [key]"
| "keys_hash (Hvals key) = [key]"
| "keys_hash (Hlen key) = [key]"
| "keys_hash (Hmget key names) = [key]"
| "keys_hash (Hset key field val) = [key]"
| "keys_hash (Hset_kvs key kvs) = [key]"
| "keys_hash (Hsetnx key field val) = [key]"
| "keys_hash (Hstrlen key field) = [key]"
| "keys_hash (Hscan key cursor) = [key]"
| "keys_hash (Hscan_params key cursor params) = [key]"
| "keys_hash (Hrandfield key) = [key]"
| "keys_hash (Hrandfield_count key cnt) = [key]"

primrec keys_zset :: "zset_command \<Rightarrow> bytes list" where
  "keys_zset (Zadd key elements) = [key]"
| "keys_zset (Zadd_params key params elements) = [key]"
| "keys_zset (Zincrby key increment mem) = [key]"
| "keys_zset (Zscore key mem) = [key]"
| "keys_zset (Zrank key mem) = [key]"
| "keys_zset (Zrevrank key mem) = [key]"
| "keys_zset (Zcard key) = [key]"
| "keys_zset (Zcount key lo hi) = [key]"
| "keys_zset (Zlexcount key lo hi) = [key]"
| "keys_zset (Zpopmax key cnt) = [key]"
| "keys_zset (Zpopmin key cnt) = [key]"
| "keys_zset (Bzpopmax keys timeout) = keys"
| "keys_zset (Bzpopmin keys timeout) = keys"
| "keys_zset (Zrange key from to) = [key]"
| "keys_zset (Zrange_params key from to params) = [key]"
| "keys_zset (Zrangestore dest src lo hi) = [dest, src]"
| "keys_zset (Zrangestore_params dest src lo hi params) = [dest, src]"
| "keys_zset (Zrem key members) = [key]"
| "keys_zset (Zremrange opt key first fin) = [key]"

primrec keys_zset_op :: "'d zset_op_command \<Rightarrow> bytes list" where
  "keys_zset_op (Zinter keys) = keys"
| "keys_zset_op (Zinter_params keys params) = keys"
| "keys_zset_op (Zinterstore dest keys) = [dest] @ keys"
| "keys_zset_op (Zinterstore_params dest keys params) = [dest] @ keys"
| "keys_zset_op (Zunion keys) = keys"
| "keys_zset_op (Zunion_params keys params) = keys"
| "keys_zset_op (Zunionstore dest keys) = [dest] @ keys"
| "keys_zset_op (Zunionstore_params dest keys params) = [dest] @ keys"
| "keys_zset_op (Zdiff keys) = keys"
| "keys_zset_op (ZdiffWithScores keys) = keys"
| "keys_zset_op (Zdiffstore dest keys) = [dest] @ keys"
| "keys_zset_op (ZdiffstoreWithScores dest keys) = [dest] @ keys"
| "keys_zset_op (Zmscore key members) = [key]"
| "keys_zset_op (Zrandmember key) = [key]"
| "keys_zset_op (Zrandmember_count key cnt) = [key]"
| "keys_zset_op (Zscan key cursor) = [key]"
| "keys_zset_op (Zscan_params key cursor params) = [key]"

primrec keys_geo :: "'d geo_command \<Rightarrow> bytes list" where
  "keys_geo (Pfadd key elements) = [key]"
| "keys_geo (Pfcount keys) = keys"
| "keys_geo (Pfmerge dest keys) = [dest] @ keys"
| "keys_geo (Geoadd key members) = [key]"
| "keys_geo (Geoadd_params key params members) = [key]"
| "keys_geo (Geodist key member1 member2 u) = [key]"
| "keys_geo (Geohash key members) = [key]"
| "keys_geo (Geopos key members) = [key]"
| "keys_geo (Georadius key longitude latitude radius u) = [key]"
| "keys_geo (Georadiusbymember key mem radius u) = [key]"

primrec keys_stream :: "stream_command \<Rightarrow> bytes list" where
  "keys_stream (Xadd key entry_id elements) = [key]"
| "keys_stream (Xlen key) = [key]"
| "keys_stream (Xdel key ids) = [key]"
| "keys_stream (Xack key grp ids) = [key]"
| "keys_stream (XgroupCreate key grp entry_id) = [key]"
| "keys_stream (XgroupCreateConsumer key grp consumer) = [key]"
| "keys_stream (XgroupDelConsumer key grp consumer) = [key]"
| "keys_stream (XgroupDestroy key grp) = [key]"
| "keys_stream (XgroupSetID key grp) = [key]"
| "keys_stream (Xpending key grp) = [key]"
| "keys_stream (Xrange key from fin) = [key]"
| "keys_stream (Xrevrange key fin from) = [key]"
| "keys_stream (Xread cnt keys ids) = keys"
| "keys_stream (Xreadgroup grp consumer keys ids) = keys"
| "keys_stream (Xtrim key strategy threshold) = [key]"
| "keys_stream (Xsetid key last_id) = [key]"

primrec keys_server :: "server_command \<Rightarrow> bytes list" where
  "keys_server (Eval script keys args) = keys"
| "keys_server (EvalRo script keys args) = keys"
| "keys_server (Evalsha sha1 keys args) = keys"
| "keys_server (EvalshaRo sha1 keys args) = keys"
| "keys_server (ScriptLoad script) = []"
| "keys_server ScriptFlush = []"
| "keys_server ScriptKill = []"
| "keys_server (ScriptExists sha1s) = []"
| "keys_server (Auth password) = []"
| "keys_server (Auth_user user password) = []"
| "keys_server Quit = []"
| "keys_server Flushall = []"
| "keys_server (Publish channel message) = []"
| "keys_server (ClusterPublish channel message nm flag) = []"
| "keys_server ClusterNodes = []"

primrec keys_of :: "'d command \<Rightarrow> bytes list" where
  "keys_of (Key_command c) = keys_key c"
| "keys_of (Keyspace_command c) = keys_keyspace c"
| "keys_of (String_command c) = keys_string c"
| "keys_of (Value_command c) = keys_value c"
| "keys_of (List_command c) = keys_list c"
| "keys_of (Set_command c) = keys_set c"
| "keys_of (Hash_command c) = keys_hash c"
| "keys_of (Zset_command c) = keys_zset c"
| "keys_of (Zset_op_command c) = keys_zset_op c"
| "keys_of (Geo_command c) = keys_geo c"
| "keys_of (Stream_command c) = keys_stream c"
| "keys_of (Server_command c) = keys_server c"

end
