(* ===== verification/Cluster.thy ===== *)
theory Cluster
  imports Commands KeyHash
begin

text \<open>
  \<open>client/TairClusterAsyncClient.cpp\<close>: the client of a cluster keeps a table from hash slots to
  the clients of the nodes and sends every command to one of them. \<open>route_...\<close> are the bodies of
  the command methods, \<open>perform\<close> what such a method does in a state of the client, \<open>calcCommandSlot\<close>
  the slot of a command given as words. \<open>absl::StrSplit\<close>, \<open>absl::SimpleAtoi\<close>, the connections and
  the clock are parameters. \<open>None\<close> is undefined behaviour: a read past the end of an array or
  through a null pointer.
\<close>

section \<open>Routing a command\<close>

definition E_NOT_IN_SAME_SLOT :: bytes where
  "E_NOT_IN_SAME_SLOT = ''multiple keys are not in the same slot''"

definition E_CLUSTER_NOT_SUPPORT_COMMAND :: bytes where
  "E_CLUSTER_NOT_SUPPORT_COMMAND = ''cluster mode do not support this command''"

text \<open>What a command method does: use the client of a slot, of any slot, of every node; collect
  the keys of all nodes; call back with an error or with null pointers; nothing at all; or
  dereference the begin iterator of an empty list.\<close>

datatype route =
    To_slot nat
  | To_random_node
  | To_every_node "bytes option"
  | Collect_keys
  | Refuse bytes
  | Null_reply
  | Nothing
  | Undefined_first

definition checkKeyInSameSlot :: "bytes list \<Rightarrow> bool" where
  "checkKeyInSameSlot ks = (case ks of [] \<Rightarrow> True
     | k # _ \<Rightarrow> list_all (\<lambda>key. keyHashSlot key = keyHashSlot k) ks)"

definition checkKeyInSameSlot_dest :: "bytes \<Rightarrow> bytes list \<Rightarrow> bool" where
  "checkKeyInSameSlot_dest dest ks = list_all (\<lambda>key. keyHashSlot key = keyHashSlot dest) ks"

definition by_key :: "bytes \<Rightarrow> route" where
  "by_key key = To_slot (unat (keyHashSlot key))"

definition by_first :: "bytes list \<Rightarrow> route" where
  "by_first ks = (case ks of [] \<Rightarrow> Undefined_first | k # _ \<Rightarrow> by_key k)"

definition same_slot :: "bytes list \<Rightarrow> bytes \<Rightarrow> route \<Rightarrow> route" where
  "same_slot ks err r = (if checkKeyInSameSlot ks then r else Refuse err)"

definition same_slot_dest :: "bytes \<Rightarrow> bytes list \<Rightarrow> bytes \<Rightarrow> route \<Rightarrow> route" where
  "same_slot_dest dest ks err r = (if checkKeyInSameSlot_dest dest ks then r else Refuse err)"

primrec route_key :: "key_command \<Rightarrow> route" where
  "route_key (Del key) = by_key key"
| "route_key (Del_keys keys) = Refuse E_CLUSTER_NOT_SUPPORT_COMMAND"
| "route_key (Unlink key) = by_key key"
| "route_key (Unlink_keys keys) = by_first keys"
| "route_key (Exists key) = by_key key"
| "route_key (Exists_keys keys) = by_first keys"
| "route_key (Expire key timeout) = by_key key"
| "route_key (Expire_params key timeout params) = by_key key"
| "route_key (Expireat key timestamp) = by_key key"
| "route_key (Expireat_params key timestamp params) = by_key key"
| "route_key (Persist key) = by_key key"
| "route_key (Pexpire key timeout) = by_key key"
| "route_key (Pexpire_params key timeout params) = by_key key"
| "route_key (Pexpireat key timestamp) = by_key key"
| "route_key (Pexpireat_params key timestamp params) = by_key key"
| "route_key (Ttl key) = by_key key"
| "route_key (Pttl key) = by_key key"

primrec route_keyspace :: "keyspace_command \<Rightarrow> route" where
  "route_keyspace (Touch keys) = by_first keys"
| "route_keyspace (Dump key) = by_key key"
| "route_keyspace (Restore key ttl val) = by_key key"
| "route_keyspace (Restore_params key ttl val params) = by_key key"
| "route_keyspace (Keys pattern) = Collect_keys"
| "route_keyspace (Move key db) = by_key key"
| "route_keyspace Randomkey = To_random_node"
| "route_keyspace (Rename key newkey) = same_slot [key, newkey] E_NOT_IN_SAME_SLOT (by_key key)"
| "route_keyspace (Renamenx key newkey) = same_slot [key, newkey] E_NOT_IN_SAME_SLOT (by_key key)"
| "route_keyspace (Type key) = by_key key"
| "route_keyspace (Scan cursor) = Nothing"
| "route_keyspace (Scan_params cursor params) = Nothing"
| "route_keyspace (Sort key) = by_key key"
| "route_keyspace (Sort_params key params) = by_key key"
| "route_keyspace (SortStore key storekey) = same_slot [key, storekey] E_NOT_IN_SAME_SLOT (by_key key)"
| "route_keyspace (SortStore_params key storekey params) = same_slot [key, storekey] E_NOT_IN_SAME_SLOT (by_key key)"
| "route_keyspace (Copy key destkey) = same_slot [key, destkey] E_NOT_IN_SAME_SLOT (by_key key)"
| "route_keyspace (Copy_params key destkey params) = same_slot [key, destkey] E_NOT_IN_SAME_SLOT (by_key key)"

primrec route_string :: "string_command \<Rightarrow> route" where
  "route_string (Append key val) = by_key key"
| "route_string (Bitcount key) = by_key key"
| "route_string (Bitcount_params key params) = by_key key"
| "route_string (Bitfield key args) = by_key key"
| "route_string (BitfieldRo key args) = by_key key"
| "route_string (Bitop oper keys) = same_slot keys E_NOT_IN_SAME_SLOT (by_first keys)"
| "route_string (Bitpos key b) = by_key key"
| "route_string (Bitpos_params key b params) = by_key key"
| "route_string (Setbit key off val) = by_key key"
| "route_string (Getbit key off) = by_key key"
| "route_string (Decr key) = by_key key"
| "route_string (Decrby key decrement) = by_key key"
| "route_string (Getrange key from fin) = by_key key"
| "route_string (Getset key val) = by_key key"
| "route_string (Set_params key val params) = by_key key"
| "route_string (Set key val) = by_key key"

primrec route_value :: "'d value_command \<Rightarrow> route" where
  "route_value (Get key) = by_key key"
| "route_value (Incr key) = by_key key"
| "route_value (Incrby key increment) = by_key key"
| "route_value (Incrbyfloat key increment) = by_key key"
| "route_value (Mget keys) = Refuse E_CLUSTER_NOT_SUPPORT_COMMAND"
| "route_value (Mset kvs) = Refuse E_CLUSTER_NOT_SUPPORT_COMMAND"
| "route_value (Msetnx kvs) = Refuse E_CLUSTER_NOT_SUPPORT_COMMAND"
| "route_value (Psetex key milliseconds val) = by_key key"
| "route_value (Setex key seconds val) = by_key key"
| "route_value (Setnx key val) = by_key key"
| "route_value (Setrange key off val) = by_key key"
| "route_value (Strlen key) = by_key key"
| "route_value (Getdel key) = by_key key"
| "route_value (Getex key params) = by_key key"

primrec route_list :: "list_command \<Rightarrow> route" where
  "route_list (Blpop keys timeout) = same_slot keys E_NOT_IN_SAME_SLOT (by_first keys)"
| "route_list (Brpop keys timeout) = same_slot keys E_NOT_IN_SAME_SLOT (by_first keys)"
| "route_list (Brpoplpush src dest timeout) = same_slot [src, dest] E_NOT_IN_SAME_SLOT (by_key src)"
| "route_list (Lindex key idx) = by_key key"
| "route_list (Linsert key direction pivot element) = by_key key"
| "route_list (Llen key) = by_key key"
| "route_list (Lpop key) = by_key key"
| "route_list (Lpop_count key cnt) = by_key key"
| "route_list (Lpush key elements) = by_key key"
| "route_list (Lpushx key elements) = by_key key"
| "route_list (Lrange key from to) = by_key key"
| "route_list (Lrem key cnt element) = by_key key"
| "route_list (Lset key idx element) = by_key key"
| "route_list (Ltrim key from to) = by_key key"
| "route_list (Rpop key) = by_key key"
| "route_list (Rpop_count key cnt) = by_key key"
| "route_list (Rpoplpush src dest) = same_slot [src, dest] E_NOT_IN_SAME_SLOT (by_key src)"
| "route_list (Rpush key elements) = by_key key"
| "route_list (Rpushx key elements) = by_key key"
| "route_list (Lmove src dest ldir rdir) = same_slot [src, dest] E_NOT_IN_SAME_SLOT (by_key src)"
| "route_list (Blmove src dest ldir rdir timeout) = same_slot [src, dest] E_NOT_IN_SAME_SLOT (by_key src)"

primrec route_set :: "set_command \<Rightarrow> route" where
  "route_set (Sadd key members) = by_key key"
| "route_set (Scard key) = by_key key"
| "route_set (Sismember key mem) = by_key key"
| "route_set (Smembers key) = by_key key"
| "route_set (Smove src dest mem) = Nothing"
| "route_set (Srem key members) = by_key key"
| "route_set (Spop key) = by_key key"
| "route_set (Spop_count key cnt) = by_key key"
| "route_set (Srandmember key) = by_key key"
| "route_set (Srandmember_count key cnt) = by_key key"
| "route_set (Sdiff keys) = Nothing"
| "route_set (Sinter keys) = Nothing"
| "route_set (Sunion keys) = Nothing"
| "route_set (Sdiffstore dest keys) = Nothing"
| "route_set (Sinterstore dest keys) = Nothing"
| "route_set (Sunionstore dest keys) = Nothing"
| "route_set (Sscan key cursor) = by_key key"
| "route_set (Sscan_params key cursor params) = by_key key"
| "route_set (Smismember key members) = by_key key"

primrec route_hash :: "'d hash_command \<Rightarrow> route" where
  "route_hash (Hdel key names) = by_key key"
| "route_hash (Hexists key field) = by_key key"
| "route_hash (Hget key field) = by_key key"
| "route_hash (Hgetall key) = by_key key"
| "route_hash (Hincrby key field increment) = by_key key"
| "route_hash (Hincrbyfloat key field increment) = by_key key"
| "route_hash (Hkeys key) = by_key key"
| "route_hash (Hvals key) = by_key key"
| "route_hash (Hlen key) = by_key key"
| "route_hash (Hmget key names) = by_key key"
| "route_hash (Hset key field val) = by_key key"
| "route_hash (Hset_kvs key kvs) = by_key key"
| "route_hash (Hsetnx key field val) = by_key key"
| "route_hash (Hstrlen key field) = by_key key"
| "route_hash (Hscan key cursor) = by_key key"
| "route_hash (Hscan_params key cursor params) = by_key key"
| "route_hash (Hrandfield key) = by_key key"
| "route_hash (Hrandfield_count key cnt) = by_key key"

primrec route_zset :: "zset_command \<Rightarrow> route" where
  "route_zset (Zadd key elements) = by_key key"
| "route_zset (Zadd_params key params elements) = by_key key"
| "route_zset (Zincrby key increment mem) = by_key key"
| "route_zset (Zscore key mem) = by_key key"
| "route_zset (Zrank key mem) = by_key key"
| "route_zset (Zrevrank key mem) = by_key key"
| "route_zset (Zcard key) = by_key key"
| "route_zset (Zcount key lo hi) = by_key key"
| "route_zset (Zlexcount key lo hi) = by_key key"
| "route_zset (Zpopmax key cnt) = by_key key"
| "route_zset (Zpopmin key cnt) = by_key key"
| "route_zset (Bzpopmax keys timeout) = same_slot keys E_NOT_IN_SAME_SLOT (by_first keys)"
| "route_zset (Bzpopmin keys timeout) = same_slot keys E_NOT_IN_SAME_SLOT (by_first keys)"
| "route_zset (Zrange key from to) = by_key key"
| "route_zset (Zrange_params key from to params) = by_key key"
| "route_zset (Zrangestore dest src lo hi) = same_slot [dest, src] E_NOT_IN_SAME_SLOT (by_key dest)"
| "route_zset (Zrangestore_params dest src lo hi params) = same_slot [dest, src] E_NOT_IN_SAME_SLOT (by_key dest)"
| "route_zset (Zrem key members) = by_key key"
| "route_zset (Zremrange opt key first fin) = by_key key"

primrec route_zset_op :: "'d zset_op_command \<Rightarrow> route" where
  "route_zset_op (Zinter keys) = Nothing"
| "route_zset_op (Zinter_params keys params) = Nothing"
| "route_zset_op (Zinterstore dest keys) = Nothing"
| "route_zset_op (Zinterstore_params dest keys params) = Nothing"
| "route_zset_op (Zunion keys) = Nothing"
| "route_zset_op (Zunion_params keys params) = Nothing"
| "route_zset_op (Zunionstore dest keys) = Nothing"
| "route_zset_op (Zunionstore_params dest keys params) = Nothing"
| "route_zset_op (Zdiff keys) = Nothing"
| "route_zset_op (ZdiffWithScores keys) = Nothing"
| "route_zset_op (Zdiffstore dest keys) = Nothing"
| "route_zset_op (ZdiffstoreWithScores dest keys) = Nothing"
| "route_zset_op (Zmscore key members) = by_key key"
| "route_zset_op (Zrandmember key) = by_key key"
| "route_zset_op (Zrandmember_count key cnt) = by_key key"
| "route_zset_op (Zscan key cursor) = by_key key"
| "route_zset_op (Zscan_params key cursor params) = by_key key"

primrec route_geo :: "'d geo_command \<Rightarrow> route" where
  "route_geo (Pfadd key elements) = by_key key"
| "route_geo (Pfcount keys) = same_slot keys E_NOT_IN_SAME_SLOT (by_first keys)"
| "route_geo (Pfmerge dest keys) = same_slot_dest dest keys E_NOT_IN_SAME_SLOT (by_key dest)"
| "route_geo (Geoadd key members) = by_key key"
| "route_geo (Geoadd_params key params members) = by_key key"
| "route_geo (Geodist key member1 member2 u) = by_key key"
| "route_geo (Geohash key members) = by_key key"
| "route_geo (Geopos key members) = by_key key"
| "route_geo (Georadius key longitude latitude radius u) = by_key key"
| "route_geo (Georadiusbymember key mem radius u) = by_key key"

primrec route_stream :: "stream_command \<Rightarrow> route" where
  "route_stream (Xadd key entry_id elements) = by_key key"
| "route_stream (Xlen key) = by_key key"
| "route_stream (Xdel key ids) = by_key key"
| "route_stream (Xack key grp ids) = by_key key"
| "route_stream (XgroupCreate key grp entry_id) = by_key key"
| "route_stream (XgroupCreateConsumer key grp consumer) = by_key key"
| "route_stream (XgroupDelConsumer key grp consumer) = by_key key"
| "route_stream (XgroupDestroy key grp) = by_key key"
| "route_stream (XgroupSetID key grp) = by_key key"
| "route_stream (Xpending key grp) = by_key key"
| "route_stream (Xrange key from fin) = by_key key"
| "route_stream (Xrevrange key fin from) = by_key key"
| "route_stream (Xread cnt keys ids) = same_slot keys E_NOT_IN_SAME_SLOT (by_first keys)"
| "route_stream (Xreadgroup grp consumer keys ids) = same_slot keys E_NOT_IN_SAME_SLOT (by_first keys)"
| "route_stream (Xtrim key strategy threshold) = by_key key"
| "route_stream (Xsetid key last_id) = by_key key"

primrec route_server :: "server_command \<Rightarrow> route" where
  "route_server (Eval script keys args) = (if checkKeyInSameSlot keys then To_random_node else Null_reply)"
| "route_server (EvalRo script keys args) = (if checkKeyInSameSlot keys then To_random_node else Null_reply)"
| "route_server (Evalsha sha1 keys args) = (if checkKeyInSameSlot keys then To_random_node else Null_reply)"
| "route_server (EvalshaRo sha1 keys args) = (if checkKeyInSameSlot keys then To_random_node else Null_reply)"
| "route_server (ScriptLoad script) = To_every_node (Some ''script load failed'')"
| "route_server ScriptFlush = To_every_node (Some ''script flush failed'')"
| "route_server ScriptKill = To_every_node (Some ''script kill failed'')"
| "route_server (ScriptExists sha1s) = To_random_node"
| "route_server (Auth password) = To_random_node"
| "route_server (Auth_user user password) = To_random_node"
| "route_server Quit = To_every_node None"
| "route_server Flushall = To_every_node (Some ''flushall failed'')"
| "route_server (Publish channel message) = by_key channel"
| "route_server (ClusterPublish channel message nm flag) = by_key channel"
| "route_server ClusterNodes = To_random_node"

primrec route_of :: "'d command \<Rightarrow> route" where
  "route_of (Key_command c) = route_key c"
| "route_of (Keyspace_command c) = route_keyspace c"
| "route_of (String_command c) = route_string c"
| "route_of (Value_command c) = route_value c"
| "route_of (List_command c) = route_list c"
| "route_of (Set_command c) = route_set c"
| "route_of (Hash_command c) = route_hash c"
| "route_of (Zset_command c) = route_zset c"
| "route_of (Zset_op_command c) = route_zset_op c"
| "route_of (Geo_command c) = route_geo c"
| "route_of (Stream_command c) = route_stream c"
| "route_of (Server_command c) = route_server c"

section \<open>The state of the client\<close>

text \<open>\<open>'c\<close> stands for the pointers to node clients.\<close>

record 'c cluster =
  client_map :: "bytes \<Rightarrow> 'c option"
  slot_to_clients :: "'c option list"

definition new_cluster :: "'c cluster" where
  "new_cluster = \<lparr>client_map = (\<lambda>_. None), slot_to_clients = replicate SLOTS_NUM None\<rparr>"

text \<open>\<open>conn addr\<close> is the client \<open>connect().get()\<close> gives, if the connection succeeds.\<close>

definition createClient :: "(bytes \<Rightarrow> 'c option) \<Rightarrow> bytes \<Rightarrow> 'c cluster \<Rightarrow> 'c option \<times> 'c cluster" where
  "createClient conn addr st = (case client_map st addr of
     Some c \<Rightarrow> (Some c, st)
   | None \<Rightarrow> (case conn addr of
       None \<Rightarrow> (None, st)
     | Some c \<Rightarrow> (Some c, st\<lparr>client_map := (client_map st)(addr \<mapsto> c)\<rparr>)))"

definition checkSlotToClients :: "'c cluster \<Rightarrow> bool" where
  "checkSlotToClients st = list_all (\<lambda>c. c \<noteq> None) (take SLOTS_NUM (slot_to_clients st))"

section \<open>The nodes of the cluster\<close>

definition slot_ok :: "int \<Rightarrow> bool" where
  "slot_ok i \<longleftrightarrow> \<not> (i < 0 \<or> i \<ge> int SLOTS_NUM)"

fun set_slots :: "'c \<Rightarrow> nat list \<Rightarrow> 'c cluster \<Rightarrow> 'c cluster" where
  "set_slots c [] st = st"
| "set_slots c (i # is) st = set_slots c is (st\<lparr>slot_to_clients := (slot_to_clients st)[i := Some c]\<rparr>)"

text \<open>The loop over the slot ranges of a line, from item 8.\<close>

fun assign_slots ::
  "(bytes \<Rightarrow> char \<Rightarrow> bytes list) \<Rightarrow> (bytes \<Rightarrow> int option) \<Rightarrow> 'c \<Rightarrow> bytes list \<Rightarrow> 'c cluster \<Rightarrow> bool \<times> 'c cluster" where
  "assign_slots split atoi c [] st = (True, st)"
| "assign_slots split atoi c (s # ss) st =
     (if s = [] \<or> hd s = CHR ''['' then (True, st)
      else case split s (CHR ''-'') of
          [a, b] \<Rightarrow> (case (atoi a, atoi b) of
              (Some i, Some j) \<Rightarrow>
                if slot_ok i \<and> slot_ok j \<and> i \<le> j
                then assign_slots split atoi c ss (set_slots c [nat i..<Suc (nat j)] st)
                else (False, st)
            | _ \<Rightarrow> (False, st))
        | [a] \<Rightarrow> (case atoi a of
              Some i \<Rightarrow>
                if slot_ok i
                then assign_slots split atoi c ss (set_slots c [nat i] st)
                else (False, st)
            | None \<Rightarrow> (False, st))
        | _ \<Rightarrow> (False, st))"

text \<open>\<open>std::string::find\<close>: does a word occur in a string.\<close>

fun contains :: "bytes \<Rightarrow> bytes \<Rightarrow> bool" where
  "contains [] w \<longleftrightarrow> w = []"
| "contains (c # cs) w \<longleftrightarrow> take (length w) (c # cs) = w \<or> contains cs w"

fun parse_lines ::
  "(bytes \<Rightarrow> char \<Rightarrow> bytes list) \<Rightarrow> (bytes \<Rightarrow> int option) \<Rightarrow> (bytes \<Rightarrow> 'c option) \<Rightarrow>
   bytes list \<Rightarrow> 'c cluster \<Rightarrow> bool \<times> 'c cluster" where
  "parse_lines split atoi conn [] st = (True, st)"
| "parse_lines split atoi conn (line # lines) st =
     (let items = split line (CHR '' '') in
      if length items < 9 then parse_lines split atoi conn lines st
      else if \<not> contains (items ! 2) ''master'' then parse_lines split atoi conn lines st
      else
        (let result = split (items ! 1) (CHR ''@'') in
         if length result = 2 \<or> length result = 1 then
           (case createClient conn (result ! 0) st of
              (None, st1) \<Rightarrow> (False, st1)
            | (Some c, st1) \<Rightarrow>
                (case assign_slots split atoi c (drop 8 items) st1 of
                   (True, st2) \<Rightarrow> parse_lines split atoi conn lines st2
                 | (False, st2) \<Rightarrow> (False, st2)))
         else (False, st)))"

definition parseNodesInfoAndInitClient ::
  "(bytes \<Rightarrow> char \<Rightarrow> bytes list) \<Rightarrow> (bytes \<Rightarrow> int option) \<Rightarrow> (bytes \<Rightarrow> 'c option) \<Rightarrow>
   bytes \<Rightarrow> 'c cluster \<Rightarrow> bool \<times> 'c cluster" where
  "parseNodesInfoAndInitClient split atoi conn nodes_info = parse_lines split atoi conn (split nodes_info LF)"

text \<open>\<open>nodes c\<close> is what \<open>cluster nodes\<close> brings from a client in time, if anything.\<close>

definition init ::
  "(bytes \<Rightarrow> char \<Rightarrow> bytes list) \<Rightarrow> (bytes \<Rightarrow> int option) \<Rightarrow> (bytes \<Rightarrow> 'c option) \<Rightarrow> ('c \<Rightarrow> bytes option) \<Rightarrow>
   bytes \<Rightarrow> 'c cluster \<Rightarrow> bytes tair_result \<times> 'c cluster" where
  "init split atoi conn nodes server_addr st = (case createClient conn server_addr st of
     (None, st1) \<Rightarrow> (setErr ''connect to server failed'', st1)
   | (Some c, st1) \<Rightarrow> (case nodes c of
       None \<Rightarrow> (setErr ''get cluster nodes info failed'', st1\<lparr>client_map := (\<lambda>_. None)\<rparr>)
     | Some nodes_info \<Rightarrow> (case parseNodesInfoAndInitClient split atoi conn nodes_info st1 of
         (False, st2) \<Rightarrow> (setErr ''parse cluster nodes info failed'', st2\<lparr>client_map := (\<lambda>_. None)\<rparr>)
       | (True, st2) \<Rightarrow>
           if \<not> checkSlotToClients st2 then (setErr ''some slots are not initialized'', st2)
           else (setValue ''ok'', st2))))"

definition destroy :: "'c cluster \<Rightarrow> 'c cluster" where
  "destroy st = st\<lparr>client_map := (\<lambda>_. None), slot_to_clients := map (\<lambda>_. None) (slot_to_clients st)\<rparr>"

section \<open>Sending\<close>

text \<open>What happens outside the client: words handed to a node client with the way their reply is
  read, and calls of the user's callback.\<close>

datatype 'c action =
    Send 'c "bytes list" reply_kind
  | Call_error bytes
  | Call_null
  | Call_ok

definition client_of_slot :: "nat \<Rightarrow> 'c cluster \<Rightarrow> 'c option" where
  "client_of_slot slot st = (if slot < length (slot_to_clients st) then slot_to_clients st ! slot else None)"

definition getClientRandom :: "nat \<Rightarrow> 'c cluster \<Rightarrow> 'c option" where
  "getClientRandom now st = client_of_slot (now mod SLOTS_NUM) st"

text \<open>The methods for all nodes send and then look at once at a flag the replies will set:
  \<open>failed_early\<close> are the nodes whose error has arrived by then.\<close>

definition perform ::
  "('d \<Rightarrow> bytes) \<Rightarrow> nat \<Rightarrow> 'c list \<Rightarrow> ('c \<Rightarrow> bool) \<Rightarrow> 'c cluster \<Rightarrow> 'd command \<Rightarrow> 'c action list option" where
  "perform ds now nodes failed_early st c = (case route_of c of
     To_slot slot \<Rightarrow> do { cl \<leftarrow> client_of_slot slot st; Some [Send cl (argv ds c) (reply_of c)] }
   | To_random_node \<Rightarrow> do { cl \<leftarrow> getClientRandom now st; Some [Send cl (argv ds c) (reply_of c)] }
   | To_every_node err \<Rightarrow>
       Some (map (\<lambda>cl. Send cl (argv ds c) (reply_of c)) nodes
         @ [case err of None \<Rightarrow> Call_ok | Some e \<Rightarrow> if list_ex failed_early nodes then Call_error e else Call_ok])
   | Collect_keys \<Rightarrow> Some (map (\<lambda>cl. Send cl (argv ds c) (reply_of c)) nodes)
   | Refuse err \<Rightarrow> Some [Call_error err]
   | Null_reply \<Rightarrow> Some [Call_null]
   | Nothing \<Rightarrow> Some []
   | Undefined_first \<Rightarrow> None)"

section \<open>Commands given as words\<close>

fun find_streams :: "nat \<Rightarrow> bytes list \<Rightarrow> nat option" where
  "find_streams i (w # v # ws) =
     (if equalsNoCase w ''streams'' then Some (i + 1) else find_streams (i + 1) (v # ws))"
| "find_streams i _ = None"

definition word_at :: "bytes list \<Rightarrow> nat \<Rightarrow> bytes option" where
  "word_at words i = (if i < length words then Some (words ! i) else None)"

definition slot_at :: "bytes list \<Rightarrow> nat \<Rightarrow> int" where
  "slot_at words key_index = (if key_index \<ge> length words then -1 else int (unat (keyHashSlot (words ! key_index))))"

definition calcCommandSlot :: "bytes list \<Rightarrow> int option" where
  "calcCommandSlot words = do {
     first \<leftarrow> word_at words 0;
     let (cmd_index, key_index) = (if equalsNoCase first ''ars'' then (2, 3) else (0, 1));
     cmd \<leftarrow> word_at words cmd_index;
     if equalsNoCase cmd ''bitop'' \<or> equalsNoCase cmd ''xgroup'' then Some (slot_at words (cmd_index + 2))
     else if equalsNoCase cmd ''xreadgroup'' \<or> equalsNoCase cmd ''xread'' then
       (case find_streams (cmd_index + 1) (drop (cmd_index + 1) words) of
          None \<Rightarrow> Some (-1)
        | Some i \<Rightarrow> Some (slot_at words i))
     else Some (slot_at words key_index) }"

text \<open>\<open>sendCommand\<close>: after the callback with null pointers the method goes on.\<close>

definition sendCommand :: "'c cluster \<Rightarrow> bytes list \<Rightarrow> 'c action list option" where
  "sendCommand st words = do {
     slot \<leftarrow> calcCommandSlot words;
     early \<leftarrow> (if slot < 0 then Some [Call_null]
               else Some (if client_of_slot (nat slot) st = None then [Call_null] else []));
     ensure (0 \<le> slot);
     cl \<leftarrow> client_of_slot (nat slot) st;
     Some (early @ [Send cl words Packet_reply]) }"

text \<open>\<open>keys\<close> waits until every node has answered, in the order the answers arrive.\<close>

definition collect_keys :: "bytes list tair_result list \<Rightarrow> bytes list tair_result" where
  "collect_keys answers =
     (if list_all isSuccess answers
      then setValue (concat (map (\<lambda>r. case result_value r of None \<Rightarrow> [] | Some ks \<Rightarrow> ks) answers))
      else setErr ''keys failed'')"

section \<open>Commands reach the owner of their keys\<close>

text \<open>The three methods that look at the first key only.\<close>

definition first_key_only :: "'d command \<Rightarrow> bool" where
  "first_key_only c \<longleftrightarrow> (\<exists>ks. c = Key_command (Unlink_keys ks) \<or> c = Key_command (Exists_keys ks) \<or>
     c = Keyspace_command (Touch ks))"

lemma by_key_slot [simp]: "by_key k = To_slot s \<longleftrightarrow> unat (keyHashSlot k) = s" "by_key k \<noteq> Refuse e" "Refuse e \<noteq> by_key k"
  by (simp_all add: by_key_def)

lemma by_first_simps [simp]:
  "by_first ks = To_slot s \<longleftrightarrow> (\<exists>k ks'. ks = k # ks' \<and> unat (keyHashSlot k) = s)" "by_first ks \<noteq> Refuse e"
  by (auto simp: by_first_def split: list.split)

lemma same_slot_first: "same_slot ks e (by_first ks) = To_slot s \<Longrightarrow> k \<in> set ks \<Longrightarrow> unat (keyHashSlot k) = s"
  by (auto simp: same_slot_def checkKeyInSameSlot_def list_all_iff split: if_splits list.splits)

lemma same_slot_pair: "same_slot [j, k] e (by_key i) = To_slot s \<Longrightarrow> i = j \<or> i = k \<Longrightarrow>
    unat (keyHashSlot j) = s \<and> unat (keyHashSlot k) = s"
  by (auto simp: same_slot_def checkKeyInSameSlot_def split: if_splits)

lemma same_slot_dest_slot: "same_slot_dest d ks e (by_key d) = To_slot s \<Longrightarrow> unat (keyHashSlot d) = s \<and> (\<forall>k\<in>set ks. unat (keyHashSlot k) = s)"
  by (auto simp: same_slot_dest_def checkKeyInSameSlot_dest_def list_all_iff split: if_splits)

lemmas route_slots = same_slot_first same_slot_pair same_slot_dest_slot

lemma route_groups:
  "route_key c1 = To_slot s \<Longrightarrow> \<not> first_key_only (Key_command c1) \<Longrightarrow> k \<in> set (keys_key c1) \<Longrightarrow> unat (keyHashSlot k) = s"
  "route_keyspace c2 = To_slot s \<Longrightarrow> \<not> first_key_only (Keyspace_command c2) \<Longrightarrow> k \<in> set (keys_keyspace c2) \<Longrightarrow> unat (keyHashSlot k) = s"
  "route_string c3 = To_slot s \<Longrightarrow> k \<in> set (keys_string c3) \<Longrightarrow> unat (keyHashSlot k) = s"
  "route_value c4 = To_slot s \<Longrightarrow> k \<in> set (keys_value c4) \<Longrightarrow> unat (keyHashSlot k) = s"
  "route_list c5 = To_slot s \<Longrightarrow> k \<in> set (keys_list c5) \<Longrightarrow> unat (keyHashSlot k) = s"
  "route_set c6 = To_slot s \<Longrightarrow> k \<in> set (keys_set c6) \<Longrightarrow> unat (keyHashSlot k) = s"
  "route_hash c7 = To_slot s \<Longrightarrow> k \<in> set (keys_hash c7) \<Longrightarrow> unat (keyHashSlot k) = s"
  "route_zset c8 = To_slot s \<Longrightarrow> k \<in> set (keys_zset c8) \<Longrightarrow> unat (keyHashSlot k) = s"
  "route_zset_op c9 = To_slot s \<Longrightarrow> k \<in> set (keys_zset_op c9) \<Longrightarrow> unat (keyHashSlot k) = s"
  "route_geo c10 = To_slot s \<Longrightarrow> k \<in> set (keys_geo c10) \<Longrightarrow> unat (keyHashSlot k) = s"
  "route_stream c11 = To_slot s \<Longrightarrow> k \<in> set (keys_stream c11) \<Longrightarrow> unat (keyHashSlot k) = s"
  "route_server c12 = To_slot s \<Longrightarrow> k \<in> set (keys_server c12) \<Longrightarrow> unat (keyHashSlot k) = s"
  subgoal by (cases c1; force simp: first_key_only_def dest: route_slots)
  subgoal by (cases c2; force simp: first_key_only_def dest: route_slots)
  subgoal by (cases c3; force dest: route_slots)
  subgoal by (cases c4; force dest: route_slots)
  subgoal by (cases c5; force dest: route_slots)
  subgoal by (cases c6; force dest: route_slots)
  subgoal by (cases c7; force dest: route_slots)
  subgoal by (cases c8; force dest: route_slots)
  subgoal by (cases c9; force dest: route_slots)
  subgoal by (cases c10; force dest: route_slots)
  subgoal by (cases c11; force dest: route_slots)
  subgoal by (cases c12; force dest: route_slots split: if_splits)
  done

text \<open>C9: in a cluster no command is sent to a node that does not own all its keys. Whenever a
  command method picks a node by slot, every key of the command hashes to that slot, for all
  commands of the client but \<open>unlink\<close>, \<open>exists\<close> and \<open>touch\<close> on a list of keys, which look at the
  first key only.\<close>

theorem routes_to_owner:
  assumes "route_of c = To_slot s" "\<not> first_key_only c" "k \<in> set (keys_of c)"
  shows "unat (keyHashSlot k) = s"
  using assms by (cases c) (simp_all add: route_groups)

theorem routes_to_owner_witness:
  "unat (keyHashSlot ''{a}2'') = unat (keyHashSlot ''{a}1'')"
proof -
  have "checkKeyInSameSlot [''{a}1'', ''{a}2'']"
    using same_tag_same_slot [of "''{a}1''" "''{a}2''"] by (simp add: checkKeyInSameSlot_def hash_tag_def)
  then show ?thesis
    by (intro routes_to_owner [of "Keyspace_command (Rename ''{a}1'' ''{a}2'')"])
      (simp_all add: same_slot_def first_key_only_def)
qed

text \<open>The exceptions are real: the second key is not looked at.\<close>

lemma unlink_ignores_other_keys:
  "route_of (Key_command (Unlink_keys (k # ks))) = To_slot (unat (keyHashSlot k))"
  by (simp add: by_first_def by_key_def)

text \<open>Scripts go to any node, though their keys have just been found to share a slot.\<close>

lemma eval_goes_anywhere: "checkKeyInSameSlot ks \<Longrightarrow> route_of (Server_command (Eval script ks args)) = To_random_node"
  by simp

text \<open>An empty list of keys passes the check and is then dereferenced.\<close>

lemma blpop_empty_undefined: "perform ds now nodes f st (List_command (Blpop [] t)) = None"
  by (simp add: perform_def same_slot_def checkKeyInSameSlot_def by_first_def)

lemma same_slot_refused [simp]:
  "same_slot ks e (by_key k) = Refuse x \<longleftrightarrow> \<not> checkKeyInSameSlot ks \<and> e = x"
  "same_slot ks e (by_first js) = Refuse x \<longleftrightarrow> \<not> checkKeyInSameSlot ks \<and> e = x"
  "same_slot_dest d ks e (by_key k) = Refuse x \<longleftrightarrow> \<not> checkKeyInSameSlot_dest d ks \<and> e = x"
  by (simp_all add: same_slot_def same_slot_dest_def)

lemma not_same_slot:
  "\<not> checkKeyInSameSlot ks \<Longrightarrow> \<exists>j\<in>set ks. \<exists>k\<in>set ks. keyHashSlot j \<noteq> keyHashSlot k"
  "\<not> checkKeyInSameSlot_dest d ks \<Longrightarrow> \<exists>k\<in>set ks. keyHashSlot d \<noteq> keyHashSlot k"
  subgoal by (cases ks) (auto simp: checkKeyInSameSlot_def list_all_iff)
  subgoal unfolding checkKeyInSameSlot_dest_def list_all_iff by metis
  done

lemma checkKeyInSameSlot_pair [simp]: "checkKeyInSameSlot [j, k] \<longleftrightarrow> keyHashSlot j = keyHashSlot k"
  by (auto simp: checkKeyInSameSlot_def)

lemma refuse_texts [simp]: "E_CLUSTER_NOT_SUPPORT_COMMAND \<noteq> E_NOT_IN_SAME_SLOT"
  by (simp add: E_CLUSTER_NOT_SUPPORT_COMMAND_def E_NOT_IN_SAME_SLOT_def)

lemma refuse_groups:
  "route_key c1 \<noteq> Refuse E_NOT_IN_SAME_SLOT"
  "route_keyspace c2 = Refuse E_NOT_IN_SAME_SLOT \<Longrightarrow> \<exists>j\<in>set (keys_keyspace c2). \<exists>k\<in>set (keys_keyspace c2). keyHashSlot j \<noteq> keyHashSlot k"
  "route_string c3 = Refuse E_NOT_IN_SAME_SLOT \<Longrightarrow> \<exists>j\<in>set (keys_string c3). \<exists>k\<in>set (keys_string c3). keyHashSlot j \<noteq> keyHashSlot k"
  "route_value c4 \<noteq> Refuse E_NOT_IN_SAME_SLOT"
  "route_list c5 = Refuse E_NOT_IN_SAME_SLOT \<Longrightarrow> \<exists>j\<in>set (keys_list c5). \<exists>k\<in>set (keys_list c5). keyHashSlot j \<noteq> keyHashSlot k"
  "route_set c6 \<noteq> Refuse E_NOT_IN_SAME_SLOT" "route_hash c7 \<noteq> Refuse E_NOT_IN_SAME_SLOT"
  "route_zset c8 = Refuse E_NOT_IN_SAME_SLOT \<Longrightarrow> \<exists>j\<in>set (keys_zset c8). \<exists>k\<in>set (keys_zset c8). keyHashSlot j \<noteq> keyHashSlot k"
  "route_zset_op c9 \<noteq> Refuse E_NOT_IN_SAME_SLOT"
  "route_geo c10 = Refuse E_NOT_IN_SAME_SLOT \<Longrightarrow> \<exists>j\<in>set (keys_geo c10). \<exists>k\<in>set (keys_geo c10). keyHashSlot j \<noteq> keyHashSlot k"
  "route_stream c11 = Refuse E_NOT_IN_SAME_SLOT \<Longrightarrow> \<exists>j\<in>set (keys_stream c11). \<exists>k\<in>set (keys_stream c11). keyHashSlot j \<noteq> keyHashSlot k"
  "route_server c12 \<noteq> Refuse E_NOT_IN_SAME_SLOT"
  subgoal by (cases c1) simp_all
  subgoal by (cases c2; auto dest: not_same_slot)
  subgoal by (cases c3; auto dest: not_same_slot)
  subgoal by (cases c4) simp_all
  subgoal by (cases c5; auto dest: not_same_slot)
  subgoal by (cases c6) simp_all
  subgoal by (cases c7) simp_all
  subgoal by (cases c8; auto dest: not_same_slot)
  subgoal by (cases c9) simp_all
  subgoal by (cases c10; auto dest: not_same_slot)
  subgoal by (cases c11; auto dest: not_same_slot)
  subgoal by (cases c12) simp_all
  done

text \<open>The refusal for keys in several slots is never wrong: a command that is refused with it
  has two keys whose slots differ.\<close>

lemma refusal_is_justified:
  assumes "route_of c = Refuse E_NOT_IN_SAME_SLOT"
  shows "\<exists>j\<in>set (keys_of c). \<exists>k\<in>set (keys_of c). keyHashSlot j \<noteq> keyHashSlot k"
  using assms by (cases c) (simp_all add: refuse_groups)

lemma two_slots: "keyHashSlot ''a'' \<noteq> keyHashSlot ''b''"
  by (simp add: keyHashSlot_def crc16_def crc16tab_def code_def SLOTS_NUM_MASK_def)

section \<open>Commands given as words go to the same node\<close>

text \<open>The words \<open>calcCommandSlot\<close> treats in a special way.\<close>

definition plain_word :: "bytes \<Rightarrow> bool" where
  "plain_word w \<longleftrightarrow> \<not> equalsNoCase w ''ars'' \<and> \<not> equalsNoCase w ''bitop'' \<and> \<not> equalsNoCase w ''xgroup'' \<and>
     \<not> equalsNoCase w ''xreadgroup'' \<and> \<not> equalsNoCase w ''xread''"

lemma calcCommandSlot_plain:
  "plain_word w \<Longrightarrow> calcCommandSlot (w # k # ws) = Some (int (unat (keyHashSlot k)))"
  by (simp add: calcCommandSlot_def plain_word_def word_at_def slot_at_def)

text \<open>Literals are compared letter by letter.\<close>

lemma equalsNoCase_step:
  "c \<noteq> NUL \<Longrightarrow> d \<noteq> NUL \<Longrightarrow>
     equalsNoCase (c # cs) (d # ds) = (if to_lower c = to_lower d then equalsNoCase cs ds else False)"
  "c \<noteq> NUL \<Longrightarrow> \<not> equalsNoCase (c # cs) []" "d \<noteq> NUL \<Longrightarrow> \<not> equalsNoCase [] (d # ds)" "equalsNoCase [] []"
  by (simp_all add: equalsNoCase_def c_str_def)

lemma to_lower_letters:
  "to_lower (CHR ''a'') = CHR ''a''" "to_lower (CHR ''b'') = CHR ''b''" "to_lower (CHR ''c'') = CHR ''c''"
  "to_lower (CHR ''d'') = CHR ''d''" "to_lower (CHR ''e'') = CHR ''e''" "to_lower (CHR ''f'') = CHR ''f''"
  "to_lower (CHR ''g'') = CHR ''g''" "to_lower (CHR ''h'') = CHR ''h''" "to_lower (CHR ''i'') = CHR ''i''"
  "to_lower (CHR ''j'') = CHR ''j''" "to_lower (CHR ''k'') = CHR ''k''" "to_lower (CHR ''l'') = CHR ''l''"
  "to_lower (CHR ''m'') = CHR ''m''" "to_lower (CHR ''n'') = CHR ''n''" "to_lower (CHR ''o'') = CHR ''o''"
  "to_lower (CHR ''p'') = CHR ''p''" "to_lower (CHR ''q'') = CHR ''q''" "to_lower (CHR ''r'') = CHR ''r''"
  "to_lower (CHR ''s'') = CHR ''s''" "to_lower (CHR ''t'') = CHR ''t''" "to_lower (CHR ''u'') = CHR ''u''"
  "to_lower (CHR ''v'') = CHR ''v''" "to_lower (CHR ''w'') = CHR ''w''" "to_lower (CHR ''x'') = CHR ''x''"
  "to_lower (CHR ''y'') = CHR ''y''" "to_lower (CHR ''z'') = CHR ''z''" "to_lower (CHR ''_'') = CHR ''_''"
  by (simp_all add: to_lower_def code_def)

lemmas word_eval = equalsNoCase_step to_lower_letters

lemma calcCommandSlot_index2:
  "calcCommandSlot (''bitop'' # w # k # ws) = Some (int (unat (keyHashSlot k)))"
  "calcCommandSlot (''xgroup'' # w # k # ws) = Some (int (unat (keyHashSlot k)))"
  by (simp_all add: calcCommandSlot_def word_at_def slot_at_def word_eval)

lemma not_streams_dec_int: "\<not> equalsNoCase (dec_int i) ''streams''"
proof
  assume "equalsNoCase (dec_int i) ''streams''"
  then have "CHR ''s'' \<in> to_lower ` set (c_str (dec_int i))"
    unfolding equalsNoCase_def set_map [symmetric] by (simp add: c_str_def to_lower_letters)
  then obtain c where c: "c \<in> set (dec_int i)" "to_lower c = CHR ''s''"
    by (auto simp: c_str_def dest: set_takeWhileD)
  then have "is_digit c \<or> c = CHR ''-''"
    by (auto simp: dec_int_def split: if_splits dest: dec_nat_digits)
  with c(2) show False by (auto simp: to_lower_def is_digit_def code_def split: if_splits)
qed

lemma stream_words:
  "\<not> equalsNoCase ''xread'' ''ars''" "\<not> equalsNoCase ''xread'' ''bitop''" "\<not> equalsNoCase ''xread'' ''xgroup''"
  "equalsNoCase ''xread'' ''xread''" "\<not> equalsNoCase ''count'' ''streams''" "equalsNoCase ''streams'' ''streams''"
  "\<not> equalsNoCase ''xreadgroup'' ''ars''" "\<not> equalsNoCase ''xreadgroup'' ''bitop''"
  "\<not> equalsNoCase ''xreadgroup'' ''xgroup''" "equalsNoCase ''xreadgroup'' ''xreadgroup''"
  "\<not> equalsNoCase ''group'' ''streams''"
  by (simp_all add: word_eval)

lemma calcCommandSlot_xread:
  "calcCommandSlot (''xread'' # ''count'' # dec_int n # ''streams'' # k # ws) = Some (int (unat (keyHashSlot k)))"
  by (simp add: calcCommandSlot_def word_at_def slot_at_def not_streams_dec_int stream_words)

lemma calcCommandSlot_xreadgroup:
  "\<not> equalsNoCase g ''streams'' \<Longrightarrow> \<not> equalsNoCase c ''streams'' \<Longrightarrow>
   calcCommandSlot (''xreadgroup'' # ''group'' # g # c # ''streams'' # k # ws) = Some (int (unat (keyHashSlot k)))"
  by (simp add: calcCommandSlot_def word_at_def slot_at_def stream_words)

text \<open>\<open>xreadgroup\<close> with a group or consumer called streams is read wrongly.\<close>

definition misread :: "'d command \<Rightarrow> bool" where
  "misread c \<longleftrightarrow> (\<exists>g n ks ids. c = Stream_command (Xreadgroup g n ks ids) \<and>
     (equalsNoCase g ''streams'' \<or> equalsNoCase n ''streams''))"

lemma plain_slot_groups:
  "route_key c1 = To_slot s \<Longrightarrow> calcCommandSlot (argv_key c1) = Some (int s)"
  "route_keyspace c2 = To_slot s \<Longrightarrow> calcCommandSlot (argv_keyspace c2) = Some (int s)"
  "route_string c3 = To_slot s \<Longrightarrow> calcCommandSlot (argv_string c3) = Some (int s)"
  "route_value c4 = To_slot s \<Longrightarrow> calcCommandSlot (argv_value ds c4) = Some (int s)"
  "route_list c5 = To_slot s \<Longrightarrow> calcCommandSlot (argv_list c5) = Some (int s)"
  "route_set c6 = To_slot s \<Longrightarrow> calcCommandSlot (argv_set c6) = Some (int s)"
  "route_hash c7 = To_slot s \<Longrightarrow> calcCommandSlot (argv_hash ds c7) = Some (int s)"
  "route_zset c8 = To_slot s \<Longrightarrow> calcCommandSlot (argv_zset c8) = Some (int s)"
  "route_zset_op c9 = To_slot s \<Longrightarrow> calcCommandSlot (argv_zset_op ds c9) = Some (int s)"
  "route_geo c10 = To_slot s \<Longrightarrow> calcCommandSlot (argv_geo ds c10) = Some (int s)"
  "route_server c12 = To_slot s \<Longrightarrow> calcCommandSlot (argv_server c12) = Some (int s)"
  subgoal by (cases c1) (auto simp: calcCommandSlot_plain calcCommandSlot_index2 plain_word_def word_eval same_slot_def same_slot_dest_def split: if_splits)
  subgoal by (cases c2) (auto simp: calcCommandSlot_plain calcCommandSlot_index2 plain_word_def word_eval same_slot_def same_slot_dest_def split: if_splits)
  subgoal by (cases c3) (auto simp: calcCommandSlot_plain calcCommandSlot_index2 plain_word_def word_eval same_slot_def same_slot_dest_def split: if_splits)
  subgoal by (cases c4) (auto simp: calcCommandSlot_plain calcCommandSlot_index2 plain_word_def word_eval same_slot_def same_slot_dest_def split: if_splits)
  subgoal by (cases c5) (auto simp: calcCommandSlot_plain calcCommandSlot_index2 plain_word_def word_eval same_slot_def same_slot_dest_def split: if_splits)
  subgoal by (cases c6) (auto simp: calcCommandSlot_plain calcCommandSlot_index2 plain_word_def word_eval same_slot_def same_slot_dest_def split: if_splits)
  subgoal by (cases c7) (auto simp: calcCommandSlot_plain calcCommandSlot_index2 plain_word_def word_eval same_slot_def same_slot_dest_def split: if_splits)
  subgoal by (cases c8) (auto simp: calcCommandSlot_plain calcCommandSlot_index2 plain_word_def word_eval same_slot_def same_slot_dest_def split: if_splits)
  subgoal by (cases c9) (auto simp: calcCommandSlot_plain calcCommandSlot_index2 plain_word_def word_eval same_slot_def same_slot_dest_def split: if_splits)
  subgoal by (cases c10) (auto simp: calcCommandSlot_plain calcCommandSlot_index2 plain_word_def word_eval same_slot_def same_slot_dest_def split: if_splits)
  subgoal by (cases c12) (auto simp: calcCommandSlot_plain calcCommandSlot_index2 plain_word_def word_eval same_slot_def same_slot_dest_def split: if_splits)
  done

lemma stream_slots:
  "route_stream c11 = To_slot s \<Longrightarrow> \<not> misread (Stream_command c11) \<Longrightarrow> calcCommandSlot (argv_stream c11) = Some (int s)"
proof (cases c11)
  case (Xread n ks ids)
  moreover assume "route_stream c11 = To_slot s"
  ultimately show ?thesis by (auto simp: same_slot_def calcCommandSlot_xread split: if_splits)
next
  case (Xreadgroup g n ks ids)
  moreover assume "route_stream c11 = To_slot s" "\<not> misread (Stream_command c11)"
  ultimately show ?thesis by (auto simp: same_slot_def misread_def calcCommandSlot_xreadgroup split: if_splits)
qed (auto simp: calcCommandSlot_plain calcCommandSlot_index2 plain_word_def word_eval)

text \<open>C10: the two ways to send a command to a cluster agree. The slot \<open>sendCommand\<close> computes from
  the words of a command is the slot the command's own method uses, whenever that method routes
  by slot, unless the group or consumer of an \<open>xreadgroup\<close> is called streams.\<close>

theorem words_route_like_methods:
  assumes "route_of c = To_slot s" "\<not> misread c"
  shows "calcCommandSlot (argv ds c) = Some (int s)"
  using assms by (cases c) (simp_all add: plain_slot_groups stream_slots)

theorem words_route_like_methods_witness:
  "calcCommandSlot (argv (\<lambda>_. []) (Stream_command (Xack ''s'' ''g'' [''0-1'']) :: int command)) = Some (int (unat (keyHashSlot ''s'')))"
  by (rule words_route_like_methods) (simp_all add: misread_def)

text \<open>And it is not then: the raw form of an \<open>xreadgroup\<close> whose group is called streams goes by the name
  of the consumer, which \<open>find_streams\<close> takes for the first key.\<close>

lemma group_streams_misroutes:
  "n \<noteq> [] \<Longrightarrow> calcCommandSlot (argv ds (Stream_command (Xreadgroup ''streams'' n [k] ids))) = Some (int (unat (keyHashSlot n)))"
  "route_of (Stream_command (Xreadgroup ''streams'' n [k] ids)) = To_slot (unat (keyHashSlot k))"
  by (simp_all add: calcCommandSlot_def word_at_def slot_at_def stream_words same_slot_def checkKeyInSameSlot_def)

text \<open>Commands whose second word is not a key are routed by it all the same.\<close>

lemma eval_words_route_by_script:
  "calcCommandSlot (argv ds (Server_command (Eval script ks args))) = Some (int (unat (keyHashSlot script)))"
  by (simp add: calcCommandSlot_plain plain_word_def word_eval)

lemma zunion_words_route_by_count:
  "calcCommandSlot (argv ds (Zset_op_command (Zunion ks))) = Some (int (unat (keyHashSlot (dec_int (int (length ks))))))"
  by (simp add: calcCommandSlot_plain plain_word_def word_eval)

text \<open>A command without a key runs into undefined behaviour after its callback.\<close>

lemma ping_undefined: "sendCommand st [''ping''] = None"
  by (simp add: sendCommand_def calcCommandSlot_def word_at_def slot_at_def word_eval ensure_def)

section \<open>The slot table\<close>

lemma set_slots_state [simp]:
  "client_map (set_slots c is st) = client_map st"
  "length (slot_to_clients (set_slots c is st)) = length (slot_to_clients st)"
  by (induction c "is" st rule: set_slots.induct) simp_all

lemma set_slots_nth:
  "k < length (slot_to_clients st) \<Longrightarrow>
     slot_to_clients (set_slots c is st) ! k = (if k \<in> set is then Some c else slot_to_clients st ! k)"
  by (induction c "is" st rule: set_slots.induct) (auto simp: nth_list_update)

text \<open>The range an item names, and the ranges of a line up to the migrating slots.\<close>

definition slot_range :: "(bytes \<Rightarrow> char \<Rightarrow> bytes list) \<Rightarrow> (bytes \<Rightarrow> int option) \<Rightarrow> bytes \<Rightarrow> (int \<times> int) option" where
  "slot_range split atoi s = do {
     (a, b) \<leftarrow> (case split s (CHR ''-'') of [a, b] \<Rightarrow> Some (a, b) | [a] \<Rightarrow> Some (a, a) | _ \<Rightarrow> None);
     i \<leftarrow> atoi a;
     j \<leftarrow> atoi b;
     ensure (0 \<le> i \<and> i \<le> j \<and> j < int SLOTS_NUM);
     Some (i, j) }"

fun line_ranges :: "(bytes \<Rightarrow> char \<Rightarrow> bytes list) \<Rightarrow> (bytes \<Rightarrow> int option) \<Rightarrow> bytes list \<Rightarrow> (int \<times> int) list option" where
  "line_ranges split atoi [] = Some []"
| "line_ranges split atoi (s # ss) =
     (if s = [] \<or> hd s = CHR ''['' then Some []
      else do { r \<leftarrow> slot_range split atoi s; rs \<leftarrow> line_ranges split atoi ss; Some (r # rs) })"

definition covers :: "(int \<times> int) list \<Rightarrow> nat \<Rightarrow> bool" where
  "covers rs k \<longleftrightarrow> (\<exists>(i, j)\<in>set rs. i \<le> int k \<and> int k \<le> j)"

lemma covers_simps [simp]: "\<not> covers [] k" "covers ((i, j) # rs) k \<longleftrightarrow> i \<le> int k \<and> int k \<le> j \<or> covers rs k"
  by (auto simp: covers_def)

lemma assign_slots_step:
  "s \<noteq> [] \<Longrightarrow> hd s \<noteq> CHR ''['' \<Longrightarrow> assign_slots split atoi c (s # ss) st =
     (case slot_range split atoi s of
        None \<Rightarrow> (False, st)
      | Some (i, j) \<Rightarrow> assign_slots split atoi c ss (set_slots c [nat i..<Suc (nat j)] st))"
  by (auto simp: slot_range_def slot_ok_def ensure_def split: list.split option.split)

declare assign_slots.simps(2) [simp del]

lemma assign_slots_state:
  "snd (assign_slots split atoi c ss st) = st' \<Longrightarrow>
     client_map st' = client_map st \<and> length (slot_to_clients st') = length (slot_to_clients st)"
proof (induction ss arbitrary: st)
  case (Cons s ss)
  show ?case
  proof (cases "s = [] \<or> hd s = CHR ''[''")
    case True
    with Cons.prems show ?thesis by (auto simp: assign_slots.simps(2))
  next
    case False
    with Cons show ?thesis by (auto simp: assign_slots_step split: option.split_asm prod.split_asm)
  qed
qed simp

lemma slot_range_bounds: "slot_range split atoi s = Some (i, j) \<Longrightarrow> 0 \<le> i \<and> i \<le> j \<and> j < int SLOTS_NUM"
  by (auto simp: slot_range_def ensure_def split: Option.bind_split_asm if_split_asm)

lemma assign_slots_table:
  "assign_slots split atoi c ss st = (True, st') \<Longrightarrow> k < length (slot_to_clients st) \<Longrightarrow>
     \<exists>rs. line_ranges split atoi ss = Some rs \<and>
       slot_to_clients st' ! k = (if covers rs k then Some c else slot_to_clients st ! k)"
proof (induction ss arbitrary: st)
  case (Cons s ss)
  show ?case
  proof (cases "s = [] \<or> hd s = CHR ''[''")
    case True
    with Cons.prems show ?thesis by (auto simp: assign_slots.simps(2))
  next
    case False
    with Cons.prems(1) obtain i j where r: "slot_range split atoi s = Some (i, j)"
      "assign_slots split atoi c ss (set_slots c [nat i..<Suc (nat j)] st) = (True, st')"
      by (auto simp: assign_slots_step split: option.split_asm prod.split_asm)
    have mem: "k \<in> set [nat i..<Suc (nat j)] \<longleftrightarrow> i \<le> int k \<and> int k \<le> j"
      using slot_range_bounds [OF r(1)] by auto
    from Cons.IH [OF r(2)] Cons.prems(2) obtain rs where
      "line_ranges split atoi ss = Some rs"
      "slot_to_clients st' ! k = (if covers rs k then Some c else slot_to_clients (set_slots c [nat i..<Suc (nat j)] st) ! k)"
      by auto
    then show ?thesis
      unfolding set_slots_nth [OF Cons.prems(2)] mem using False r(1) by auto
  qed
qed simp

lemma createClient_state:
  "createClient conn addr st = (c, st') \<Longrightarrow> slot_to_clients st' = slot_to_clients st \<and>
     client_map st \<subseteq>\<^sub>m client_map st' \<and> (\<forall>x. c = Some x \<longrightarrow> client_map st' addr = Some x)"
  by (auto simp: createClient_def map_le_def split: option.split_asm)

text \<open>The address and the ranges of a line, and the owner of a slot: the node of the last master
  line that covers it.\<close>

definition master_line :: "(bytes \<Rightarrow> char \<Rightarrow> bytes list) \<Rightarrow> (bytes \<Rightarrow> int option) \<Rightarrow> bytes \<Rightarrow> (bytes \<times> (int \<times> int) list) option" where
  "master_line split atoi line =
     (let items = split line (CHR '' '') in do {
       ensure (9 \<le> length items \<and> contains (items ! 2) ''master'');
       rs \<leftarrow> line_ranges split atoi (drop 8 items);
       Some (split (items ! 1) (CHR ''@'') ! 0, rs) })"

fun owner :: "(bytes \<Rightarrow> char \<Rightarrow> bytes list) \<Rightarrow> (bytes \<Rightarrow> int option) \<Rightarrow> bytes list \<Rightarrow> nat \<Rightarrow> bytes option" where
  "owner split atoi [] k = None"
| "owner split atoi (l # ls) k = (case owner split atoi ls k of
     Some a \<Rightarrow> Some a
   | None \<Rightarrow> do { (addr, rs) \<leftarrow> master_line split atoi l; ensure (covers rs k); Some addr })"

lemma parse_lines_master:
  assumes "parse_lines split atoi conn (line # lines) st = (True, st')"
    "9 \<le> length (split line (CHR '' ''))" "contains (split line (CHR '' '') ! 2) ''master''"
  obtains c st1 st2 where
    "createClient conn (split (split line (CHR '' '') ! 1) (CHR ''@'') ! 0) st = (Some c, st1)"
    "assign_slots split atoi c (drop 8 (split line (CHR '' ''))) st1 = (True, st2)"
    "parse_lines split atoi conn lines st2 = (True, st')"
  using assms by (auto simp: Let_def split: if_split_asm prod.split_asm option.split_asm bool.split_asm)

lemma parse_lines_table:
  "parse_lines split atoi conn lines st = (True, st') \<Longrightarrow>
     client_map st \<subseteq>\<^sub>m client_map st' \<and> length (slot_to_clients st') = length (slot_to_clients st) \<and>
     (\<forall>k < length (slot_to_clients st). slot_to_clients st' ! k =
        (case owner split atoi lines k of None \<Rightarrow> slot_to_clients st ! k | Some addr \<Rightarrow> client_map st' addr) \<and>
        (\<forall>addr. owner split atoi lines k = Some addr \<longrightarrow> client_map st' addr \<noteq> None))"
proof (induction lines arbitrary: st)
  case (Cons line lines)
  show ?case
  proof (cases "9 \<le> length (split line (CHR '' '')) \<and> contains (split line (CHR '' '') ! 2) ''master''")
    case False
    then have "parse_lines split atoi conn lines st = (True, st')" "master_line split atoi line = None"
      using Cons.prems by (auto simp: Let_def master_line_def ensure_def split: if_split_asm)
    with Cons.IH [of st] show ?thesis by (simp split: option.split)
  next
    case True
    define addr where "addr = split (split line (CHR '' '') ! 1) (CHR ''@'') ! 0"
    from parse_lines_master [OF Cons.prems] True obtain c st1 st2 where
      c: "createClient conn addr st = (Some c, st1)" and
      a: "assign_slots split atoi c (drop 8 (split line (CHR '' ''))) st1 = (True, st2)" and
      p: "parse_lines split atoi conn lines st2 = (True, st')"
      unfolding addr_def by blast
    note st1 = createClient_state [OF c]
    have st2: "client_map st2 = client_map st1" "length (slot_to_clients st2) = length (slot_to_clients st)"
      using assign_slots_state [of split atoi c "drop 8 (split line (CHR '' ''))" st1 st2] a st1 by simp_all
    note IH = Cons.IH [OF p]
    have le: "client_map st \<subseteq>\<^sub>m client_map st'" "client_map st' addr = Some c"
      using st1 st2 IH by (auto simp: map_le_def dom_def)
    have "slot_to_clients st' ! k = (case owner split atoi (line # lines) k of None \<Rightarrow> slot_to_clients st ! k
        | Some a \<Rightarrow> client_map st' a) \<and> (\<forall>a. owner split atoi (line # lines) k = Some a \<longrightarrow> client_map st' a \<noteq> None)"
      if k: "k < length (slot_to_clients st)" for k
    proof -
      have "k < length (slot_to_clients st1)" using k st1 by simp
      from assign_slots_table [OF a this] obtain rs where
        "line_ranges split atoi (drop 8 (split line (CHR '' ''))) = Some rs"
        "slot_to_clients st2 ! k = (if covers rs k then Some c else slot_to_clients st ! k)"
        using st1 by auto
      moreover from this(1) True have "master_line split atoi line = Some (addr, rs)"
        by (simp add: master_line_def addr_def)
      ultimately show ?thesis using IH k le st2 by (auto simp: ensure_def split: option.split)
    qed
    with IH le st2 show ?thesis by simp
  qed
qed simp

text \<open>C11: after the nodes of a cluster have been parsed without error, the table sends every slot
  to the client of its owner: the node of the last master line with a range that covers the slot.
  Slots no line covers keep their old entry.\<close>

theorem slot_table_is_owner_table:
  assumes "parseNodesInfoAndInitClient split atoi conn nodes_info st = (True, st')"
    "length (slot_to_clients st) = SLOTS_NUM" "slot < SLOTS_NUM"
  shows "client_of_slot slot st' = (case owner split atoi (split nodes_info LF) slot of
      None \<Rightarrow> client_of_slot slot st | Some addr \<Rightarrow> client_map st' addr)"
  using parse_lines_table [of split atoi conn "split nodes_info LF" st st'] assms
  by (simp add: parseNodesInfoAndInitClient_def client_of_slot_def split: option.split)

text \<open>\<open>SimpleAtoi\<close> on plain digits, for the examples.\<close>

definition digits_atoi :: "bytes \<Rightarrow> int option" where
  "digits_atoi w = (if w \<noteq> [] \<and> list_all is_digit w then Some (int (digits_value 0 w)) else None)"

definition sample_nodes :: bytes where
  "sample_nodes = ''n h:1@2 master - 0 0 1 connected 0-2 7 [8->-n]''"

lemmas sample_eval = sample_nodes_def slot_ok_def createClient_def new_cluster_def assign_slots_step assign_slots.simps(2)
  slot_range_def digits_atoi_def is_digit_def code_def digits_value_def digit_value_def SLOTS_NUM_def

lemma sample_parse:
  "fst (parseNodesInfoAndInitClient split_on digits_atoi Some sample_nodes new_cluster)"
  "client_map (snd (parseNodesInfoAndInitClient split_on digits_atoi Some sample_nodes new_cluster)) ''h:1'' = Some ''h:1''"
  by (simp_all add: parseNodesInfoAndInitClient_def sample_eval del: upt_Suc)

lemma sample_owner: "owner split_on digits_atoi (split_on sample_nodes LF) 7 = Some ''h:1''"
  by (simp add: sample_eval master_line_def)

theorem slot_table_is_owner_table_witness:
  "client_of_slot 7 (snd (parseNodesInfoAndInitClient split_on digits_atoi Some sample_nodes new_cluster)) = Some ''h:1''"
  using slot_table_is_owner_table [of split_on digits_atoi Some sample_nodes new_cluster
      "snd (parseNodesInfoAndInitClient split_on digits_atoi Some sample_nodes new_cluster)" 7]
  by (simp add: prod_eq_iff sample_parse sample_owner) (simp add: new_cluster_def SLOTS_NUM_def)

section \<open>A client that has been initialised\<close>

lemma slot_bounds:
  "route_key c1 = To_slot s \<Longrightarrow> s < SLOTS_NUM"
  "route_keyspace c2 = To_slot s \<Longrightarrow> s < SLOTS_NUM"
  "route_string c3 = To_slot s \<Longrightarrow> s < SLOTS_NUM"
  "route_value c4 = To_slot s \<Longrightarrow> s < SLOTS_NUM"
  "route_list c5 = To_slot s \<Longrightarrow> s < SLOTS_NUM"
  "route_set c6 = To_slot s \<Longrightarrow> s < SLOTS_NUM"
  "route_hash c7 = To_slot s \<Longrightarrow> s < SLOTS_NUM"
  "route_zset c8 = To_slot s \<Longrightarrow> s < SLOTS_NUM"
  "route_zset_op c9 = To_slot s \<Longrightarrow> s < SLOTS_NUM"
  "route_geo c10 = To_slot s \<Longrightarrow> s < SLOTS_NUM"
  "route_stream c11 = To_slot s \<Longrightarrow> s < SLOTS_NUM"
  "route_server c12 = To_slot s \<Longrightarrow> s < SLOTS_NUM"
  subgoal by (cases c1) (auto simp: keyHashSlot_less same_slot_def same_slot_dest_def split: if_splits)
  subgoal by (cases c2) (auto simp: keyHashSlot_less same_slot_def same_slot_dest_def split: if_splits)
  subgoal by (cases c3) (auto simp: keyHashSlot_less same_slot_def same_slot_dest_def split: if_splits)
  subgoal by (cases c4) (auto simp: keyHashSlot_less same_slot_def same_slot_dest_def split: if_splits)
  subgoal by (cases c5) (auto simp: keyHashSlot_less same_slot_def same_slot_dest_def split: if_splits)
  subgoal by (cases c6) (auto simp: keyHashSlot_less same_slot_def same_slot_dest_def split: if_splits)
  subgoal by (cases c7) (auto simp: keyHashSlot_less same_slot_def same_slot_dest_def split: if_splits)
  subgoal by (cases c8) (auto simp: keyHashSlot_less same_slot_def same_slot_dest_def split: if_splits)
  subgoal by (cases c9) (auto simp: keyHashSlot_less same_slot_def same_slot_dest_def split: if_splits)
  subgoal by (cases c10) (auto simp: keyHashSlot_less same_slot_def same_slot_dest_def split: if_splits)
  subgoal by (cases c11) (auto simp: keyHashSlot_less same_slot_def same_slot_dest_def split: if_splits)
  subgoal by (cases c12) (auto simp: keyHashSlot_less same_slot_def same_slot_dest_def split: if_splits)
  done

lemma route_slot_less: "route_of c = To_slot s \<Longrightarrow> s < SLOTS_NUM"
  by (cases c) (simp_all add: slot_bounds)

lemma checkSlotToClients_all:
  "checkSlotToClients st \<Longrightarrow> length (slot_to_clients st) = SLOTS_NUM \<Longrightarrow> slot < SLOTS_NUM \<Longrightarrow>
     \<exists>cl. client_of_slot slot st = Some cl"
  by (auto simp: checkSlotToClients_def client_of_slot_def list_all_length)

lemma init_checks_slots:
  assumes "init split atoi conn nodes addr st = (r, st')" "isSuccess r"
  shows "checkSlotToClients st' \<and> length (slot_to_clients st') = length (slot_to_clients st)"
proof -
  from assms obtain c st1 info where "createClient conn addr st = (Some c, st1)"
    "parse_lines split atoi conn (split info LF) st1 = (True, st')" "checkSlotToClients st'"
    by (auto simp: init_def parseNodesInfoAndInitClient_def split: prod.split_asm option.split_asm bool.split_asm if_split_asm)
  then show ?thesis using createClient_state parse_lines_table by metis
qed

lemma perform_undefined:
  assumes "checkSlotToClients st'" "length (slot_to_clients st') = SLOTS_NUM"
  shows "perform ds now ns failed_early st' c = None \<longleftrightarrow> route_of c = Undefined_first"
proof -
  have all: "\<exists>cl. client_of_slot slot st' = Some cl" if "slot < SLOTS_NUM" for slot
    using assms that by (rule checkSlotToClients_all)
  show ?thesis
  proof (cases "route_of c")
    case (To_slot s)
    with all [OF route_slot_less [OF To_slot]] show ?thesis by (auto simp: perform_def)
  next
    case To_random_node
    with all [of "now mod SLOTS_NUM"] show ?thesis by (auto simp: perform_def getClientRandom_def SLOTS_NUM_def)
  qed (simp_all add: perform_def)
qed

text \<open>A cluster client that was initialised with success never follows a null pointer: every
  command method acts, except those that get an empty list of keys and dereference its begin.\<close>

lemma initialised_client_acts:
  assumes "init split atoi conn nodes addr st = (r, st')" "isSuccess r" "length (slot_to_clients st) = SLOTS_NUM"
  shows "perform ds now ns failed_early st' c = None \<longleftrightarrow> route_of c = Undefined_first"
  using init_checks_slots [OF assms(1,2)] assms(3) by (intro perform_undefined) auto

text \<open>Such a client exists: one node that owns all slots.\<close>

definition one_node :: bytes where
  "one_node = ''n h:1@2 master - 0 0 1 connected 0-16383''"

definition one_state :: "bytes cluster" where
  "one_state = new_cluster\<lparr>client_map := [''h:1'' \<mapsto> ''h:1'']\<rparr>"

lemma one_node_parse:
  obtains st where "parseNodesInfoAndInitClient split_on digits_atoi Some one_node one_state = (True, st)"
proof -
  have "fst (parseNodesInfoAndInitClient split_on digits_atoi Some one_node one_state)"
    by (simp add: parseNodesInfoAndInitClient_def one_state_def one_node_def sample_eval del: upt_Suc)
  then show thesis using that by (simp add: prod_eq_iff)
qed

lemma one_node_slots:
  assumes "parseNodesInfoAndInitClient split_on digits_atoi Some one_node one_state = (True, st)" "slot < SLOTS_NUM"
  shows "client_of_slot slot st \<noteq> None"
proof -
  have "owner split_on digits_atoi (split_on one_node LF) slot = Some ''h:1''"
    using assms by (simp add: one_node_def sample_eval master_line_def)
  then show ?thesis
    using parse_lines_table [of split_on digits_atoi Some "split_on one_node LF" one_state st] assms
    by (fastforce simp: client_of_slot_def one_state_def new_cluster_def parseNodesInfoAndInitClient_def)
qed

lemma one_node_init:
  "isSuccess (fst (init split_on digits_atoi Some (\<lambda>_. Some one_node) ''h:1'' new_cluster))"
proof -
  obtain st where st: "parseNodesInfoAndInitClient split_on digits_atoi Some one_node one_state = (True, st)"
    by (rule one_node_parse)
  have "createClient Some ''h:1'' new_cluster = (Some ''h:1'', one_state)"
    by (simp add: createClient_def one_state_def new_cluster_def)
  moreover have "checkSlotToClients st"
    using one_node_slots [OF st] by (fastforce simp: checkSlotToClients_def client_of_slot_def list_all_length split: if_split_asm)
  ultimately show ?thesis using st by (simp add: init_def)
qed

end
