(* ===== verification/Facade.thy ===== *)
theory Facade
  imports Cluster
begin

text \<open>
  \<open>client/TairClient.cpp\<close>, the class users hold: it creates a client for one server or for a cluster,
  tries the addresses it was given, and hands every command to the client it created, after a look
  at the lengths of its lists; \<open>client/TairURI.cpp\<close>, what it is created from; and the future that
  \<open>client/TairClientWrapper.cpp\<close> makes of a callback. The two kinds of client are an argument; the
  theorems are about a cluster.
\<close>

section \<open>Handing a command over\<close>

definition E_NOT_INIT :: bytes where
  "E_NOT_INIT = ''tair client not init''"

definition E_PARAMS_EMPTY :: bytes where
  "E_PARAMS_EMPTY = ''api params is empty or not enough''"

text \<open>A method calls back with an error, or with null pointers, or calls the method of the same name
  with the same arguments; \<open>up\<close> says that there is a client to call.\<close>

datatype 'd handed =
    Told_error bytes
  | Told_nulls
  | Passed "'d command"

definition pass :: "bool \<Rightarrow> 'd command \<Rightarrow> 'd handed" where
  "pass up c = (if \<not> up then Told_error E_NOT_INIT else Passed c)"

definition pass_unless :: "bool \<Rightarrow> bool \<Rightarrow> bytes \<Rightarrow> 'd command \<Rightarrow> 'd handed" where
  "pass_unless up bad err c = (if \<not> up then Told_error E_NOT_INIT else if bad then Told_error err else Passed c)"

definition pass_script :: "bool \<Rightarrow> 'd command \<Rightarrow> 'd handed" where
  "pass_script up c = (if \<not> up then Told_nulls else Passed c)"

primrec client_key :: "bool \<Rightarrow> key_command \<Rightarrow> 'd handed" where
  "client_key up (Del key) = pass up (Key_command (Del key))"
| "client_key up (Del_keys keys) = pass_unless up (length keys = 0) E_PARAMS_EMPTY (Key_command (Del_keys keys))"
| "client_key up (Unlink key) = pass up (Key_command (Unlink key))"
| "client_key up (Unlink_keys keys) = pass_unless up (length keys = 0) E_PARAMS_EMPTY (Key_command (Unlink_keys keys))"
| "client_key up (Exists key) = pass up (Key_command (Exists key))"
| "client_key up (Exists_keys keys) = pass_unless up (length keys = 0) E_PARAMS_EMPTY (Key_command (Exists_keys keys))"
| "client_key up (Expire key timeout) = pass up (Key_command (Expire key timeout))"
| "client_key up (Expire_params key timeout params) = pass up (Key_command (Expire_params key timeout params))"
| "client_key up (Expireat key timestamp) = pass up (Key_command (Expireat key timestamp))"
| "client_key up (Expireat_params key timestamp params) = pass up (Key_command (Expireat_params key timestamp params))"
| "client_key up (Persist key) = pass up (Key_command (Persist key))"
| "client_key up (Pexpire key timeout) = pass up (Key_command (Pexpire key timeout))"
| "client_key up (Pexpire_params key timeout params) = pass up (Key_command (Pexpire_params key timeout params))"
| "client_key up (Pexpireat key timestamp) = pass up (Key_command (Pexpireat key timestamp))"
| "client_key up (Pexpireat_params key timestamp params) = pass up (Key_command (Pexpireat_params key timestamp params))"
| "client_key up (Ttl key) = pass up (Key_command (Ttl key))"
| "client_key up (Pttl key) = pass up (Key_command (Pttl key))"

primrec client_keyspace :: "bool \<Rightarrow> keyspace_command \<Rightarrow> 'd handed" where
  "client_keyspace up (Touch keys) = pass_unless up (length keys = 0) E_PARAMS_EMPTY (Keyspace_command (Touch keys))"
| "client_keyspace up (Dump key) = pass up (Keyspace_command (Dump key))"
| "client_keyspace up (Restore key ttl val) = pass up (Keyspace_command (Restore key ttl val))"
| "client_keyspace up (Restore_params key ttl val params) = pass up (Keyspace_command (Restore_params key ttl val params))"
| "client_keyspace up (Keys pattern) = pass up (Keyspace_command (Keys pattern))"
| "client_keyspace up (Move key db) = pass up (Keyspace_command (Move key db))"
| "client_keyspace up Randomkey = pass up (Keyspace_command Randomkey)"
| "client_keyspace up (Rename key newkey) = pass up (Keyspace_command (Rename key newkey))"
| "client_keyspace up (Renamenx key newkey) = pass up (Keyspace_command (Renamenx key newkey))"
| "client_keyspace up (Type key) = pass up (Keyspace_command (Type key))"
| "client_keyspace up (Scan cursor) = pass up (Keyspace_command (Scan cursor))"
| "client_keyspace up (Scan_params cursor params) = pass up (Keyspace_command (Scan_params cursor params))"
| "client_keyspace up (Sort key) = pass up (Keyspace_command (Sort key))"
| "client_keyspace up (Sort_params key params) = pass up (Keyspace_command (Sort_params key params))"
| "client_keyspace up (SortStore key storekey) = pass up (Keyspace_command (SortStore key storekey))"
| "client_keyspace up (SortStore_params key storekey params) = pass up (Keyspace_command (SortStore_params key storekey params))"
| "client_keyspace up (Copy key destkey) = pass up (Keyspace_command (Copy key destkey))"
| "client_keyspace up (Copy_params key destkey params) = pass up (Keyspace_command (Copy_params key destkey params))"

primrec client_string :: "bool \<Rightarrow> string_command \<Rightarrow> 'd handed" where
  "client_string up (Append key val) = pass up (String_command (Append key val))"
| "client_string up (Bitcount key) = pass up (String_command (Bitcount key))"
| "client_string up (Bitcount_params key params) = pass up (String_command (Bitcount_params key params))"
| "client_string up (Bitfield key args) = pass up (String_command (Bitfield key args))"
| "client_string up (BitfieldRo key args) = pass up (String_command (BitfieldRo key args))"
| "client_string up (Bitop oper keys) = pass_unless up (length keys < 2) ''the number of keys is less than 2'' (String_command (Bitop oper keys))"
| "client_string up (Bitpos key b) = pass up (String_command (Bitpos key b))"
| "client_string up (Bitpos_params key b params) = pass up (String_command (Bitpos_params key b params))"
| "client_string up (Setbit key off val) = pass up (String_command (Setbit key off val))"
| "client_string up (Getbit key off) = pass up (String_command (Getbit key off))"
| "client_string up (Decr key) = pass up (String_command (Decr key))"
| "client_string up (Decrby key decrement) = pass up (String_command (Decrby key decrement))"
| "client_string up (Getrange key from fin) = pass up (String_command (Getrange key from fin))"
| "client_string up (Getset key val) = pass up (String_command (Getset key val))"
| "client_string up (Set_params key val params) = pass up (String_command (Set_params key val params))"
| "client_string up (Set key val) = pass up (String_command (Set key val))"

primrec client_value :: "bool \<Rightarrow> 'd value_command \<Rightarrow> 'd handed" where
  "client_value up (Get key) = pass up (Value_command (Get key))"
| "client_value up (Incr key) = pass up (Value_command (Incr key))"
| "client_value up (Incrby key increment) = pass up (Value_command (Incrby key increment))"
| "client_value up (Incrbyfloat key increment) = pass up (Value_command (Incrbyfloat key increment))"
| "client_value up (Mget keys) = pass_unless up (length keys = 0) E_PARAMS_EMPTY (Value_command (Mget keys))"
| "client_value up (Mset kvs) = pass_unless up (length kvs < 2) E_PARAMS_EMPTY (Value_command (Mset kvs))"
| "client_value up (Msetnx kvs) = pass_unless up (length kvs < 2) E_PARAMS_EMPTY (Value_command (Msetnx kvs))"
| "client_value up (Psetex key milliseconds val) = pass up (Value_command (Psetex key milliseconds val))"
| "client_value up (Setex key seconds val) = pass up (Value_command (Setex key seconds val))"
| "client_value up (Setnx key val) = pass up (Value_command (Setnx key val))"
| "client_value up (Setrange key off val) = pass up (Value_command (Setrange key off val))"
| "client_value up (Strlen key) = pass up (Value_command (Strlen key))"
| "client_value up (Getdel key) = pass up (Value_command (Getdel key))"
| "client_value up (Getex key params) = pass up (Value_command (Getex key params))"

primrec client_list :: "bool \<Rightarrow> list_command \<Rightarrow> 'd handed" where
  "client_list up (Blpop keys timeout) = pass_unless up (length keys < 1) E_PARAMS_EMPTY (List_command (Blpop keys timeout))"
| "client_list up (Brpop keys timeout) = pass_unless up (length keys < 1) E_PARAMS_EMPTY (List_command (Brpop keys timeout))"
| "client_list up (Brpoplpush src dest timeout) = pass up (List_command (Brpoplpush src dest timeout))"
| "client_list up (Lindex key idx) = pass up (List_command (Lindex key idx))"
| "client_list up (Linsert key direction pivot element) = pass up (List_command (Linsert key direction pivot element))"
| "client_list up (Llen key) = pass up (List_command (Llen key))"
| "client_list up (Lpop key) = pass up (List_command (Lpop key))"
| "client_list up (Lpop_count key cnt) = pass up (List_command (Lpop_count key cnt))"
| "client_list up (Lpush key elements) = pass_unless up (length elements < 1) E_PARAMS_EMPTY (List_command (Lpush key elements))"
| "client_list up (Lpushx key elements) = pass_unless up (length elements < 1) E_PARAMS_EMPTY (List_command (Lpushx key elements))"
| "client_list up (Lrange key from to) = pass up (List_command (Lrange key from to))"
| "client_list up (Lrem key cnt element) = pass up (List_command (Lrem key cnt element))"
| "client_list up (Lset key idx element) = pass up (List_command (Lset key idx element))"
| "client_list up (Ltrim key from to) = pass up (List_command (Ltrim key from to))"
| "client_list up (Rpop key) = pass up (List_command (Rpop key))"
| "client_list up (Rpop_count key cnt) = pass up (List_command (Rpop_count key cnt))"
| "client_list up (Rpoplpush src dest) = pass up (List_command (Rpoplpush src dest))"
| "client_list up (Rpush key elements) = pass_unless up (length elements < 1) E_PARAMS_EMPTY (List_command (Rpush key elements))"
| "client_list up (Rpushx key elements) = pass_unless up (length elements < 1) E_PARAMS_EMPTY (List_command (Rpushx key elements))"
| "client_list up (Lmove src dest ldir rdir) = pass up (List_command (Lmove src dest ldir rdir))"
| "client_list up (Blmove src dest ldir rdir timeout) = pass up (List_command (Blmove src dest ldir rdir timeout))"

primrec client_set :: "bool \<Rightarrow> set_command \<Rightarrow> 'd handed" where
  "client_set up (Sadd key members) = pass_unless up (length members < 1) E_PARAMS_EMPTY (Set_command (Sadd key members))"
| "client_set up (Scard key) = pass up (Set_command (Scard key))"
| "client_set up (Sismember key mem) = pass up (Set_command (Sismember key mem))"
| "client_set up (Smembers key) = pass up (Set_command (Smembers key))"
| "client_set up (Smove src dest mem) = pass up (Set_command (Smove src dest mem))"
| "client_set up (Srem key members) = pass_unless up (length members < 1) E_PARAMS_EMPTY (Set_command (Srem key members))"
| "client_set up (Spop key) = pass up (Set_command (Spop key))"
| "client_set up (Spop_count key cnt) = pass up (Set_command (Spop_count key cnt))"
| "client_set up (Srandmember key) = pass up (Set_command (Srandmember key))"
| "client_set up (Srandmember_count key cnt) = pass up (Set_command (Srandmember_count key cnt))"
| "client_set up (Sdiff keys) = pass_unless up (length keys < 1) E_PARAMS_EMPTY (Set_command (Sdiff keys))"
| "client_set up (Sinter keys) = pass_unless up (length keys < 1) E_PARAMS_EMPTY (Set_command (Sinter keys))"
| "client_set up (Sunion keys) = pass_unless up (length keys < 1) E_PARAMS_EMPTY (Set_command (Sunion keys))"
| "client_set up (Sdiffstore dest keys) = pass_unless up (length keys < 1) E_PARAMS_EMPTY (Set_command (Sdiffstore dest keys))"
| "client_set up (Sinterstore dest keys) = pass_unless up (length keys < 1) E_PARAMS_EMPTY (Set_command (Sinterstore dest keys))"
| "client_set up (Sunionstore dest keys) = pass_unless up (length keys < 1) E_PARAMS_EMPTY (Set_command (Sunionstore dest keys))"
| "client_set up (Sscan key cursor) = pass up (Set_command (Sscan key cursor))"
| "client_set up (Sscan_params key cursor params) = pass up (Set_command (Sscan_params key cursor params))"
| "client_set up (Smismember key members) = pass_unless up (length members < 1) E_PARAMS_EMPTY (Set_command (Smismember key members))"

primrec client_hash :: "bool \<Rightarrow> 'd hash_command \<Rightarrow> 'd handed" where
  "client_hash up (Hdel key names) = pass_unless up (length names < 1) E_PARAMS_EMPTY (Hash_command (Hdel key names))"
| "client_hash up (Hexists key field) = pass up (Hash_command (Hexists key field))"
| "client_hash up (Hget key field) = pass up (Hash_command (Hget key field))"
| "client_hash up (Hgetall key) = pass up (Hash_command (Hgetall key))"
| "client_hash up (Hincrby key field increment) = pass up (Hash_command (Hincrby key field increment))"
| "client_hash up (Hincrbyfloat key field increment) = pass up (Hash_command (Hincrbyfloat key field increment))"
| "client_hash up (Hkeys key) = pass up (Hash_command (Hkeys key))"
| "client_hash up (Hvals key) = pass up (Hash_command (Hvals key))"
| "client_hash up (Hlen key) = pass up (Hash_command (Hlen key))"
| "client_hash up (Hmget key names) = pass_unless up (length names < 1) E_PARAMS_EMPTY (Hash_command (Hmget key names))"
| "client_hash up (Hset key field val) = pass up (Hash_command (Hset key field val))"
| "client_hash up (Hset_kvs key kvs) = pass_unless up (length kvs < 2) E_PARAMS_EMPTY (Hash_command (Hset_kvs key kvs))"
| "client_hash up (Hsetnx key field val) = pass up (Hash_command (Hsetnx key field val))"
| "client_hash up (Hstrlen key field) = pass up (Hash_command (Hstrlen key field))"
| "client_hash up (Hscan key cursor) = pass up (Hash_command (Hscan key cursor))"
| "client_hash up (Hscan_params key cursor params) = pass up (Hash_command (Hscan_params key cursor params))"
| "client_hash up (Hrandfield key) = pass up (Hash_command (Hrandfield key))"
| "client_hash up (Hrandfield_count key cnt) = pass up (Hash_command (Hrandfield_count key cnt))"

primrec client_zset :: "bool \<Rightarrow> zset_command \<Rightarrow> 'd handed" where
  "client_zset up (Zadd key elements) = pass_unless up (length elements < 2) E_PARAMS_EMPTY (Zset_command (Zadd key elements))"
| "client_zset up (Zadd_params key params elements) = pass_unless up (length elements < 2) E_PARAMS_EMPTY (Zset_command (Zadd_params key params elements))"
| "client_zset up (Zincrby key increment mem) = pass up (Zset_command (Zincrby key increment mem))"
| "client_zset up (Zscore key mem) = pass up (Zset_command (Zscore key mem))"
| "client_zset up (Zrank key mem) = pass up (Zset_command (Zrank key mem))"
| "client_zset up (Zrevrank key mem) = pass up (Zset_command (Zrevrank key mem))"
| "client_zset up (Zcard key) = pass up (Zset_command (Zcard key))"
| "client_zset up (Zcount key lo hi) = pass up (Zset_command (Zcount key lo hi))"
| "client_zset up (Zlexcount key lo hi) = pass up (Zset_command (Zlexcount key lo hi))"
| "client_zset up (Zpopmax key cnt) = pass up (Zset_command (Zpopmax key cnt))"
| "client_zset up (Zpopmin key cnt) = pass up (Zset_command (Zpopmin key cnt))"
| "client_zset up (Bzpopmax keys timeout) = pass_unless up (length keys < 1) E_PARAMS_EMPTY (Zset_command (Bzpopmax keys timeout))"
| "client_zset up (Bzpopmin keys timeout) = pass_unless up (length keys < 1) E_PARAMS_EMPTY (Zset_command (Bzpopmin keys timeout))"
| "client_zset up (Zrange key from to) = pass up (Zset_command (Zrange key from to))"
| "client_zset up (Zrange_params key from to params) = pass up (Zset_command (Zrange_params key from to params))"
| "client_zset up (Zrangestore dest src lo hi) = pass up (Zset_command (Zrangestore dest src lo hi))"
| "client_zset up (Zrangestore_params dest src lo hi params) = pass up (Zset_command (Zrangestore_params dest src lo hi params))"
| "client_zset up (Zrem key members) = pass_unless up (length members < 1) E_PARAMS_EMPTY (Zset_command (Zrem key members))"
| "client_zset up (Zremrange opt key first fin) = pass up (Zset_command (Zremrange opt key first fin))"

primrec client_zset_op :: "bool \<Rightarrow> 'd zset_op_command \<Rightarrow> 'd handed" where
  "client_zset_op up (Zinter keys) = pass_unless up (length keys < 2) E_PARAMS_EMPTY (Zset_op_command (Zinter keys))"
| "client_zset_op up (Zinter_params keys params) = pass_unless up (length keys < 2) E_PARAMS_EMPTY (Zset_op_command (Zinter_params keys params))"
| "client_zset_op up (Zinterstore dest keys) = pass_unless up (length keys < 2) E_PARAMS_EMPTY (Zset_op_command (Zinterstore dest keys))"
| "client_zset_op up (Zinterstore_params dest keys params) = pass_unless up (length keys < 2) E_PARAMS_EMPTY (Zset_op_command (Zinterstore_params dest keys params))"
| "client_zset_op up (Zunion keys) = pass_unless up (length keys < 2) E_PARAMS_EMPTY (Zset_op_command (Zunion keys))"
| "client_zset_op up (Zunion_params keys params) = pass_unless up (length keys < 2) E_PARAMS_EMPTY (Zset_op_command (Zunion_params keys params))"
| "client_zset_op up (Zunionstore dest keys) = pass_unless up (length keys < 2) E_PARAMS_EMPTY (Zset_op_command (Zunionstore dest keys))"
| "client_zset_op up (Zunionstore_params dest keys params) = pass_unless up (length keys < 2) E_PARAMS_EMPTY (Zset_op_command (Zunionstore_params dest keys params))"
| "client_zset_op up (Zdiff keys) = pass_unless up (length keys < 2) E_PARAMS_EMPTY (Zset_op_command (Zdiff keys))"
| "client_zset_op up (ZdiffWithScores keys) = pass_unless up (length keys < 2) E_PARAMS_EMPTY (Zset_op_command (ZdiffWithScores keys))"
| "client_zset_op up (Zdiffstore dest keys) = pass_unless up (length keys < 2) E_PARAMS_EMPTY (Zset_op_command (Zdiffstore dest keys))"
| "client_zset_op up (ZdiffstoreWithScores dest keys) = pass_unless up (length keys < 2) E_PARAMS_EMPTY (Zset_op_command (ZdiffstoreWithScores dest keys))"
| "client_zset_op up (Zmscore key members) = pass_unless up (length members < 1) E_PARAMS_EMPTY (Zset_op_command (Zmscore key members))"
| "client_zset_op up (Zrandmember key) = pass up (Zset_op_command (Zrandmember key))"
| "client_zset_op up (Zrandmember_count key cnt) = pass up (Zset_op_command (Zrandmember_count key cnt))"
| "client_zset_op up (Zscan key cursor) = pass up (Zset_op_command (Zscan key cursor))"
| "client_zset_op up (Zscan_params key cursor params) = pass up (Zset_op_command (Zscan_params key cursor params))"

primrec client_geo :: "bool \<Rightarrow> 'd geo_command \<Rightarrow> 'd handed" where
  "client_geo up (Pfadd key elements) = pass_unless up (length elements < 1) E_PARAMS_EMPTY (Geo_command (Pfadd key elements))"
| "client_geo up (Pfcount keys) = pass_unless up (length keys < 1) E_PARAMS_EMPTY (Geo_command (Pfcount keys))"
| "client_geo up (Pfmerge dest keys) = pass_unless up (length keys < 1) E_PARAMS_EMPTY (Geo_command (Pfmerge dest keys))"
| "client_geo up (Geoadd key members) = pass up (Geo_command (Geoadd key members))"
| "client_geo up (Geoadd_params key params members) = pass up (Geo_command (Geoadd_params key params members))"
| "client_geo up (Geodist key member1 member2 u) = pass up (Geo_command (Geodist key member1 member2 u))"
| "client_geo up (Geohash key members) = pass_unless up (length members < 1) E_PARAMS_EMPTY (Geo_command (Geohash key members))"
| "client_geo up (Geopos key members) = pass_unless up (length members < 1) E_PARAMS_EMPTY (Geo_command (Geopos key members))"
| "client_geo up (Georadius key longitude latitude radius u) = pass up (Geo_command (Georadius key longitude latitude radius u))"
| "client_geo up (Georadiusbymember key mem radius u) = pass up (Geo_command (Georadiusbymember key mem radius u))"

primrec client_stream :: "bool \<Rightarrow> stream_command \<Rightarrow> 'd handed" where
  "client_stream up (Xadd key entry_id elements) = pass_unless up (length elements < 1) E_PARAMS_EMPTY (Stream_command (Xadd key entry_id elements))"
| "client_stream up (Xlen key) = pass up (Stream_command (Xlen key))"
| "client_stream up (Xdel key ids) = pass_unless up (length ids < 1) E_PARAMS_EMPTY (Stream_command (Xdel key ids))"
| "client_stream up (Xack key grp ids) = pass_unless up (length ids < 1) E_PARAMS_EMPTY (Stream_command (Xack key grp ids))"
| "client_stream up (XgroupCreate key grp entry_id) = pass up (Stream_command (XgroupCreate key grp entry_id))"
| "client_stream up (XgroupCreateConsumer key grp consumer) = pass up (Stream_command (XgroupCreateConsumer key grp consumer))"
| "client_stream up (XgroupDelConsumer key grp consumer) = pass up (Stream_command (XgroupDelConsumer key grp consumer))"
| "client_stream up (XgroupDestroy key grp) = pass up (Stream_command (XgroupDestroy key grp))"
| "client_stream up (XgroupSetID key grp) = pass up (Stream_command (XgroupSetID key grp))"
| "client_stream up (Xpending key grp) = pass up (Stream_command (Xpending key grp))"
| "client_stream up (Xrange key from fin) = pass up (Stream_command (Xrange key from fin))"
| "client_stream up (Xrevrange key fin from) = pass up (Stream_command (Xrevrange key fin from))"
| "client_stream up (Xread cnt keys ids) = pass_unless up (length keys < 1 \<or> length ids < 1) E_PARAMS_EMPTY (Stream_command (Xread cnt keys ids))"
| "client_stream up (Xreadgroup grp consumer keys ids) = pass_unless up (length keys < 1 \<or> length ids < 1) E_PARAMS_EMPTY (Stream_command (Xreadgroup grp consumer keys ids))"
| "client_stream up (Xtrim key strategy threshold) = pass up (Stream_command (Xtrim key strategy threshold))"
| "client_stream up (Xsetid key last_id) = pass up (Stream_command (Xsetid key last_id))"

primrec client_server :: "bool \<Rightarrow> server_command \<Rightarrow> 'd handed" where
  "client_server up (Eval script keys args) = pass_script up (Server_command (Eval script keys args))"
| "client_server up (EvalRo script keys args) = pass_script up (Server_command (EvalRo script keys args))"
| "client_server up (Evalsha sha1 keys args) = pass_script up (Server_command (Evalsha sha1 keys args))"
| "client_server up (EvalshaRo sha1 keys args) = pass_script up (Server_command (EvalshaRo sha1 keys args))"
| "client_server up (ScriptLoad script) = pass up (Server_command (ScriptLoad script))"
| "client_server up ScriptFlush = pass up (Server_command ScriptFlush)"
| "client_server up ScriptKill = pass up (Server_command ScriptKill)"
| "client_server up (ScriptExists sha1s) = pass up (Server_command (ScriptExists sha1s))"
| "client_server up (Auth password) = pass up (Server_command (Auth password))"
| "client_server up (Auth_user user password) = pass up (Server_command (Auth_user user password))"
| "client_server up Quit = pass up (Server_command Quit)"
| "client_server up Flushall = pass up (Server_command Flushall)"
| "client_server up (Publish channel message) = pass up (Server_command (Publish channel message))"
| "client_server up (ClusterPublish channel message nm flag) = pass up (Server_command (ClusterPublish channel message nm flag))"
| "client_server up ClusterNodes = pass up (Server_command ClusterNodes)"

primrec client_call :: "bool \<Rightarrow> 'd command \<Rightarrow> 'd handed" where
  "client_call up (Key_command c) = client_key up c"
| "client_call up (Keyspace_command c) = client_keyspace up c"
| "client_call up (String_command c) = client_string up c"
| "client_call up (Value_command c) = client_value up c"
| "client_call up (List_command c) = client_list up c"
| "client_call up (Set_command c) = client_set up c"
| "client_call up (Hash_command c) = client_hash up c"
| "client_call up (Zset_command c) = client_zset up c"
| "client_call up (Zset_op_command c) = client_zset_op up c"
| "client_call up (Geo_command c) = client_geo up c"
| "client_call up (Stream_command c) = client_stream up c"
| "client_call up (Server_command c) = client_server up c"

section \<open>Creating the client\<close>

datatype connect_type = STANDALONE | CLUSTER | SENTINEL

record tair_uri =
  uri_type :: connect_type
  server_addrs :: "bytes list"
  connecting_timeout_ms :: int
  reconnect_interval_ms :: int
  keepalive_seconds :: int
  auto_reconnect :: bool
  uri_user :: bytes
  uri_password :: bytes

definition TairURI_create :: tair_uri where
  "TairURI_create = \<lparr>uri_type = STANDALONE, server_addrs = [], connecting_timeout_ms = 2000, reconnect_interval_ms = -1,
     keepalive_seconds = 60, auto_reconnect = True, uri_user = [], uri_password = []\<rparr>"

text \<open>The settings of a client that \<open>init\<close> may change.\<close>

record settings =
  server_addr :: bytes
  connecting_ms :: int
  reconnect_ms :: int
  reconnects :: bool
  user :: bytes
  password :: bytes

definition configure :: "tair_uri \<Rightarrow> bytes \<Rightarrow> settings \<Rightarrow> settings" where
  "configure uri addr s =
     (let s1 = s\<lparr>server_addr := addr, connecting_ms := connecting_timeout_ms uri, reconnect_ms := reconnect_interval_ms uri,
            reconnects := auto_reconnect uri\<rparr>;
          s2 = (if uri_user uri \<noteq> [] then s1\<lparr>user := uri_user uri\<rparr> else s1)
      in if uri_password uri \<noteq> [] then s2\<lparr>password := uri_password uri\<rparr> else s2)"

text \<open>\<open>connect s i\<close> is the virtual \<open>init\<close> of a client in state \<open>i\<close> with settings \<open>s\<close>.\<close>

fun try_addrs :: "(settings \<Rightarrow> 'i \<Rightarrow> bytes tair_result \<times> 'i) \<Rightarrow> tair_uri \<Rightarrow> bytes list \<Rightarrow> bytes tair_result \<Rightarrow>
    settings \<times> 'i \<Rightarrow> bytes tair_result \<times> settings \<times> 'i" where
  "try_addrs connect uri [] result cl = (result, cl)"
| "try_addrs connect uri (addr # addrs) result (s, i) =
     (if addr = [] then (setErr ''empty addr in server_addrs'', s, i)
      else
        (let s1 = configure uri addr s; (r, i1) = connect s1 i
         in if isSuccess r then (r, s1, i1) else try_addrs connect uri addrs r (s1, i1)))"

text \<open>\<open>new t\<close> is a new client; the one there was before, if any, is lost.\<close>

definition tair_init :: "(connect_type \<Rightarrow> settings \<times> 'i) \<Rightarrow> (settings \<Rightarrow> 'i \<Rightarrow> bytes tair_result \<times> 'i) \<Rightarrow> tair_uri \<Rightarrow>
    (settings \<times> 'i) option \<Rightarrow> bytes tair_result \<times> (settings \<times> 'i) option" where
  "tair_init new connect uri itair =
     (if uri_type uri = SENTINEL then (setErr ''tair not support SENTINEL mode'', itair)
      else if uri_type uri = STANDALONE \<and> length (server_addrs uri) \<noteq> 1
      then (setErr ''STANDALONE mode not support multi addrs'', Some (new (uri_type uri)))
      else (case try_addrs connect uri (server_addrs uri) (setErr ''server_addrs is empty'') (new (uri_type uri)) of
        (r, cl) \<Rightarrow> (r, Some cl)))"

definition tair_destroy :: "('i \<Rightarrow> 'i) \<Rightarrow> (settings \<times> 'i) option \<Rightarrow> (settings \<times> 'i) option" where
  "tair_destroy destr itair = None"

section \<open>Futures\<close>

text \<open>The macro \<open>FUTURE_CALL\<close>: the callback keeps a shared promise, and is itself kept until it is called
  for the last time. A second call throws in the thread of the event loop.\<close>

datatype 'v future = Ready 'v | Broken_promise

fun future_call :: "'v list \<Rightarrow> 'v future option" where
  "future_call [] = Some Broken_promise"
| "future_call [v] = Some (Ready v)"
| "future_call (v # w # vs) = None"

section \<open>What is handed over\<close>

lemmas pass_defs = pass_def pass_unless_def pass_script_def

lemma handed_over:
  "client_key True c1 = Passed d \<Longrightarrow> d = Key_command c1 \<and> route_key c1 \<noteq> Undefined_first"
  "client_keyspace True c2 = Passed d \<Longrightarrow> d = Keyspace_command c2 \<and> route_keyspace c2 \<noteq> Undefined_first"
  "client_string True c3 = Passed d \<Longrightarrow> d = String_command c3 \<and> route_string c3 \<noteq> Undefined_first"
  "client_value True c4 = Passed d \<Longrightarrow> d = Value_command c4 \<and> route_value c4 \<noteq> Undefined_first"
  "client_list True c5 = Passed d \<Longrightarrow> d = List_command c5 \<and> route_list c5 \<noteq> Undefined_first"
  "client_set True c6 = Passed d \<Longrightarrow> d = Set_command c6 \<and> route_set c6 \<noteq> Undefined_first"
  "client_hash True c7 = Passed d \<Longrightarrow> d = Hash_command c7 \<and> route_hash c7 \<noteq> Undefined_first"
  "client_zset True c8 = Passed d \<Longrightarrow> d = Zset_command c8 \<and> route_zset c8 \<noteq> Undefined_first"
  "client_zset_op True c9 = Passed d \<Longrightarrow> d = Zset_op_command c9 \<and> route_zset_op c9 \<noteq> Undefined_first"
  "client_geo True c10 = Passed d \<Longrightarrow> d = Geo_command c10 \<and> route_geo c10 \<noteq> Undefined_first"
  "client_stream True c11 = Passed d \<Longrightarrow> d = Stream_command c11 \<and> route_stream c11 \<noteq> Undefined_first"
  "client_server True c12 = Passed d \<Longrightarrow> d = Server_command c12 \<and> route_server c12 \<noteq> Undefined_first"
  subgoal by (cases c1) (auto simp: pass_defs by_key_def by_first_def split: if_splits list.splits)
  subgoal by (cases c2) (auto simp: pass_defs by_key_def by_first_def same_slot_def split: if_splits list.splits)
  subgoal by (cases c3) (auto simp: pass_defs by_key_def by_first_def same_slot_def split: if_splits list.splits)
  subgoal by (cases c4) (auto simp: pass_defs by_key_def split: if_splits)
  subgoal by (cases c5) (auto simp: pass_defs by_key_def by_first_def same_slot_def split: if_splits list.splits)
  subgoal by (cases c6) (auto simp: pass_defs by_key_def split: if_splits)
  subgoal by (cases c7) (auto simp: pass_defs by_key_def split: if_splits)
  subgoal by (cases c8) (auto simp: pass_defs by_key_def by_first_def same_slot_def split: if_splits list.splits)
  subgoal by (cases c9) (auto simp: pass_defs by_key_def split: if_splits)
  subgoal by (cases c10) (auto simp: pass_defs by_key_def by_first_def same_slot_def same_slot_dest_def split: if_splits list.splits)
  subgoal by (cases c11) (auto simp: pass_defs by_key_def by_first_def same_slot_def split: if_splits list.splits)
  subgoal by (cases c12) (auto simp: pass_defs by_key_def split: if_splits)
  done

lemma passed_unchanged: "client_call True c = Passed d \<Longrightarrow> d = c \<and> route_of c \<noteq> Undefined_first"
  by (cases c) (auto dest: handed_over)

text \<open>Every method has one of three forms, and hands over the call it was given.\<close>

inductive plain :: "bool \<Rightarrow> 'd command \<Rightarrow> 'd handed \<Rightarrow> bool" where
  "plain up c (pass up c)"
| "plain up c (pass_unless up bad err c)"
| "plain up c (pass_script up c)"

lemma client_plain: "plain up c (client_call up c)"
proof (cases c)
  case (Key_command c')
  then show ?thesis by (cases c') (simp_all add: plain.intros)
next
  case (Keyspace_command c')
  then show ?thesis by (cases c') (simp_all add: plain.intros)
next
  case (String_command c')
  then show ?thesis by (cases c') (simp_all add: plain.intros)
next
  case (Value_command c')
  then show ?thesis by (cases c') (simp_all add: plain.intros)
next
  case (List_command c')
  then show ?thesis by (cases c') (simp_all add: plain.intros)
next
  case (Set_command c')
  then show ?thesis by (cases c') (simp_all add: plain.intros)
next
  case (Hash_command c')
  then show ?thesis by (cases c') (simp_all add: plain.intros)
next
  case (Zset_command c')
  then show ?thesis by (cases c') (simp_all add: plain.intros)
next
  case (Zset_op_command c')
  then show ?thesis by (cases c') (simp_all add: plain.intros)
next
  case (Geo_command c')
  then show ?thesis by (cases c') (simp_all add: plain.intros)
next
  case (Stream_command c')
  then show ?thesis by (cases c') (simp_all add: plain.intros)
next
  case (Server_command c')
  then show ?thesis by (cases c') (simp_all add: plain.intros)
qed

lemma not_up: "client_call False c \<in> {Told_error E_NOT_INIT, Told_nulls}"
  using client_plain [of False c] by cases (simp_all add: pass_defs)

lemma up_no_nulls: "client_call True c \<noteq> Told_nulls"
  using client_plain [of True c] by cases (simp_all add: pass_defs split: if_split)

section \<open>A cluster behind the facade\<close>

lemma parse_lines_length: "length (slot_to_clients (snd (parse_lines split atoi conn ls st))) = length (slot_to_clients st)"
proof (induction ls arbitrary: st)
  case (Cons line ls)
  let ?items = "split line (CHR '' '')"
  let ?result = "split (?items ! 1) (CHR ''@'')"
  obtain co st1 where c: "createClient conn (?result ! 0) st = (co, st1)" by fastforce
  have l1: "length (slot_to_clients st1) = length (slot_to_clients st)"
    using createClient_state [OF c] by simp
  show ?case
  proof (cases co)
    case None
    then show ?thesis using Cons.IH c l1 by (simp add: Let_def)
  next
    case (Some cl)
    obtain ok st2 where a: "assign_slots split atoi cl (drop 8 ?items) st1 = (ok, st2)" by fastforce
    then have "length (slot_to_clients st2) = length (slot_to_clients st1)"
      using assign_slots_state [of split atoi cl "drop 8 ?items" st1 st2] by simp
    then show ?thesis using Cons.IH c l1 Some a by (cases ok) (simp_all add: Let_def)
  qed
qed simp

lemma init_length: "length (slot_to_clients (snd (init split atoi conn nodes addr st))) = length (slot_to_clients st)"
proof -
  obtain co st1 where c: "createClient conn addr st = (co, st1)" by fastforce
  have l1: "length (slot_to_clients st1) = length (slot_to_clients st)"
    using createClient_state [OF c] by simp
  show ?thesis
  proof (cases co)
    case None
    then show ?thesis using c l1 by (simp add: init_def)
  next
    case (Some cl)
    show ?thesis
    proof (cases "nodes cl")
      case None
      then show ?thesis using c l1 Some by (simp add: init_def)
    next
      fix info
      assume info: "nodes cl = Some info"
      obtain ok st2 where p: "parseNodesInfoAndInitClient split atoi conn info st1 = (ok, st2)" by fastforce
      then have "length (slot_to_clients st2) = length (slot_to_clients st1)"
        using parse_lines_length [of split atoi conn "split info LF" st1] by (simp add: parseNodesInfoAndInitClient_def)
      then show ?thesis using c l1 Some info p by (cases ok) (simp_all add: init_def)
    qed
  qed
qed

definition cluster_connect ::
  "(bytes \<Rightarrow> char \<Rightarrow> bytes list) \<Rightarrow> (bytes \<Rightarrow> int option) \<Rightarrow> (bytes \<Rightarrow> 'c option) \<Rightarrow> ('c \<Rightarrow> bytes option) \<Rightarrow>
   settings \<Rightarrow> 'c cluster \<Rightarrow> bytes tair_result \<times> 'c cluster" where
  "cluster_connect split atoi conn nodes s st = init split atoi conn nodes (server_addr s) st"

lemma try_addrs_cluster:
  assumes "try_addrs (cluster_connect split atoi conn nodes) uri addrs r0 (s, st) = (r, s', st')" "isSuccess r" "\<not> isSuccess r0"
    "length (slot_to_clients st) = SLOTS_NUM"
  shows "checkSlotToClients st' \<and> length (slot_to_clients st') = SLOTS_NUM"
  using assms
proof (induction addrs arbitrary: r0 s st)
  case (Cons addr addrs)
  obtain r1 st1 where i: "init split atoi conn nodes (server_addr (configure uri addr s)) st = (r1, st1)" by fastforce
  have l: "length (slot_to_clients st1) = SLOTS_NUM"
    using init_length [of split atoi conn nodes "server_addr (configure uri addr s)" st] i Cons.prems(4) by simp
  show ?case
  proof (cases "addr = []")
    case True
    then show ?thesis using Cons.prems(1,2) by (auto simp: isSuccess_def setErr_def)
  next
    case False
    show ?thesis
    proof (cases "isSuccess r1")
      case True
      then have "st' = st1" using Cons.prems(1) i False by (simp add: cluster_connect_def)
      then show ?thesis using init_checks_slots [OF i True] Cons.prems(4) by simp
    next
      case not_ok: False
      then show ?thesis
        using Cons.IH [of r1 "configure uri addr s" st1] Cons.prems(1,2) i False l by (simp add: cluster_connect_def)
    qed
  qed
qed simp

text \<open>C29: after \<open>init\<close> has succeeded for a cluster, whichever of its addresses did it and however many failed
  before, every command method either calls back with an error about its lists or does what it has to: no
  null pointer is followed and no empty list is dereferenced. The check of the lists in front of the cluster
  client keeps every call away from it that it could not survive.\<close>

theorem facade_keeps_cluster_safe:
  assumes "tair_init new (cluster_connect split atoi conn nodes) uri itair = (r, Some (s, st))" "isSuccess r"
    "uri_type uri = CLUSTER" "snd (new CLUSTER) = new_cluster"
  shows "(\<exists>e. client_call True c = Told_error e) \<or>
    (client_call True c = Passed c \<and> perform ds now ns failed_early st c \<noteq> None)"
proof -
  obtain s0 where "new CLUSTER = (s0, new_cluster)" using assms(4) by (metis prod.collapse)
  then have "checkSlotToClients st \<and> length (slot_to_clients st) = SLOTS_NUM"
    using assms(1-3) try_addrs_cluster [of split atoi conn nodes uri "server_addrs uri" "setErr ''server_addrs is empty''" s0 new_cluster r s st]
    by (simp add: tair_init_def isSuccess_def setErr_def new_cluster_def split: prod.split_asm)
  then have p: "perform ds now ns failed_early st c = None \<longleftrightarrow> route_of c = Undefined_first"
    by (intro perform_undefined) simp_all
  show ?thesis
  proof (cases "client_call True c")
    case (Passed d)
    then show ?thesis using passed_unchanged [OF Passed] p by simp
  next
    case Told_nulls
    then show ?thesis using up_no_nulls by blast
  qed simp
qed

definition one_address :: tair_uri where
  "one_address = TairURI_create\<lparr>uri_type := CLUSTER, server_addrs := [''h:1'']\<rparr>"

definition no_settings :: settings where
  "no_settings = \<lparr>server_addr = [], connecting_ms = 0, reconnect_ms = 0, reconnects = True, user = [], password = []\<rparr>"

lemma one_address_init:
  "\<exists>r s st. tair_init (\<lambda>_. (no_settings, new_cluster)) (cluster_connect split_on digits_atoi Some (\<lambda>_. Some one_node)) one_address None =
     (r, Some (s, st)) \<and> isSuccess r"
proof -
  let ?i = "init split_on digits_atoi Some (\<lambda>_. Some one_node) ''h:1'' new_cluster"
  obtain r st where i: "?i = (r, st)" by fastforce
  then have "isSuccess r" using one_node_init by simp
  then show ?thesis
    using i by (simp add: tair_init_def one_address_def TairURI_create_def cluster_connect_def configure_def no_settings_def)
qed

theorem facade_keeps_cluster_safe_witness:
  "\<exists>r s st. tair_init (\<lambda>_. (no_settings, new_cluster)) (cluster_connect split_on digits_atoi Some (\<lambda>_. Some one_node)) one_address None =
     (r, Some (s, st)) \<and> perform (\<lambda>_. []) 0 [] (\<lambda>_. False) st (List_command (Blpop [''k''] 0) :: int command) \<noteq> None"
proof -
  obtain r s st where i: "tair_init (\<lambda>_. (no_settings, new_cluster)) (cluster_connect split_on digits_atoi Some (\<lambda>_. Some one_node)) one_address None =
     (r, Some (s, st))" "isSuccess r"
    using one_address_init by blast
  have "client_call True (List_command (Blpop [''k''] 0) :: int command) \<noteq> Told_error e" for e
    by (simp add: pass_defs)
  then show ?thesis
    using facade_keeps_cluster_safe [OF i, of "List_command (Blpop [''k''] 0) :: int command" "\<lambda>_. []" 0 "[]" "\<lambda>_. False"] i(1)
    by (auto simp: one_address_def)
qed

lemma try_addrs_silent:
  assumes "\<not> isSuccess r0" "slot_to_clients st = replicate SLOTS_NUM None"
  shows "\<exists>r s' st'. try_addrs (cluster_connect split atoi conn (\<lambda>_. None)) uri addrs r0 (s, st) = (r, s', st') \<and>
    \<not> isSuccess r \<and> slot_to_clients st' = replicate SLOTS_NUM None"
  using assms
proof (induction addrs arbitrary: r0 s st)
  case (Cons addr addrs)
  obtain co st1 where c: "createClient conn (server_addr (configure uri addr s)) st = (co, st1)" by fastforce
  obtain r1 st2 where i: "init split atoi conn (\<lambda>_. None) (server_addr (configure uri addr s)) st = (r1, st2)" by fastforce
  then have "\<not> isSuccess r1" "slot_to_clients st2 = replicate SLOTS_NUM None"
    using c createClient_state [OF c] Cons.prems(2)
    by (auto simp: init_def isSuccess_def setErr_def split: option.split_asm)
  then show ?case
    using Cons.IH [of r1 st2 "configure uri addr s"] Cons.prems(2) i by (simp add: cluster_connect_def isSuccess_def setErr_def)
qed simp

text \<open>A client whose \<open>init\<close> has failed is not one that was never initialised. If no node of a cluster
  answers, whatever addresses were given, \<open>init\<close> reports an error and leaves the client it created, so the
  next command is not refused with \<open>E_NOT_INIT\<close> but handed over, and follows a null pointer.\<close>

lemma failed_init_crashes:
  assumes "uri_type uri = CLUSTER" "snd (new CLUSTER) = new_cluster"
  shows "\<exists>r s st. tair_init new (cluster_connect split atoi conn (\<lambda>_. None)) uri itair = (r, Some (s, st)) \<and> \<not> isSuccess r \<and>
    client_call True (Value_command (Get key)) = Passed (Value_command (Get key)) \<and>
    perform ds now ns failed_early st (Value_command (Get key)) = None"
proof -
  obtain s0 where n: "new CLUSTER = (s0, new_cluster)" using assms(2) by (metis prod.collapse)
  obtain r s st where "try_addrs (cluster_connect split atoi conn (\<lambda>_. None)) uri (server_addrs uri)
      (setErr ''server_addrs is empty'') (s0, new_cluster) = (r, s, st)" "\<not> isSuccess r" "slot_to_clients st = replicate SLOTS_NUM None"
    using try_addrs_silent [of "setErr ''server_addrs is empty''" new_cluster split atoi conn uri "server_addrs uri" s0]
    by (auto simp: isSuccess_def setErr_def new_cluster_def)
  moreover have "perform ds now ns failed_early st (Value_command (Get key)) = None"
    using calculation(3) keyHashSlot_less [of key] by (simp add: perform_def by_key_def client_of_slot_def)
  ultimately show ?thesis
    using assms(1) n by (simp add: tair_init_def pass_defs)
qed

text \<open>What one address has left in the table of slots stays there for the next: a slot the second text does
  not mention keeps the client it had.\<close>

lemma retry_keeps_slots:
  assumes "init split atoi conn nodes addr st = (r, st')" "isSuccess r" "k < length (slot_to_clients st)"
    "\<And>c info. nodes c = Some info \<Longrightarrow> owner split atoi (split info LF) k = None"
  shows "slot_to_clients st' ! k = slot_to_clients st ! k"
proof -
  from assms(1,2) obtain c st1 info where c: "createClient conn addr st = (Some c, st1)" "nodes c = Some info"
    "parse_lines split atoi conn (split info LF) st1 = (True, st')"
    by (auto simp: init_def parseNodesInfoAndInitClient_def split: prod.split_asm option.split_asm bool.split_asm if_split_asm)
  then show ?thesis
    using parse_lines_table [OF c(3)] createClient_state [OF c(1)] assms(3) assms(4) [OF c(2)] by simp
qed

text \<open>A command that the cluster client takes and never answers breaks the promise of its future.\<close>

lemma future_of_unanswered:
  "perform ds now ns failed_early st (Set_command (Sdiff keys)) = Some [] \<and> future_call [] = Some Broken_promise"
  by (simp add: perform_def)

end
