(* ===== verification/LZF.thy ===== *)
theory LZF
  imports Prelude
begin

unbundle bit_operations_syntax

text \<open>
  \<open>common/LZF\<close>: the compressor and the decompressor of the LZF format, in the configuration the
  file fixes (\<open>HLOG\<close> 16, \<open>VERY_FAST\<close>, \<open>CHECK_INPUT\<close>, hash table of 32-bit offsets, table left
  uninitialised). Pointers into the two buffers are indices; \<open>in_end\<close> and \<open>out_end\<close> are the lengths
  of the buffers. A read or write outside a buffer is a fault (\<open>None\<close>). The table the compressor
  finds on its stack is an argument, since no one initialises it.
\<close>

section \<open>Buffers\<close>

type_synonym u8 = "8 word"

definition peek :: "'a list \<Rightarrow> nat \<Rightarrow> 'a option" where
  "peek xs i = (if i < length xs then Some (xs ! i) else None)"

definition poke :: "nat \<Rightarrow> 'a \<Rightarrow> 'a list \<Rightarrow> 'a list option" where
  "poke i x xs = (if i < length xs then Some (xs[i := x]) else None)"

lemma peek_Some [simp]: "i < length xs \<Longrightarrow> peek xs i = Some (xs ! i)"
  by (simp add: peek_def)

lemma poke_Some [simp]: "i < length xs \<Longrightarrow> poke i x xs = Some (xs[i := x])"
  by (simp add: poke_def)

lemma peek_eq_Some: "peek xs i = Some x \<longleftrightarrow> i < length xs \<and> x = xs ! i"
  by (auto simp: peek_def)

lemma poke_eq_Some: "poke i x xs = Some ys \<longleftrightarrow> i < length xs \<and> ys = xs[i := x]"
  by (auto simp: poke_def)

section \<open>Decompression\<close>

datatype lzf_error = E2BIG | EINVAL

text \<open>Positions in the two buffers and the output, in a decompression.\<close>

type_synonym lzf_dec = "nat \<times> nat \<times> u8 list"

text \<open>The fall-through switch of a literal run and the octet by octet copies of a reference.\<close>

fun copy_literals :: "nat \<Rightarrow> u8 list \<Rightarrow> nat \<Rightarrow> nat \<Rightarrow> u8 list \<Rightarrow> u8 list option" where
  "copy_literals 0 xs ip op out = Some out"
| "copy_literals (Suc k) xs ip op out = do {
     x \<leftarrow> peek xs ip;
     out \<leftarrow> poke op x out;
     copy_literals k xs (ip + 1) (op + 1) out }"

fun copy_octets :: "nat \<Rightarrow> nat \<Rightarrow> nat \<Rightarrow> u8 list \<Rightarrow> u8 list option" where
  "copy_octets 0 ref op out = Some out"
| "copy_octets (Suc k) ref op out = do {
     x \<leftarrow> peek out ref;
     out \<leftarrow> poke op x out;
     copy_octets k (ref + 1) (op + 1) out }"

definition copy_ref :: "nat \<Rightarrow> nat \<Rightarrow> nat \<Rightarrow> u8 list \<Rightarrow> u8 list option" where
  "copy_ref len ref op out =
     (if len > 9 then
        (let len = len + 2
         in if op \<ge> ref + len then do { xs \<leftarrow> load ref len out; store op xs out }
            else copy_octets len ref op out)
      else copy_octets (len + 2) ref op out)"

definition back_ref :: "u8 list \<Rightarrow> nat \<Rightarrow> int \<Rightarrow> nat \<Rightarrow> nat \<Rightarrow> u8 list \<Rightarrow> (lzf_error + lzf_dec) option" where
  "back_ref xs len ref ip op out = do {
     b \<leftarrow> peek xs ip;
     let ref = ref - uint b;
     let ip = ip + 1;
     if op + len + 2 > length out then Some (Inl E2BIG)
     else if ref < 0 then Some (Inl EINVAL)
     else do {
       out \<leftarrow> copy_ref len (nat ref) op out;
       Some (Inr (ip, op + len + 2, out)) } }"

definition decompress_step :: "u8 list \<Rightarrow> lzf_dec \<Rightarrow> (lzf_error + lzf_dec) option" where
  "decompress_step xs s = (case s of (ip, op, out) \<Rightarrow> do {
     c \<leftarrow> peek xs ip;
     let ctrl = unat c;
     let ip = ip + 1;
     if ctrl < 32 then
       (let ctrl = ctrl + 1
        in if op + ctrl > length out then Some (Inl E2BIG)
           else if ip + ctrl > length xs then Some (Inl EINVAL)
           else do {
             out \<leftarrow> copy_literals ctrl xs ip op out;
             Some (Inr (ip + ctrl, op + ctrl, out)) })
     else
       (let len = drop_bit 5 ctrl;
            ref = int op - int (push_bit 8 (ctrl AND 0x1f)) - 1
        in if ip \<ge> length xs then Some (Inl EINVAL)
           else if len = 7 then do {
             b \<leftarrow> peek xs ip;
             if ip + 1 \<ge> length xs then Some (Inl EINVAL)
             else back_ref xs (len + unat b) ref (ip + 1) op out }
           else back_ref xs len ref ip op out) })"

lemma back_ref_ip: "back_ref xs len ref ip op out = Some (Inr (ip', rest)) \<Longrightarrow> ip < ip'"
  by (auto simp: back_ref_def Let_def bind_eq_Some_conv split: if_splits)

lemma decompress_step_ip: "decompress_step xs (ip, s) = Some (Inr (ip', s')) \<Longrightarrow> ip < ip'"
  by (cases s; cases s')
    (auto simp: decompress_step_def Let_def bind_eq_Some_conv split: if_splits dest!: back_ref_ip)

function decompress_loop :: "u8 list \<Rightarrow> lzf_dec \<Rightarrow> (lzf_error + nat \<times> u8 list) option" where
  "decompress_loop xs s =
     (case decompress_step xs s of
        None \<Rightarrow> None
      | Some (Inl e) \<Rightarrow> Some (Inl e)
      | Some (Inr (ip, op, out)) \<Rightarrow>
          if ip < length xs then decompress_loop xs (ip, op, out) else Some (Inr (op, out)))"
  by pat_completeness auto
termination
  by (relation "measure (\<lambda>(xs, s). length xs - fst s)") (auto dest!: decompress_step_ip)

declare decompress_loop.simps [simp del]

definition lzfDecompress :: "u8 list \<Rightarrow> u8 list \<Rightarrow> (lzf_error + nat \<times> u8 list) option" where
  "lzfDecompress xs out = decompress_loop xs (0, 0, out)"

section \<open>Compression\<close>

text \<open>The shared prefix of the references of a hash: \<open>FRST\<close>, \<open>NEXT\<close> and \<open>IDX\<close>.\<close>

definition FRST :: "u8 list \<Rightarrow> nat \<Rightarrow> 32 word option" where
  "FRST xs p = do {
     x \<leftarrow> peek xs p;
     y \<leftarrow> peek xs (p + 1);
     Some (push_bit 8 (ucast x) OR ucast y) }"

definition NEXT :: "32 word \<Rightarrow> u8 list \<Rightarrow> nat \<Rightarrow> 32 word option" where
  "NEXT v xs p = do {
     x \<leftarrow> peek xs (p + 2);
     Some (push_bit 8 v OR ucast x) }"

definition IDX :: "32 word \<Rightarrow> nat" where
  "IDX h = unat ((drop_bit (3 * 8 - 16) h - h * 5) AND 0xffff)"

record lzf_comp =
  in_at :: nat
  out_at :: nat
  pending_lits :: nat
  hval :: "32 word"
  htab :: "nat \<Rightarrow> 32 word"
  out_data :: "u8 list"

text \<open>How a step of the loop leaves its body: \<open>return 0\<close>, the next iteration or \<open>break\<close>.\<close>

datatype lzf_control = Return_0 "u8 list" | Continue lzf_comp | Break lzf_comp

text \<open>\<open>op[-lit - 1] = lit - 1\<close>, and \<open>op -= !lit\<close>.\<close>

definition stop_run :: "lzf_comp \<Rightarrow> lzf_comp option" where
  "stop_run s = do {
     ensure (pending_lits s + 1 \<le> out_at s);
     out \<leftarrow> poke (out_at s - pending_lits s - 1) (word_of_int (int (pending_lits s) - 1)) (out_data s);
     Some (s\<lparr>out_data := out\<rparr>) }"

definition undo_empty :: "lzf_comp \<Rightarrow> lzf_comp" where
  "undo_empty s = s\<lparr>out_at := (if pending_lits s = 0 then out_at s - 1 else out_at s)\<rparr>"

definition put_byte :: "u8 \<Rightarrow> lzf_comp \<Rightarrow> lzf_comp option" where
  "put_byte b s = do {
     out \<leftarrow> poke (out_at s) b (out_data s);
     Some (s\<lparr>out_data := out, out_at := out_at s + 1\<rparr>) }"

text \<open>The length of a match: up to 16 unrolled comparisons, then a loop.\<close>

fun unrolled :: "nat \<Rightarrow> u8 list \<Rightarrow> nat \<Rightarrow> nat \<Rightarrow> nat \<Rightarrow> (bool \<times> nat) option" where
  "unrolled 0 xs ref ip len = Some (False, len)"
| "unrolled (Suc k) xs ref ip len = do {
     let len = len + 1;
     x \<leftarrow> peek xs (ref + len);
     y \<leftarrow> peek xs (ip + len);
     if x \<noteq> y then Some (True, len) else unrolled k xs ref ip len }"

function match_loop :: "u8 list \<Rightarrow> nat \<Rightarrow> nat \<Rightarrow> nat \<Rightarrow> nat \<Rightarrow> nat option" where
  "match_loop xs ref ip maxlen len =
     (if len + 1 < maxlen then do {
        x \<leftarrow> peek xs (ref + (len + 1));
        y \<leftarrow> peek xs (ip + (len + 1));
        if x = y then match_loop xs ref ip maxlen (len + 1) else Some (len + 1) }
      else Some (len + 1))"
  by pat_completeness auto
termination
  by (relation "measure (\<lambda>(xs, ref, ip, maxlen, len). maxlen - len)") auto

declare match_loop.simps [simp del]

definition match_length :: "u8 list \<Rightarrow> nat \<Rightarrow> nat \<Rightarrow> nat \<Rightarrow> nat option" where
  "match_length xs ref ip maxlen =
     (if maxlen > 16 then do {
        (found, len) \<leftarrow> unrolled 16 xs ref ip 2;
        if found then Some len else match_loop xs ref ip maxlen len }
      else match_loop xs ref ip maxlen 2)"

text \<open>The condition of a match at \<open>ref\<close>, with the reads that its operands make in their order.\<close>

definition is_match :: "u8 list \<Rightarrow> nat \<Rightarrow> nat \<Rightarrow> 64 word \<Rightarrow> bool option" where
  "is_match xs ref ip off =
     (if off < 8192 \<and> ref > 0 then do {
        x2 \<leftarrow> peek xs (ref + 2);
        y2 \<leftarrow> peek xs (ip + 2);
        if x2 = y2 then do {
          x0 \<leftarrow> peek xs ref;
          x1 \<leftarrow> peek xs (ref + 1);
          y0 \<leftarrow> peek xs ip;
          y1 \<leftarrow> peek xs (ip + 1);
          Some (x0 = y0 \<and> x1 = y1) }
        else Some False }
      else Some False)"

text \<open>The bytes of a reference.\<close>

definition put_ref :: "64 word \<Rightarrow> nat \<Rightarrow> lzf_comp \<Rightarrow> lzf_comp option" where
  "put_ref off len s = do {
     s \<leftarrow> (if len < 7 then put_byte (ucast (drop_bit 8 off + push_bit 5 (of_nat len))) s
          else do {
            s \<leftarrow> put_byte (ucast (drop_bit 8 off + push_bit 5 7)) s;
            put_byte (of_nat (len - 7)) s });
     put_byte (ucast off) s }"

text \<open>One more entry of the table, as the end of a match makes two.\<close>

definition enter_hash :: "u8 list \<Rightarrow> lzf_comp \<Rightarrow> lzf_comp option" where
  "enter_hash xs s = do {
     v \<leftarrow> NEXT (hval s) xs (in_at s);
     Some (s\<lparr>hval := v, htab := (htab s)(IDX v := of_nat (in_at s)), in_at := in_at s + 1\<rparr>) }"

definition write_match :: "u8 list \<Rightarrow> nat \<Rightarrow> 64 word \<Rightarrow> nat \<Rightarrow> lzf_comp \<Rightarrow> lzf_comp option" where
  "write_match xs ref off maxlen s = do {
     s \<leftarrow> stop_run s;
     let s = undo_empty s;
     len \<leftarrow> match_length xs ref (in_at s) maxlen;
     let len = len - 2;
     let s = s\<lparr>in_at := in_at s + 1\<rparr>;
     s \<leftarrow> put_ref off len s;
     Some (s\<lparr>pending_lits := 0, out_at := out_at s + 1, in_at := in_at s + (len + 1)\<rparr>) }"

definition after_match :: "u8 list \<Rightarrow> lzf_comp \<Rightarrow> lzf_control option" where
  "after_match xs s =
     (if in_at s + 2 \<ge> length xs then Some (Break s)
      else do {
        let s = s\<lparr>in_at := in_at s - 2\<rparr>;
        v \<leftarrow> FRST xs (in_at s);
        s \<leftarrow> enter_hash xs (s\<lparr>hval := v\<rparr>);
        s \<leftarrow> enter_hash xs s;
        Some (Continue s) })"

definition take_match :: "u8 list \<Rightarrow> nat \<Rightarrow> 64 word \<Rightarrow> lzf_comp \<Rightarrow> lzf_control option" where
  "take_match xs ref off s =
     (let maxlen = length xs - in_at s - 2;
          maxlen = (if maxlen > 264 then 264 else maxlen)
      in if out_at s + 3 + 1 \<ge> length (out_data s)
            \<and> out_at s - (if pending_lits s = 0 then 1 else 0) + 3 + 1 \<ge> length (out_data s)
         then Some (Return_0 (out_data s))
         else do {
           s \<leftarrow> write_match xs ref off maxlen s;
           after_match xs s })"

text \<open>One more literal, and the end of a run that is full.\<close>

definition put_literal :: "u8 list \<Rightarrow> lzf_comp \<Rightarrow> lzf_comp option" where
  "put_literal xs s = do {
     x \<leftarrow> peek xs (in_at s);
     s \<leftarrow> put_byte x (s\<lparr>pending_lits := pending_lits s + 1\<rparr>);
     let s = s\<lparr>in_at := in_at s + 1\<rparr>;
     if pending_lits s = 32 then do {
       s \<leftarrow> stop_run s;
       Some (s\<lparr>pending_lits := 0, out_at := out_at s + 1\<rparr>) }
     else Some s }"

definition compress_step :: "u8 list \<Rightarrow> lzf_comp \<Rightarrow> lzf_control option" where
  "compress_step xs s = do {
     v \<leftarrow> NEXT (hval s) xs (in_at s);
     let ref = unat (htab s (IDX v));
     let off = of_nat (in_at s) - of_nat ref - 1;
     let s = s\<lparr>hval := v, htab := (htab s)(IDX v := of_nat (in_at s))\<rparr>;
     matches \<leftarrow> is_match xs ref (in_at s) off;
     if matches then take_match xs ref off s
     else if out_at s \<ge> length (out_data s) then Some (Return_0 (out_data s))
     else map_option Continue (put_literal xs s) }"

text \<open>The loops of \<open>lzfCompress\<close>.\<close>

lemma stop_run_eq_Some:
  "stop_run s = Some t \<longleftrightarrow> pending_lits s + 1 \<le> out_at s \<and> out_at s - pending_lits s - 1 < length (out_data s)
     \<and> t = s\<lparr>out_data := (out_data s)[out_at s - pending_lits s - 1 := word_of_int (int (pending_lits s) - 1)]\<rparr>"
  by (auto simp: stop_run_def bind_eq_Some_conv poke_eq_Some ensure_def)

lemma put_byte_eq_Some:
  "put_byte b s = Some t \<longleftrightarrow> out_at s < length (out_data s)
     \<and> t = s\<lparr>out_data := (out_data s)[out_at s := b], out_at := out_at s + 1\<rparr>"
  by (auto simp: put_byte_def bind_eq_Some_conv poke_eq_Some)

lemma put_literal_in_at: "put_literal xs s = Some t \<Longrightarrow> in_at t = in_at s + 1"
  by (auto simp: put_literal_def bind_eq_Some_conv Let_def put_byte_eq_Some stop_run_eq_Some
      split: if_splits)

lemma match_loop_less: "match_loop xs ref ip maxlen len = Some n \<Longrightarrow> len < n"
proof (induction xs ref ip maxlen len rule: match_loop.induct)
  case (1 xs ref ip maxlen len)
  show ?case
    using "1.prems" "1.IH"
    by (subst (asm) match_loop.simps) (auto simp: bind_eq_Some_conv split: if_splits)
qed

lemma unrolled_less:
  "unrolled k xs ref ip len = Some (found, n) \<Longrightarrow> len \<le> n \<and> (found \<longrightarrow> len < n)"
  by (induction k arbitrary: len) (fastforce simp: Let_def bind_eq_Some_conv split: if_splits)+

lemma match_length_at_least: "match_length xs ref ip maxlen = Some n \<Longrightarrow> 3 \<le> n"
  by (auto simp: match_length_def bind_eq_Some_conv split: if_splits
      dest!: match_loop_less unrolled_less)

lemma enter_hash_in_at: "enter_hash xs s = Some t \<Longrightarrow> in_at t = in_at s + 1"
  by (auto simp: enter_hash_def bind_eq_Some_conv)

lemma put_ref_in_at: "put_ref off len s = Some t \<Longrightarrow> in_at t = in_at s"
  by (auto simp: put_ref_def bind_eq_Some_conv put_byte_eq_Some split: if_splits)

lemma take_match_in_at: "take_match xs ref off s = Some (Continue t) \<Longrightarrow> in_at s < in_at t"
  by (auto simp: take_match_def write_match_def after_match_def Let_def bind_eq_Some_conv stop_run_eq_Some undo_empty_def
      split: if_splits dest!: match_length_at_least enter_hash_in_at put_ref_in_at)

lemma compress_step_in_at: "compress_step xs s = Some (Continue t) \<Longrightarrow> in_at s < in_at t"
  by (auto simp: compress_step_def Let_def bind_eq_Some_conv
      split: if_splits dest!: take_match_in_at put_literal_in_at)

function compress_loop :: "u8 list \<Rightarrow> lzf_comp \<Rightarrow> lzf_control option" where
  "compress_loop xs s =
     (if in_at s + 2 < length xs then
        (case compress_step xs s of
           Some (Continue s) \<Rightarrow> compress_loop xs s
         | r \<Rightarrow> r)
      else Some (Break s))"
  by pat_completeness auto
termination
  by (relation "measure (\<lambda>(xs, s). length xs - in_at s)") (auto dest!: compress_step_in_at)

declare compress_loop.simps [simp del]

function compress_tail :: "u8 list \<Rightarrow> lzf_comp \<Rightarrow> lzf_comp option" where
  "compress_tail xs s =
     (if in_at s < length xs then
        (case put_literal xs s of None \<Rightarrow> None | Some s \<Rightarrow> compress_tail xs s)
      else Some s)"
  by pat_completeness auto
termination
  by (relation "measure (\<lambda>(xs, s). length xs - in_at s)") (auto dest!: put_literal_in_at)

declare compress_tail.simps [simp del]

definition lzfCompress :: "(nat \<Rightarrow> 32 word) \<Rightarrow> u8 list \<Rightarrow> u8 list \<Rightarrow> (nat \<times> u8 list) option" where
  "lzfCompress garbage xs out =
     (if length xs = 0 \<or> length out = 0 then Some (0, out)
      else do {
        v \<leftarrow> FRST xs 0;
        r \<leftarrow> compress_loop xs \<lparr>in_at = 0, out_at = 1, pending_lits = 0, hval = v, htab = garbage,
                              out_data = out\<rparr>;
        case r of
          Return_0 out \<Rightarrow> Some (0, out)
        | Continue s \<Rightarrow> None
        | Break s \<Rightarrow>
            if out_at s + 3 > length (out_data s) then Some (0, out_data s)
            else do {
              s \<leftarrow> compress_tail xs s;
              s \<leftarrow> stop_run s;
              let s = undo_empty s;
              Some (out_at s, out_data s) } })"

section \<open>What a compressed text means\<close>

text \<open>
  The format the file describes, as a relation between compressed and plain bytes: runs of 1 to 32
  literals, and references that repeat 3 to 264 octets starting \<open>off + 1\<close> octets back.
\<close>

definition repeats :: "nat \<Rightarrow> u8 list \<Rightarrow> u8 list \<Rightarrow> bool" where
  "repeats off xs ys \<longleftrightarrow> off < length xs
     \<and> (\<forall>i<length ys. (xs @ ys) ! (length xs - off - 1 + i) = ys ! i)"

definition ref_token :: "nat \<Rightarrow> nat \<Rightarrow> u8 list" where
  "ref_token off len =
     (if len < 7 then [of_nat (off div 256 + 32 * len)] else [of_nat (off div 256 + 224), of_nat (len - 7)])
     @ [of_nat (off mod 256)]"

inductive lzf_stream :: "u8 list \<Rightarrow> u8 list \<Rightarrow> bool" where
  Start: "lzf_stream [] []"
| Literals: "\<lbrakk>lzf_stream cs xs; 0 < length ls; length ls \<le> 32\<rbrakk>
     \<Longrightarrow> lzf_stream (cs @ of_nat (length ls - 1) # ls) (xs @ ls)"
| Reference: "\<lbrakk>lzf_stream cs xs; off < 8192; repeats off xs ys; 3 \<le> length ys; length ys \<le> 264\<rbrakk>
     \<Longrightarrow> lzf_stream (cs @ ref_token off (length ys - 2)) (xs @ ys)"

section \<open>The decompressor reads the format\<close>

lemma copy_literals_run:
  "length ls \<le> length zs
   \<Longrightarrow> copy_literals (length ls) (cs @ ls @ rest) (length cs) (length xs) (xs @ zs)
       = Some (xs @ ls @ drop (length ls) zs)"
proof (induction ls arbitrary: cs xs zs)
  case (Cons l ls)
  then obtain z zs' where zs: "zs = z # zs'" "length ls \<le> length zs'" by (cases zs) auto
  from Cons.IH [OF zs(2), of "cs @ [l]" "xs @ [l]"] show ?case by (simp add: zs)
qed simp

lemma copy_octets_run:
  "\<lbrakk>length ys \<le> length zs; \<forall>i<length ys. (xs @ ys) ! (ref + i) = ys ! i; ref < length xs\<rbrakk>
   \<Longrightarrow> copy_octets (length ys) ref (length xs) (xs @ zs) = Some (xs @ ys @ drop (length ys) zs)"
proof (induction ys arbitrary: ref xs zs)
  case (Cons y ys)
  then obtain z zs' where zs: "zs = z # zs'" "length ys \<le> length zs'" by (cases zs) auto
  have first: "xs ! ref = y" using Cons.prems(2,3) by (auto simp: nth_append dest: spec [of _ 0])
  have "\<forall>i<length ys. ((xs @ [y]) @ ys) ! (ref + 1 + i) = ys ! i"
  proof (intro allI impI)
    fix i assume "i < length ys"
    with Cons.prems(2) show "((xs @ [y]) @ ys) ! (ref + 1 + i) = ys ! i"
      by (auto dest!: spec [of _ "Suc i"])
  qed
  from Cons.IH [OF zs(2) this] Cons.prems(3) show ?case
    by (simp add: zs first nth_append)
qed simp

lemma copy_ref_run:
  assumes "length ys \<le> length zs" "\<forall>i<length ys. (xs @ ys) ! (ref + i) = ys ! i" "ref < length xs"
    and "length ys = len + 2"
  shows "copy_ref len ref (length xs) (xs @ zs) = Some (xs @ ys @ drop (length ys) zs)"
proof (cases "9 < len \<and> ref + length ys \<le> length xs")
  case True
  have "take (length ys) (drop ref xs) = ys"
  proof (rule nth_equalityI)
    fix i assume "i < length (take (length ys) (drop ref xs))"
    then show "take (length ys) (drop ref xs) ! i = ys ! i"
      using assms(2) True by (auto simp: nth_append dest!: spec [of _ i])
  qed (use True in auto)
  with True assms(1,4) show ?thesis by (simp add: copy_ref_def)
next
  case False
  with copy_octets_run [OF assms(1-3)] assms(4) show ?thesis by (auto simp: copy_ref_def)
qed

lemma low_bits: "(n::nat) AND 31 = n mod 32" "drop_bit 5 (n::nat) = n div 32" "push_bit 8 (n::nat) = 256 * n"
proof -
  have "n AND 31 = take_bit 5 n" by (simp add: take_bit_eq_mask mask_eq_exp_minus_1)
  then show "n AND 31 = n mod 32" by (simp add: take_bit_eq_mod)
qed (simp_all add: drop_bit_eq_div push_bit_eq_mult)

lemma unat_u8: "n < 256 \<Longrightarrow> unat (of_nat n :: u8) = n"
  by (simp add: unat_of_nat)

lemma step_literals:
  assumes "0 < length ls" "length ls \<le> 32" "length ls \<le> length zs"
  shows "decompress_step (cs @ (of_nat (length ls - 1) # ls) @ rest) (length cs, length xs, xs @ zs)
    = Some (Inr (length (cs @ of_nat (length ls - 1) # ls), length (xs @ ls), (xs @ ls) @ drop (length ls) zs))"
proof -
  define c :: u8 where "c = of_nat (length ls - 1)"
  have c: "Suc (unat c) = length ls" using assms by (simp add: c_def unat_of_nat)
  then have small: "unat c < 32" using assms by simp
  from copy_literals_run [OF assms(3), of "cs @ [c]" rest xs] c small assms show ?thesis
    unfolding c_def [symmetric]
    by (simp add: decompress_step_def nth_append Let_def del: copy_literals.simps)
qed

lemma back_ref_run:
  assumes rep: "repeats off xs ys" and len: "length ys = n + 2" and room: "length ys \<le> length zs"
  shows "back_ref (cs @ of_nat (off mod 256) # rest) n (int (length xs) - int (push_bit 8 (off div 256)) - 1)
      (length cs) (length xs) (xs @ zs)
    = Some (Inr (length cs + 1, length xs + length ys, xs @ ys @ drop (length ys) zs))"
proof -
  define b :: u8 where "b = of_nat (off mod 256)"
  have b: "uint b = int (off mod 256)"
    unfolding b_def uint_nat by (subst unat_u8) simp_all
  have "int (push_bit 8 (off div 256)) + int (off mod 256) = int off"
    unfolding low_bits(3) by (metis mult_div_mod_eq of_nat_add)
  then have dist: "int (length xs) - int (push_bit 8 (off div 256)) - 1 - uint b = int (length xs - off - 1)"
    using rep unfolding b by (simp add: repeats_def)
  then have "\<not> int (length xs) - int (push_bit 8 (off div 256)) - 1 < uint b" by linarith
  moreover have "copy_ref n (length xs - off - 1) (length xs) (xs @ zs) = Some (xs @ ys @ drop (length ys) zs)"
    using rep len by (intro copy_ref_run [OF room]) (auto simp: repeats_def)
  ultimately show ?thesis
    using len room unfolding b_def [symmetric] back_ref_def Let_def
    by (simp add: dist nth_append del: push_bit_of_nat)
qed

lemma token_fields: "k < 32 \<Longrightarrow> (k + 32 * n :: nat) AND 31 = k \<and> drop_bit 5 (k + 32 * n) = n"
  by (simp add: low_bits)

lemma step_reference:
  assumes off: "off < 8192" and rep: "repeats off xs ys" and len: "3 \<le> length ys" "length ys \<le> 264"
    and room: "length ys \<le> length zs"
  shows "decompress_step (cs @ ref_token off (length ys - 2) @ rest) (length cs, length xs, xs @ zs)
    = Some (Inr (length (cs @ ref_token off (length ys - 2)), length (xs @ ys), (xs @ ys) @ drop (length ys) zs))"
proof -
  define n where "n = length ys - 2"
  have n: "1 \<le> n" "n \<le> 262" "length ys = n + 2" using len by (simp_all add: n_def)
  define k where "k = off div 256"
  have k: "k < 32" using off by (simp add: k_def)
  show ?thesis
  proof (cases "n < 7")
    case True
    define c :: u8 where "c = of_nat (k + 32 * n)"
    have c: "unat c = k + 32 * n"
      unfolding c_def by (rule unat_u8) (use k True in auto)
    have tok: "ref_token off n = [c, of_nat (off mod 256)]"
      using True by (simp add: ref_token_def c_def k_def)
    from back_ref_run [OF rep n(3) room, of "cs @ [c]" rest] True token_fields [OF k] n show ?thesis
      by (simp add: tok decompress_step_def nth_append c flip: k_def)
  next
    case False
    define c :: u8 where "c = of_nat (k + 32 * 7)"
    define l :: u8 where "l = of_nat (n - 7)"
    have c: "unat c = k + 32 * 7"
      unfolding c_def by (rule unat_u8) (use k in auto)
    have l: "unat l = n - 7"
      unfolding l_def by (rule unat_u8) (use False n in auto)
    have tok: "ref_token off n = [c, l, of_nat (off mod 256)]"
      using False by (simp add: ref_token_def c_def l_def k_def)
    from back_ref_run [OF rep n(3) room, of "cs @ [c, l]" rest] False token_fields [OF k, of 7] n show ?thesis
      by (simp add: tok decompress_step_def nth_append c l flip: k_def)
  qed
qed

text \<open>One iteration of the decompressor, as a step between its states.\<close>

definition decompress_moves :: "u8 list \<Rightarrow> lzf_dec \<Rightarrow> lzf_dec \<Rightarrow> bool" where
  "decompress_moves xs s t \<longleftrightarrow> decompress_step xs s = Some (Inr t)"

lemma stream_moves:
  assumes "lzf_stream cs xs" "length xs \<le> length out"
  shows "(decompress_moves (cs @ rest))\<^sup>*\<^sup>* (0, 0, out) (length cs, length xs, xs @ drop (length xs) out)"
  using assms
proof (induction arbitrary: rest rule: lzf_stream.induct)
  case (Literals cs xs ls)
  from step_literals [OF Literals(2,3), of "drop (length xs) out" cs rest xs] Literals.prems
  have "decompress_moves ((cs @ of_nat (length ls - 1) # ls) @ rest) (length cs, length xs, xs @ drop (length xs) out)
      (length (cs @ of_nat (length ls - 1) # ls), length (xs @ ls), (xs @ ls) @ drop (length (xs @ ls)) out)"
    by (simp add: decompress_moves_def add.commute)
  moreover from Literals.IH Literals.prems
  have "(decompress_moves ((cs @ of_nat (length ls - 1) # ls) @ rest))\<^sup>*\<^sup>* (0, 0, out)
      (length cs, length xs, xs @ drop (length xs) out)" by simp
  ultimately show ?case by (rule rtranclp.rtrancl_into_rtrancl [rotated])
next
  case (Reference cs xs off ys)
  from step_reference [OF Reference(2-5), of "drop (length xs) out" cs rest] Reference.prems
  have "decompress_moves ((cs @ ref_token off (length ys - 2)) @ rest) (length cs, length xs, xs @ drop (length xs) out)
      (length (cs @ ref_token off (length ys - 2)), length (xs @ ys), (xs @ ys) @ drop (length (xs @ ys)) out)"
    by (simp add: decompress_moves_def add.commute)
  moreover from Reference.IH Reference.prems
  have "(decompress_moves ((cs @ ref_token off (length ys - 2)) @ rest))\<^sup>*\<^sup>* (0, 0, out)
      (length cs, length xs, xs @ drop (length xs) out)" by simp
  ultimately show ?case by (rule rtranclp.rtrancl_into_rtrancl [rotated])
qed simp

lemma decompress_moves_ip: "decompress_moves xs s t \<Longrightarrow> fst s < fst t"
  by (cases s; cases t) (auto simp: decompress_moves_def dest: decompress_step_ip)

lemma decompress_moves_star_ip: "(decompress_moves xs)\<^sup>*\<^sup>* s t \<Longrightarrow> s = t \<or> fst s < fst t"
  by (induction rule: rtranclp_induct) (auto dest: decompress_moves_ip)

lemma moves_to_end:
  "\<lbrakk>(decompress_moves xs)\<^sup>*\<^sup>* s t; fst t = length xs; fst s < length xs\<rbrakk>
   \<Longrightarrow> decompress_loop xs s = Some (Inr (snd t))"
proof (induction rule: converse_rtranclp_induct)
  case (step s u)
  then have "u = t \<or> fst u < length xs" using decompress_moves_star_ip by fastforce
  with step show ?case
    by (subst decompress_loop.simps) (auto simp: decompress_moves_def split: prod.split)
qed simp

theorem decompress_stream:
  assumes "lzf_stream cs xs" "cs \<noteq> []" "length xs \<le> length out"
  shows "lzfDecompress cs out = Some (Inr (length xs, xs @ drop (length xs) out))"
  using moves_to_end [OF stream_moves [OF assms(1,3), of "[]", simplified]] assms(2)
  by (simp add: lzfDecompress_def)

section \<open>The compressor writes the format\<close>

lemma match_offset:
  assumes "i < 2 ^ 64" "r < 2 ^ 32" "(of_nat i - of_nat r - 1 :: 64 word) < 8192"
  shows "r < i \<and> (of_nat i - of_nat r - 1 :: 64 word) = of_nat (i - r - 1) \<and> i - r - 1 < 8192"
proof (cases "r < i")
  case True
  then have eq: "(of_nat i - of_nat r - 1 :: 64 word) = of_nat (i - r - 1)" by (simp add: of_nat_diff)
  have "unat (of_nat (i - r - 1) :: 64 word) = i - r - 1"
    using assms(1) by (simp add: unat_of_nat)
  with assms(3) True eq show ?thesis by (simp add: word_less_nat_alt)
next
  case False
  define k where "k = r + 1 - i"
  have k: "0 < k" "k \<le> 2 ^ 32" using False assms(2) by (simp_all add: k_def)
  have "(of_nat i - of_nat r - 1 :: 64 word) = - of_nat k"
    using False by (simp add: of_nat_diff k_def)
  also have "\<dots> = of_nat (2 ^ 64) - of_nat k" by simp
  also have "\<dots> = of_nat (2 ^ 64 - k)" using k by (intro of_nat_diff [symmetric]) simp
  finally have "unat (of_nat i - of_nat r - 1 :: 64 word) = 2 ^ 64 - k"
    using k by (simp only: unat_of_nat) simp
  with assms(3) k show ?thesis by (simp add: word_less_nat_alt)
qed

text \<open>The octets at two positions agree for a length.\<close>

definition agree :: "u8 list \<Rightarrow> nat \<Rightarrow> nat \<Rightarrow> nat \<Rightarrow> bool" where
  "agree xs r i n \<longleftrightarrow> (\<forall>j<n. xs ! (r + j) = xs ! (i + j))"

lemma agree_Suc: "agree xs r i (Suc n) \<longleftrightarrow> agree xs r i n \<and> xs ! (r + n) = xs ! (i + n)"
  by (auto simp: agree_def less_Suc_eq)

lemma unrolled_run:
  "\<lbrakk>r < i; i + len + k < length xs; agree xs r i (Suc len)\<rbrakk>
   \<Longrightarrow> \<exists>found n. unrolled k xs r i len = Some (found, n) \<and> n \<le> len + k \<and> agree xs r i n
         \<and> (\<not> found \<longrightarrow> n = len + k \<and> agree xs r i (Suc n))"
proof (induction k arbitrary: len)
  case (Suc k)
  show ?case
  proof (cases "xs ! (r + Suc len) = xs ! (i + Suc len)")
    case True
    with Suc.prems have "agree xs r i (Suc (Suc len))" by (simp add: agree_Suc)
    from Suc.IH [OF Suc.prems(1) _ this] Suc.prems True show ?thesis by (simp add: Let_def)
  next
    case False
    with Suc.prems show ?thesis by (intro exI [of _ True]) (simp add: Let_def)
  qed
qed (auto simp: agree_Suc)

lemma match_loop_run:
  "\<lbrakk>r < i; i + maxlen \<le> length xs; agree xs r i (Suc len)\<rbrakk>
   \<Longrightarrow> \<exists>n. match_loop xs r i maxlen len = Some n \<and> len < n \<and> n \<le> max maxlen (len + 1) \<and> agree xs r i n"
proof (induction xs r i maxlen len rule: match_loop.induct)
  case (1 xs r i maxlen len)
  show ?case
  proof (cases "len + 1 < maxlen \<and> xs ! (r + (len + 1)) = xs ! (i + (len + 1))")
    case True
    with "1.prems" have "agree xs r i (Suc (len + 1))" by (simp add: agree_Suc)
    from "1.IH" [OF _ _ _ _ "1.prems"(1,2) this] True "1.prems"
    obtain n where "match_loop xs r i maxlen (len + 1) = Some n" "len + 1 < n"
      "n \<le> max maxlen (len + 1 + 1)" "agree xs r i n" by auto
    with True "1.prems" show ?thesis by (subst match_loop.simps) auto
  next
    case False
    with "1.prems" show ?thesis by (subst match_loop.simps) auto
  qed
qed

lemma match_length_run:
  assumes "r < i" "i + 2 < length xs" "agree xs r i 3" and m: "m = min 264 (length xs - i - 2)"
  shows "\<exists>n. match_length xs r i m = Some n \<and> 3 \<le> n \<and> n \<le> 264 \<and> i + n \<le> length xs \<and> agree xs r i n"
proof -
  have bound: "i + m + 2 \<le> length xs" "m \<le> 264" using m assms(2) by simp_all
  have ag: "agree xs r i (Suc 2)" using assms(3) by (simp add: numeral_3_eq_3 numeral_2_eq_2)
  show ?thesis
  proof (cases "16 < m")
    case True
    from unrolled_run [OF assms(1) _ ag, of 16] bound True
    obtain found n where u: "unrolled 16 xs r i 2 = Some (found, n)" "n \<le> 18" "agree xs r i n"
      "\<not> found \<longrightarrow> n = 18 \<and> agree xs r i (Suc n)" by auto
    show ?thesis
    proof (cases found)
      case True
      with u(1) have "match_length xs r i m = Some n" using \<open>16 < m\<close> by (simp add: match_length_def)
      with match_length_at_least [OF this] u bound \<open>16 < m\<close> show ?thesis by auto
    next
      case False
      with u(4) have n: "n = 18" and agreed: "agree xs r i (Suc n)" by blast+
      from agreed have "agree xs r i (Suc 18)" unfolding n .
      from match_loop_run [OF assms(1) _ this(1), of m] bound
      obtain k where "match_loop xs r i m 18 = Some k" "k \<le> max m 19" "agree xs r i k" by auto
      moreover from this u(1) n False True have "match_length xs r i m = Some k" by (simp add: match_length_def)
      ultimately show ?thesis using match_length_at_least [of xs r i m k] bound True by auto
    qed
  next
    case False
    from match_loop_run [OF assms(1) _ ag, of m] bound
    obtain k where "match_loop xs r i m 2 = Some k" "k \<le> max m 3" "agree xs r i k" by auto
    moreover from this False have "match_length xs r i m = Some k" by (simp add: match_length_def)
    ultimately show ?thesis using match_length_at_least [of xs r i m k] bound False assms(2) by auto
  qed
qed

lemma agree_repeats:
  assumes "r < length xs" "agree (xs @ ys @ zs) r (length xs) (length ys)"
  shows "repeats (length xs - r - 1) xs ys"
proof -
  have "(xs @ ys) ! (r + j) = ys ! j" if "j < length ys" for j
  proof -
    from assms(1) that have "(xs @ ys @ zs) ! (r + j) = (xs @ ys) ! (r + j)" by (simp add: nth_append) auto
    moreover from that have "(xs @ ys @ zs) ! (length xs + j) = ys ! j" by (simp add: nth_append)
    ultimately show ?thesis using assms(2) that by (simp add: agree_def)
  qed
  then show ?thesis using assms(1) by (simp add: repeats_def)
qed

text \<open>
  The state between two iterations: the bytes written so far are a compressed text of the first
  octets, then a byte for the length of the open run (missing only at the very end of the buffer),
  then its literals. The text is at most a 32nd longer than what it stands for.
\<close>

definition open_run :: "u8 list \<Rightarrow> nat \<Rightarrow> lzf_comp \<Rightarrow> u8 list \<Rightarrow> u8 list \<Rightarrow> u8 list \<Rightarrow> u8 list \<Rightarrow> u8 list \<Rightarrow> bool" where
  "open_run xs n s cs plain hs lits rest \<longleftrightarrow>
     lzf_stream cs plain \<and> 32 * length cs \<le> 33 * length plain \<and> length lits < 32
     \<and> out_data s = cs @ hs @ lits @ rest \<and> length (out_data s) = n
     \<and> length hs \<le> 1 \<and> (hs = [] \<longrightarrow> lits = [] \<and> rest = [])
     \<and> pending_lits s = length lits \<and> in_at s = length plain + length lits
     \<and> (\<exists>later. xs = plain @ lits @ later) \<and> out_at s = length cs + 1 + length lits"

definition comp_inv :: "u8 list \<Rightarrow> nat \<Rightarrow> lzf_comp \<Rightarrow> bool" where
  "comp_inv xs n s \<longleftrightarrow> (\<exists>cs plain hs lits rest. open_run xs n s cs plain hs lits rest)"

lemma open_run_inv: "open_run xs n s cs plain hs lits rest \<Longrightarrow> comp_inv xs n s"
  unfolding comp_inv_def by blast

lemma comp_inv_hash [simp]:
  "comp_inv xs n (s\<lparr>hval := v\<rparr>) = comp_inv xs n s" "comp_inv xs n (s\<lparr>htab := t\<rparr>) = comp_inv xs n s"
  by (simp_all add: comp_inv_def open_run_def)

lemma fresh_run:
  assumes "lzf_stream cs plain" "32 * length cs \<le> 33 * length plain"
    and "out_data s = cs @ rest" "length (out_data s) = n"
    and "pending_lits s = 0" "in_at s = length plain" "xs = plain @ later" "out_at s = length cs + 1"
  shows "comp_inv xs n s"
  unfolding comp_inv_def
proof (intro exI)
  show "open_run xs n s cs plain (take 1 rest) [] (drop 1 rest)"
    using assms by (auto simp: open_run_def)
qed

lemma run_slot:
  assumes "open_run xs n s cs plain hs lits rest" "out_at s \<le> n"
  obtains h where "hs = [h]"
  using assms by (cases hs) (auto simp: open_run_def)

text \<open>The header of the open run.\<close>

lemma header_byte:
  "0 < k \<Longrightarrow> (word_of_int (int k - 1) :: u8) = of_nat (k - 1)"
  by (simp add: of_nat_diff)

lemma stop_run_run:
  assumes "open_run xs n s cs plain [h] lits rest"
  shows "stop_run s = Some (s\<lparr>out_data := cs @ word_of_int (int (length lits) - 1) # lits @ rest\<rparr>)"
  using assms by (auto simp: stop_run_eq_Some open_run_def)

lemma closed_run:
  assumes "lzf_stream cs plain" "32 * length cs \<le> 33 * length plain" "0 < length lits" "length lits \<le> 32"
  shows "lzf_stream (cs @ word_of_int (int (length lits) - 1) # lits) (plain @ lits)"
  using Literals [OF assms(1,3,4)] assms(3) by (simp add: header_byte)

text \<open>A literal keeps the invariant; it fails only without room.\<close>

lemma put_literal_run:
  assumes inv: "comp_inv xs n s" and room: "out_at s < n" and left: "in_at s < length xs"
  shows "\<exists>t. put_literal xs s = Some t \<and> comp_inv xs n t \<and> in_at t = in_at s + 1
    \<and> out_at t = out_at s + (if pending_lits s = 31 then 2 else 1)
    \<and> pending_lits t = (if pending_lits s = 31 then 0 else pending_lits s + 1)"
proof -
  from inv obtain cs plain hs lits rest where s: "open_run xs n s cs plain hs lits rest"
    by (auto simp: comp_inv_def)
  with room obtain h where h: "hs = [h]" by (elim run_slot) auto
  from s h room obtain r rest' where rest: "rest = r # rest'" by (cases rest) (auto simp: open_run_def)
  from s left obtain tail where "xs = plain @ lits @ tail" "tail \<noteq> []"
    by (auto simp: open_run_def)
  then obtain x later where xs: "xs = plain @ lits @ x # later" by (cases tail) auto
  define lits' where "lits' = lits @ [x]"
  have pend: "length lits' = Suc (pending_lits s)" using s by (simp add: lits'_def open_run_def)
  define t where "t = s\<lparr>pending_lits := length lits', out_data := cs @ h # lits' @ rest',
                        out_at := out_at s + 1, in_at := in_at s + 1\<rparr>"
  have put: "put_literal xs s = (if length lits' = 32 then do {
        t \<leftarrow> stop_run t; Some (t\<lparr>pending_lits := 0, out_at := out_at t + 1\<rparr>) } else Some t)"
    using s by (simp add: put_literal_def open_run_def h rest xs put_byte_def Let_def t_def lits'_def
        nth_append list_update_append)
  show ?thesis
  proof (cases "length lits' = 32")
    case False
    have "open_run xs n t cs plain [h] lits' rest'"
      using s False by (auto simp: open_run_def t_def lits'_def h rest xs)
    from open_run_inv [OF this] False put pend show ?thesis by (simp add: t_def)
  next
    case True
    define u where "u = t\<lparr>out_data := (cs @ word_of_int (int (length lits') - 1) # lits') @ rest',
                          pending_lits := 0, out_at := out_at t + 1\<rparr>"
    have "stop_run t = Some (t\<lparr>out_data := cs @ word_of_int (int (length lits') - 1) # lits' @ rest'\<rparr>)"
      using s by (auto simp: stop_run_eq_Some open_run_def t_def lits'_def h)
    with True put have "put_literal xs s = Some u" by (simp add: u_def)
    moreover have "lzf_stream (cs @ word_of_int (int (length lits') - 1) # lits') (plain @ lits')"
      using s True by (intro closed_run) (auto simp: open_run_def)
    then have "comp_inv xs n u"
      using s True
      by (intro fresh_run [where rest = rest' and later = later]) (auto simp: open_run_def u_def t_def lits'_def h rest xs)
    ultimately show ?thesis using True pend by (simp add: u_def t_def)
  qed
qed

lemma unat_u64: "k < 2 ^ 64 \<Longrightarrow> unat (of_nat k :: 64 word) = k"
  by (simp add: unat_of_nat)

lemma ref_bytes:
  "k < 2 ^ 64 \<Longrightarrow> drop_bit 8 (of_nat k :: 64 word) = of_nat (k div 256)"
  "push_bit 5 (of_nat m :: 64 word) = of_nat (32 * m)"
  "ucast (of_nat m :: 64 word) = (of_nat m :: u8)"
proof -
  show "drop_bit 8 (of_nat k :: 64 word) = of_nat (k div 256)" if "k < 2 ^ 64"
    unfolding word_unat_eq_iff unat_drop_bit_eq using that
    by (simp only: unat_u64 drop_bit_eq_div) (simp add: unat_of_nat)
  show "ucast (of_nat m :: 64 word) = (of_nat m :: u8)" by transfer simp
qed (simp add: push_bit_eq_mult)

lemma ref_bytes_long: "push_bit 5 7 = (of_nat 224 :: 64 word)" "(of_nat (k mod 256) :: u8) = of_nat k"
proof -
  show "push_bit 5 7 = (of_nat 224 :: 64 word)" by simp
  show "(of_nat (k mod 256) :: u8) = of_nat k"
    by (simp add: word_unat_eq_iff unat_of_nat take_bit_eq_mod)
qed

lemma put_byte_run:
  "\<lbrakk>out_data s = cs @ r # rest; out_at s = length cs\<rbrakk>
   \<Longrightarrow> put_byte b s = Some (s\<lparr>out_data := (cs @ [b]) @ rest, out_at := length (cs @ [b])\<rparr>)"
  by (simp add: put_byte_eq_Some)

lemma put_ref_run:
  assumes "out_data s = cs @ a # b # c # rest" "out_at s = length cs" "k < 8192" "1 \<le> len" "len \<le> 262"
  shows "\<exists>rest'. put_ref (of_nat k) len s
      = Some (s\<lparr>out_data := (cs @ ref_token k len) @ rest', out_at := length (cs @ ref_token k len)\<rparr>)
    \<and> length (ref_token k len @ rest') = length rest + 3 \<and> length rest \<le> length rest'"
proof -
  have low: "ucast (of_nat k :: 64 word) = (of_nat (k mod 256) :: u8)"
    unfolding ref_bytes(3) ref_bytes_long(2) ..
  show ?thesis
  proof (cases "len < 7")
    case True
    define t :: u8 where "t = of_nat (k div 256 + 32 * len)"
    have wide: "drop_bit 8 (of_nat k :: 64 word) + push_bit 5 (of_nat len) = of_nat (k div 256 + 32 * len)"
      using assms(3) by (simp add: ref_bytes(1,2))
    have "ucast (drop_bit 8 (of_nat k :: 64 word) + push_bit 5 (of_nat len)) = t"
      unfolding wide ref_bytes(3) t_def ..
    then have "put_ref (of_nat k) len s
        = Some (s\<lparr>out_data := (cs @ [t, of_nat (k mod 256)]) @ c # rest, out_at := length (cs @ [t, of_nat (k mod 256)])\<rparr>)"
      using True by (simp add: put_ref_def low put_byte_run [OF assms(1,2)]
          put_byte_run [where cs = "cs @ [t]" and r = b and rest = "c # rest"])
    with True show ?thesis by (intro exI [of _ "c # rest"]) (simp add: ref_token_def t_def)
  next
    case False
    define t :: u8 where "t = of_nat (k div 256 + 224)"
    have wide: "drop_bit 8 (of_nat k :: 64 word) + push_bit 5 7 = of_nat (k div 256 + 224)"
      using assms(3) by (simp add: ref_bytes(1) ref_bytes_long(1))
    have "ucast (drop_bit 8 (of_nat k :: 64 word) + push_bit 5 7) = t"
      unfolding wide ref_bytes(3) t_def ..
    then have "put_ref (of_nat k) len s
        = Some (s\<lparr>out_data := (cs @ [t, of_nat (len - 7), of_nat (k mod 256)]) @ rest,
                  out_at := length (cs @ [t, of_nat (len - 7), of_nat (k mod 256)])\<rparr>)"
      using False by (simp add: put_ref_def low put_byte_run [OF assms(1,2)]
          put_byte_run [where cs = "cs @ [t]" and r = b and rest = "c # rest"]
          put_byte_run [where cs = "cs @ [t, _]" and r = c and rest = rest])
    with False show ?thesis by (intro exI [of _ rest]) (simp add: ref_token_def t_def)
  qed
qed

text \<open>Ending the open run before a match, whether it is empty or not.\<close>

lemma end_run:
  assumes s: "open_run xs n s cs plain hs lits rest"
    and room: "out_at s - (if pending_lits s = 0 then 1 else 0) + 4 < n"
  obtains cs' a b c later u where
    "stop_run s = Some u"
    "undo_empty u = s\<lparr>out_data := cs' @ a # b # c # later, out_at := length cs'\<rparr>"
    "lzf_stream cs' (plain @ lits)" "later \<noteq> []" "length (cs' @ a # b # c # later) = n"
    "if lits = [] then cs' = cs else length cs' = length cs + 1 + length lits"
proof -
  from s room obtain h where h: "hs = [h]" by (elim run_slot) (auto split: if_splits)
  let ?hdr = "word_of_int (int (length lits) - 1) :: u8"
  let ?u = "s\<lparr>out_data := cs @ ?hdr # lits @ rest\<rparr>"
  have stop: "stop_run s = Some ?u" using s unfolding h by (rule stop_run_run)
  have four: "\<exists>a b c later. ys = a # b # c # later \<and> later \<noteq> []" if "4 \<le> length ys" for ys :: "u8 list"
    using that by (cases ys; cases "tl ys"; cases "tl (tl ys)"; cases "tl (tl (tl ys))") auto
  show ?thesis
  proof (cases "lits = []")
    case True
    from s room True h have "4 \<le> length (?hdr # rest)" by (auto simp: open_run_def)
    from four [OF this] obtain a b c later where ys: "?hdr # rest = a # b # c # later" "later \<noteq> []" by blast
    show ?thesis
      by (rule that [OF stop, of cs a b c later])
        (use s True ys h in \<open>auto simp: open_run_def undo_empty_def\<close>)
  next
    case False
    from s room False h have "4 \<le> length rest" by (auto simp: open_run_def)
    from four [OF this] obtain a b c later where ys: "rest = a # b # c # later" "later \<noteq> []" by blast
    have "lzf_stream (cs @ ?hdr # lits) (plain @ lits)"
      using s False by (intro closed_run) (auto simp: open_run_def)
    then show ?thesis
      by (intro that [OF stop, of "cs @ ?hdr # lits" a b c later])
        (use s False ys h in \<open>auto simp: open_run_def undo_empty_def\<close>)
  qed
qed

lemma enter_hash_run:
  "in_at s + 2 < length xs
   \<Longrightarrow> \<exists>v t. enter_hash xs s = Some (s\<lparr>hval := v, htab := t, in_at := in_at s + 1\<rparr>)"
  by (simp add: enter_hash_def NEXT_def) blast

lemma FRST_run: "p + 1 < length xs \<Longrightarrow> \<exists>v. FRST xs p = Some v"
  by (simp add: FRST_def)

text \<open>A match keeps the invariant; it fails only without room.\<close>

lemma ref_token_length: "length (ref_token k len) = (if len < 7 then 2 else 3)"
  by (simp add: ref_token_def)

lemma take_match_run:
  assumes inv: "comp_inv xs n s" and at: "r < in_at s" "in_at s + 2 < length xs"
    and near: "in_at s - r - 1 < 8192" and ag: "agree xs r (in_at s) 3"
    and off: "off = of_nat (in_at s - r - 1)"
  shows "(n \<le> out_at s + 4 \<and> take_match xs r off s = Some (Return_0 (out_data s)))
    \<or> (\<exists>t. comp_inv xs n t \<and> in_at s < in_at t
         \<and> take_match xs r off s = Some (if in_at t + 2 \<ge> length xs then Break t else Continue t))"
proof -
  from inv obtain cs plain hs lits rest where s: "open_run xs n s cs plain hs lits rest"
    by (auto simp: comp_inv_def)
  have n: "length (out_data s) = n" using s unfolding open_run_def by blast
  show ?thesis
  proof (cases "out_at s + 4 \<ge> n \<and> out_at s - (if pending_lits s = 0 then 1 else 0) + 4 \<ge> n")
    case True
    then have "take_match xs r off s = Some (Return_0 (out_data s))"
      by (simp add: take_match_def n add.commute Let_def)
    with True show ?thesis by blast
  next
    case False
    then have room: "out_at s - (if pending_lits s = 0 then 1 else 0) + 4 < n"
      by (auto split: if_splits)
    obtain cs' a b c later u where u: "stop_run s = Some u"
      "undo_empty u = s\<lparr>out_data := cs' @ a # b # c # later, out_at := length cs'\<rparr>"
      and st: "lzf_stream cs' (plain @ lits)"
      and len: "length (cs' @ a # b # c # later) = n" "later \<noteq> []"
        "if lits = [] then cs' = cs else length cs' = length cs + 1 + length lits"
      by (rule end_run [OF s room])
    define maxlen where "maxlen = min 264 (length xs - in_at s - 2)"
    from match_length_run [OF at ag maxlen_def]
    obtain m where m: "match_length xs r (in_at s) maxlen = Some m" "3 \<le> m" "m \<le> 264"
      "in_at s + m \<le> length xs" "agree xs r (in_at s) m" by blast
    define plain' where "plain' = plain @ lits"
    from s have in_at: "in_at s = length plain'" by (simp add: open_run_def plain'_def)
    from s obtain tail where tail: "xs = plain' @ tail" by (auto simp: open_run_def plain'_def)
    define ys where "ys = take m tail"
    have ys: "length ys = m" "xs = plain' @ ys @ drop m tail"
      using m(4) by (simp_all add: ys_def tail in_at)
    define k where "k = in_at s - r - 1"
    have "agree (plain' @ ys @ drop m tail) r (length plain') (length ys)"
      unfolding ys(2) [symmetric] ys(1) in_at [symmetric] by (rule m(5))
    from agree_repeats [OF _ this] at(1) have rep: "repeats k plain' ys"
      by (simp add: k_def in_at)
    define tok where "tok = ref_token k (m - 2)"
    have stream: "lzf_stream (cs' @ tok) (plain' @ ys)"
      using Reference [OF st [folded plain'_def] _ rep] near m ys(1) by (simp add: k_def tok_def)
    define v where "v = s\<lparr>out_data := cs' @ a # b # c # later, out_at := length cs', in_at := in_at s + 1\<rparr>"
    have v: "out_data v = cs' @ a # b # c # later" "out_at v = length cs'" by (simp_all add: v_def)
    have bounds: "k < 8192" "1 \<le> m - 2" "m - 2 \<le> 262" using near m by (simp_all add: k_def)
    obtain rest' where put: "put_ref (of_nat k) (m - 2) v
        = Some (v\<lparr>out_data := (cs' @ tok) @ rest', out_at := length (cs' @ tok)\<rparr>)"
      and rest': "length (tok @ rest') = length later + 3"
      using put_ref_run [OF v bounds] unfolding tok_def by blast
    define w where "w = s\<lparr>out_data := (cs' @ tok) @ rest', out_at := length (cs' @ tok) + 1,
                           pending_lits := 0, in_at := in_at s + m\<rparr>"
    have inv_w: "comp_inv xs n w"
    proof (rule fresh_run [OF stream])
      show "32 * length (cs' @ tok) \<le> 33 * length (plain' @ ys)"
        using s len(3) m(2) ys(1)
        by (auto simp: open_run_def tok_def ref_token_length plain'_def split: if_splits)
    qed (use rest' len(1) ys in \<open>auto simp: w_def in_at\<close>)
    have in_w: "in_at w = in_at s + m" by (simp add: w_def)
    have "off = of_nat k" by (simp add: off k_def)
    with m(1,2) put have written: "write_match xs r off maxlen s = Some w"
      unfolding write_match_def u(1) by (simp add: u(2) w_def v_def)
    have maxlen: "(if length xs - in_at s - 2 > 264 then 264 else length xs - in_at s - 2) = maxlen"
      by (simp add: maxlen_def)
    have guard: "\<not> (out_at s + 3 + 1 \<ge> n \<and> out_at s - (if pending_lits s = 0 then 1 else 0) + 3 + 1 \<ge> n)"
      using False by (simp add: add.commute)
    have taken: "take_match xs r off s = after_match xs w"
      unfolding take_match_def n Let_def maxlen if_not_P [OF guard] written by simp
    show ?thesis
    proof (cases "in_at w + 2 \<ge> length xs")
      case True
      with inv_w taken m(2) show ?thesis
        by (intro disjI2 exI [of _ w]) (simp add: in_w after_match_def)
    next
      case False
      obtain v1 where v1: "FRST xs (in_at w - 2) = Some v1"
        using FRST_run [of "in_at w - 2" xs] False by fastforce
      define w1 where "w1 = w\<lparr>in_at := in_at w - 2, hval := v1\<rparr>"
      have "in_at w1 + 2 < length xs" using False by (simp add: w1_def)
      then obtain v2 t2 where w2: "enter_hash xs w1 = Some (w1\<lparr>hval := v2, htab := t2, in_at := in_at w1 + 1\<rparr>)"
        using enter_hash_run by blast
      define w2 where "w2 = w1\<lparr>hval := v2, htab := t2, in_at := in_at w1 + 1\<rparr>"
      have "in_at w2 + 2 < length xs" using False m(2) by (simp add: w1_def w2_def in_w)
      then obtain v3 t3 where w3: "enter_hash xs w2 = Some (w2\<lparr>hval := v3, htab := t3, in_at := in_at w2 + 1\<rparr>)"
        using enter_hash_run by blast
      have eq: "w2\<lparr>hval := v3, htab := t3, in_at := in_at w2 + 1\<rparr> = w\<lparr>hval := v3, htab := t3\<rparr>"
        using m(2) by (simp add: w2_def w1_def w_def)
      have "take_match xs r off s = Some (Continue (w\<lparr>hval := v3, htab := t3\<rparr>))"
        using False v1 w2 w3 eq unfolding taken after_match_def
        by (simp add: Let_def flip: w1_def) (simp add: w2_def)
      with inv_w False m(2) show ?thesis
        by (intro disjI2 exI [of _ "w\<lparr>hval := v3, htab := t3\<rparr>"]) (simp add: in_w)
    qed
  qed
qed

lemma comp_inv_bounds:
  assumes "comp_inv xs n s"
  shows "32 * out_at s \<le> 33 * in_at s + 32" "in_at s \<le> length xs" "length (out_data s) = n"
    "pending_lits s < 32" "pending_lits s < out_at s"
  using assms by (auto simp: comp_inv_def open_run_def)

text \<open>One iteration: it goes on with the invariant, or the buffer was full.\<close>

lemma is_match_run:
  assumes "i + 2 < length xs" "i < 2 ^ 64" "r < 2 ^ 32"
  obtains "is_match xs r i (of_nat i - of_nat r - 1) = Some False"
  | "is_match xs r i (of_nat i - of_nat r - 1) = Some True" "r < i" "i - r - 1 < 8192"
    "(of_nat i - of_nat r - 1 :: 64 word) = of_nat (i - r - 1)" "agree xs r i 3"
proof (cases "(of_nat i - of_nat r - 1 :: 64 word) < 8192 \<and> 0 < r")
  case True
  note off = match_offset [OF assms(2,3) conjunct1 [OF True]]
  have "is_match xs r i (of_nat i - of_nat r - 1)
      = Some (xs ! (r + 2) = xs ! (i + 2) \<and> xs ! r = xs ! i \<and> xs ! (r + 1) = xs ! (i + 1))"
    using True off assms(1) by (simp add: is_match_def)
  also have "(xs ! (r + 2) = xs ! (i + 2) \<and> xs ! r = xs ! i \<and> xs ! (r + 1) = xs ! (i + 1)) = agree xs r i 3"
    by (auto simp: numeral_3_eq_3 agree_Suc) (simp_all add: agree_def)
  finally have "is_match xs r i (of_nat i - of_nat r - 1) = Some (agree xs r i 3)" .
  with off that show ?thesis by metis
next
  case False
  show ?thesis by (rule that(1)) (simp only: is_match_def if_not_P [OF False])
qed

definition iterated :: "u8 list \<Rightarrow> nat \<Rightarrow> nat \<Rightarrow> lzf_control \<Rightarrow> bool" where
  "iterated xs n i r \<longleftrightarrow> (case r of
      Return_0 out \<Rightarrow> length out = n \<and> 32 * n \<le> 33 * length xs + 61
    | Continue t \<Rightarrow> comp_inv xs n t \<and> i < in_at t
    | Break t \<Rightarrow> comp_inv xs n t \<and> length xs \<le> in_at t + 2)"

lemma compress_step_run:
  assumes inv: "comp_inv xs n s" and left: "in_at s + 2 < length xs" and size: "length xs < 2 ^ 64"
  shows "wp (compress_step xs s) (iterated xs n (in_at s))"
proof -
  obtain v where v: "NEXT (hval s) xs (in_at s) = Some v" using left by (simp add: NEXT_def)
  define u where "u = s\<lparr>hval := v, htab := (htab s)(IDX v := of_nat (in_at s))\<rparr>"
  define r where "r = unat (htab s (IDX v))"
  have r: "r < 2 ^ 32" using unsigned_less [of "htab s (IDX v)"] by (simp add: r_def)
  have u: "comp_inv xs n u" "in_at u = in_at s" "out_at u = out_at s" "out_data u = out_data s"
    using inv by (simp_all add: u_def)
  have full: "iterated xs n (in_at s) (Return_0 (out_data s))" if "n \<le> out_at s + 4"
    using that left comp_inv_bounds [OF inv] by (simp add: iterated_def)
  have step: "compress_step xs s = Option.bind (is_match xs r (in_at s) (of_nat (in_at s) - of_nat r - 1)) (\<lambda>b.
      if b then take_match xs r (of_nat (in_at s) - of_nat r - 1) u
      else if n \<le> out_at s then Some (Return_0 (out_data s)) else map_option Continue (put_literal xs u))"
    unfolding compress_step_def Let_def v Option.bind.bind_lunit r_def [symmetric] u_def [symmetric] u
      comp_inv_bounds(3) [OF inv] ..
  show ?thesis
  proof (rule is_match_run [of "in_at s" xs r])
    assume no: "is_match xs r (in_at s) (of_nat (in_at s) - of_nat r - 1) = Some False"
    show ?thesis
    proof (cases "n \<le> out_at s")
      case True
      with full show ?thesis by (simp add: step no)
    next
      case False
      with put_literal_run [OF u(1)] u left obtain t where "put_literal xs u = Some t" "comp_inv xs n t"
        "in_at t = in_at s + 1" by auto
      with False show ?thesis by (simp add: step no iterated_def)
    qed
  next
    assume yes: "is_match xs r (in_at s) (of_nat (in_at s) - of_nat r - 1) = Some True"
      and m: "r < in_at s" "in_at s - r - 1 < 8192"
        "(of_nat (in_at s) - of_nat r - 1 :: 64 word) = of_nat (in_at s - r - 1)" "agree xs r (in_at s) 3"
    have "wp (take_match xs r (of_nat (in_at s) - of_nat r - 1) u) (iterated xs n (in_at s))"
      using take_match_run [OF u(1), unfolded u, OF m(1) left m(2,4,3)]
    proof (elim disjE conjE exE)
      fix t assume "comp_inv xs n t" "in_at s < in_at t"
        "take_match xs r (of_nat (in_at s) - of_nat r - 1) u
          = Some (if in_at t + 2 \<ge> length xs then Break t else Continue t)"
      then show ?thesis by (simp add: iterated_def)
    qed (simp add: full)
    then show ?thesis by (simp add: step yes)
  qed (use left size r in simp_all)
qed

lemma compress_loop_run:
  assumes "comp_inv xs n s" "length xs < 2 ^ 64"
  shows "wp (compress_loop xs s) (\<lambda>r. iterated xs n 0 r \<and> (\<forall>t. r \<noteq> Continue t))"
  using assms
proof (induction xs s rule: compress_loop.induct)
  case (1 xs s)
  show ?case
  proof (cases "in_at s + 2 < length xs")
    case True
    from compress_step_run [OF "1.prems"(1) True "1.prems"(2)]
    obtain r where r: "compress_step xs s = Some r" "iterated xs n (in_at s) r" by (auto simp: wp_iff)
    show ?thesis
    proof (cases r)
      case (Continue t)
      with r have "comp_inv xs n t" by (simp add: iterated_def)
      from "1.IH" [OF True r(1) Continue this "1.prems"(2)] True r(1) Continue show ?thesis
        by (subst compress_loop.simps) simp
    qed (use True r in \<open>subst compress_loop.simps, simp add: iterated_def\<close>)+
  next
    case False
    with "1.prems" show ?thesis by (subst compress_loop.simps) (simp add: iterated_def)
  qed
qed

text \<open>The last octets, at most two: they and one more header fit in the three bytes asked for.\<close>

lemma compress_tail_run:
  "\<lbrakk>comp_inv xs n s; length xs \<le> in_at s + 2;
    out_at s + (length xs - in_at s) + (if pending_lits s + (length xs - in_at s) \<ge> 32 then 1 else 0) \<le> n\<rbrakk>
   \<Longrightarrow> \<exists>t. compress_tail xs s = Some t \<and> comp_inv xs n t \<and> in_at t = length xs \<and> out_at t \<le> n"
proof (induction xs s rule: compress_tail.induct)
  case (1 xs s)
  note bounds = comp_inv_bounds [OF "1.prems"(1)]
  show ?case
  proof (cases "in_at s < length xs")
    case True
    with "1.prems"(3) have "out_at s < n" by (auto split: if_splits)
    from put_literal_run [OF "1.prems"(1) this True] obtain t where t: "put_literal xs s = Some t"
      "comp_inv xs n t" "in_at t = in_at s + 1"
      "out_at t = out_at s + (if pending_lits s = 31 then 2 else 1)"
      "pending_lits t = (if pending_lits s = 31 then 0 else pending_lits s + 1)" by blast
    have "out_at t + (length xs - in_at t) + (if pending_lits t + (length xs - in_at t) \<ge> 32 then 1 else 0) \<le> n"
      using "1.prems"(2,3) True bounds(4) t(3-5) by (auto split: if_splits)
    from "1.IH" [OF True t(1,2) _ this] "1.prems"(2) t(1,3) True show ?thesis
      by (subst compress_tail.simps) auto
  next
    case False
    with "1.prems" bounds(2) show ?thesis by (subst compress_tail.simps) auto
  qed
qed

text \<open>Closing the last run.\<close>

lemma close_run:
  assumes inv: "comp_inv xs n s" and all: "in_at s = length xs" "xs \<noteq> []" and room: "out_at s \<le> n"
  shows "wp (stop_run s) (\<lambda>u. let v = undo_empty u
    in lzf_stream (take (out_at v) (out_data v)) xs \<and> length (out_data v) = n \<and> 0 < out_at v
       \<and> out_at v \<le> n \<and> 32 * out_at v \<le> 33 * length xs + 32)"
proof -
  from inv obtain cs plain hs lits rest where s: "open_run xs n s cs plain hs lits rest"
    by (auto simp: comp_inv_def)
  then obtain h where h: "hs = [h]" using room by (elim run_slot)
  from s have st: "lzf_stream cs plain" "32 * length cs \<le> 33 * length plain" by (simp_all add: open_run_def)
  from s all have xs: "xs = plain @ lits" by (auto simp: open_run_def)
  note stop = stop_run_run [OF s [unfolded h]]
  show ?thesis
  proof (cases "lits = []")
    case True
    from st(1) xs True all(2) have "cs \<noteq> []" by (cases rule: lzf_stream.cases) (auto simp: ref_token_def)
    with s st xs True show ?thesis by (auto simp: stop undo_empty_def open_run_def h Let_def)
  next
    case False
    with s have "0 < length lits" "length lits \<le> 32" by (auto simp: open_run_def)
    from closed_run [OF st this] s st xs False show ?thesis
      by (auto simp: stop undo_empty_def open_run_def h Let_def)
  qed
qed

lemma lzfCompress_run:
  assumes "2 \<le> length xs" "length xs < 2 ^ 64"
  shows "wp (lzfCompress garbage xs out) (\<lambda>(k, out').
    length out' = length out \<and> k \<le> length out \<and> 32 * k \<le> 33 * length xs + 32
    \<and> (0 < k \<longrightarrow> lzf_stream (take k out') xs)
    \<and> (k = 0 \<longrightarrow> 32 * length out < 33 * length xs + 128))"
proof (cases "out = []")
  case False
  obtain v where v: "FRST xs 0 = Some v" using FRST_run [of 0 xs] assms by auto
  let ?s = "\<lparr>in_at = 0, out_at = 1, pending_lits = 0, hval = v, htab = garbage, out_data = out\<rparr>"
  have "comp_inv xs (length out) ?s"
    by (rule fresh_run [OF Start, where rest = out and later = xs]) simp_all
  from compress_loop_run [OF this assms(2)] obtain r where r: "compress_loop xs ?s = Some r"
    "iterated xs (length out) 0 r" "\<forall>t. r \<noteq> Continue t" by (auto simp: wp_iff)
  have nonempty: "\<not> (length xs = 0 \<or> length out = 0)" using False assms(1) by auto
  have start: "lzfCompress garbage xs out = (case r of
        Return_0 out \<Rightarrow> Some (0, out)
      | Continue s \<Rightarrow> None
      | Break s \<Rightarrow>
          if out_at s + 3 > length (out_data s) then Some (0, out_data s)
          else do {
            s \<leftarrow> compress_tail xs s;
            s \<leftarrow> stop_run s;
            let s = undo_empty s;
            Some (out_at s, out_data s) })"
    unfolding lzfCompress_def if_not_P [OF nonempty] v Option.bind.bind_lunit r(1) ..
  show ?thesis
  proof (cases r)
    case (Return_0 out')
    with r(2) show ?thesis by (simp add: start iterated_def)
  next
    case (Break t)
    with r(2) have t: "comp_inv xs (length out) t" "length xs \<le> in_at t + 2" by (simp_all add: iterated_def)
    note bounds = comp_inv_bounds [OF t(1)]
    show ?thesis
    proof (cases "out_at t + 3 > length out")
      case True
      with Break bounds show ?thesis by (simp add: start)
    next
      case False
      have "length xs - in_at t \<le> 2" using t(2) by simp
      with False have "out_at t + (length xs - in_at t)
          + (if pending_lits t + (length xs - in_at t) \<ge> 32 then 1 else 0) \<le> length out" by simp
      then obtain w where w: "compress_tail xs t = Some w" "comp_inv xs (length out) w"
        "in_at w = length xs" "out_at w \<le> length out"
        using compress_tail_run [OF t] by blast
      have "xs \<noteq> []" using assms(1) by auto
      from close_run [OF w(2,3) this w(4)] False Break bounds(3) w(1) show ?thesis
        by (auto simp: start Let_def elim: wp_mono)
    qed
  qed (use r(3) in simp)
qed (use assms in \<open>auto simp: lzfCompress_def\<close>)

section \<open>The decompressor on arbitrary bytes\<close>

lemma copy_literals_safe:
  "\<lbrakk>ip + k \<le> length xs; op + k \<le> length out\<rbrakk>
   \<Longrightarrow> wp (copy_literals k xs ip op out) (\<lambda>out'. length out' = length out \<and> drop (op + k) out' = drop (op + k) out)"
proof (induction k arbitrary: ip op out)
  case (Suc k)
  from Suc.IH [of "ip + 1" "op + 1" "out[op := xs ! ip]"] Suc.prems show ?case
    by (simp add: drop_update_cancel)
qed simp

lemma copy_octets_safe:
  "\<lbrakk>ref < op; op + k \<le> length out\<rbrakk>
   \<Longrightarrow> wp (copy_octets k ref op out) (\<lambda>out'. length out' = length out \<and> drop (op + k) out' = drop (op + k) out)"
proof (induction k arbitrary: ref op out)
  case (Suc k)
  from Suc.IH [of "ref + 1" "op + 1" "out[op := out ! ref]"] Suc.prems show ?case
    by (simp add: drop_update_cancel)
qed simp

lemma copy_ref_safe:
  assumes "ref < op" "op + len + 2 \<le> length out"
  shows "wp (copy_ref len ref op out) (\<lambda>out'. length out' = length out \<and> drop (op + len + 2) out' = drop (op + len + 2) out)"
  using copy_octets_safe [of ref op "len + 2" out] assms
  by (auto simp: copy_ref_def Let_def add.assoc)

definition dec_ok :: "u8 list \<Rightarrow> lzf_error + lzf_dec \<Rightarrow> bool" where
  "dec_ok out r \<longleftrightarrow> (case r of Inl e \<Rightarrow> True
     | Inr (ip, op, out') \<Rightarrow> op \<le> length out \<and> length out' = length out \<and> drop op out' = drop op out)"

lemma drop_later: "drop a xs = drop a ys \<Longrightarrow> a \<le> b \<Longrightarrow> drop b xs = drop b ys"
  by (metis drop_drop le_add_diff_inverse2)

lemma back_ref_safe:
  assumes "ip < length xs" "ref < int op" "length out' = length out" "drop op out' = drop op out"
  shows "wp (back_ref xs len ref ip op out') (dec_ok out)"
proof -
  have "wp (copy_ref len (nat (ref - uint b)) op out')
      (\<lambda>o2. dec_ok out (Inr (ip + 1, op + len + 2, o2)))"
    if "op + len + 2 \<le> length out" "\<not> ref - uint b < 0" for b :: u8
  proof -
    have "nat (ref - uint b) < op" using assms(2) that(2) uint_ge_0 [of b] by linarith
    then have "wp (copy_ref len (nat (ref - uint b)) op out')
      (\<lambda>o2. length o2 = length out' \<and> drop (op + len + 2) o2 = drop (op + len + 2) out')"
      using that(1) assms(3) by (intro copy_ref_safe) simp_all
    then show ?thesis
      by (rule wp_mono) (use that(1) assms(3) drop_later [OF assms(4), of "op + len + 2"] in \<open>simp add: dec_ok_def\<close>)
  qed
  with assms show ?thesis
    by (auto simp: back_ref_def Let_def dec_ok_def not_less)
qed

lemma decompress_step_safe:
  assumes "ip < length xs" "dec_ok out (Inr (ip, op, out'))"
  shows "wp (decompress_step xs (ip, op, out')) (dec_ok out)"
proof -
  from assms(2) have o: "op \<le> length out" "length out' = length out" "drop op out' = drop op out"
    by (simp_all add: dec_ok_def)
  have lits: "wp (copy_literals k xs (ip + 1) op out') (\<lambda>o2. dec_ok out (Inr (ip + 1 + k, op + k, o2)))"
    if "op + k \<le> length out" "ip + 1 + k \<le> length xs" for k
  proof -
    have "wp (copy_literals k xs (ip + 1) op out')
      (\<lambda>o2. length o2 = length out' \<and> drop (op + k) o2 = drop (op + k) out')"
      using that o(2) by (intro copy_literals_safe) simp_all
    then show ?thesis
      by (rule wp_mono) (use that o(2) drop_later [OF o(3), of "op + k"] in \<open>simp add: dec_ok_def\<close>)
  qed
  define c where "c = unat (xs ! ip)"
  have lit: "wp (copy_literals (Suc c) xs (Suc ip) op out') (\<lambda>o2. dec_ok out (Inr (Suc (Suc (ip + c)), Suc (op + c), o2)))"
    if "Suc (op + c) \<le> length out" "Suc (Suc (ip + c)) \<le> length xs"
    using lits [of "Suc c"] that by (simp del: copy_literals.simps)
  have ref: "int op - int (push_bit 8 (c AND 31)) - 1 < int op" by simp
  have "wp (back_ref xs len (int op - int (push_bit 8 (c AND 31)) - 1) j op out') (dec_ok out)"
    if "j < length xs" for len j
    by (rule back_ref_safe [OF that ref o(2,3)])
  with lit assms(1) o(2) show ?thesis
    by (simp add: decompress_step_def Let_def c_def [symmetric] dec_ok_def [of _ "Inl _"] not_le not_less
        del: copy_literals.simps)
qed

lemma decompress_loop_safe:
  "\<lbrakk>fst s < length xs; dec_ok out (Inr s)\<rbrakk>
   \<Longrightarrow> wp (decompress_loop xs s) (\<lambda>r. case r of Inl e \<Rightarrow> True
         | Inr (k, out') \<Rightarrow> k \<le> length out \<and> length out' = length out \<and> drop k out' = drop k out)"
proof (induction xs s rule: decompress_loop.induct)
  case (1 xs s)
  from decompress_step_safe [of "fst s" xs out "fst (snd s)" "snd (snd s)"] "1.prems"
  obtain r where r: "decompress_step xs s = Some r" "dec_ok out r" by (auto simp: wp_iff)
  show ?case
  proof (cases r)
    case (Inl e)
    with r show ?thesis by (subst decompress_loop.simps) simp
  next
    case (Inr t)
    obtain ip op out' where t: "t = (ip, op, out')" by (cases t) auto
    show ?thesis
    proof (cases "ip < length xs")
      case True
      from "1.IH" [OF r(1) Inr t [symmetric] refl True] True r Inr t show ?thesis
        by (subst decompress_loop.simps) simp
    next
      case False
      with r Inr t show ?thesis by (subst decompress_loop.simps) (simp add: dec_ok_def)
    qed
  qed
qed

section \<open>Properties\<close>

text \<open>A run of equal bytes, compressed: two literals, a reference to eight octets, two literals.\<close>

lemma sevens_compressed:
  "lzfCompress (\<lambda>_. 0) [7, 7, 7, 7, 7, 7, 7, 7, 7, 7, 7, 7] [0, 0, 0, 0, 0, 0, 0, 0, 0, 0, 0, 0]
   = Some (8, [1, 7, 7, 192, 0, 1, 7, 7, 0, 0, 0, 0])"
  by (simp add: lzfCompress_def FRST_def NEXT_def compress_loop.simps compress_step_def is_match_def
      IDX_def compress_tail.simps put_literal_def put_byte_def stop_run_def undo_empty_def Let_def
      ensure_def take_match_def write_match_def after_match_def match_length_def match_loop.simps
      put_ref_def enter_hash_def)

text \<open>C30: What the compressor writes, the decompressor turns back into the data, whatever the
  uninitialised hash table held and however many bytes the buffers have beyond what is needed.\<close>

theorem lzf_roundtrip:
  assumes "2 \<le> length xs" "length xs < 2 ^ 64"
    and "lzfCompress garbage xs out = Some (k, out')" "0 < k" "length xs \<le> length back"
  shows "lzfDecompress (take k out') back = Some (Inr (length xs, xs @ drop (length xs) back))"
proof (rule decompress_stream)
  from lzfCompress_run [OF assms(1,2), of garbage out] assms(3,4)
  have "lzf_stream (take k out') xs" "length out' = length out" "k \<le> length out" by simp_all
  with assms(4) show "lzf_stream (take k out') xs" "take k out' \<noteq> []" by auto
qed (rule assms(5))

theorem lzf_roundtrip_witness:
  "lzfDecompress [1, 7, 7, 192, 0, 1, 7, 7] [0, 0, 0, 0, 0, 0, 0, 0, 0, 0, 0, 0, 9]
   = Some (Inr (12, [7, 7, 7, 7, 7, 7, 7, 7, 7, 7, 7, 7, 9]))"
  using lzf_roundtrip [of "[7, 7, 7, 7, 7, 7, 7, 7, 7, 7, 7, 7]" "\<lambda>_. 0"
      "[0, 0, 0, 0, 0, 0, 0, 0, 0, 0, 0, 0]" 8 "[1, 7, 7, 192, 0, 1, 7, 7, 0, 0, 0, 0]"
      "[0, 0, 0, 0, 0, 0, 0, 0, 0, 0, 0, 0, 9]"]
  by (simp add: sevens_compressed)

text \<open>With a 32nd and five bytes of room to spare compression succeeds, within its buffers, and
  the text is at most a 32nd and one byte longer than the data.\<close>

lemma lzf_compress_fits:
  assumes "2 \<le> length xs" "length xs < 2 ^ 64"
    and "length xs + length xs div 32 + 5 \<le> length out"
  shows "\<exists>k out'. lzfCompress garbage xs out = Some (k, out') \<and> 0 < k
    \<and> k \<le> length xs + length xs div 32 + 1"
proof -
  from lzfCompress_run [OF assms(1,2), of garbage out]
  obtain k out' where r: "lzfCompress garbage xs out = Some (k, out')" "32 * k \<le> 33 * length xs + 32"
    "k = 0 \<longrightarrow> 32 * length out < 33 * length xs + 128" by (auto simp: wp_iff)
  have div32: "length xs \<le> 32 * (length xs div 32) + 31" "32 * (length xs div 32) \<le> length xs"
    by presburger+
  with assms(3) have "33 * length xs + 128 \<le> 32 * length out" by linarith
  with r(3) have "0 < k" by (cases k) auto
  moreover from r(2) div32 have "k \<le> length xs + length xs div 32 + 1" by linarith
  ultimately show ?thesis using r(1) by blast
qed

text \<open>C31: On any input that is not empty the decompressor ends, reads and writes within its buffers,
  and leaves the output beyond what it reports untouched.\<close>

theorem lzf_decompress_safe:
  assumes "xs \<noteq> []"
  shows "wp (lzfDecompress xs out) (\<lambda>r. case r of Inl e \<Rightarrow> True
    | Inr (k, out') \<Rightarrow> k \<le> length out \<and> length out' = length out \<and> drop k out' = drop k out)"
  unfolding lzfDecompress_def using assms
  by (intro decompress_loop_safe) (simp_all add: dec_ok_def)

theorem lzf_decompress_safe_witness:
  "wp (lzfDecompress [224, 255] [1, 2]) (\<lambda>r. case r of Inl e \<Rightarrow> True
    | Inr (k, out') \<Rightarrow> k \<le> 2 \<and> length out' = 2 \<and> drop k out' = drop k [1, 2])"
  by (rule wp_mono [OF lzf_decompress_safe]) (auto split: sum.splits)

text \<open>The boundaries: the decompressor reads a byte of an input that has none, the compressor the
  second byte of an input of one.\<close>

lemma decompress_empty_overreads: "lzfDecompress [] out = None"
  by (simp add: lzfDecompress_def decompress_loop.simps decompress_step_def peek_def)

lemma compress_one_overreads: "out \<noteq> [] \<Longrightarrow> lzfCompress garbage [b] out = None"
  by (simp add: lzfCompress_def FRST_def peek_def)

end
