(* ===== verification/Memcached.thy ===== *)
theory Memcached
  imports Packet
begin

text \<open>
  \<open>protocol/codec/memcached\<close> and \<open>protocol/packet/memcached\<close>: the codec of the memcached protocol, which
  reads requests in the text and in the binary form, and the packets it answers with. The input is
  the unread bytes of a \<open>Buffer\<close> (theory Buffer refines it to a byte queue); a read past them, past
  the words of a request or a failed \<open>runtimeAssert\<close> is a fault. \<open>atoi\<close> is \<open>absl::SimpleAtoi\<close> to an
  \<open>int\<close>, \<open>max_item\<close> the option \<open>memcached_max_item_size\<close>. The fields of a header are read as the
  little-endian host does, then converted.
\<close>

section \<open>The protocol\<close>

definition REQ_FLAG :: nat where "REQ_FLAG = 0x80"
definition RESP_FLAG :: nat where "RESP_FLAG = 0x81"
definition HEADER_LEN :: nat where "HEADER_LEN = 24"
definition KEY_MAX_LENGTH :: nat where "KEY_MAX_LENGTH = 250"

definition CMD_GET :: nat where "CMD_GET = 0x00"
definition CMD_SET :: nat where "CMD_SET = 0x01"
definition CMD_ADD :: nat where "CMD_ADD = 0x02"
definition CMD_REPLACE :: nat where "CMD_REPLACE = 0x03"
definition CMD_DELETE :: nat where "CMD_DELETE = 0x04"
definition CMD_INCREMENT :: nat where "CMD_INCREMENT = 0x05"
definition CMD_DECREMENT :: nat where "CMD_DECREMENT = 0x06"
definition CMD_QUIT :: nat where "CMD_QUIT = 0x07"
definition CMD_FLUSH :: nat where "CMD_FLUSH = 0x08"
definition CMD_NOOP :: nat where "CMD_NOOP = 0x0a"
definition CMD_VERSION :: nat where "CMD_VERSION = 0x0b"
definition CMD_GETK :: nat where "CMD_GETK = 0x0c"
definition CMD_APPEND :: nat where "CMD_APPEND = 0x0e"
definition CMD_PREPEND :: nat where "CMD_PREPEND = 0x0f"
definition CMD_TOUCH :: nat where "CMD_TOUCH = 0x1c"
definition CMD_GAT :: nat where "CMD_GAT = 0x1d"
definition CMD_SASL_LIST_MECHS :: nat where "CMD_SASL_LIST_MECHS = 0x20"
definition CMD_SASL_AUTH :: nat where "CMD_SASL_AUTH = 0x21"
definition CMD_SASL_STEP :: nat where "CMD_SASL_STEP = 0x22"

lemmas cmd_defs = CMD_GET_def CMD_SET_def CMD_ADD_def CMD_REPLACE_def CMD_DELETE_def CMD_INCREMENT_def
  CMD_DECREMENT_def CMD_QUIT_def CMD_FLUSH_def CMD_NOOP_def CMD_VERSION_def CMD_GETK_def CMD_APPEND_def
  CMD_PREPEND_def CMD_TOUCH_def CMD_GAT_def CMD_SASL_LIST_MECHS_def CMD_SASL_AUTH_def CMD_SASL_STEP_def

text \<open>The quiet variants: \<open>setq\<close> 0x11 to \<open>decrementq\<close> 0x16, \<open>quitq\<close>, \<open>flushq\<close>, \<open>appendq\<close>, \<open>prependq\<close>,
  \<open>getq\<close> 0x09, \<open>getkq\<close> 0x0d and \<open>gatq\<close> 0x1e.\<close>

definition changeQuietCmd2Cmd :: "nat \<Rightarrow> bool \<times> nat" where
  "changeQuietCmd2Cmd c =
     (if c = 0x11 then (True, CMD_SET)
      else if c = 0x12 then (True, CMD_ADD)
      else if c = 0x13 then (True, CMD_REPLACE)
      else if c = 0x14 then (True, CMD_DELETE)
      else if c = 0x15 then (True, CMD_INCREMENT)
      else if c = 0x16 then (True, CMD_DECREMENT)
      else if c = 0x17 then (True, CMD_QUIT)
      else if c = 0x18 then (True, CMD_FLUSH)
      else if c = 0x19 then (True, CMD_APPEND)
      else if c = 0x1a then (True, CMD_PREPEND)
      else if c = 0x09 then (True, CMD_GET)
      else if c = 0x0d then (True, CMD_GETK)
      else if c = 0x1e then (True, CMD_GAT)
      else (False, c))"

definition memcachedCommandTable :: "bytes list" where
  "memcachedCommandTable =
     [''memcache_get'', ''memcache_set'', ''memcache_add'', ''memcache_replace'', ''memcache_delete'',
      ''memcache_incr'', ''memcache_decr'', ''memcache_quit'', ''memcache_flush_all'', ''memcache_get'',
      ''memcache_noop'', ''memcache_version'', ''memcache_getk'', ''memcache_getk'', ''memcache_append'',
      ''memcache_prepend'', ''memcache_stat'', ''memcache_set'', ''memcache_add'', ''memcache_replace'',
      ''memcache_delete'', ''memcache_incr'', ''memcache_decr'', ''memcache_quit'', ''memcache_flush_all'',
      ''memcache_append'', ''memcache_prepend'', [], ''memcache_touch'', ''memcache_gat'', ''memcache_gat'',
      [], ''memcache_sasl_list_mechs'', ''memcache_sasl_auth'', ''memcache_sasl_step'']"

record mc_context =
  ctx_opcode :: nat
  ctx_opaque :: "32 word"
  ctx_cas :: "64 word"

text \<open>The \<open>ArrayPacket\<close> of a request: its words, its size, its context and whether it is quiet.\<close>

record mc_request =
  mc_argv :: "bytes list"
  packet_size :: nat
  request_context :: "mc_context option"
  quiet :: bool

record mc_codec =
  codec_err :: bytes
  codec_context :: "mc_context option"
  is_binary :: bool

type_synonym mc_result = "dstate \<times> mc_codec \<times> mc_request option \<times> bytes"

definition BAD_FORMAT :: bytes where
  "BAD_FORMAT = ''CLIENT_ERROR bad command line format''"

text \<open>\<open>err_ = e; return DState::ERROR\<close>.\<close>

definition mc_fail :: "bytes \<Rightarrow> mc_codec \<Rightarrow> bytes \<Rightarrow> mc_result option" where
  "mc_fail e c s = Some (ERROR, c\<lparr>codec_err := e\<rparr>, None, s)"

section \<open>Text requests\<close>

text \<open>\<open>splitArgs(start, end)\<close>: \<open>n\<close> bytes are left up to and with \<open>end\<close>. The byte at the pointer is read
  before the pointer is compared.\<close>

fun mc_splitArgs :: "nat \<Rightarrow> bytes \<Rightarrow> bytes \<Rightarrow> bytes list \<Rightarrow> bytes list option" where
  "mc_splitArgs n [] cur args = None"
| "mc_splitArgs n (c # cs) cur args =
     (if c = NUL \<or> n = 0 then Some args
      else if c \<noteq> CHR '' '' \<and> c \<noteq> CR then mc_splitArgs (n - 1) cs (cur @ [c]) args
      else if cur \<noteq> [] then mc_splitArgs (n - 1) cs [] (args @ [cur])
      else mc_splitArgs (n - 1) cs cur args)"

text \<open>The data after the first line: \<open>Inl\<close> leaves \<open>processText\<close>, \<open>Inr\<close> is the value.\<close>

datatype chunk_stop = Chunk_error bytes | Chunk_again

definition data_chunk ::
  "(bytes \<Rightarrow> bool \<times> int) \<Rightarrow> nat option \<Rightarrow> bytes \<Rightarrow> nat \<Rightarrow> bytes \<Rightarrow> (chunk_stop + nat \<times> bytes) option" where
  "data_chunk atoi limit bytes_word newline s =
     (let (ok, b) = atoi bytes_word
      in if \<not> ok then Some (Inl (Chunk_error BAD_FORMAT))
         else if b < 0 then Some (Inl (Chunk_error BAD_FORMAT))
         else do {
           ensure (newline + 2 \<le> length s);
           case find_byte LF (drop (newline + 2) s) of
             None \<Rightarrow> Some (Inl Chunk_again)
           | Some k \<Rightarrow>
               (let dataline = newline + 2 + k
                in if int dataline - int newline - 3 \<noteq> b then Some (Inl (Chunk_error ''CLIENT_ERROR bad data chunk''))
                   else
                     (let datalen = dataline - newline - 3
                      in if (case limit of None \<Rightarrow> False | Some m \<Rightarrow> datalen > m)
                         then Some (Inl (Chunk_error ''SERVER_ERROR object too large for cache''))
                         else do { value \<leftarrow> load (newline + 2) (nat b) s; Some (Inr (datalen, value)) })) })"

definition STORE_WORDS :: "bytes list" where
  "STORE_WORDS = [''set'', ''add'', ''replace'', ''append'', ''prepend'', ''cas'']"

definition VERSION_WORDS :: "bytes list" where
  "VERSION_WORDS = [''set'', ''add'', ''replace'', ''append'', ''prepend'', ''incr'', ''decr'', ''delete'']"

text \<open>The end of \<open>processText\<close>: the version, the name of the command, and what is consumed.\<close>

definition text_request :: "mc_codec \<Rightarrow> bytes list \<Rightarrow> nat \<Rightarrow> bytes \<Rightarrow> mc_result option" where
  "text_request c args packet_len s =
     (let args = (if hd args \<in> set VERSION_WORDS then args @ [''-1''] else args);
          args = (''memcache_'' @ hd args) # tl args
      in Some (SUCCESS, c,
           Some \<lparr>mc_argv = args, packet_size = packet_len, request_context = None, quiet = False\<rparr>,
           drop (packet_len + 2) s))"

text \<open>What \<open>processText\<close> does with the words of the first line, which ends at \<open>newline\<close>.\<close>

definition text_command ::
  "(bytes \<Rightarrow> bool \<times> int) \<Rightarrow> nat \<Rightarrow> mc_codec \<Rightarrow> bytes list \<Rightarrow> nat \<Rightarrow> nat \<Rightarrow> bytes \<Rightarrow> mc_result option" where
  "text_command atoi max_item c args newline linefeed_chars s =
     (if args = [] then mc_fail ''ERROR'' c s
      else if length args \<ge> 2 \<and> length (args ! 1) > KEY_MAX_LENGTH then mc_fail BAD_FORMAT c s
      else if hd args \<in> set STORE_WORDS then
        (if length args < 5 then mc_fail BAD_FORMAT c s
         else do {
           r \<leftarrow> data_chunk atoi (Some max_item) (args ! 4) newline s;
           case r of
             Inl (Chunk_error e) \<Rightarrow> mc_fail e c s
           | Inl Chunk_again \<Rightarrow> Some (AGAIN, c, None, s)
           | Inr (datalen, value) \<Rightarrow>
               text_request c (args @ [value]) (newline + linefeed_chars + datalen) s })
      else if hd args = ''mscan'' then do {
        ensure (5 < length args);
        r \<leftarrow> data_chunk atoi None (args ! 5) newline s;
        case r of
          Inl (Chunk_error e) \<Rightarrow> mc_fail e c s
        | Inl Chunk_again \<Rightarrow> Some (AGAIN, c, None, s)
        | Inr (datalen, value) \<Rightarrow>
            text_request c (args @ [value]) (newline + linefeed_chars + datalen) s }
      else if hd args = ''incr'' \<or> hd args = ''decr''
      then text_request c (args @ [''0'', ''0'']) (newline + linefeed_chars) s
      else text_request c args (newline + linefeed_chars) s)"

definition processText :: "(bytes \<Rightarrow> bool \<times> int) \<Rightarrow> nat \<Rightarrow> mc_codec \<Rightarrow> bytes \<Rightarrow> mc_result option" where
  "processText atoi max_item c s =
     (case find_byte LF s of
        None \<Rightarrow> Some (AGAIN, c, None, s)
      | Some eol \<Rightarrow>
          (let cr = eol > 0 \<and> s ! (eol - 1) = CR;
               newline = (if cr then eol - 1 else eol);
               linefeed_chars = (if cr then 2 else 1)
           in do {
             args \<leftarrow> mc_splitArgs (newline + 1) s [] [];
             text_command atoi max_item c args newline linefeed_chars s }))"

section \<open>Binary requests\<close>

text \<open>Fields at an offset of the packed structs.\<close>

definition field16 :: "nat \<Rightarrow> bytes \<Rightarrow> 16 word" where
  "field16 i s = of_nat (le_value (take 2 (drop i s)))"

definition field32 :: "nat \<Rightarrow> bytes \<Rightarrow> 32 word" where
  "field32 i s = of_nat (le_value (take 4 (drop i s)))"

definition field64 :: "nat \<Rightarrow> bytes \<Rightarrow> 64 word" where
  "field64 i s = of_nat (le_value (take 8 (drop i s)))"

definition dec_word :: "'a::len word \<Rightarrow> bytes" where
  "dec_word w = dec_nat (unat w)"

text \<open>The cases of the switch, with the words they make. \<open>None\<close> inside is \<open>protocol_error\<close>. Subtractions
  on \<open>bodylen\<close> are those of \<open>uint32_t\<close>.\<close>

definition binary_argv ::
  "nat \<Rightarrow> nat \<Rightarrow> nat \<Rightarrow> nat \<Rightarrow> nat \<Rightarrow> 64 word \<Rightarrow> bytes \<Rightarrow> (bytes + bytes list option) option" where
  "binary_argv max_item opcode keylen extlen bodylen cas s =
     (let name = memcachedCommandTable ! opcode;
          body = HEADER_LEN + extlen;
          left = (of_nat bodylen - of_nat keylen - of_nat extlen :: 32 word)
      in if opcode \<in> {CMD_VERSION, CMD_QUIT, CMD_NOOP, CMD_SASL_LIST_MECHS} then
        Some (Inr (if extlen = 0 \<and> keylen = 0 \<and> bodylen = 0 then Some [name] else None))
      else if opcode = CMD_FLUSH then
        Some (Inr (if extlen = 4 \<and> keylen = 0 \<and> bodylen = 4 then
             (let expire = intrev32 (field32 HEADER_LEN s)
              in Some (if expire \<noteq> 0 then [name, dec_word expire] else [name]))
           else None))
      else if opcode \<in> {CMD_SET, CMD_ADD, CMD_REPLACE} then
        (if extlen = 8 \<and> keylen \<noteq> 0 then
           (if unat left > max_item then Some (Inl ''SERVER_ERROR object too large for cache'')
            else do {
              key \<leftarrow> load body keylen s;
              value \<leftarrow> load (body + keylen) (unat left) s;
              Some (Inr (Some [name, key, dec_word (intrev32 (field32 HEADER_LEN s)),
                dec_word (intrev32 (field32 (HEADER_LEN + 4) s)), dec_word left, value, dec_word cas])) })
         else Some (Inr None))
      else if opcode \<in> {CMD_APPEND, CMD_PREPEND} then
        (if keylen > 0 \<and> extlen = 0 then do {
           key \<leftarrow> load HEADER_LEN keylen s;
           value \<leftarrow> load (HEADER_LEN + keylen) (unat (of_nat bodylen - of_nat keylen :: 32 word)) s;
           Some (Inr (Some [name, key, ''0'', ''0'', dec_word left, value, dec_word cas])) }
         else Some (Inr None))
      else if opcode = CMD_DELETE then
        (if extlen = 0 \<and> bodylen = keylen \<and> keylen > 0 then do {
           key \<leftarrow> load HEADER_LEN keylen s;
           Some (Inr (Some [name, key, dec_word cas])) }
         else Some (Inr None))
      else if opcode \<in> {CMD_GET, CMD_GETK} then
        (if extlen = 0 \<and> bodylen = keylen \<and> keylen > 0 then do {
           key \<leftarrow> load HEADER_LEN keylen s;
           Some (Inr (Some [name, key])) }
         else Some (Inr None))
      else if opcode \<in> {CMD_INCREMENT, CMD_DECREMENT} then
        (if keylen > 0 \<and> extlen = 20 \<and> bodylen = keylen + extlen then do {
           key \<leftarrow> load body keylen s;
           Some (Inr (Some [name, key, dec_word (intrev64 (field64 HEADER_LEN s)),
             dec_word (intrev64 (field64 (HEADER_LEN + 8) s)), dec_word (intrev32 (field32 (HEADER_LEN + 16) s)),
             dec_word cas])) }
         else Some (Inr None))
      else if opcode \<in> {CMD_SASL_AUTH, CMD_SASL_STEP} then
        (if extlen = 0 \<and> keylen \<noteq> 0 then do {
           key \<leftarrow> load HEADER_LEN keylen s;
           value \<leftarrow> load (HEADER_LEN + keylen) (unat (of_nat bodylen - of_nat keylen :: 32 word)) s;
           Some (Inr (Some [name, key, value])) }
         else Some (Inr None))
      else if opcode \<in> {CMD_TOUCH, CMD_GAT} then
        (if extlen = 4 \<and> keylen > 0 \<and> extlen + keylen = bodylen then do {
           key \<leftarrow> load body keylen s;
           Some (Inr (Some [name, key, dec_word (intrev32 (field32 HEADER_LEN s))])) }
         else Some (Inr None))
      else Some (Inl ''Unknown Command''))"

definition processBinary :: "nat \<Rightarrow> mc_codec \<Rightarrow> bytes \<Rightarrow> mc_result option" where
  "processBinary max_item c s =
     (if length s < HEADER_LEN then Some (AGAIN, c, None, s)
      else
        (let keylen = unat (intrev16 (field16 2 s));
             extlen = code (s ! 4);
             bodylen = unat (intrev32 (field32 8 s))
         in if keylen > KEY_MAX_LENGTH then mc_fail BAD_FORMAT c s
            else if length s < HEADER_LEN + bodylen then Some (AGAIN, c, None, s)
            else
              (let cas = intrev64 (field64 16 s);
                   ctx = \<lparr>ctx_opcode = code (s ! 1), ctx_opaque = field32 12 s, ctx_cas = cas\<rparr>;
                   c = c\<lparr>codec_context := Some ctx\<rparr>;
                   (q, opcode) = changeQuietCmd2Cmd (code (s ! 1))
               in do {
                 r \<leftarrow> binary_argv max_item opcode keylen extlen bodylen cas s;
                 case r of
                   Inl e \<Rightarrow> mc_fail e c s
                 | Inr None \<Rightarrow> mc_fail BAD_FORMAT c s
                 | Inr (Some args) \<Rightarrow>
                     Some (SUCCESS, c,
                       Some \<lparr>mc_argv = args, packet_size = HEADER_LEN + bodylen, request_context = Some ctx, quiet = q\<rparr>,
                       drop (HEADER_LEN + bodylen) s) })))"

definition mc_decodeRequest ::
  "(bytes \<Rightarrow> bool \<times> int) \<Rightarrow> nat \<Rightarrow> mc_codec \<Rightarrow> bytes \<Rightarrow> mc_result option" where
  "mc_decodeRequest atoi max_item c s =
     (let c = c\<lparr>codec_err := []\<rparr>
      in if s = [] then Some (AGAIN, c, None, s)
         else if code (hd s) = REQ_FLAG then processBinary max_item (c\<lparr>is_binary := True\<rparr>) s
         else processText atoi max_item (c\<lparr>is_binary := False\<rparr>) s)"

section \<open>Replies\<close>

datatype mc_status = RESP_SUCCESS | RESP_KEY_ENOENT | RESP_KEY_EEXISTS | RESP_E2BIG | RESP_EINVAL
  | RESP_NOT_STORED | RESP_DELTA_BADVAL | RESP_AUTH_ERROR | RESP_AUTH_CONTINUE | RESP_UNKNOWN_COMMAND
  | RESP_ENOMEM | RESP_UNKNOWN_ERROR

primrec status_code :: "mc_status \<Rightarrow> 16 word" where
  "status_code RESP_SUCCESS = 0x00"
| "status_code RESP_KEY_ENOENT = 0x01"
| "status_code RESP_KEY_EEXISTS = 0x02"
| "status_code RESP_E2BIG = 0x03"
| "status_code RESP_EINVAL = 0x04"
| "status_code RESP_NOT_STORED = 0x05"
| "status_code RESP_DELTA_BADVAL = 0x06"
| "status_code RESP_AUTH_ERROR = 0x20"
| "status_code RESP_AUTH_CONTINUE = 0x21"
| "status_code RESP_UNKNOWN_COMMAND = 0x81"
| "status_code RESP_ENOMEM = 0x82"
| "status_code RESP_UNKNOWN_ERROR = 0xFF"

fun statusString :: "mc_status \<Rightarrow> bytes" where
  "statusString RESP_ENOMEM = ''Out of memory''"
| "statusString RESP_UNKNOWN_COMMAND = ''Unknown command''"
| "statusString RESP_KEY_ENOENT = ''Not found''"
| "statusString RESP_EINVAL = ''Invalid arguments''"
| "statusString RESP_KEY_EEXISTS = ''Data exists for key.''"
| "statusString RESP_E2BIG = ''Too large.''"
| "statusString RESP_DELTA_BADVAL = ''Non-numeric server-side value for incr or decr''"
| "statusString RESP_NOT_STORED = ''Not stored.''"
| "statusString RESP_AUTH_ERROR = ''Auth failure.''"
| "statusString _ = ''UNHANDLED ERROR''"

definition starts_with :: "bytes \<Rightarrow> bytes \<Rightarrow> bool" where
  "starts_with p s \<longleftrightarrow> take (length p) s = p"

definition status_of_info :: "bytes \<Rightarrow> mc_status" where
  "status_of_info info =
     (if starts_with ''CLIENT_ERROR'' info then RESP_EINVAL
      else if starts_with ''SERVER_ERROR'' info then RESP_E2BIG
      else if starts_with ''NOPERM'' info \<or> starts_with ''NOAUTH'' info then RESP_AUTH_ERROR
      else if starts_with ''Unknown'' info then RESP_UNKNOWN_COMMAND
      else RESP_UNKNOWN_ERROR)"

record mc_pack =
  pack_key :: bytes
  pack_value :: bytes
  pack_version :: "64 word"
  pack_flags :: "32 word"
  value_is_null :: bool

text \<open>The packets; the context is a \<open>std::any\<close> that may hold nothing.\<close>

datatype mc_packet =
  MemcachedGetPacket "mc_pack list" bool "mc_context option"
| MemcachedIncDecPacket mc_status "64 word" "mc_context option"
| MemcachedMscanPacket bytes "bytes list"
| MemcachedStatusPacket mc_status bytes "64 word" "mc_context option"
| MemcachedStrPacket bytes "mc_context option"
| MemcachedTouchPacket "32 word" "64 word" bytes "mc_context option"

text \<open>The memory of a response header; the 16, 32 and 64-bit fields hold what \<open>htonu\<close> gave.\<close>

definition resp_header ::
  "nat \<Rightarrow> 16 word \<Rightarrow> nat \<Rightarrow> 16 word \<Rightarrow> 32 word \<Rightarrow> 32 word \<Rightarrow> 64 word \<Rightarrow> bytes" where
  "resp_header opcode keylen extlen status bodylen opaque cas =
     [char_of RESP_FLAG, char_of opcode] @ le_bytes 2 (unat keylen) @ [char_of extlen, NUL]
     @ le_bytes 2 (unat status) @ le_bytes 4 (unat bodylen) @ le_bytes 4 (unat opaque) @ le_bytes 8 (unat cas)"

text \<open>What a packet appends to the buffer, and the state it returns; \<open>std::any_cast\<close> of an empty
  context throws.\<close>

definition get_binary :: "mc_context \<Rightarrow> mc_pack \<Rightarrow> bytes" where
  "get_binary ctx pack =
     (if value_is_null pack then
        resp_header (ctx_opcode ctx) 0 0 (intrev16 (status_code RESP_KEY_ENOENT)) 0
          (intrev32 (ctx_opaque ctx)) (intrev64 (ctx_cas ctx))
      else
        (let with_key = (ctx_opcode ctx = CMD_GETK);
             keylen = (if with_key then intrev16 (of_nat (length (pack_key pack))) else 0);
             bodylen = (if with_key then 4 + length (pack_key pack) + length (pack_value pack)
                        else 4 + length (pack_value pack))
         in resp_header (ctx_opcode ctx) keylen 4 (intrev16 (status_code RESP_SUCCESS))
              (intrev32 (of_nat bodylen)) (intrev32 (ctx_opaque ctx)) (intrev64 (pack_version pack))
            @ le_bytes 4 (unat (intrev32 (pack_flags pack)))
            @ (if keylen \<noteq> 0 then pack_key pack else []) @ pack_value pack))"

definition incdec_binary :: "mc_context \<Rightarrow> mc_status \<Rightarrow> 64 word \<Rightarrow> bytes" where
  "incdec_binary ctx status i =
     resp_header (ctx_opcode ctx) 0 0 (intrev16 (status_code status)) (intrev32 8)
       (intrev32 (ctx_opaque ctx)) (intrev64 (ctx_cas ctx)) @ le_bytes 8 (unat (intrev64 i))"

definition status_binary :: "mc_context \<Rightarrow> mc_status \<Rightarrow> 64 word \<Rightarrow> bytes" where
  "status_binary ctx status version =
     (let text = (if status \<noteq> RESP_SUCCESS then statusString status else [])
      in resp_header (ctx_opcode ctx) 0 0 (intrev16 (status_code status))
           (if status \<noteq> RESP_SUCCESS then intrev32 (of_nat (length text)) else 0)
           (intrev32 (ctx_opaque ctx))
           (if version = 0 then intrev64 (ctx_cas ctx) else intrev64 version) @ text)"

definition str_binary :: "mc_context \<Rightarrow> bytes \<Rightarrow> bytes" where
  "str_binary ctx str =
     resp_header (ctx_opcode ctx) 0 0 0 (intrev32 (of_nat (length str)))
       (intrev32 (ctx_opaque ctx)) (intrev64 (ctx_cas ctx)) @ str"

definition touch_binary :: "mc_context \<Rightarrow> 32 word \<Rightarrow> 64 word \<Rightarrow> bytes" where
  "touch_binary ctx flags version =
     resp_header (ctx_opcode ctx) 0 0 (intrev16 (status_code RESP_SUCCESS)) 0
       (intrev32 (ctx_opaque ctx)) (intrev64 version) @ le_bytes 4 (unat (intrev32 flags))"

fun encodeMemcachedBinary :: "mc_packet \<Rightarrow> (dstate \<times> bytes) option" where
  "encodeMemcachedBinary (MemcachedGetPacket packs with_version ctx) = do {
     ctx \<leftarrow> ctx;
     ensure (length packs = 1);
     Some (SUCCESS, get_binary ctx (packs ! 0)) }"
| "encodeMemcachedBinary (MemcachedIncDecPacket status i ctx) =
     map_option (\<lambda>ctx. (SUCCESS, incdec_binary ctx status i)) ctx"
| "encodeMemcachedBinary (MemcachedMscanPacket cursor keys) = Some (ERROR, [])"
| "encodeMemcachedBinary (MemcachedStatusPacket status info version ctx) =
     map_option (\<lambda>ctx. (SUCCESS, status_binary ctx status version)) ctx"
| "encodeMemcachedBinary (MemcachedStrPacket str ctx) =
     map_option (\<lambda>ctx. (SUCCESS, str_binary ctx str)) ctx"
| "encodeMemcachedBinary (MemcachedTouchPacket flags version info ctx) =
     map_option (\<lambda>ctx. (SUCCESS, touch_binary ctx flags version)) ctx"

lemmas binary_defs = incdec_binary_def status_binary_def str_binary_def touch_binary_def

text \<open>The text form; \<open>fmt\<close> is \<open>fmt::format\<close> of an integer.\<close>

definition get_text :: "(int \<Rightarrow> bytes) \<Rightarrow> bool \<Rightarrow> mc_pack \<Rightarrow> bytes" where
  "get_text fmt with_version pack =
     (if value_is_null pack then []
      else ''VALUE '' @ pack_key pack @ '' '' @ fmt (uint (pack_flags pack)) @ '' '' @ fmt (int (length (pack_value pack)))
        @ (if with_version then '' '' @ fmt (uint (pack_version pack)) else []) @ CRLF @ pack_value pack @ CRLF)"

definition mscan_text :: "(int \<Rightarrow> bytes) \<Rightarrow> bytes \<Rightarrow> bytes list \<Rightarrow> bytes" where
  "mscan_text fmt cursor keys =
     ''VALUE '' @ cursor @ CRLF @ concat (map (\<lambda>k. fmt (int (length k)) @ CRLF @ k @ CRLF) keys)
     @ ''END'' @ CRLF"

fun encodeMemcachedText :: "(int \<Rightarrow> bytes) \<Rightarrow> mc_packet \<Rightarrow> dstate \<times> bytes" where
  "encodeMemcachedText fmt (MemcachedGetPacket packs with_version ctx) =
     (SUCCESS, concat (map (get_text fmt with_version) packs) @ ''END'' @ CRLF)"
| "encodeMemcachedText fmt (MemcachedIncDecPacket status i ctx) = (SUCCESS, fmt (uint i) @ CRLF)"
| "encodeMemcachedText fmt (MemcachedMscanPacket cursor keys) =
     (SUCCESS, mscan_text fmt cursor keys)"
| "encodeMemcachedText fmt (MemcachedStatusPacket status info version ctx) = (SUCCESS, info @ CRLF)"
| "encodeMemcachedText fmt (MemcachedStrPacket str ctx) = (SUCCESS, str @ CRLF)"
| "encodeMemcachedText fmt (MemcachedTouchPacket flags version info ctx) = (SUCCESS, info @ CRLF)"

definition mc_encodeResponse :: "(int \<Rightarrow> bytes) \<Rightarrow> mc_codec \<Rightarrow> mc_packet \<Rightarrow> (dstate \<times> bytes) option" where
  "mc_encodeResponse fmt c p =
     (if is_binary c then encodeMemcachedBinary p else Some (encodeMemcachedText fmt p))"

text \<open>The packets in RESP, which is the same for both versions, and the sizes they announce.\<close>

definition mc_bulk :: "(int \<Rightarrow> bytes) \<Rightarrow> bytes \<Rightarrow> bytes" where
  "mc_bulk fmt x = ''$'' @ fmt (int (length x)) @ CRLF @ x @ CRLF"

definition get_resp :: "(int \<Rightarrow> bytes) \<Rightarrow> mc_pack list \<Rightarrow> bytes" where
  "get_resp fmt packs =
     ''*'' @ fmt (int (length packs)) @ CRLF
     @ concat (map (\<lambda>p. if value_is_null p then ''$'' @ ''-1'' @ CRLF else mc_bulk fmt (pack_value p)) packs)"

definition mscan_resp :: "(int \<Rightarrow> bytes) \<Rightarrow> bytes \<Rightarrow> bytes list \<Rightarrow> bytes" where
  "mscan_resp fmt cursor keys =
     ''*'' @ fmt 2 @ CRLF @ mc_bulk fmt cursor
     @ ''*'' @ fmt (int (length keys)) @ CRLF @ concat (map (mc_bulk fmt) keys)"

fun mc_encodeRESP :: "(int \<Rightarrow> bytes) \<Rightarrow> mc_packet \<Rightarrow> bytes" where
  "mc_encodeRESP fmt (MemcachedGetPacket packs with_version ctx) = get_resp fmt packs"
| "mc_encodeRESP fmt (MemcachedIncDecPacket status i ctx) = '':'' @ fmt (uint i) @ CRLF"
| "mc_encodeRESP fmt (MemcachedMscanPacket cursor keys) = mscan_resp fmt cursor keys"
| "mc_encodeRESP fmt (MemcachedStatusPacket status info version ctx) =
     (if status = RESP_SUCCESS then ''+'' else ''-'') @ info @ CRLF"
| "mc_encodeRESP fmt (MemcachedStrPacket str ctx) = ''+'' @ str @ CRLF"
| "mc_encodeRESP fmt (MemcachedTouchPacket flags version info ctx) = ''+'' @ info @ CRLF"

definition get_size :: "(int \<Rightarrow> bytes) \<Rightarrow> mc_pack list \<Rightarrow> nat" where
  "get_size fmt packs =
     1 + length (fmt (int (length packs))) + 2
     + sum_list (map (\<lambda>p. if value_is_null p then 1 + 2 + 2
         else 1 + length (fmt (int (length (pack_value p)))) + 2 + length (pack_value p) + 2) packs)"

definition mscan_size :: "(int \<Rightarrow> bytes) \<Rightarrow> bytes \<Rightarrow> bytes list \<Rightarrow> nat" where
  "mscan_size fmt cursor keys =
     1 + 1 + 2 + 1 + length (fmt (int (length cursor))) + 2 + length cursor + 2
     + (1 + length (fmt (int (length keys))) + 2)
     + sum_list (map (\<lambda>k. 1 + length (fmt (int (length k))) + 2 + length k + 2) keys)"

fun mc_encodeSize :: "(int \<Rightarrow> bytes) \<Rightarrow> mc_packet \<Rightarrow> nat" where
  "mc_encodeSize fmt (MemcachedGetPacket packs with_version ctx) = get_size fmt packs"
| "mc_encodeSize fmt (MemcachedIncDecPacket status i ctx) = 1 + length (fmt (uint i)) + 2"
| "mc_encodeSize fmt (MemcachedMscanPacket cursor keys) = mscan_size fmt cursor keys"
| "mc_encodeSize fmt (MemcachedStatusPacket status info version ctx) = 1 + length info + 2"
| "mc_encodeSize fmt (MemcachedStrPacket str ctx) = 1 + length str + 2"
| "mc_encodeSize fmt (MemcachedTouchPacket flags version info ctx) = 1 + length info + 2"

lemma mc_encodeSize_exact:
  "length (fmt 2) = 1 \<Longrightarrow> length (mc_encodeRESP fmt p) = mc_encodeSize fmt p"
  by (cases p) (auto simp: get_resp_def mscan_resp_def get_size_def mscan_size_def length_concat mc_bulk_def
      comp_def intro!: arg_cong [of _ _ sum_list] map_cong)

section \<open>Big-endian fields\<close>

definition net16 :: "16 word \<Rightarrow> bytes" where "net16 w = rev (le_bytes 2 (unat w))"
definition net32 :: "32 word \<Rightarrow> bytes" where "net32 w = rev (le_bytes 4 (unat w))"
definition net64 :: "64 word \<Rightarrow> bytes" where "net64 w = rev (le_bytes 8 (unat w))"

lemma length_be [simp]: "length (net16 x) = 2" "length (net32 y) = 4" "length (net64 z) = 8"
  by (simp_all add: net16_def net32_def net64_def)

text \<open>A field that was written big-endian is read back by reading it little-endian and converting.\<close>

lemma read_be:
  "intrev16 (of_nat (le_value (net16 x))) = x"
  "intrev32 (of_nat (le_value (net32 y))) = y"
  "intrev64 (of_nat (le_value (net64 z))) = z"
  unfolding net16_def net32_def net64_def
    le_bytes_intrev16 [symmetric] le_bytes_intrev32 [symmetric] le_bytes_intrev64 [symmetric]
  by (simp_all only: of_nat_le_value_le_bytes len_words intrev16_involution intrev32_involution intrev64_involution)

lemma host_be:
  "le_bytes 2 (unat (intrev16 x)) = net16 x"
  "le_bytes 4 (unat (intrev32 y)) = net32 y"
  "le_bytes 8 (unat (intrev64 z)) = net64 z"
  by (simp_all add: net16_def net32_def net64_def le_bytes_intrev16 le_bytes_intrev32 le_bytes_intrev64)

lemma read_field:
  "length pre = i \<Longrightarrow> intrev16 (field16 i (pre @ net16 x @ post)) = x"
  "length pre = i \<Longrightarrow> intrev32 (field32 i (pre @ net32 y @ post)) = y"
  "length pre = i \<Longrightarrow> intrev64 (field64 i (pre @ net64 z @ post)) = z"
  by (auto simp: field16_def field32_def field64_def read_be)

section \<open>Binary requests, as a client of the protocol writes them\<close>

datatype mc_command =
  Plain_cmd nat
| Flush_cmd "32 word"
| Store_cmd nat bytes "32 word" "32 word" bytes
| Concat_cmd nat bytes bytes
| Delete_cmd bytes
| Get_cmd nat bytes
| Arith_cmd nat bytes "64 word" "64 word" "32 word"
| Sasl_cmd nat bytes bytes
| Touch_cmd nat bytes "32 word"

primrec cmd_opcode :: "mc_command \<Rightarrow> nat" where
  "cmd_opcode (Plain_cmd n) = n"
| "cmd_opcode (Flush_cmd e) = CMD_FLUSH"
| "cmd_opcode (Store_cmd n k f e v) = n"
| "cmd_opcode (Concat_cmd n k v) = n"
| "cmd_opcode (Delete_cmd k) = CMD_DELETE"
| "cmd_opcode (Get_cmd n k) = n"
| "cmd_opcode (Arith_cmd n k d i e) = n"
| "cmd_opcode (Sasl_cmd n k v) = n"
| "cmd_opcode (Touch_cmd n k e) = n"

primrec cmd_extra :: "mc_command \<Rightarrow> bytes" where
  "cmd_extra (Plain_cmd n) = []"
| "cmd_extra (Flush_cmd e) = net32 e"
| "cmd_extra (Store_cmd n k f e v) = net32 f @ net32 e"
| "cmd_extra (Concat_cmd n k v) = []"
| "cmd_extra (Delete_cmd k) = []"
| "cmd_extra (Get_cmd n k) = []"
| "cmd_extra (Arith_cmd n k d i e) = net64 d @ net64 i @ net32 e"
| "cmd_extra (Sasl_cmd n k v) = []"
| "cmd_extra (Touch_cmd n k e) = net32 e"

primrec cmd_key :: "mc_command \<Rightarrow> bytes" where
  "cmd_key (Plain_cmd n) = []"
| "cmd_key (Flush_cmd e) = []"
| "cmd_key (Store_cmd n k f e v) = k"
| "cmd_key (Concat_cmd n k v) = k"
| "cmd_key (Delete_cmd k) = k"
| "cmd_key (Get_cmd n k) = k"
| "cmd_key (Arith_cmd n k d i e) = k"
| "cmd_key (Sasl_cmd n k v) = k"
| "cmd_key (Touch_cmd n k e) = k"

primrec cmd_value :: "mc_command \<Rightarrow> bytes" where
  "cmd_value (Plain_cmd n) = []"
| "cmd_value (Flush_cmd e) = []"
| "cmd_value (Store_cmd n k f e v) = v"
| "cmd_value (Concat_cmd n k v) = v"
| "cmd_value (Delete_cmd k) = []"
| "cmd_value (Get_cmd n k) = []"
| "cmd_value (Arith_cmd n k d i e) = []"
| "cmd_value (Sasl_cmd n k v) = v"
| "cmd_value (Touch_cmd n k e) = []"

text \<open>The words the server is to see.\<close>

primrec cmd_words :: "64 word \<Rightarrow> mc_command \<Rightarrow> bytes list" where
  "cmd_words cas (Plain_cmd n) = [memcachedCommandTable ! n]"
| "cmd_words cas (Flush_cmd e) = ''memcache_flush_all'' # (if e = 0 then [] else [dec_word e])"
| "cmd_words cas (Store_cmd n k f e v) =
     [memcachedCommandTable ! n, k, dec_word f, dec_word e, dec_nat (length v), v, dec_word cas]"
| "cmd_words cas (Concat_cmd n k v) =
     [memcachedCommandTable ! n, k, ''0'', ''0'', dec_nat (length v), v, dec_word cas]"
| "cmd_words cas (Delete_cmd k) = [''memcache_delete'', k, dec_word cas]"
| "cmd_words cas (Get_cmd n k) = [memcachedCommandTable ! n, k]"
| "cmd_words cas (Arith_cmd n k d i e) =
     [memcachedCommandTable ! n, k, dec_word d, dec_word i, dec_word e, dec_word cas]"
| "cmd_words cas (Sasl_cmd n k v) = [memcachedCommandTable ! n, k, v]"
| "cmd_words cas (Touch_cmd n k e) = [memcachedCommandTable ! n, k, dec_word e]"

primrec cmd_opcodes :: "mc_command \<Rightarrow> nat set" where
  "cmd_opcodes (Plain_cmd n) = {CMD_VERSION, CMD_QUIT, CMD_NOOP, CMD_SASL_LIST_MECHS}"
| "cmd_opcodes (Flush_cmd e) = {CMD_FLUSH}"
| "cmd_opcodes (Store_cmd n k f e v) = {CMD_SET, CMD_ADD, CMD_REPLACE}"
| "cmd_opcodes (Concat_cmd n k v) = {CMD_APPEND, CMD_PREPEND}"
| "cmd_opcodes (Delete_cmd k) = {CMD_DELETE}"
| "cmd_opcodes (Get_cmd n k) = {CMD_GET, CMD_GETK}"
| "cmd_opcodes (Arith_cmd n k d i e) = {CMD_INCREMENT, CMD_DECREMENT}"
| "cmd_opcodes (Sasl_cmd n k v) = {CMD_SASL_AUTH, CMD_SASL_STEP}"
| "cmd_opcodes (Touch_cmd n k e) = {CMD_TOUCH, CMD_GAT}"

definition keyless :: "mc_command \<Rightarrow> bool" where
  "keyless m \<longleftrightarrow> (\<exists>n. m = Plain_cmd n) \<or> (\<exists>e. m = Flush_cmd e)"

definition cmd_body :: "mc_command \<Rightarrow> bytes" where
  "cmd_body m = cmd_extra m @ cmd_key m @ cmd_value m"

definition cmd_valid :: "nat \<Rightarrow> mc_command \<Rightarrow> bool" where
  "cmd_valid max_item m \<longleftrightarrow> cmd_opcode m \<in> cmd_opcodes m \<and> length (cmd_key m) \<le> KEY_MAX_LENGTH
     \<and> (cmd_key m = [] \<longleftrightarrow> keyless m) \<and> length (cmd_body m) < 2 ^ 32
     \<and> ((\<exists>n k f e v. m = Store_cmd n k f e v) \<longrightarrow> length (cmd_value m) \<le> max_item)"

definition request_wire :: "nat \<Rightarrow> bytes \<Rightarrow> 64 word \<Rightarrow> mc_command \<Rightarrow> bytes" where
  "request_wire opcode opaque cas m =
     [char_of REQ_FLAG, char_of opcode] @ net16 (of_nat (length (cmd_key m)))
     @ [char_of (length (cmd_extra m)), NUL, NUL, NUL] @ net32 (of_nat (length (cmd_body m)))
     @ opaque @ net64 cas @ cmd_body m"

lemma cmd_extra_length: "length (cmd_extra m) \<le> 20"
  by (cases m) simp_all

lemma request_wire_fields:
  fixes rest :: bytes and cas :: "64 word"
  assumes "length opaque = 4" "length (cmd_key m) < 2 ^ 16" "length (cmd_body m) < 2 ^ 32" "opcode < 256"
  defines "w \<equiv> request_wire opcode opaque cas m @ rest"
  shows "unat (intrev16 (field16 2 w)) = length (cmd_key m)"
    "code (w ! 4) = length (cmd_extra m)" "unat (intrev32 (field32 8 w)) = length (cmd_body m)"
    "field32 12 w = of_nat (le_value opaque)" "intrev64 (field64 16 w) = cas"
    "code (w ! 0) = REQ_FLAG" "code (w ! 1) = opcode" "drop HEADER_LEN w = cmd_body m @ rest"
    "length w = HEADER_LEN + length (cmd_body m) + length rest"
proof -
  have "intrev16 (field16 2 w) = of_nat (length (cmd_key m))"
    unfolding w_def request_wire_def append_assoc by (rule read_field(1)) simp
  then show "unat (intrev16 (field16 2 w)) = length (cmd_key m)"
    using assms(2) by (simp add: unat_of_nat)
  define p8 where "p8 = [char_of REQ_FLAG, char_of opcode] @ net16 (of_nat (length (cmd_key m)))
     @ [char_of (length (cmd_extra m)), NUL, NUL, NUL]"
  have w8: "w = p8 @ net32 (of_nat (length (cmd_body m))) @ opaque @ net64 cas @ cmd_body m @ rest" "length p8 = 8"
    by (simp_all add: p8_def w_def request_wire_def)
  then have "intrev32 (field32 8 w) = of_nat (length (cmd_body m))"
    by (simp only: read_field(2))
  then show "unat (intrev32 (field32 8 w)) = length (cmd_body m)"
    using assms(3) by (simp add: unat_of_nat)
  show "field32 12 w = of_nat (le_value opaque)"
    using assms(1) w8 by (simp add: field32_def)
  have "w = (p8 @ net32 (of_nat (length (cmd_body m))) @ opaque) @ net64 cas @ (cmd_body m @ rest)"
    by (simp add: w8)
  then show "intrev64 (field64 16 w) = cas"
    using w8(2) assms(1) by (simp only: read_field(3) length_append length_be)
  show "code (w ! 4) = length (cmd_extra m)"
    using cmd_extra_length [of m] by (simp add: w_def request_wire_def nth_append code_char_of)
  show "code (w ! 0) = REQ_FLAG" "code (w ! 1) = opcode"
    using assms(4) by (simp_all add: w_def request_wire_def code_char_of REQ_FLAG_def)
  show "drop HEADER_LEN w = cmd_body m @ rest" "length w = HEADER_LEN + length (cmd_body m) + length rest"
    using assms(1) by (simp_all add: w_def request_wire_def HEADER_LEN_def)
qed

text \<open>Reading the body of a request.\<close>

lemma load_body:
  assumes "drop HEADER_LEN w = a @ x @ y" "length w = HEADER_LEN + length (a @ x @ y)"
  shows "load (HEADER_LEN + length a) (length x) w = Some x"
proof -
  have "drop (HEADER_LEN + length a) w = drop (length a) (drop HEADER_LEN w)" by (simp add: add.commute)
  with assms show ?thesis by simp
qed

lemma field_body:
  "field32 (HEADER_LEN + i) w = field32 i (drop HEADER_LEN w)"
  "field64 (HEADER_LEN + i) w = field64 i (drop HEADER_LEN w)"
  "field32 HEADER_LEN w = field32 0 (drop HEADER_LEN w)"
  "field64 HEADER_LEN w = field64 0 (drop HEADER_LEN w)"
  by (simp_all add: field32_def field64_def add.commute)

lemma uint32_diff:
  "n < 2 ^ 32 \<Longrightarrow> a + b \<le> n \<Longrightarrow> unat (of_nat n - of_nat a - of_nat b :: 32 word) = n - a - b"
proof -
  assume "n < 2 ^ 32" "a + b \<le> n"
  then have "(of_nat n - of_nat a - of_nat b :: 32 word) = of_nat (n - a - b)" by (simp add: of_nat_diff)
  with \<open>n < 2 ^ 32\<close> show ?thesis by (simp add: unat_of_nat)
qed

lemma binary_argv_wire:
  assumes valid: "cmd_valid max_item m" and w: "drop HEADER_LEN w = cmd_body m @ rest"
    and len: "length w = HEADER_LEN + length (cmd_body m) + length rest"
  shows "binary_argv max_item (cmd_opcode m) (length (cmd_key m)) (length (cmd_extra m)) (length (cmd_body m)) cas w
    = Some (Inr (Some (cmd_words cas m)))"
proof -
  have key: "load (HEADER_LEN + length (cmd_extra m)) (length (cmd_key m)) w = Some (cmd_key m)"
    using w len by (intro load_body [where y = "cmd_value m @ rest"]) (simp_all add: cmd_body_def)
  have val: "load (HEADER_LEN + length (cmd_extra m) + length (cmd_key m)) (length (cmd_value m)) w = Some (cmd_value m)"
    using w len load_body [of w "cmd_extra m @ cmd_key m" "cmd_value m" rest]
    by (simp add: cmd_body_def add.assoc)
  have size: "length (cmd_body m) < 2 ^ 32" using valid by (simp add: cmd_valid_def)
  have left: "unat (of_nat (length (cmd_body m)) - of_nat (length (cmd_key m)) - of_nat (length (cmd_extra m)) :: 32 word)
      = length (cmd_value m)"
    using uint32_diff [OF size, of "length (cmd_key m)" "length (cmd_extra m)"] by (simp add: cmd_body_def)
  have left0: "unat (of_nat (length (cmd_body m)) - of_nat (length (cmd_key m)) :: 32 word) = length (cmd_value m)"
    if "cmd_extra m = []"
    using left that by simp
  note facts = valid [unfolded cmd_valid_def keyless_def] key val left left0 w
  show ?thesis
  proof (cases m)
    case (Store_cmd n k f e v)
    have f: "intrev32 (field32 HEADER_LEN w) = f" "intrev32 (field32 (HEADER_LEN + 4) w) = e"
      using w read_field(2) [of "[]" 0 f "net32 e @ k @ v @ rest"] read_field(2) [of "net32 f" 4 e "k @ v @ rest"]
      by (simp_all add: field_body Store_cmd cmd_body_def)
    from facts Store_cmd f show ?thesis
      by (auto simp: binary_argv_def Let_def cmd_defs dec_word_def)
  next
    case (Flush_cmd e)
    have "intrev32 (field32 HEADER_LEN w) = e"
      using w read_field(2) [of "[]" 0 e rest] by (simp add: field_body Flush_cmd cmd_body_def)
    with facts Flush_cmd show ?thesis
      by (auto simp: binary_argv_def Let_def cmd_defs cmd_body_def memcachedCommandTable_def)
  next
    case (Touch_cmd n k e)
    have "intrev32 (field32 HEADER_LEN w) = e"
      using w read_field(2) [of "[]" 0 e "k @ rest"] by (simp add: field_body Touch_cmd cmd_body_def)
    with facts Touch_cmd show ?thesis
      by (auto simp: binary_argv_def Let_def cmd_defs cmd_body_def)
  next
    case (Arith_cmd n k d i e)
    have "intrev64 (field64 HEADER_LEN w) = d" "intrev64 (field64 (HEADER_LEN + 8) w) = i"
      "intrev32 (field32 (HEADER_LEN + 16) w) = e"
      using w read_field(3) [of "[]" 0 d "net64 i @ net32 e @ k @ rest"]
        read_field(3) [of "net64 d" 8 i "net32 e @ k @ rest"] read_field(2) [of "net64 d @ net64 i" 16 e "k @ rest"]
      by (simp_all add: field_body Arith_cmd cmd_body_def)
    with facts Arith_cmd show ?thesis
      by (auto simp: binary_argv_def Let_def cmd_defs cmd_body_def)
  next
    case (Concat_cmd n k v)
    with facts show ?thesis by (auto simp: binary_argv_def Let_def cmd_defs dec_word_def)
  next
    case (Sasl_cmd n k v)
    with facts show ?thesis by (auto simp: binary_argv_def Let_def cmd_defs dec_word_def)
  next
    case (Delete_cmd k)
    with facts show ?thesis
      by (auto simp: binary_argv_def Let_def cmd_defs cmd_body_def memcachedCommandTable_def)
  qed (use facts in \<open>auto simp: binary_argv_def Let_def cmd_defs cmd_body_def\<close>)
qed

text \<open>C32: Every well-formed binary request, quiet or not, is decoded to the words of its command; exactly
  its bytes are consumed.\<close>

theorem mc_binary_request:
  assumes "cmd_valid max_item m" "changeQuietCmd2Cmd opcode = (q, cmd_opcode m)" "opcode < 256"
    and "length opaque = 4"
  shows "mc_decodeRequest atoi max_item c (request_wire opcode opaque cas m @ rest) =
    (let ctx = \<lparr>ctx_opcode = opcode, ctx_opaque = of_nat (le_value opaque), ctx_cas = cas\<rparr>
     in Some (SUCCESS, c\<lparr>codec_err := [], is_binary := True, codec_context := Some ctx\<rparr>,
          Some \<lparr>mc_argv = cmd_words cas m, packet_size = HEADER_LEN + length (cmd_body m),
                request_context = Some ctx, quiet = q\<rparr>, rest))"
proof -
  define w where "w = request_wire opcode opaque cas m @ rest"
  have key: "length (cmd_key m) \<le> KEY_MAX_LENGTH" "length (cmd_body m) < 2 ^ 32" "length (cmd_key m) < 2 ^ 16"
    using assms(1) by (auto simp: cmd_valid_def KEY_MAX_LENGTH_def)
  note f = request_wire_fields [OF assms(4) key(3,2) assms(3), of cas rest, folded w_def]
  have "w \<noteq> []" using f(9) by (auto simp: HEADER_LEN_def)
  moreover from this f(6) have "code (hd w) = REQ_FLAG" by (simp add: hd_conv_nth)
  moreover have "drop (HEADER_LEN + length (cmd_body m)) w = rest"
    using f(8) by (metis add.commute append_eq_conv_conj drop_drop)
  ultimately show ?thesis
    using key(1) binary_argv_wire [OF assms(1) f(8,9), of cas] f assms(2)
    by (simp add: mc_decodeRequest_def processBinary_def Let_def flip: w_def)
qed

theorem mc_binary_request_witness:
  "mc_decodeRequest (\<lambda>_. (False, 0)) 1024 \<lparr>codec_err = ''x'', codec_context = None, is_binary = False\<rparr>
     (request_wire 0x11 ''abcd'' 7 (Store_cmd CMD_SET ''k'' 1 0 ''v'') @ ''next'') =
    (let ctx = \<lparr>ctx_opcode = 0x11, ctx_opaque = of_nat (le_value ''abcd''), ctx_cas = 7\<rparr>
     in Some (SUCCESS, \<lparr>codec_err = [], codec_context = Some ctx, is_binary = True\<rparr>,
          Some \<lparr>mc_argv = [''memcache_set'', ''k'', ''1'', ''0'', ''1'', ''v'', ''7''], packet_size = 34,
                request_context = Some ctx, quiet = True\<rparr>, ''next''))"
  using mc_binary_request [where max_item = "1024" and m = "Store_cmd CMD_SET ''k'' 1 0 ''v''" and opcode = "0x11"
      and q = "True" and opaque = "''abcd''" and atoi = "\<lambda>_. (False, 0)" and cas = "7" and rest = "''next''"
      and c = "\<lparr>codec_err = ''x'', codec_context = None, is_binary = False\<rparr>"]
  by (simp add: cmd_valid_def keyless_def cmd_defs cmd_body_def changeQuietCmd2Cmd_def KEY_MAX_LENGTH_def
      Let_def HEADER_LEN_def memcachedCommandTable_def dec_word_def dec_nat.simps)

text \<open>A request that has not arrived whole is waited for, and nothing is consumed.\<close>

lemma mc_binary_waits:
  assumes "cmd_valid max_item m" "opcode < 256" "length opaque = 4"
    and "n < length (request_wire opcode opaque cas m)"
  shows "\<exists>c'. mc_decodeRequest atoi max_item c (take n (request_wire opcode opaque cas m))
    = Some (AGAIN, c', None, take n (request_wire opcode opaque cas m))"
proof -
  define w where "w = request_wire opcode opaque cas m"
  have key: "length (cmd_key m) \<le> KEY_MAX_LENGTH" "length (cmd_body m) < 2 ^ 32" "length (cmd_key m) < 2 ^ 16"
    using assms(1) by (auto simp: cmd_valid_def KEY_MAX_LENGTH_def)
  note f = request_wire_fields [OF assms(3) key(3,2) assms(2), of cas "[]", simplified, folded w_def]
  have "w \<noteq> []" using f(9) by (auto simp: HEADER_LEN_def)
  then have hd_w: "code (hd (take n w)) = REQ_FLAG" if "0 < n"
    using f(6) that by (simp add: hd_conv_nth hd_take)
  show ?thesis
  proof (cases "n < HEADER_LEN")
    case True
    then show ?thesis
    proof (cases "n = 0")
      case False
      then have "code (hd (take n w)) = REQ_FLAG" "take n w \<noteq> []" "length (take n w) < HEADER_LEN"
        using hd_w True \<open>w \<noteq> []\<close> by auto
      then show ?thesis by (simp add: mc_decodeRequest_def processBinary_def Let_def flip: w_def)
    qed (simp add: mc_decodeRequest_def)
  next
    case False
    then have n: "HEADER_LEN \<le> n" "n < HEADER_LEN + length (cmd_body m)"
      using assms(4) f(9) by (simp_all add: w_def)
    then have same: "field16 2 (take n w) = field16 2 w" "field32 8 (take n w) = field32 8 w"
      by (auto simp: field16_def field32_def HEADER_LEN_def drop_take min_def)
    have hd: "code (hd (take n w)) = REQ_FLAG" "take n w \<noteq> []" "length (take n w) = n"
      using hd_w f(9) n \<open>w \<noteq> []\<close> by (auto simp: HEADER_LEN_def)
    have "processBinary max_item c' (take n w) = Some (AGAIN, c', None, take n w)" for c'
      unfolding processBinary_def Let_def same f(1,3) hd(3) using n key(1) by simp
    with hd show ?thesis by (simp add: mc_decodeRequest_def Let_def flip: w_def)
  qed
qed

section \<open>Requests that crash the server\<close>

text \<open>An \<open>append\<close>, \<open>prepend\<close> or \<open>sasl\<close> request whose body is announced shorter than its key.\<close>

definition cut_key :: "bytes \<Rightarrow> bool" where
  "cut_key s \<longleftrightarrow>
     (let keylen = unat (intrev16 (field16 2 s));
          bodylen = unat (intrev32 (field32 8 s));
          opcode = snd (changeQuietCmd2Cmd (code (s ! 1)))
      in HEADER_LEN + bodylen \<le> length s \<and> keylen \<le> KEY_MAX_LENGTH \<and> code (s ! 4) = 0 \<and> bodylen < keylen
         \<and> opcode \<in> {CMD_APPEND, CMD_PREPEND, CMD_SASL_AUTH, CMD_SASL_STEP})"

lemma uint32_wrap:
  assumes "n < a" "a < 2 ^ 31"
  shows "unat (of_nat n - of_nat a :: 32 word) = 2 ^ 32 - (a - n)"
proof -
  have "(of_nat n - of_nat a :: 32 word) = - of_nat (a - n)" using assms by (simp add: of_nat_diff)
  also have "\<dots> = of_nat (2 ^ 32) - of_nat (a - n)" by simp
  also have "\<dots> = of_nat (2 ^ 32 - (a - n))" using assms by (intro of_nat_diff [symmetric]) simp
  finally show ?thesis using assms by (simp only: unat_of_nat) simp
qed

lemma load_eq_None: "load i n s = None \<longleftrightarrow> length s < i + n"
  by (auto simp: load_def)

lemma binary_argv_fault:
  assumes "HEADER_LEN + bodylen \<le> length s" "length s < 2 ^ 32" "keylen \<le> KEY_MAX_LENGTH" "extlen < 256"
    and "max_item < 2 ^ 31"
  shows "binary_argv max_item opcode keylen extlen bodylen cas s = None \<longleftrightarrow>
    extlen = 0 \<and> bodylen < keylen \<and> opcode \<in> {CMD_APPEND, CMD_PREPEND, CMD_SASL_AUTH, CMD_SASL_STEP}"
proof -
  have body: "bodylen < 2 ^ 32" using assms(1,2) by simp
  have diff: "unat (of_nat bodylen - of_nat a :: 32 word) = (if a \<le> bodylen then bodylen - a else 2 ^ 32 - (a - bodylen))"
    if "a < 2 ^ 31" for a
    using uint32_diff [OF body, of a 0] uint32_wrap [of bodylen a] that by (auto simp: not_le)
  have store: "length s \<ge> HEADER_LEN + 8 + keylen + unat (of_nat bodylen - of_nat keylen - of_nat 8 :: 32 word)"
    if "unat (of_nat bodylen - of_nat keylen - of_nat 8 :: 32 word) \<le> max_item"
  proof -
    have u: "unat (of_nat bodylen - of_nat keylen - of_nat 8 :: 32 word)
        = (if keylen + 8 \<le> bodylen then bodylen - (keylen + 8) else 2 ^ 32 - (keylen + 8 - bodylen))"
      unfolding diff_diff_eq of_nat_add [symmetric]
      by (rule diff) (use assms(3) in \<open>simp add: KEY_MAX_LENGTH_def\<close>)
    show ?thesis
      using that assms(1,3,5) unfolding u by (auto simp: KEY_MAX_LENGTH_def split: if_splits)
  qed
  have concat: "length s < HEADER_LEN + keylen + unat (of_nat bodylen - of_nat keylen :: 32 word) \<longleftrightarrow> bodylen < keylen"
    using diff [of keylen] assms(1-3) by (auto simp: KEY_MAX_LENGTH_def split: if_splits)
  note simps = binary_argv_def Let_def cmd_defs bind_eq_None_conv load_eq_None
  have key: "\<not> length s < HEADER_LEN + extlen + keylen" if "keylen + extlen \<le> bodylen"
    using that assms(1) by simp
  show ?thesis
    using store concat key assms(1) by (auto simp: simps not_less split: if_splits)
qed

text \<open>A binary request crashes the decoder exactly when it is one of these: the codec reads the
  key and a value of four gigabytes past the end of the request.\<close>

lemma cut_key_crashes:
  assumes "length s < 2 ^ 32" "max_item < 2 ^ 31" "s \<noteq> []" "code (hd s) = REQ_FLAG"
  shows "mc_decodeRequest atoi max_item c s = None \<longleftrightarrow> HEADER_LEN \<le> length s \<and> cut_key s"
proof -
  have fault: "binary_argv max_item opcode keylen (code (s ! 4)) bodylen cas s = None \<longleftrightarrow>
      code (s ! 4) = 0 \<and> bodylen < keylen \<and> opcode \<in> {CMD_APPEND, CMD_PREPEND, CMD_SASL_AUTH, CMD_SASL_STEP}"
    if "HEADER_LEN + bodylen \<le> length s" "keylen \<le> KEY_MAX_LENGTH" for opcode keylen bodylen cas
    by (rule binary_argv_fault [OF that(1) assms(1) that(2) _ assms(2)]) simp
  show ?thesis
    using assms(3,4) fault
    by (auto simp: mc_decodeRequest_def processBinary_def cut_key_def Let_def mc_fail_def bind_eq_None_conv
        split: prod.splits sum.splits option.splits)
qed

section \<open>Replies on the request_wire\<close>

text \<open>A frame is as long as its header says.\<close>

definition framed :: "bytes \<Rightarrow> bool" where
  "framed bs \<longleftrightarrow> HEADER_LEN \<le> length bs \<and> length bs = HEADER_LEN + unat (intrev32 (field32 8 bs))"

fun reply_fits :: "mc_packet \<Rightarrow> bool" where
  "reply_fits (MemcachedGetPacket packs with_version ctx) \<longleftrightarrow>
     (\<forall>p\<in>set packs. length (pack_key p) < 2 ^ 16 \<and> length (pack_key p) + length (pack_value p) + 4 < 2 ^ 32)"
| "reply_fits (MemcachedStrPacket str ctx) \<longleftrightarrow> length str < 2 ^ 32"
| "reply_fits _ \<longleftrightarrow> True"

lemma length_resp_header [simp]: "length (resp_header op k e st b q c) = HEADER_LEN"
  by (simp add: resp_header_def HEADER_LEN_def)

lemma header_bodylen: "field32 8 (resp_header op k e st b q c @ rest) = b"
  by (simp add: field32_def resp_header_def of_nat_le_value_le_bytes len_words del: le_value_le_bytes)

lemma header_opaque: "take 4 (drop 12 (resp_header op k e st b q c @ rest)) = le_bytes 4 (unat q)"
  by (simp add: resp_header_def)

lemma framed_header:
  "framed (resp_header op k e st b q c @ rest) \<longleftrightarrow> length rest = unat (intrev32 b)"
  by (simp add: framed_def header_bodylen)

lemma framed_alone: "framed (resp_header op k e st b q c) \<longleftrightarrow> unat (intrev32 b) = 0"
  using framed_header [of op k e st b q c "[]"] by auto

lemma intrev_0 [simp]: "intrev32 0 = 0" "intrev16 0 = 0"
proof -
  have "rev (le_bytes 4 0) = le_bytes 4 0" "rev (le_bytes 2 0) = le_bytes 2 0"
    by (simp_all add: le_bytes_def upt_rec)
  then show "intrev32 0 = 0" "intrev16 0 = 0"
    by (simp_all add: intrev32_def intrev16_def memrev_rev)
qed

lemma statusString_length: "length (statusString st) < 2 ^ 32"
  by (cases st) simp_all

lemma intrev16_eq_0: "intrev16 x = 0 \<longleftrightarrow> x = 0"
  by (metis intrev16_involution intrev_0(2))

lemma get_framed:
  assumes "length (pack_key p) < 2 ^ 16" "length (pack_key p) + length (pack_value p) + 4 < 2 ^ 32"
  shows "framed (get_binary ctx p)"
proof -
  have "(of_nat (length (pack_key p)) :: 16 word) = 0 \<longleftrightarrow> pack_key p = []"
    using assms(1) by (simp add: word_unat_eq_iff unat_of_nat)
  moreover have "unat (of_nat k :: 32 word) = k" if "k < 2 ^ 32" for k
    using that by (simp add: unat_of_nat)
  ultimately show ?thesis
    using assms by (simp add: get_binary_def Let_def framed_header framed_alone intrev32_involution intrev16_eq_0
        del: of_nat_add)
qed

text \<open>Every binary reply is as long as its header says, except the reply to a touch, which has four
  bytes more than it announces.\<close>

lemma only_touch_is_unframed:
  assumes "encodeMemcachedBinary p = Some (SUCCESS, bs)" "reply_fits p"
  shows "framed bs \<longleftrightarrow> (\<nexists>flags version info ctx. p = MemcachedTouchPacket flags version info ctx)"
proof (cases p)
  case (MemcachedGetPacket packs with_version ctx)
  with assms obtain q where "packs = [q]" "bs = get_binary (the ctx) q"
    by (auto simp: bind_eq_Some_conv ensure_def length_Suc_conv split: if_splits)
  with assms(2) MemcachedGetPacket show ?thesis by (simp add: get_framed)
next
  case (MemcachedStatusPacket status info version ctx)
  with assms show ?thesis
    using statusString_length [of status]
    by (auto simp: binary_defs framed_header framed_alone intrev32_involution unat_of_nat Let_def split: if_splits)
next
  case (MemcachedTouchPacket flags version info ctx)
  with assms show ?thesis by (auto simp: binary_defs framed_header)
qed (use assms in \<open>auto simp: binary_defs framed_header intrev32_involution unat_of_nat\<close>)

text \<open>The opaque field is kept as it arrived and converted once, so it comes back reversed.\<close>

lemma opaque_comes_back_reversed:
  assumes "length opaque = 4" "ctx_opaque ctx = of_nat (le_value opaque)"
    and "encodeMemcachedBinary (MemcachedStrPacket str (Some ctx)) = Some (SUCCESS, bs)"
  shows "take 4 (drop 12 bs) = rev opaque"
proof -
  have "take 4 (drop 12 bs) = rev (le_bytes 4 (unat (of_nat (le_value opaque) :: 32 word)))"
    using assms(2,3) by (auto simp: str_binary_def header_opaque le_bytes_intrev32 simp del: take_append drop_append)
  also have "\<dots> = rev opaque"
    using assms(1) by (simp add: unat_of_le_value)
  finally show ?thesis .
qed

text \<open>A \<open>getkq\<close> is answered without its key: its context has the quiet opcode.\<close>

lemma quiet_getk_has_no_key:
  "\<not> value_is_null p \<Longrightarrow> ctx_opcode ctx = 0x0d
   \<Longrightarrow> drop (HEADER_LEN + 4) (get_binary ctx p) = pack_value p"
  by (simp add: get_binary_def Let_def CMD_GETK_def)

section \<open>Text requests, as a client writes them\<close>

definition clean_word :: "bytes \<Rightarrow> bool" where
  "clean_word w \<longleftrightarrow> w \<noteq> [] \<and> CHR '' '' \<notin> set w \<and> CR \<notin> set w \<and> LF \<notin> set w \<and> NUL \<notin> set w"

definition words_line :: "bytes list \<Rightarrow> bytes" where
  "words_line ws = join (CHR '' '') ws"

lemma splitArgs_word:
  "\<lbrakk>CHR '' '' \<notin> set w; CR \<notin> set w; NUL \<notin> set w; length w \<le> n\<rbrakk>
   \<Longrightarrow> mc_splitArgs n (w @ cs) cur args = mc_splitArgs (n - length w) cs (cur @ w) args"
  by (induction w arbitrary: n cur) auto

lemma splitArgs_line:
  "\<lbrakk>ws \<noteq> []; \<forall>w\<in>set ws. clean_word w\<rbrakk>
   \<Longrightarrow> mc_splitArgs (length (words_line ws) + 1) (words_line ws @ CR # LF # rest) [] args = Some (args @ ws)"
proof (induction ws arbitrary: args rule: induct_list012)
  case (2 w)
  then show ?case
    by (subst words_line_def, subst splitArgs_word) (auto simp: clean_word_def words_line_def)
next
  case (3 w v ws)
  have line: "words_line (w # v # ws) = w @ CHR '' '' # words_line (v # ws)"
    by (simp add: words_line_def join_Cons)
  have "mc_splitArgs (length (words_line (w # v # ws)) + 1) (words_line (w # v # ws) @ CR # LF # rest) [] args
      = mc_splitArgs (length (words_line (v # ws)) + 1) (words_line (v # ws) @ CR # LF # rest) [] (args @ [w])"
    using 3 unfolding line append_assoc
    by (subst splitArgs_word) (auto simp: clean_word_def)
  with "3.IH"(2) "3.prems" show ?case by simp
qed simp

lemma line_no_LF: "\<forall>w\<in>set ws. clean_word w \<Longrightarrow> LF \<notin> set (words_line ws)"
  by (induction ws rule: induct_list012) (auto simp: words_line_def join_Cons clean_word_def)

lemma find_line_end:
  "\<forall>w\<in>set ws. clean_word w
   \<Longrightarrow> find_byte LF (words_line ws @ CR # LF # rest) = Some (length (words_line ws) + 1)"
  using find_byte_line [of LF "words_line ws @ [CR]" rest] line_no_LF [of ws] by simp

text \<open>The first line of a text request is its words.\<close>

lemma processText_line:
  fixes rest :: bytes
  assumes "ws \<noteq> []" "\<forall>w\<in>set ws. clean_word w"
  defines "s \<equiv> words_line ws @ CR # LF # rest"
  shows "processText atoi max_item c s = text_command atoi max_item c ws (length (words_line ws)) 2 s"
proof -
  have eol: "find_byte LF s = Some (length (words_line ws) + 1)"
    unfolding s_def by (rule find_line_end [OF assms(2)])
  have cr: "s ! length (words_line ws) = CR" by (simp add: s_def)
  have args: "mc_splitArgs (Suc (length (words_line ws))) s [] [] = Some ws"
    using splitArgs_line [OF assms(1,2), of rest "[]"] by (simp add: s_def)
  show ?thesis by (simp add: processText_def eol cr args)
qed

lemma text_is_text:
  assumes "ws \<noteq> []" "\<forall>w\<in>set ws. clean_word w" "code (hd (hd ws)) \<noteq> REQ_FLAG"
  shows "mc_decodeRequest atoi max_item c (words_line ws @ CR # LF # rest)
    = text_command atoi max_item (c\<lparr>codec_err := [], is_binary := False\<rparr>) ws (length (words_line ws)) 2
        (words_line ws @ CR # LF # rest)"
proof -
  have "words_line ws \<noteq> []"
    using assms(1,2) by (auto simp: words_line_def join_eq_Nil clean_word_def)
  moreover have "hd (words_line ws) = hd (hd ws)"
    using assms(1,2) by (cases ws) (auto simp: words_line_def join_def clean_word_def)
  ultimately show ?thesis
    using assms(3) processText_line [OF assms(1,2), of atoi max_item "c\<lparr>codec_err := [], is_binary := False\<rparr>" rest]
    by (simp add: mc_decodeRequest_def Let_def)
qed

lemma find_byte_inside: "c \<in> set xs \<Longrightarrow> \<exists>k. find_byte c (xs @ ys) = Some k \<and> k < length xs"
  by (induction xs) (auto simp: less_Suc_eq_0_disj)

text \<open>C33: A storage command with its data chunk is decoded to its words, its value and, for all but
  \<open>cas\<close>, the version, and exactly its bytes are consumed, if there is no line feed in the value. With
  one in it the announced length is held against the first line of the value: the request is refused
  and nothing is consumed.\<close>

theorem mc_text_store:
  assumes "\<forall>w\<in>set ws. clean_word w" "5 \<le> length ws" "length (ws ! 1) \<le> KEY_MAX_LENGTH"
    and "hd ws \<in> set STORE_WORDS" "atoi (ws ! 4) = (True, int (length v))" "length v \<le> max_item"
  shows "\<exists>n. mc_decodeRequest atoi max_item c (words_line ws @ CRLF @ v @ CRLF @ rest) =
    (if LF \<in> set v
     then Some (ERROR, c\<lparr>codec_err := ''CLIENT_ERROR bad data chunk'', is_binary := False\<rparr>, None,
            words_line ws @ CRLF @ v @ CRLF @ rest)
     else Some (SUCCESS, c\<lparr>codec_err := [], is_binary := False\<rparr>,
       Some \<lparr>mc_argv = (''memcache_'' @ hd ws) # tl ws @ [v] @ (if hd ws = ''cas'' then [] else [''-1'']),
             packet_size = n, request_context = None, quiet = False\<rparr>, rest))"
proof -
  define s where "s = words_line ws @ CRLF @ v @ CRLF @ rest"
  have ne: "ws \<noteq> []" using assms(2) by auto
  have no_flag: "code (hd (hd ws)) \<noteq> REQ_FLAG"
    using assms(4) by (auto simp: STORE_WORDS_def REQ_FLAG_def code_def)
  have tail: "drop (length (words_line ws) + 2) s = v @ CR # LF # rest" by (simp add: s_def)
  have loaded: "load (length (words_line ws) + 2) (length v) s = Some v"
    by (simp add: s_def)
  have room: "length (words_line ws) + 2 \<le> length s" by (simp add: s_def)
  have run: "mc_decodeRequest atoi max_item c s
      = text_command atoi max_item (c\<lparr>codec_err := [], is_binary := False\<rparr>) ws (length (words_line ws)) 2 s"
    using text_is_text [OF ne assms(1) no_flag, of atoi max_item c "v @ CRLF @ rest"] by (simp add: s_def)
  show ?thesis
  proof (cases "LF \<in> set v")
    case True
    from find_byte_inside [OF this, of "CR # LF # rest"] obtain k where k: "find_byte LF (v @ CR # LF # rest) = Some k" "k < length v"
      by blast
    then have "data_chunk atoi (Some max_item) (ws ! 4) (length (words_line ws)) s = Some (Inl (Chunk_error ''CLIENT_ERROR bad data chunk''))"
      unfolding data_chunk_def assms(5) Let_def prod.case tail k(1) option.case using room by simp
    with run assms(2-4) ne True show ?thesis
      unfolding s_def [symmetric] by (cases c) (auto simp: text_command_def mc_fail_def)
  next
    case False
    have eol: "find_byte LF (v @ CR # LF # rest) = Some (length v + 1)"
      using find_byte_line [of LF "v @ [CR]" rest] False by simp
    have chunk: "data_chunk atoi (Some max_item) (ws ! 4) (length (words_line ws)) s = Some (Inr (length v, v))"
      unfolding data_chunk_def assms(5) Let_def prod.case tail eol option.case
      using assms(6) room loaded by simp
    have "s = (words_line ws @ CRLF @ v @ CRLF) @ rest" by (simp add: s_def)
    then have "drop (length (words_line ws @ CRLF @ v @ CRLF)) s = rest" by (metis append_eq_conv_conj)
    then have rest: "drop (length (words_line ws) + 2 + length v + 2) s = rest" by (simp add: algebra_simps)
    have version: "hd ws \<in> set VERSION_WORDS \<longleftrightarrow> hd ws \<noteq> ''cas''"
      using assms(4) by (auto simp: STORE_WORDS_def VERSION_WORDS_def)
    show ?thesis
      using run assms(2-4) ne chunk rest version False unfolding s_def [symmetric]
      by (auto simp: text_command_def text_request_def Let_def)
  qed
qed

theorem mc_text_store_witness:
  "\<exists>n. mc_decodeRequest (\<lambda>w. (w = ''2'', 2)) 100 \<lparr>codec_err = [], codec_context = None, is_binary = True\<rparr>
      (words_line [''set'', ''key'', ''0'', ''60'', ''2''] @ CRLF @ ''ab'' @ CRLF @ ''get'') =
    Some (SUCCESS, \<lparr>codec_err = [], codec_context = None, is_binary = False\<rparr>,
      Some \<lparr>mc_argv = [''memcache_set'', ''key'', ''0'', ''60'', ''2'', ''ab'', ''-1''],
            packet_size = n, request_context = None, quiet = False\<rparr>, ''get'')"
  using mc_text_store [of "[''set'', ''key'', ''0'', ''60'', ''2'']" "\<lambda>w. (w = ''2'', 2)" "''ab''" 100
      "\<lparr>codec_err = [], codec_context = None, is_binary = True\<rparr>" "''get''"]
  by (simp add: clean_word_def KEY_MAX_LENGTH_def STORE_WORDS_def)

text \<open>A command without data takes two bytes more than its line: of a request that follows it in
  the same packet the first two bytes are lost.\<close>

lemma line_eats_next_request:
  assumes "ws \<noteq> []" "\<forall>w\<in>set ws. clean_word w" "length ws < 2 \<or> length (ws ! 1) \<le> KEY_MAX_LENGTH"
    and "hd ws \<notin> set STORE_WORDS" "hd ws \<noteq> ''mscan''" "code (hd (hd ws)) \<noteq> REQ_FLAG"
  shows "\<exists>c' r. mc_decodeRequest atoi max_item c (words_line ws @ CRLF @ rest) = Some (SUCCESS, c', Some r, drop 2 rest)"
proof -
  have gone: "drop (length (words_line ws) + 2 + 2) (words_line ws @ CR # LF # rest) = drop 2 rest" by simp
  have "\<not> (2 \<le> length ws \<and> KEY_MAX_LENGTH < length (ws ! 1))" using assms(3) by auto
  then show ?thesis
    using assms(1,4,5) text_is_text [OF assms(1,2,6), of atoi max_item c rest] gone
    by (auto simp: text_command_def text_request_def Let_def)
qed

text \<open>An \<open>mscan\<close> with fewer than six words reads past its words.\<close>

lemma short_mscan_crashes:
  assumes "\<forall>w\<in>set ws. clean_word w" "hd ws = ''mscan''" "ws \<noteq> []" "length ws < 6"
    and "length ws < 2 \<or> length (ws ! 1) \<le> KEY_MAX_LENGTH"
  shows "mc_decodeRequest atoi max_item c (words_line ws @ CRLF @ rest) = None"
proof -
  have "code (hd (hd ws)) \<noteq> REQ_FLAG" using assms(2) by (simp add: REQ_FLAG_def code_def)
  from text_is_text [OF assms(3,1) this, of atoi max_item c rest] assms show ?thesis
    by (auto simp: text_command_def STORE_WORDS_def)
qed

text \<open>A line that ends with a line feed alone loses its last word.\<close>

lemma bare_line_feed_drops_word:
  "\<lbrakk>\<forall>w\<in>set ws. clean_word w; ws \<noteq> []\<rbrakk>
   \<Longrightarrow> mc_splitArgs (length (words_line ws) + 1) (words_line ws @ LF # x # rest) [] args = Some (args @ butlast ws)"
proof (induction ws arbitrary: args rule: induct_list012)
  case (2 w)
  then show ?case
    by (subst words_line_def, subst splitArgs_word) (auto simp: clean_word_def words_line_def)
next
  case (3 w v ws)
  have line: "words_line (w # v # ws) = w @ CHR '' '' # words_line (v # ws)"
    by (simp add: words_line_def join_Cons)
  have "mc_splitArgs (length (words_line (w # v # ws)) + 1) (words_line (w # v # ws) @ LF # x # rest) [] args
      = mc_splitArgs (length (words_line (v # ws)) + 1) (words_line (v # ws) @ LF # x # rest) [] (args @ [w])"
    using 3 unfolding line append_assoc
    by (subst splitArgs_word) (auto simp: clean_word_def)
  with "3.IH"(2) "3.prems" show ?case by simp
qed simp

end
