(* ===== verification/Connector.thy ===== *)
theory Connector
  imports Prelude
begin

text \<open>
  \<open>network/Connector.cpp\<close> and \<open>network/TcpClient.cpp\<close>: how a client gets its connection. A connector
  opens a socket, waits for it to become writable or for a timer, hands the connected socket over
  or tries again later. What the kernel answers is an argument of the handlers; the event loop is
  the list of pending timers. A failed \<open>runtimeAssert\<close> is \<open>None\<close>. The callback of a connector runs
  \<open>onNewConnection\<close> of the client, which does not call the connector back, so the calls are a log
  that the client takes up when the handler has returned.
\<close>

section \<open>The connector\<close>

datatype connector_status = kDisconnected | kConnecting | kConnected

datatype timer_task = Connect_timeout | Retry_connect

text \<open>Error numbers, as far as the code tells them apart; the first two are retriable.\<close>

datatype connect_errno = E_INPROGRESS | E_INTR | E_CONNREFUSED | E_TIMEDOUT | E_OTHER

record connector =
  cstatus :: connector_status
  connecting_timer_id :: nat
  socket_fd :: int
  own_fd :: bool
  need_retry :: bool
  retry_delay :: nat
  channel :: "(int \<times> bool \<times> bool) option"
  pending_timers :: "(nat \<times> timer_task) list"
  next_timer_id :: nat
  open_fds :: "int list"
  handed :: "int list"
  waits :: "nat list"

text \<open>Durations in milliseconds. A channel has a socket and whether it waits to read and to write.
  \<open>handed\<close> are the calls of \<open>new_conn_callback_\<close>, \<open>waits\<close> the delays of the retries.\<close>

definition kInitRetryDelayTime :: nat where "kInitRetryDelayTime = 500"
definition kMaxRetryDelayTime :: nat where "kMaxRetryDelayTime = 30000"

definition new_connector :: "bool \<Rightarrow> connector" where
  "new_connector retry =
     \<lparr>cstatus = kDisconnected, connecting_timer_id = 0, socket_fd = -1, own_fd = False, need_retry = retry,
      retry_delay = kInitRetryDelayTime, channel = None, pending_timers = [], next_timer_id = 1, open_fds = [],
      handed = [], waits = []\<rparr>"

definition runAfterTimer :: "timer_task \<Rightarrow> connector \<Rightarrow> nat \<times> connector" where
  "runAfterTimer t c =
     (next_timer_id c,
      c\<lparr>pending_timers := pending_timers c @ [(next_timer_id c, t)], next_timer_id := next_timer_id c + 1\<rparr>)"

definition closeTimer :: "connector \<Rightarrow> connector" where
  "closeTimer c =
     (if connecting_timer_id c \<noteq> 0
      then c\<lparr>pending_timers := filter (\<lambda>(i, t). i \<noteq> connecting_timer_id c) (pending_timers c),
             connecting_timer_id := 0\<rparr>
      else c)"

definition closeChannel :: "connector \<Rightarrow> connector option" where
  "closeChannel c =
     (case channel c of
        None \<Rightarrow> Some c
      | Some (fd, readable, writable) \<Rightarrow> do {
          ensure (\<not> readable);
          ensure writable;
          Some (c\<lparr>channel := None\<rparr>) })"

definition closeFd :: "connector \<Rightarrow> connector" where
  "closeFd c =
     (if own_fd c \<and> socket_fd c \<noteq> -1
      then c\<lparr>open_fds := removeAll (socket_fd c) (open_fds c), socket_fd := -1, own_fd := False\<rparr>
      else c)"

definition new_conn_callback :: "int \<Rightarrow> connector \<Rightarrow> connector" where
  "new_conn_callback fd c = c\<lparr>handed := handed c @ [fd]\<rparr>"

definition connector_handleError :: "connect_errno \<Rightarrow> connector \<Rightarrow> connector option" where
  "connector_handleError saved_errno c = do {
     let c = closeTimer (c\<lparr>cstatus := kDisconnected\<rparr>);
     c \<leftarrow> closeChannel c;
     let c = closeFd c;
     let c = (if saved_errno = E_CONNREFUSED \<or> \<not> need_retry c then new_conn_callback (-1) c else c);
     if need_retry c then
       (let (i, c) = runAfterTimer Retry_connect c
        in Some (c\<lparr>waits := waits c @ [retry_delay c],
                   retry_delay := min (retry_delay c * 2) kMaxRetryDelayTime\<rparr>))
     else Some c }"

text \<open>\<open>connect\<close>: \<open>sock\<close> is the socket the kernel gives, \<open>rc\<close> the error of \<open>connect(2)\<close> if it fails, \<open>e\<close>
  the error number when there is no socket.\<close>

definition connector_connect :: "int option \<Rightarrow> connect_errno option \<Rightarrow> connect_errno \<Rightarrow> connector \<Rightarrow> connector option" where
  "connector_connect sock rc e c = do {
     ensure (socket_fd c = -1 \<and> \<not> own_fd c);
     case sock of
       None \<Rightarrow> connector_handleError e (c\<lparr>socket_fd := -1\<rparr>)
     | Some fd \<Rightarrow>
         (let c = c\<lparr>socket_fd := fd, own_fd := True, open_fds := fd # open_fds c\<rparr>;
              (i, c) = runAfterTimer Connect_timeout c;
              c = c\<lparr>connecting_timer_id := i\<rparr>
          in case rc of
               Some err \<Rightarrow>
                 if err \<noteq> E_INPROGRESS \<and> err \<noteq> E_INTR then connector_handleError err c
                 else Some (c\<lparr>cstatus := kConnecting, channel := Some (fd, False, True)\<rparr>)
             | None \<Rightarrow> Some (c\<lparr>cstatus := kConnecting, channel := Some (fd, False, True)\<rparr>)) }"

definition connector_start :: "bool \<Rightarrow> int option \<Rightarrow> connect_errno option \<Rightarrow> connect_errno \<Rightarrow> connector \<Rightarrow> connector option" where
  "connector_start zero_address sock rc e c =
     (if \<not> zero_address then connector_connect sock rc e c
      else connector_handleError e (c\<lparr>need_retry := False\<rparr>))"

definition connector_cancel :: "connector \<Rightarrow> connector option" where
  "connector_cancel c =
     (if cstatus c \<noteq> kConnecting then Some c
      else do {
        let c = closeTimer (c\<lparr>need_retry := False, cstatus := kDisconnected\<rparr>);
        c \<leftarrow> closeChannel c;
        Some (closeFd c) })"

text \<open>\<open>err\<close> is \<open>SO_ERROR\<close> of the socket.\<close>

definition connector_handleWrite :: "connect_errno option \<Rightarrow> connector \<Rightarrow> connector option" where
  "connector_handleWrite err c =
     (if cstatus c = kDisconnected then Some c
      else do {
        ensure (cstatus c = kConnecting);
        (fd, readable, writable) \<leftarrow> channel c;
        ensure (socket_fd c = fd);
        case err of
          Some e \<Rightarrow> connector_handleError e c
        | None \<Rightarrow> do {
            let c = closeTimer (c\<lparr>cstatus := kConnected\<rparr>);
            c \<leftarrow> closeChannel c;
            let c = new_conn_callback (socket_fd c) c;
            Some (c\<lparr>own_fd := False, socket_fd := -1\<rparr>) } })"

definition onConnectTimeout :: "connector \<Rightarrow> connector option" where
  "onConnectTimeout c =
     (if cstatus c = kConnected then Some c
      else do {
        ensure (cstatus c = kConnecting);
        ensure (connecting_timer_id c \<noteq> 0);
        connector_handleError E_TIMEDOUT (c\<lparr>connecting_timer_id := 0\<rparr>) })"

text \<open>What the loop can do to a connector: a timer that is due leaves the loop, then its handler runs.\<close>

datatype loop_event =
    Timer_due nat "int option" "connect_errno option" connect_errno
  | Socket_writable "connect_errno option"
  | Cancel_call

definition enabled :: "loop_event \<Rightarrow> connector \<Rightarrow> bool" where
  "enabled e c =
     (case e of
        Timer_due i sock rc err \<Rightarrow> i \<in> fst ` set (pending_timers c)
          \<and> (case sock of None \<Rightarrow> True | Some fd \<Rightarrow> 0 \<le> fd \<and> fd \<notin> set (open_fds c))
      | Socket_writable err \<Rightarrow> channel c \<noteq> None
      | Cancel_call \<Rightarrow> True)"

definition connector_event :: "loop_event \<Rightarrow> connector \<Rightarrow> connector option" where
  "connector_event e c =
     (case e of
        Timer_due i sock rc err \<Rightarrow>
          (let task = map_of (pending_timers c) i;
               c = c\<lparr>pending_timers := filter (\<lambda>(j, t). j \<noteq> i) (pending_timers c)\<rparr>
           in case task of
                Some Connect_timeout \<Rightarrow> onConnectTimeout c
              | Some Retry_connect \<Rightarrow> connector_connect sock rc err c
              | None \<Rightarrow> Some c)
      | Socket_writable err \<Rightarrow> connector_handleWrite err c
      | Cancel_call \<Rightarrow> connector_cancel c)"

text \<open>The states of a connector after its \<open>start\<close>.\<close>

inductive connector_reaches :: "bool \<Rightarrow> connector \<Rightarrow> bool" for retry :: bool where
  Started: "\<lbrakk>connector_start zero sock rc err (new_connector retry) = Some c;
     case sock of None \<Rightarrow> True | Some fd \<Rightarrow> 0 \<le> fd\<rbrakk> \<Longrightarrow> connector_reaches retry c"
| Happened: "\<lbrakk>connector_reaches retry c; enabled e c; connector_event e c = Some c'\<rbrakk>
     \<Longrightarrow> connector_reaches retry c'"

section \<open>What always holds\<close>

text \<open>The sockets that are open are the connector's own and those it has handed over.\<close>

definition sockets_ok :: "connector \<Rightarrow> bool" where
  "sockets_ok c \<longleftrightarrow>
     set (open_fds c) = (if own_fd c then {socket_fd c} else {}) \<union> {fd \<in> set (handed c). fd \<noteq> -1}
     \<and> (own_fd c \<longrightarrow> 0 \<le> socket_fd c \<and> socket_fd c \<notin> set (handed c)) \<and> (\<not> own_fd c \<longrightarrow> socket_fd c = -1)
     \<and> 500 \<le> retry_delay c \<and> retry_delay c \<le> kMaxRetryDelayTime \<and> 0 < next_timer_id c"

text \<open>While it connects it has a socket, a channel that waits to write and the timer; otherwise none of
  them, and at most the timer of a retry.\<close>

definition connector_ok :: "connector \<Rightarrow> bool" where
  "connector_ok c \<longleftrightarrow> sockets_ok c \<and>
     (if cstatus c = kConnecting then
        own_fd c \<and> channel c = Some (socket_fd c, False, True) \<and> connecting_timer_id c \<noteq> 0
        \<and> pending_timers c = [(connecting_timer_id c, Connect_timeout)]
      else
        \<not> own_fd c \<and> channel c = None \<and> connecting_timer_id c = 0
        \<and> (if cstatus c = kDisconnected \<and> need_retry c then \<exists>i. pending_timers c = [(i, Retry_connect)]
           else pending_timers c = []))"

definition failing :: "connector \<Rightarrow> bool" where
  "failing c \<longleftrightarrow> sockets_ok c \<and> channel c \<in> {None, Some (socket_fd c, False, True)}
     \<and> pending_timers c = (if connecting_timer_id c = 0 then [] else [(connecting_timer_id c, Connect_timeout)])"

lemma handleError_ok:
  assumes "failing c"
  shows "wp (connector_handleError e c) (\<lambda>c'. connector_ok c' \<and> cstatus c' = kDisconnected
    \<and> need_retry c' = need_retry c
    \<and> handed c' = handed c @ (if e = E_CONNREFUSED \<or> \<not> need_retry c then [-1] else [])
    \<and> waits c' = waits c @ (if need_retry c then [retry_delay c] else [])
    \<and> retry_delay c' = (if need_retry c then min (retry_delay c * 2) kMaxRetryDelayTime else retry_delay c))"
proof -
  define d where "d = closeTimer (c\<lparr>cstatus := kDisconnected\<rparr>)"
  have d: "channel d = channel c" "pending_timers d = []" "connecting_timer_id d = 0" "sockets_ok d"
    "socket_fd d = socket_fd c" "own_fd d = own_fd c" "cstatus d = kDisconnected" "need_retry d = need_retry c"
    "handed d = handed c" "waits d = waits c" "retry_delay d = retry_delay c" "open_fds d = open_fds c"
    "next_timer_id d = next_timer_id c"
    using assms by (auto simp: d_def closeTimer_def failing_def sockets_ok_def)
  have channel: "closeChannel d = Some (d\<lparr>channel := None\<rparr>)"
    using assms d(1) by (cases d) (auto simp: closeChannel_def failing_def)
  define f where "f = closeFd (d\<lparr>channel := None\<rparr>)"
  have f: "\<not> own_fd f" "socket_fd f = -1" "sockets_ok f" "channel f = None" "pending_timers f = []"
    "connecting_timer_id f = 0" "cstatus f = kDisconnected" "need_retry f = need_retry c"
    "handed f = handed c" "waits f = waits c" "retry_delay f = retry_delay c"
    using d assms by (auto simp: f_def closeFd_def sockets_ok_def failing_def split: if_splits)
  have delay: "500 \<le> retry_delay c" "retry_delay c \<le> kMaxRetryDelayTime" "0 < next_timer_id f"
    "kMaxRetryDelayTime = 30000"
    using f(3,11) assms by (auto simp: sockets_ok_def failing_def kMaxRetryDelayTime_def)
  have "connector_handleError e c = (let g = (if e = E_CONNREFUSED \<or> \<not> need_retry f then new_conn_callback (-1) f else f)
      in if need_retry g then Some (snd (runAfterTimer Retry_connect g)
             \<lparr>waits := waits g @ [retry_delay g], retry_delay := min (retry_delay g * 2) kMaxRetryDelayTime\<rparr>)
         else Some g)"
    by (simp add: connector_handleError_def channel Let_def runAfterTimer_def flip: d_def f_def)
  then show ?thesis
    using f delay
    by (auto simp: Let_def runAfterTimer_def new_conn_callback_def connector_ok_def sockets_ok_def)
qed

text \<open>A connector that has nothing of its own, ready to connect.\<close>

definition idle :: "connector \<Rightarrow> bool" where
  "idle c \<longleftrightarrow> sockets_ok c \<and> \<not> own_fd c \<and> channel c = None \<and> connecting_timer_id c = 0
     \<and> pending_timers c = [] \<and> cstatus c = kDisconnected"

lemma idle_failing: "idle c \<Longrightarrow> failing c"
  by (simp add: idle_def failing_def)

lemma wp_handleError:
  "failing c \<Longrightarrow> wp (connector_handleError e c) (\<lambda>c'. connector_ok c' \<and> cstatus c' = kDisconnected
     \<and> need_retry c' = need_retry c \<and> handed c' \<in> {handed c, handed c @ [-1]})"
  by (rule wp_mono [OF handleError_ok]) auto

lemma connect_ok:
  assumes "idle c" "case sock of None \<Rightarrow> True | Some fd \<Rightarrow> 0 \<le> fd \<and> fd \<notin> set (open_fds c)"
  shows "wp (connector_connect sock rc e c) (\<lambda>c'. connector_ok c' \<and> need_retry c' = need_retry c
    \<and> (cstatus c' = kConnecting \<and> handed c' = handed c
       \<or> cstatus c' = kDisconnected \<and> handed c' \<in> {handed c, handed c @ [-1]}))"
proof -
  have free: "socket_fd c = -1" "\<not> own_fd c" using assms(1) by (auto simp: idle_def sockets_ok_def)
  show ?thesis
  proof (cases sock)
    case None
    have "failing (c\<lparr>socket_fd := -1\<rparr>)" using assms(1) free by (simp add: idle_def failing_def sockets_ok_def)
    from wp_handleError [OF this, of e] None free show ?thesis
      by (auto simp: connector_connect_def wp_iff)
  next
    case (Some fd)
    define d where "d = c\<lparr>socket_fd := fd, own_fd := True, open_fds := fd # open_fds c,
      pending_timers := [(next_timer_id c, Connect_timeout)], next_timer_id := next_timer_id c + 1,
      connecting_timer_id := next_timer_id c\<rparr>"
    have fd: "0 \<le> fd" "fd \<notin> set (open_fds c)" using assms(2) Some by auto
    then have socks: "sockets_ok d" using assms(1) free by (auto simp: d_def idle_def sockets_ok_def)
    have step: "connector_connect sock rc e c = (case rc of
        Some err \<Rightarrow> if err \<noteq> E_INPROGRESS \<and> err \<noteq> E_INTR then connector_handleError err d
          else Some (d\<lparr>cstatus := kConnecting, channel := Some (fd, False, True)\<rparr>)
      | None \<Rightarrow> Some (d\<lparr>cstatus := kConnecting, channel := Some (fd, False, True)\<rparr>))"
      using assms(1) free Some
      by (cases rc) (simp_all add: connector_connect_def runAfterTimer_def Let_def d_def idle_def cong: if_cong)
    have timer: "0 < next_timer_id c" "channel c = None" using assms(1) by (simp_all add: idle_def sockets_ok_def)
    have started: "connector_ok (d\<lparr>cstatus := kConnecting, channel := Some (fd, False, True)\<rparr>)"
      using socks timer by (auto simp: connector_ok_def sockets_ok_def d_def)
    from socks timer have failed: "failing d" by (simp add: failing_def d_def)
    have d: "handed d = handed c" "need_retry d = need_retry c" by (simp_all add: d_def)
    show ?thesis
      using wp_handleError [OF failed] started d
      by (auto simp: step wp_iff split: option.splits)
  qed
qed

lemma ok_failing: "connector_ok c \<Longrightarrow> cstatus c = kConnecting \<Longrightarrow> failing c"
  by (simp add: connector_ok_def failing_def)

lemma handleWrite_ok:
  assumes "connector_ok c" "cstatus c \<noteq> kConnected"
  shows "wp (connector_handleWrite err c) (\<lambda>c'. connector_ok c' \<and> need_retry c' = need_retry c
    \<and> (c' = c \<and> cstatus c = kDisconnected
       \<or> cstatus c = kConnecting \<and> cstatus c' = kConnected \<and> (\<exists>fd\<ge>0. handed c' = handed c @ [fd])
       \<or> cstatus c = kConnecting \<and> cstatus c' = kDisconnected \<and> handed c' \<in> {handed c, handed c @ [-1]}))"
proof (cases "cstatus c = kConnecting")
  case True
  with assms(1) have c: "sockets_ok c" "own_fd c" "channel c = Some (socket_fd c, False, True)"
    "connecting_timer_id c \<noteq> 0" "pending_timers c = [(connecting_timer_id c, Connect_timeout)]"
    by (simp_all add: connector_ok_def)
  show ?thesis
  proof (cases err)
    case (Some e)
    from wp_handleError [OF ok_failing [OF assms(1) True], of e] True c Some show ?thesis
      by (auto simp: connector_handleWrite_def wp_iff)
  next
    case None
    define d where "d = c\<lparr>cstatus := kConnected, pending_timers := [], connecting_timer_id := 0, channel := None,
      handed := handed c @ [socket_fd c], own_fd := False, socket_fd := -1\<rparr>"
    have "connector_handleWrite err c = Some d"
      using True c None by (simp add: connector_handleWrite_def closeTimer_def closeChannel_def new_conn_callback_def d_def)
    moreover have "connector_ok d" using c by (auto simp: connector_ok_def sockets_ok_def d_def)
    moreover have "0 \<le> socket_fd c" using c(1,2) by (simp add: sockets_ok_def)
    ultimately show ?thesis using True by (auto simp: d_def)
  qed
next
  case False
  with assms(2) have "cstatus c = kDisconnected" by (cases "cstatus c") auto
  with assms show ?thesis by (simp add: connector_handleWrite_def)
qed

lemma cancel_ok:
  assumes "connector_ok c"
  shows "wp (connector_cancel c) (\<lambda>c'. connector_ok c' \<and> handed c' = handed c
    \<and> (if cstatus c = kConnecting then cstatus c' = kDisconnected \<and> \<not> need_retry c' else c' = c))"
proof (cases "cstatus c = kConnecting")
  case True
  with assms have c: "sockets_ok c" "own_fd c" "channel c = Some (socket_fd c, False, True)"
    "connecting_timer_id c \<noteq> 0" "pending_timers c = [(connecting_timer_id c, Connect_timeout)]"
    by (simp_all add: connector_ok_def)
  then show ?thesis
    using True by (auto simp: connector_cancel_def closeTimer_def closeChannel_def closeFd_def connector_ok_def sockets_ok_def)
qed (use assms in \<open>simp add: connector_cancel_def\<close>)

definition moved :: "connector \<Rightarrow> connector \<Rightarrow> bool" where
  "moved c c' \<longleftrightarrow> c' = c \<or> (need_retry c' = need_retry c \<or> \<not> need_retry c')
     \<and> (cstatus c \<noteq> kConnected)
     \<and> (cstatus c' = kConnecting \<and> handed c' = handed c \<and> cstatus c = kDisconnected \<and> need_retry c
        \<or> cstatus c' = kConnected \<and> cstatus c = kConnecting \<and> (\<exists>fd\<ge>0. handed c' = handed c @ [fd])
        \<or> cstatus c' = kDisconnected \<and> handed c' \<in> {handed c, handed c @ [-1]}
          \<and> (cstatus c = kConnecting \<or> need_retry c))"

lemma event_ok:
  assumes ok: "connector_ok c" and en: "enabled e c"
  shows "wp (connector_event e c) (\<lambda>c'. connector_ok c' \<and> moved c c')"
proof (cases e)
  case (Socket_writable err)
  with en have "channel c \<noteq> None" by (simp add: enabled_def)
  with ok have "cstatus c = kConnecting" by (auto simp: connector_ok_def split: if_splits)
  with handleWrite_ok [OF ok, of err] Socket_writable show ?thesis
    by (auto simp: connector_event_def moved_def wp_iff)
next
  case Cancel_call
  with cancel_ok [OF ok] show ?thesis
    by (auto simp: connector_event_def moved_def wp_iff split: if_splits)
next
  case (Timer_due i sock rc err)
  with en have i: "i \<in> fst ` set (pending_timers c)"
    "case sock of None \<Rightarrow> True | Some fd \<Rightarrow> 0 \<le> fd \<and> fd \<notin> set (open_fds c)" by (simp_all add: enabled_def)
  show ?thesis
  proof (cases "cstatus c = kConnecting")
    case True
    with ok have t: "pending_timers c = [(connecting_timer_id c, Connect_timeout)]" "connecting_timer_id c \<noteq> 0"
      by (simp_all add: connector_ok_def)
    define d where "d = c\<lparr>pending_timers := [], connecting_timer_id := 0\<rparr>"
    have "failing d" using ok_failing [OF ok True] by (simp add: failing_def d_def sockets_ok_def)
    from wp_handleError [OF this, of E_TIMEDOUT] True t i Timer_due show ?thesis
      by (auto simp: connector_event_def onConnectTimeout_def moved_def wp_iff d_def)
  next
    case False
    with ok i have t: "pending_timers c = [(i, Retry_connect)]" "cstatus c = kDisconnected" "need_retry c"
      by (auto simp: connector_ok_def split: if_splits)
    define d where "d = c\<lparr>pending_timers := []\<rparr>"
    have "idle d" using ok t by (simp add: connector_ok_def idle_def d_def sockets_ok_def)
    moreover have "case sock of None \<Rightarrow> True | Some fd \<Rightarrow> 0 \<le> fd \<and> fd \<notin> set (open_fds d)"
      using i(2) by (simp add: d_def split: option.splits)
    ultimately have "wp (connector_connect sock rc err d) (\<lambda>c'. connector_ok c' \<and> need_retry c' = need_retry d
      \<and> (cstatus c' = kConnecting \<and> handed c' = handed d
         \<or> cstatus c' = kDisconnected \<and> handed c' \<in> {handed d, handed d @ [-1]}))" by (rule connect_ok)
    with t i Timer_due show ?thesis
      by (auto simp: connector_event_def moved_def wp_iff d_def)
  qed
qed

lemma start_ok:
  assumes "case sock of None \<Rightarrow> True | Some fd \<Rightarrow> 0 \<le> fd"
  shows "wp (connector_start zero sock rc err (new_connector retry)) (\<lambda>c. connector_ok c
    \<and> (need_retry c \<longrightarrow> retry) \<and> (cstatus c = kConnecting \<and> handed c = [] \<or> cstatus c = kDisconnected \<and> handed c \<in> {[], [-1]}))"
proof -
  have idle: "idle (new_connector retry)" "idle (new_connector retry\<lparr>need_retry := False\<rparr>)"
    by (simp_all add: idle_def new_connector_def sockets_ok_def kInitRetryDelayTime_def kMaxRetryDelayTime_def)
  have fresh: "open_fds (new_connector retry) = []" "handed (new_connector retry) = []"
    "need_retry (new_connector retry) = retry"
    by (simp_all add: new_connector_def)
  show ?thesis
  proof (cases zero)
    case True
    with wp_handleError [OF idle_failing [OF idle(2)], of err] fresh show ?thesis
      by (auto simp: connector_start_def wp_iff)
  next
    case False
    with connect_ok [OF idle(1), of sock rc err] assms fresh show ?thesis
      by (auto simp: connector_start_def wp_iff split: option.splits)
  qed
qed

lemma reaches_ok: "connector_reaches retry c \<Longrightarrow> connector_ok c"
proof (induction rule: connector_reaches.induct)
  case (Started zero sock rc err c)
  with start_ok [of sock zero rc err retry] show ?case by (simp add: wp_iff)
next
  case (Happened c e c')
  with event_ok [of c e] show ?case by (simp add: wp_iff)
qed

text \<open>C34: Whatever the loop does to a connector, no assertion fails; it has a socket, a channel and its
  timer exactly while it connects, and every socket it opened is closed or handed over otherwise.\<close>

theorem connector_never_asserts:
  assumes "connector_reaches retry c" "enabled e c"
  shows "\<exists>c'. connector_event e c = Some c'
    \<and> (cstatus c' = kConnecting \<longleftrightarrow> own_fd c') \<and> (own_fd c' \<longleftrightarrow> channel c' \<noteq> None)
    \<and> (own_fd c' \<longleftrightarrow> Connect_timeout \<in> snd ` set (pending_timers c'))
    \<and> set (open_fds c') = (if own_fd c' then {socket_fd c'} else {}) \<union> {fd \<in> set (handed c'). fd \<noteq> -1}"
proof -
  from event_ok [OF reaches_ok [OF assms(1)] assms(2)] obtain c' where
    c': "connector_event e c = Some c'" "connector_ok c'" by (auto simp: wp_iff)
  show ?thesis
  proof (cases "cstatus c' = kConnecting")
    case True
    with c'(2) have "own_fd c'" "channel c' \<noteq> None" "snd ` set (pending_timers c') = {Connect_timeout}" "sockets_ok c'"
      by (simp_all add: connector_ok_def)
    with True c'(1) show ?thesis by (simp add: sockets_ok_def)
  next
    case False
    with c'(2) have "\<not> own_fd c'" "channel c' = None" "snd ` set (pending_timers c') \<subseteq> {Retry_connect}" "sockets_ok c'"
      by (auto simp: connector_ok_def split: if_splits)
    with False c'(1) show ?thesis by (auto simp: sockets_ok_def)
  qed
qed

definition connecting_once :: "bool \<Rightarrow> connector" where
  "connecting_once retry =
     \<lparr>cstatus = kConnecting, connecting_timer_id = 1, socket_fd = 5, own_fd = True, need_retry = retry,
      retry_delay = 500, channel = Some (5, False, True), pending_timers = [(1, Connect_timeout)],
      next_timer_id = 2, open_fds = [5], handed = [], waits = []\<rparr>"

lemma start_connecting_once:
  "connector_start False (Some 5) (Some E_INPROGRESS) E_OTHER (new_connector retry) = Some (connecting_once retry)"
  by (simp add: connector_start_def connector_connect_def new_connector_def runAfterTimer_def Let_def
      kInitRetryDelayTime_def connecting_once_def)

lemma started_connecting: "connector_reaches retry (connecting_once retry)"
  by (rule Started [OF start_connecting_once]) simp

theorem connector_never_asserts_witness:
  "\<exists>c'. connector_event (Socket_writable None) (connecting_once True) = Some c'
    \<and> (cstatus c' = kConnecting \<longleftrightarrow> own_fd c')
    \<and> set (open_fds c') = (if own_fd c' then {socket_fd c'} else {}) \<union> {fd \<in> set (handed c'). fd \<noteq> -1}"
proof -
  have "enabled (Socket_writable None) (connecting_once True)" by (simp add: enabled_def connecting_once_def)
  from connector_never_asserts [OF started_connecting this] obtain c' where
    "connector_event (Socket_writable None) (connecting_once True) = Some c'"
    "cstatus c' = kConnecting \<longleftrightarrow> own_fd c'"
    "set (open_fds c') = (if own_fd c' then {socket_fd c'} else {}) \<union> {fd \<in> set (handed c'). fd \<noteq> -1}"
    by (elim exE conjE)
  then show ?thesis by (intro exI conjI)
qed

section \<open>Being told once\<close>

lemma no_retry_told:
  "connector_reaches False c \<Longrightarrow> \<not> need_retry c \<and>
     (case cstatus c of
        kConnecting \<Rightarrow> handed c = []
      | kConnected \<Rightarrow> (\<exists>fd\<ge>0. handed c = [fd])
      | kDisconnected \<Rightarrow> handed c = [] \<or> handed c = [-1])"
proof (induction rule: connector_reaches.induct)
  case (Started zero sock rc err c)
  with start_ok [of sock zero rc err False] show ?case by (auto simp: wp_iff)
next
  case (Happened c e c')
  from event_ok [OF reaches_ok [OF Happened(1)] Happened(2)] Happened(3)
  have "moved c c'" by (simp add: wp_iff)
  with Happened.IH show ?case
    by (cases "cstatus c"; cases "cstatus c'") (auto simp: moved_def)
qed

text \<open>Without retries the client is told at most once: the socket when the connector has connected, and
  otherwise nothing yet, a failure, or nothing because it was cancelled.\<close>

lemma told_at_most_once:
  assumes "connector_reaches False c"
  shows "if cstatus c = kConnected then \<exists>fd\<ge>0. handed c = [fd] \<and> set (open_fds c) = {fd} \<and> pending_timers c = []
         else handed c = [] \<or> handed c = [-1] \<and> cstatus c = kDisconnected"
proof (cases "cstatus c")
  case kConnected
  with no_retry_told [OF assms] obtain fd where fd: "0 \<le> fd" "handed c = [fd]" by auto
  have c: "\<not> own_fd c" "sockets_ok c" "pending_timers c = []"
    using reaches_ok [OF assms] kConnected by (simp_all add: connector_ok_def)
  from c(1,2) have "set (open_fds c) = {x \<in> set (handed c). x \<noteq> -1}" by (simp add: sockets_ok_def)
  also have "\<dots> = {fd}" using fd by auto
  finally show ?thesis using kConnected fd c(3) by simp
qed (use no_retry_told [OF assms] in auto)

section \<open>Waiting longer\<close>

definition backoff :: "nat \<Rightarrow> nat" where
  "backoff k = min (kInitRetryDelayTime * 2 ^ k) kMaxRetryDelayTime"

definition backed_off :: "connector \<Rightarrow> bool" where
  "backed_off c \<longleftrightarrow> (\<exists>n. waits c = map backoff [0..<n] \<and> retry_delay c = backoff n)"

lemma backoff_Suc: "min (backoff k * 2) kMaxRetryDelayTime = backoff (Suc k)"
  by (simp add: backoff_def min_def kMaxRetryDelayTime_def mult.commute)

lemma backed_off_same: "backed_off c \<Longrightarrow> waits c' = waits c \<Longrightarrow> retry_delay c' = retry_delay c \<Longrightarrow> backed_off c'"
  by (simp add: backed_off_def)

lemma backed_off_wait:
  "backed_off c \<Longrightarrow> waits c' = waits c @ [retry_delay c]
   \<Longrightarrow> retry_delay c' = min (retry_delay c * 2) kMaxRetryDelayTime \<Longrightarrow> backed_off c'"
  unfolding backed_off_def by (elim exE, rule_tac x = "Suc n" in exI) (simp add: backoff_Suc)

lemma close_keeps_waits [simp]:
  "waits (closeTimer c) = waits c" "retry_delay (closeTimer c) = retry_delay c"
  "waits (closeFd c) = waits c" "retry_delay (closeFd c) = retry_delay c"
  "need_retry (closeTimer c) = need_retry c" "need_retry (closeFd c) = need_retry c"
  "waits (new_conn_callback fd c) = waits c" "retry_delay (new_conn_callback fd c) = retry_delay c"
  by (simp_all add: closeTimer_def closeFd_def new_conn_callback_def)

lemma closeChannel_keeps_waits:
  "closeChannel c = Some c' \<Longrightarrow> waits c' = waits c \<and> retry_delay c' = retry_delay c \<and> need_retry c' = need_retry c"
  by (auto simp: closeChannel_def ensure_def split: option.splits prod.splits if_splits)

lemma handleError_backs_off:
  assumes "connector_handleError e c = Some c'" "backed_off c"
  shows "backed_off c'"
proof -
  from assms(1) obtain d where d: "closeChannel (closeTimer (c\<lparr>cstatus := kDisconnected\<rparr>)) = Some d"
    by (auto simp: connector_handleError_def Let_def bind_eq_Some_conv)
  define f where "f = (if e = E_CONNREFUSED \<or> \<not> need_retry (closeFd d) then new_conn_callback (-1) (closeFd d) else closeFd d)"
  have f: "waits f = waits c" "retry_delay f = retry_delay c"
    using closeChannel_keeps_waits [OF d] by (simp_all add: f_def)
  from assms(1) have "c' = (if need_retry f then snd (runAfterTimer Retry_connect f)
      \<lparr>waits := waits f @ [retry_delay f], retry_delay := min (retry_delay f * 2) kMaxRetryDelayTime\<rparr> else f)"
    by (auto simp: connector_handleError_def d runAfterTimer_def Let_def f_def)
  then show ?thesis
    using f backed_off_same [OF assms(2), of c'] backed_off_wait [OF assms(2), of c']
    by (auto simp: runAfterTimer_def)
qed

lemma connect_backs_off:
  "connector_connect sock rc e c = Some c' \<Longrightarrow> backed_off c \<Longrightarrow> backed_off c'"
  by (auto simp: connector_connect_def ensure_def Let_def runAfterTimer_def backed_off_def
      split: if_splits option.splits elim!: handleError_backs_off [unfolded backed_off_def])

lemma cancel_backs_off: "connector_cancel c = Some c' \<Longrightarrow> backed_off c \<Longrightarrow> backed_off c'"
  by (auto simp: connector_cancel_def backed_off_def Let_def bind_eq_Some_conv split: if_splits
      dest!: closeChannel_keeps_waits)

lemma handleWrite_backs_off: "connector_handleWrite err c = Some c' \<Longrightarrow> backed_off c \<Longrightarrow> backed_off c'"
proof (cases err)
  case (Some e)
  assume "connector_handleWrite err c = Some c'" "backed_off c"
  with Some have "c' = c \<or> connector_handleError e c = Some c'"
    by (auto simp: connector_handleWrite_def ensure_def bind_eq_Some_conv split: if_splits)
  with \<open>backed_off c\<close> show ?thesis by (auto dest: handleError_backs_off)
next
  case None
  assume "connector_handleWrite err c = Some c'" "backed_off c"
  with None show ?thesis
    by (auto simp: connector_handleWrite_def ensure_def backed_off_def Let_def bind_eq_Some_conv split: if_splits
        dest!: closeChannel_keeps_waits)
qed

lemma timeout_backs_off: "onConnectTimeout c = Some c' \<Longrightarrow> backed_off c \<Longrightarrow> backed_off c'"
  by (auto simp: onConnectTimeout_def ensure_def bind_eq_Some_conv split: if_splits
      dest!: handleError_backs_off simp: backed_off_def)

lemma event_backs_off: "connector_event e c = Some c' \<Longrightarrow> backed_off c \<Longrightarrow> backed_off c'"
proof (cases e)
  case (Timer_due i sock rc err)
  assume "connector_event e c = Some c'" "backed_off c"
  moreover define d where "d = c\<lparr>pending_timers := filter (\<lambda>(j, t). j \<noteq> i) (pending_timers c)\<rparr>"
  moreover have "backed_off d" using \<open>backed_off c\<close> by (simp add: d_def backed_off_def)
  ultimately show ?thesis
    using Timer_due timeout_backs_off connect_backs_off
    by (auto simp: connector_event_def Let_def split: option.splits timer_task.splits)
qed (auto simp: connector_event_def dest: handleWrite_backs_off cancel_backs_off)

text \<open>The delays before the retries are 500 milliseconds, doubled each time, and never more than 30
  seconds.\<close>

lemma retries_back_off:
  assumes "connector_reaches retry c" "k < length (waits c)"
  shows "waits c ! k = min (500 * 2 ^ k) 30000"
proof -
  from assms(1) have "backed_off c"
  proof (induction rule: connector_reaches.induct)
    case (Started zero sock rc err c)
    have new: "backed_off (new_connector retry)" "backed_off (new_connector retry\<lparr>need_retry := False\<rparr>)"
      by (auto simp: new_connector_def backed_off_def backoff_def kInitRetryDelayTime_def kMaxRetryDelayTime_def
          intro: exI [of _ 0])
    from Started(1) show ?case
      by (auto simp: connector_start_def split: if_splits
          dest: handleError_backs_off [OF _ new(2)] connect_backs_off [OF _ new(1)])
  next
    case (Happened c e c')
    then show ?case by (auto dest: event_backs_off)
  qed
  then obtain n where "waits c = map backoff [0..<n]" by (auto simp: backed_off_def)
  with assms(2) have "waits c ! k = backoff k" by simp
  then show ?thesis by (simp add: backoff_def kInitRetryDelayTime_def kMaxRetryDelayTime_def)
qed

lemma refused_start:
  "connector_start False None None E_CONNREFUSED (new_connector True) =
     Some (new_connector True\<lparr>pending_timers := [(1, Retry_connect)], next_timer_id := 2, handed := [-1],
       waits := [500], retry_delay := 1000\<rparr>)"
  by (simp add: connector_start_def connector_connect_def connector_handleError_def new_connector_def closeTimer_def
      closeChannel_def closeFd_def new_conn_callback_def runAfterTimer_def Let_def
      kInitRetryDelayTime_def kMaxRetryDelayTime_def)

end
