(* ===== verification/TcpClient.thy ===== *)
theory TcpClient
  imports Connection Connector
begin

text \<open>
  \<open>network/TcpClient.cpp\<close>: a client makes a connector for every attempt to connect, takes over the
  socket it hands over, and starts again when a connection is lost and it reconnects by itself. The
  client is used in the thread of its loop and has a connection callback, which does not call the
  client back. \<open>connectors\<close> are all it has made: the last is \<open>connector_\<close>, the others live on in
  their timers and channels. The client is the only owner of its connection, so replacing it runs
  the destructor, which asserts that it is disconnected. \<open>zero sock rc err\<close> are what the
  kernel answers to the attempt to connect.
\<close>

section \<open>The client\<close>

record tcp_client =
  auto_reconnect :: bool
  connectors :: "connector list"
  client_connection :: "connection option"
  failures :: nat

definition new_tcp_client :: "bool \<Rightarrow> tcp_client" where
  "new_tcp_client auto = \<lparr>auto_reconnect = auto, connectors = [], client_connection = None, failures = 0\<rparr>"

definition tcp_isConnecting :: "tcp_client \<Rightarrow> bool" where
  "tcp_isConnecting cl \<longleftrightarrow> connectors cl \<noteq> [] \<and> cstatus (last (connectors cl)) = Connector.kConnecting"

definition tcp_isConnected :: "tcp_client \<Rightarrow> bool" where
  "tcp_isConnected cl \<longleftrightarrow>
     (case client_connection cl of None \<Rightarrow> False | Some conn \<Rightarrow> status conn = Connection.kConnected)"

definition onNewConnection :: "int \<Rightarrow> tcp_client \<Rightarrow> tcp_client option" where
  "onNewConnection fd cl =
     (if fd < 0 then Some (cl\<lparr>failures := failures cl + 1\<rparr>)
      else do {
        (case client_connection cl of
           None \<Rightarrow> Some ()
         | Some old \<Rightarrow> ensure (status old = Connection.kDisconnected));
        Some (cl\<lparr>client_connection := Some (attachedToLoop new_connection)\<rparr>) })"

fun deliver :: "int list \<Rightarrow> tcp_client \<Rightarrow> tcp_client option" where
  "deliver [] cl = Some cl"
| "deliver (fd # fds) cl = do { cl \<leftarrow> onNewConnection fd cl; deliver fds cl }"

definition connectInLoop :: "bool \<Rightarrow> int option \<Rightarrow> connect_errno option \<Rightarrow> connect_errno \<Rightarrow> tcp_client \<Rightarrow> tcp_client option" where
  "connectInLoop zero sock rc err cl = do {
     c \<leftarrow> connector_start zero sock rc err (new_connector (auto_reconnect cl));
     deliver (handed c) (cl\<lparr>connectors := connectors cl @ [c]\<rparr>) }"

definition onCloseConnection :: "bool \<Rightarrow> int option \<Rightarrow> connect_errno option \<Rightarrow> connect_errno \<Rightarrow> tcp_client \<Rightarrow> tcp_client option" where
  "onCloseConnection zero sock rc err cl =
     (if auto_reconnect cl then connectInLoop zero sock rc err cl else Some cl)"

text \<open>\<open>disconnect\<close>. Its \<open>close\<close> calls \<open>onCloseConnection\<close> back, which does nothing once \<open>auto_reconnect_\<close>
  is off.\<close>

definition tcp_disconnect :: "tcp_client \<Rightarrow> tcp_client option" where
  "tcp_disconnect cl = do {
     let cl = cl\<lparr>auto_reconnect := False\<rparr>;
     ensure (connectors cl \<noteq> []);
     let c = last (connectors cl);
     c \<leftarrow> (if cstatus c = Connector.kConnecting then connector_cancel c else Some c);
     let cl = cl\<lparr>connectors := butlast (connectors cl) @ [c]\<rparr>;
     case client_connection cl of
       None \<Rightarrow> Some cl
     | Some conn \<Rightarrow> do {
         conn \<leftarrow> close_conn conn;
         Some (cl\<lparr>client_connection := Some conn\<rparr>) } }"

text \<open>What the destructor leaves: the connectors and the connection.\<close>

definition destroy_client :: "tcp_client \<Rightarrow> (connector list \<times> connection option) option" where
  "destroy_client cl =
     (if tcp_isConnecting cl \<or> tcp_isConnected cl then do {
        let c = last (connectors cl);
        c \<leftarrow> (if cstatus c = Connector.kConnecting then connector_cancel c else Some c);
        conn \<leftarrow> (case client_connection cl of
           None \<Rightarrow> Some None
         | Some conn \<Rightarrow> do { conn \<leftarrow> close_conn conn; Some (Some conn) });
        Some (butlast (connectors cl) @ [c], conn) }
      else Some (connectors cl, client_connection cl))"

text \<open>What the loop can do: an event of a connector, or the loss of the connection.\<close>

definition tcp_connector_event :: "nat \<Rightarrow> loop_event \<Rightarrow> tcp_client \<Rightarrow> tcp_client option" where
  "tcp_connector_event k e cl = do {
     let c = connectors cl ! k;
     c' \<leftarrow> connector_event e c;
     deliver (drop (length (handed c)) (handed c')) (cl\<lparr>connectors := (connectors cl)[k := c']\<rparr>) }"

definition connection_lost :: "bool \<Rightarrow> int option \<Rightarrow> connect_errno option \<Rightarrow> connect_errno \<Rightarrow> tcp_client \<Rightarrow> tcp_client option" where
  "connection_lost zero sock rc err cl =
     (case client_connection cl of
        None \<Rightarrow> Some cl
      | Some conn \<Rightarrow>
          if status conn = Connection.kDisconnected then Some cl
          else do {
            conn \<leftarrow> Connection.handleError conn;
            onCloseConnection zero sock rc err (cl\<lparr>client_connection := Some conn\<rparr>) })"

section \<open>Connecting\<close>

text \<open>An attempt that goes well: the socket is there, \<open>connect\<close> is in progress, then it can be written.\<close>

lemma start_in_progress:
  assumes "0 \<le> fd"
  obtains c where "connector_start False (Some fd) (Some E_INPROGRESS) err (new_connector retry) = Some c"
    "connector_ok c" "cstatus c = Connector.kConnecting" "handed c = []" "socket_fd c = fd" "need_retry c = retry"
proof -
  define c where "c = \<lparr>cstatus = Connector.kConnecting, connecting_timer_id = 1, socket_fd = fd, own_fd = True,
    need_retry = retry, retry_delay = 500, channel = Some (fd, False, True), pending_timers = [(1, Connect_timeout)],
    next_timer_id = 2, open_fds = [fd], handed = [], waits = []\<rparr>"
  have "connector_start False (Some fd) (Some E_INPROGRESS) err (new_connector retry) = Some c"
    by (simp add: connector_start_def connector_connect_def new_connector_def runAfterTimer_def Let_def
        kInitRetryDelayTime_def c_def)
  moreover have "connector_ok c"
    using assms by (simp add: connector_ok_def sockets_ok_def c_def kMaxRetryDelayTime_def)
  ultimately show thesis by (rule that) (simp_all add: c_def)
qed

lemma writable_hands_over:
  assumes "connector_ok c" "cstatus c = Connector.kConnecting"
  obtains c' where "connector_event (Socket_writable None) c = Some c'" "connector_ok c'"
    "cstatus c' = Connector.kConnected" "handed c' = handed c @ [socket_fd c]" "0 \<le> socket_fd c"
proof -
  have c: "sockets_ok c" "own_fd c" "channel c = Some (socket_fd c, False, True)"
    using assms by (simp_all add: connector_ok_def)
  then have "0 \<le> socket_fd c" by (simp add: sockets_ok_def)
  have "\<exists>c'. connector_event (Socket_writable None) c = Some c' \<and> cstatus c' = Connector.kConnected
      \<and> handed c' = handed c @ [socket_fd c]"
    using assms(2) c by (simp add: connector_event_def connector_handleWrite_def closeTimer_def closeChannel_def
        new_conn_callback_def)
  then obtain c' where c': "connector_event (Socket_writable None) c = Some c'"
    "cstatus c' = Connector.kConnected" "handed c' = handed c @ [socket_fd c]" by auto
  have "enabled (Socket_writable None) c" using c(3) by (simp add: enabled_def)
  from event_ok [OF assms(1) this] c'(1) have "connector_ok c'" by (simp add: wp_iff)
  from that [OF c'(1) this c'(2,3) \<open>0 \<le> socket_fd c\<close>] show thesis .
qed

lemma retry_connects:
  assumes "connector_ok c" "cstatus c = Connector.kDisconnected" "pending_timers c = [(i, Retry_connect)]"
    "0 \<le> fd" "fd \<notin> set (open_fds c)"
  obtains c' where "connector_event (Timer_due i (Some fd) (Some E_INPROGRESS) err) c = Some c'" "connector_ok c'"
    "cstatus c' = Connector.kConnecting" "handed c' = handed c" "socket_fd c' = fd"
proof -
  have c: "socket_fd c = -1" "\<not> own_fd c"
    using assms(1,2) by (auto simp: connector_ok_def sockets_ok_def)
  have "\<exists>c'. connector_event (Timer_due i (Some fd) (Some E_INPROGRESS) err) c = Some c'
      \<and> cstatus c' = Connector.kConnecting \<and> handed c' = handed c \<and> socket_fd c' = fd"
    using assms(3) c by (simp add: connector_event_def connector_connect_def runAfterTimer_def Let_def)
  then obtain c' where c': "connector_event (Timer_due i (Some fd) (Some E_INPROGRESS) err) c = Some c'"
    "cstatus c' = Connector.kConnecting" "handed c' = handed c" "socket_fd c' = fd" by auto
  have "enabled (Timer_due i (Some fd) (Some E_INPROGRESS) err) c"
    using assms(3-5) by (simp add: enabled_def)
  from event_ok [OF assms(1) this] c'(1) have "connector_ok c'" by (simp add: wp_iff)
  from that [OF c'(1) this c'(2-4)] show thesis .
qed

section \<open>Disconnecting and reconnecting\<close>

text \<open>C35: A client that waits to try again goes on after \<open>disconnect\<close>: the retry is not cancelled, and when
  the server is there the client is connected although it was told to disconnect.\<close>

theorem disconnect_leaves_retry:
  assumes "connectors cl = older @ [c]" "connector_reaches True c" "cstatus c = Connector.kDisconnected" "need_retry c"
    "client_connection cl = None" "0 \<le> fd" "fd \<notin> set (open_fds c)"
  shows "\<exists>cl1 i cl2 cl3. tcp_disconnect cl = Some cl1 \<and> connectors cl1 = connectors cl
    \<and> tcp_connector_event (length older) (Timer_due i (Some fd) (Some E_INPROGRESS) err) cl1 = Some cl2
    \<and> tcp_connector_event (length older) (Socket_writable None) cl2 = Some cl3 \<and> tcp_isConnected cl3"
proof -
  have ok: "connector_ok c" using assms(2) by (rule reaches_ok)
  with assms(3,4) obtain i where i: "pending_timers c = [(i, Retry_connect)]" by (auto simp: connector_ok_def)
  define cl1 where "cl1 = cl\<lparr>auto_reconnect := False\<rparr>"
  have one: "tcp_disconnect cl = Some cl1" "connectors cl1 = older @ [c]" "client_connection cl1 = None"
    using assms(1,3,5) by (simp_all add: tcp_disconnect_def cl1_def Let_def)
  from retry_connects [OF ok assms(3) i assms(6,7), of err] obtain c2 where
    c2: "connector_event (Timer_due i (Some fd) (Some E_INPROGRESS) err) c = Some c2" "connector_ok c2"
    "cstatus c2 = Connector.kConnecting" "handed c2 = handed c" "socket_fd c2 = fd" .
  from writable_hands_over [OF c2(2,3)] obtain c3 where
    c3: "connector_event (Socket_writable None) c2 = Some c3" "handed c3 = handed c2 @ [socket_fd c2]" .
  define cl2 where "cl2 = cl1\<lparr>connectors := older @ [c2]\<rparr>"
  have two: "tcp_connector_event (length older) (Timer_due i (Some fd) (Some E_INPROGRESS) err) cl1 = Some cl2"
    by (simp add: tcp_connector_event_def one(2) c2(1,4) cl2_def)
  define cl3 where "cl3 = cl2\<lparr>connectors := older @ [c3], client_connection := Some (attachedToLoop new_connection)\<rparr>"
  have three: "tcp_connector_event (length older) (Socket_writable None) cl2 = Some cl3"
    using assms(6) one(3) by (simp add: tcp_connector_event_def cl2_def c3 c2(5) onNewConnection_def cl3_def)
  have "tcp_isConnected cl3" by (simp add: cl3_def tcp_isConnected_def attachedToLoop_def noting_def)
  moreover have "connectors cl1 = connectors cl" by (simp add: one(2) assms(1))
  ultimately show ?thesis using one(1) two three by (intro exI conjI)
qed

definition refused_once :: connector where
  "refused_once = new_connector True\<lparr>pending_timers := [(1, Retry_connect)], next_timer_id := 2, handed := [-1],
     waits := [500], retry_delay := 1000\<rparr>"

lemma refused_once_reaches: "connector_reaches True refused_once"
  unfolding refused_once_def by (rule Started [OF refused_start]) simp

theorem disconnect_leaves_retry_witness:
  "\<exists>cl1 i cl2 cl3. tcp_disconnect (new_tcp_client True\<lparr>connectors := [refused_once]\<rparr>) = Some cl1
    \<and> tcp_connector_event 0 (Timer_due i (Some 7) (Some E_INPROGRESS) E_OTHER) cl1 = Some cl2
    \<and> tcp_connector_event 0 (Socket_writable None) cl2 = Some cl3 \<and> tcp_isConnected cl3"
proof -
  have "connectors (new_tcp_client True\<lparr>connectors := [refused_once]\<rparr>) = [] @ [refused_once]"
    "cstatus refused_once = Connector.kDisconnected" "need_retry refused_once"
    "client_connection (new_tcp_client True\<lparr>connectors := [refused_once]\<rparr>) = None"
    "(0 :: int) \<le> 7" "7 \<notin> set (open_fds refused_once)"
    by (simp_all add: refused_once_def new_connector_def new_tcp_client_def)
  from disconnect_leaves_retry [OF this(1) refused_once_reaches this(2-6), of E_OTHER]
  show ?thesis unfolding list.size(3) by blast
qed

text \<open>\<open>connect\<close> on a client that is connected: when the new socket comes the old connection is destroyed while
  it is connected, and its destructor asserts that it is not.\<close>

lemma connect_twice_crashes:
  assumes "tcp_isConnected cl" "0 \<le> fd"
  shows "\<exists>cl1. connectInLoop False (Some fd) (Some E_INPROGRESS) err cl = Some cl1
    \<and> tcp_connector_event (length (connectors cl)) (Socket_writable None) cl1 = None"
proof -
  from start_in_progress [OF assms(2)] obtain c where
    c: "connector_start False (Some fd) (Some E_INPROGRESS) err (new_connector (auto_reconnect cl)) = Some c"
    "connector_ok c" "cstatus c = Connector.kConnecting" "handed c = []" "socket_fd c = fd" by metis
  from writable_hands_over [OF c(2,3)] obtain c2 where
    c2: "connector_event (Socket_writable None) c = Some c2" "handed c2 = handed c @ [socket_fd c]" .
  from assms(1) obtain conn where "client_connection cl = Some conn" "status conn = Connection.kConnected"
    by (auto simp: tcp_isConnected_def split: option.splits)
  then show ?thesis
    using assms(2) c(1,4,5) c2
    by (simp add: connectInLoop_def tcp_connector_event_def onNewConnection_def)
qed

text \<open>\<open>disconnect\<close> before any \<open>connect\<close> follows the null \<open>connector_\<close>.\<close>

lemma disconnect_unconnected_crashes: "tcp_disconnect (new_tcp_client auto) = None"
  by (simp add: tcp_disconnect_def new_tcp_client_def)

text \<open>A client that is destroyed while it waits to try again leaves the retry to its loop.\<close>

lemma destroyed_client_retries:
  assumes "connectors cl = older @ [c]" "cstatus c = Connector.kDisconnected" "client_connection cl = None"
  shows "destroy_client cl = Some (connectors cl, None)"
  using assms by (simp add: destroy_client_def tcp_isConnecting_def tcp_isConnected_def)

text \<open>A client that reconnects by itself connects again when its connection is lost; another one does not.\<close>

lemma lost_connection_replaced:
  assumes "tcp_isConnected cl" "0 \<le> fd"
  shows "\<exists>cl1. connection_lost False (Some fd) (Some E_INPROGRESS) err cl = Some cl1 \<and> \<not> tcp_isConnected cl1
    \<and> (if auto_reconnect cl
       then \<exists>cl2. tcp_isConnecting cl1
         \<and> tcp_connector_event (length (connectors cl)) (Socket_writable None) cl1 = Some cl2 \<and> tcp_isConnected cl2
       else connectors cl1 = connectors cl)"
proof -
  from assms(1) obtain conn where conn: "client_connection cl = Some conn" "status conn = Connection.kConnected"
    by (auto simp: tcp_isConnected_def split: option.splits)
  obtain conn' where conn': "Connection.handleError conn = Some conn'" "status conn' = Connection.kDisconnected"
    by (simp add: Connection.handleError_def handleClose_def noting_def)
  define cl0 where "cl0 = cl\<lparr>client_connection := Some conn'\<rparr>"
  have lost: "connection_lost False (Some fd) (Some E_INPROGRESS) err cl
      = onCloseConnection False (Some fd) (Some E_INPROGRESS) err cl0"
    using conn conn'(1) by (simp add: connection_lost_def cl0_def)
  show ?thesis
  proof (cases "auto_reconnect cl")
    case False
    with lost conn'(2) show ?thesis by (simp add: onCloseConnection_def cl0_def tcp_isConnected_def)
  next
    case True
    from start_in_progress [OF assms(2)] obtain c where
      c: "connector_start False (Some fd) (Some E_INPROGRESS) err (new_connector True) = Some c"
      "connector_ok c" "cstatus c = Connector.kConnecting" "handed c = []" "socket_fd c = fd" by metis
    from writable_hands_over [OF c(2,3)] obtain c2 where
      c2: "connector_event (Socket_writable None) c = Some c2" "handed c2 = handed c @ [socket_fd c]" .
    from True c(1,4) have "connection_lost False (Some fd) (Some E_INPROGRESS) err cl
        = Some (cl0\<lparr>connectors := connectors cl @ [c]\<rparr>)"
      by (simp add: lost onCloseConnection_def connectInLoop_def cl0_def)
    moreover have "tcp_connector_event (length (connectors cl)) (Socket_writable None) (cl0\<lparr>connectors := connectors cl @ [c]\<rparr>)
        = Some (cl0\<lparr>connectors := connectors cl @ [c2], client_connection := Some (attachedToLoop new_connection)\<rparr>)"
      using assms(2) c(4,5) c2 conn'(2) by (simp add: tcp_connector_event_def onNewConnection_def cl0_def)
    ultimately show ?thesis
      using True c(3) conn'(2)
      by (simp add: tcp_isConnected_def tcp_isConnecting_def cl0_def attachedToLoop_def noting_def)
  qed
qed

end
