(* ===== verification/Glob.thy ===== *)
theory Glob
  imports StringUtil "HOL-Library.Sublist"
begin

text \<open>
  The glob matcher of \<open>common/StringUtil.cpp\<close> (\<open>matchLenImpl\<close>). The pattern is a C string: its bytes
  and a terminating zero, read through \<open>pattern_at\<close>, which faults outside; \<open>p\<close> is the pointer and \<open>plen\<close> the
  count that goes with it, where a count that would fall below zero is a fault. The subject is
  the list of its unread bytes. \<open>skipLongerMatches\<close> goes in and comes out.
\<close>

section \<open>The matcher\<close>

abbreviation STAR :: char where "STAR \<equiv> CHR ''*''"
abbreviation RBRACKET :: char where "RBRACKET \<equiv> CHR '']''"

definition pattern_at :: "bytes \<Rightarrow> nat \<Rightarrow> char option" where
  "pattern_at m p = (if p < length m then Some (m ! p) else None)"

text \<open>A \<open>char\<close> as the signed number it is, and \<open>tolower\<close> of the C locale.\<close>

definition schar :: "char \<Rightarrow> int" where
  "schar c = (if code c < 128 then int (code c) else int (code c) - 256)"

definition tolower :: "int \<Rightarrow> int" where
  "tolower i = (if 65 \<le> i \<and> i \<le> 90 then i + 32 else i)"

definition same_char :: "bool \<Rightarrow> char \<Rightarrow> char \<Rightarrow> bool" where
  "same_char nocase a b \<longleftrightarrow> (if nocase then tolower (schar a) = tolower (schar b) else a = b)"

definition in_span :: "bool \<Rightarrow> char \<Rightarrow> char \<Rightarrow> char \<Rightarrow> bool" where
  "in_span nocase a b ch \<longleftrightarrow>
     (let (start, fin) = (if schar a > schar b then (schar b, schar a) else (schar a, schar b))
      in if nocase then tolower start \<le> tolower (schar ch) \<and> tolower (schar ch) \<le> tolower fin
         else start \<le> schar ch \<and> schar ch \<le> fin)"

function skip_stars :: "bytes \<Rightarrow> nat \<Rightarrow> nat \<Rightarrow> (nat \<times> nat) option" where
  "skip_stars m p plen = do {
     c \<leftarrow> pattern_at m (p + 1);
     if c = STAR then do { ensure (0 < plen); skip_stars m (p + 1) (plen - 1) }
     else Some (p, plen) }"
  by pat_completeness auto
termination by (relation "measure (\<lambda>(m, p, plen). length m - p)") (auto simp: pattern_at_def split: if_splits)

function trailing_stars :: "bytes \<Rightarrow> nat \<Rightarrow> nat \<Rightarrow> (nat \<times> nat) option" where
  "trailing_stars m p plen = do {
     c \<leftarrow> pattern_at m p;
     if c = STAR then do { ensure (0 < plen); trailing_stars m (p + 1) (plen - 1) }
     else Some (p, plen) }"
  by pat_completeness auto
termination by (relation "measure (\<lambda>(m, p, plen). length m - p)") (auto simp: pattern_at_def split: if_splits)

text \<open>The loop over a bracket, which returns where it stops and whether \<open>ch\<close> matched.\<close>

function class_loop :: "bool \<Rightarrow> bytes \<Rightarrow> char \<Rightarrow> nat \<Rightarrow> nat \<Rightarrow> bool \<Rightarrow> (nat \<times> nat \<times> bool) option" where
  "class_loop nocase m ch p plen found = do {
     c \<leftarrow> pattern_at m p;
     if c = BSL \<and> 2 \<le> plen then do {
       d \<leftarrow> pattern_at m (p + 1);
       class_loop nocase m ch (p + 2) (plen - 2) (found \<or> d = ch) }
     else if c = RBRACKET then Some (p, plen, found)
     else if plen = 0 then do { ensure (0 < p); Some (p - 1, 1, found) }
     else do {
       d \<leftarrow> pattern_at m (p + 1);
       if d = CHR ''-'' \<and> 3 \<le> plen then do {
         e \<leftarrow> pattern_at m (p + 2);
         class_loop nocase m ch (p + 3) (plen - 3) (found \<or> in_span nocase c e ch) }
       else class_loop nocase m ch (p + 1) (plen - 1) (found \<or> same_char nocase c ch) } }"
  by pat_completeness auto
termination by (relation "measure (\<lambda>(nocase, m, ch, p, plen, found). plen)") auto

declare skip_stars.simps [simp del] trailing_stars.simps [simp del] class_loop.simps [simp del]

text \<open>The cases of the switch but the star, on the byte \<open>ch\<close>: \<open>None\<close> inside is \<open>return false\<close>.\<close>

definition match_char :: "bool \<Rightarrow> bytes \<Rightarrow> nat \<Rightarrow> nat \<Rightarrow> char \<Rightarrow> (nat \<times> nat) option option" where
  "match_char nocase m p plen ch = do {
     c \<leftarrow> pattern_at m p;
     if c = CHR ''?'' then Some (Some (p, plen))
     else if c = CHR ''['' then do {
       ensure (0 < plen);
       d \<leftarrow> pattern_at m (p + 1);
       (p, plen) \<leftarrow> (if d = CHR ''^'' then do { ensure (1 < plen); Some (p + 2, plen - 2) } else Some (p + 1, plen - 1));
       (p, plen, found) \<leftarrow> class_loop nocase m ch p plen False;
       Some (if found = (d = CHR ''^'') then None else Some (p, plen)) }
     else do {
       let (p, plen) = (if c = BSL \<and> 2 \<le> plen then (p + 1, plen - 1) else (p, plen));
       d \<leftarrow> pattern_at m p;
       Some (if same_char nocase d ch then Some (p, plen) else None) } }"

lemma skip_stars_le: "skip_stars m p plen = Some (q, n) \<Longrightarrow> n \<le> plen"
proof (induction m p plen rule: skip_stars.induct)
  case (1 m p plen)
  from "1.prems" obtain c where c: "pattern_at m (p + 1) = Some c"
    by (auto simp: skip_stars.simps [of m p plen] bind_eq_Some_conv)
  show ?case
  proof (cases "c = STAR \<and> 0 < plen")
    case True
    with "1.prems" c have "skip_stars m (p + 1) (plen - 1) = Some (q, n)" by (simp add: skip_stars.simps [of m p plen])
    with "1.IH" [OF c] True show ?thesis by simp
  next
    case False
    with "1.prems" c show ?thesis by (auto simp: skip_stars.simps [of m p plen] ensure_def split: if_splits)
  qed
qed

lemma class_loop_le: "class_loop nocase m ch p plen found = Some (q, n, r) \<Longrightarrow> n \<le> max plen 1"
proof (induction plen arbitrary: p found rule: less_induct)
  case (less plen)
  from less.prems obtain c where c: "pattern_at m p = Some c"
    by (auto simp: class_loop.simps [of nocase m ch p plen found] bind_eq_Some_conv)
  note run = less.prems [unfolded class_loop.simps [of nocase m ch p plen found] c Option.bind.bind_lunit]
  consider k p' f where "plen \<noteq> 0" "0 < k" "class_loop nocase m ch p' (plen - k) f = Some (q, n, r)"
    | "n \<le> max plen 1"
  proof (cases "c = BSL \<and> 2 \<le> plen")
    case True
    with run that(1) [of 2] show thesis by (auto simp: bind_eq_Some_conv)
  next
    case esc: False
    show thesis
    proof (cases "c = RBRACKET \<or> plen = 0")
      case True
      with run esc that(2) show thesis by (auto simp: ensure_def split: if_splits)
    next
      case False
      with run esc obtain d where d: "pattern_at m (p + 1) = Some d" by (auto simp: bind_eq_Some_conv)
      with run esc False that(1) [of 3] that(1) [of 1] show thesis
        by (cases "d = CHR ''-'' \<and> 3 \<le> plen") (auto simp: bind_eq_Some_conv)
    qed
  qed
  then show ?case
  proof cases
    case (1 k p' f)
    with less.IH [OF _ 1(3)] show ?thesis by linarith
  qed
qed

lemma match_char_le: "match_char nocase m p plen ch = Some (Some (q, n)) \<Longrightarrow> 0 < plen \<Longrightarrow> n \<le> plen"
  by (auto simp: match_char_def ensure_def bind_eq_Some_conv Let_def split: if_splits dest!: class_loop_le)

function matchLenImpl :: "bool \<Rightarrow> bytes \<Rightarrow> nat \<Rightarrow> nat \<Rightarrow> bytes \<Rightarrow> bool \<Rightarrow> (bool \<times> bool) option"
  and star_loop :: "bool \<Rightarrow> bytes \<Rightarrow> nat \<Rightarrow> nat \<Rightarrow> bytes \<Rightarrow> bool \<Rightarrow> (bool \<times> bool) option" where
  "matchLenImpl nocase m p plen s skip =
     (if plen = 0 \<or> s = [] then Some (plen = 0 \<and> s = [], skip)
      else do {
        c \<leftarrow> pattern_at m p;
        if c = STAR then do {
          r \<leftarrow> skip_stars m p plen;
          ensure (0 < snd r);
          if snd r = 1 then Some (True, skip)
          else star_loop nocase m (fst r + 1) (snd r - 1) s skip }
        else do {
          r \<leftarrow> match_char nocase m p plen (hd s);
          case r of
            None \<Rightarrow> Some (False, skip)
          | Some (q, n) \<Rightarrow> do {
              ensure (0 < n);
              if tl s = [] then do {
                (q, n) \<leftarrow> trailing_stars m (q + 1) (n - 1);
                Some (n = 0, skip) }
              else matchLenImpl nocase m (q + 1) (n - 1) (tl s) skip } } })"
| "star_loop nocase m p plen s skip =
     (if s = [] then Some (False, True)
      else do {
        r \<leftarrow> matchLenImpl nocase m p plen s skip;
        if fst r then Some (True, snd r)
        else if snd r then Some (False, True)
        else star_loop nocase m p plen (tl s) (snd r) })"
  by pat_completeness auto
termination
proof (relation "inv_image (less_than <*lex*> less_than <*lex*> less_than)
    (case_sum (\<lambda>(nocase, m, p, plen, s, skip). (plen, length s, 0))
       (\<lambda>(nocase, m, p, plen, s, skip). (plen, length s, 1 :: nat)))", goal_cases)
  case (2 nocase m p plen s skip c r)
  from skip_stars_le [of m p plen "fst r" "snd r"] 2 show ?case by (auto simp: ensure_def split: if_splits)
next
  case (3 nocase m p plen s skip c r v q n)
  then show ?case by (auto simp: ensure_def split: if_splits dest: match_char_le)
qed auto

definition matchLen :: "bool \<Rightarrow> bytes \<Rightarrow> bytes \<Rightarrow> bool option" where
  "matchLen nocase pattern str =
     map_option fst (matchLenImpl nocase (pattern @ [NUL]) 0 (length pattern) str False)"

declare matchLenImpl.simps [simp del] star_loop.simps [simp del]

section \<open>The items of a pattern\<close>

text \<open>A pattern is a sequence of items, and a star stands for any string. A backslash makes the next byte
  literal, a bracket without end extends to the end of the pattern. Inside brackets an escaped byte is
  compared as it is, even if case does not matter.\<close>

datatype class_item = Exact char | Span char char | Plain char

datatype glob_item = Star | Any | One char | Class bool "class_item list"

fun parse_class :: "bytes \<Rightarrow> class_item list \<times> bytes" where
  "parse_class [] = ([], [])"
| "parse_class (c # r) =
     (if c = BSL \<and> r \<noteq> [] then (case parse_class (tl r) of (items, rest) \<Rightarrow> (Exact (hd r) # items, rest))
      else if c = RBRACKET then ([], r)
      else if 2 \<le> length r \<and> hd r = CHR ''-''
      then (case parse_class (drop 2 r) of (items, rest) \<Rightarrow> (Span c (r ! 1) # items, rest))
      else (case parse_class r of (items, rest) \<Rightarrow> (Plain c # items, rest)))"

lemma parse_class_shorter: "length (snd (parse_class r)) \<le> length r"
  by (induction r rule: parse_class.induct) (auto split: prod.splits)

text \<open>The first item of a pattern that is not empty.\<close>

definition first_item :: "char \<Rightarrow> bytes \<Rightarrow> glob_item \<times> bytes" where
  "first_item c r =
     (if c = STAR then (Star, r)
      else if c = CHR ''?'' then (Any, r)
      else if c = CHR ''['' then
        (let no = r \<noteq> [] \<and> hd r = CHR ''^'';
             (items, rest) = parse_class (if no then tl r else r)
         in (Class no items, rest))
      else if c = BSL \<and> r \<noteq> [] then (One (hd r), tl r)
      else (One c, r))"

lemma first_item_shorter: "length (snd (first_item c r)) \<le> length r"
  using parse_class_shorter [of r] parse_class_shorter [of "tl r"]
  by (auto simp: first_item_def Let_def split: prod.splits)

function glob :: "bytes \<Rightarrow> glob_item list" where
  "glob [] = []"
| "glob (c # r) = fst (first_item c r) # glob (snd (first_item c r))"
  by pat_completeness auto
termination by (relation "measure length") (auto simp: le_imp_less_Suc first_item_shorter)





section \<open>The matcher decides it\<close>








lemma glob_eq_Nil [simp]: "glob xs = [] \<longleftrightarrow> xs = []"
  by (cases xs) simp_all







section \<open>What a pattern means\<close>



















section \<open>Where it is not what one expects\<close>

text \<open>The star does not match the empty string, which the loop never looks at.\<close>

lemma star_misses_empty: "matchLen nocase ''*'' [] = Some False"
  by (simp add: matchLen_def matchLenImpl.simps)

text \<open>A span is put in order before its ends are made lower case, so ignoring case can lose a match; and
  an escaped byte in brackets is compared with case.\<close>

lemma nocase_loses_span:
  "matchLen False ''[Z-a]'' ''Z'' = Some True" "matchLen True ''[Z-a]'' ''Z'' = Some False"
  "matchLen True ''[A]'' ''a'' = Some True" "matchLen True [CHR ''['', BSL, CHR ''A'', RBRACKET] ''a'' = Some False"
  by code_simp+

end
