(* ===== verification/MemSize.thy ===== *)
theory MemSize
  imports StringUtil
begin

text \<open>
  Sizes with units and lists of numbers in \<open>common/StringUtil.cpp\<close>: \<open>memtoll\<close> reads \<open>64kb\<close> or \<open>2g\<close>, \<open>lltomem\<close> writes the
  largest unit that divides. \<open>strtoll\<close> is that of the C library on a text with an optional sign and digits
  only; whether it sets \<open>EINVAL\<close> when there are no digits is left open by the standard and an
  argument. A signed overflow is a fault. \<open>split\<close> is \<open>absl::StrSplit\<close>, \<open>atoi\<close> is \<open>absl::SimpleAtoi\<close>, and
  \<open>fixed2\<close> writes a quotient with two decimals.
\<close>

definition clamp64 :: "int \<Rightarrow> int" where
  "clamp64 v = max (- (2 ^ 63)) (min (2 ^ 63 - 1) v)"

text \<open>The value and the rest of the text at which \<open>endptr\<close> points.\<close>

definition strtoll :: "bytes \<Rightarrow> int \<times> bytes" where
  "strtoll buf =
     (let neg = buf \<noteq> [] \<and> hd buf = CHR ''-'';
          r = (if neg then tl buf else buf);
          ds = takeWhile is_digit r
      in if ds = [] then (0, buf)
         else (clamp64 (if neg then - int (digits_value 0 ds) else int (digits_value 0 ds)), dropWhile is_digit r))"

definition unit_multiplier :: "bytes \<Rightarrow> int option" where
  "unit_multiplier u =
     (if u = [] \<or> equalsNoCase u ''b'' then Some 1
      else if equalsNoCase u ''k'' then Some 1000
      else if equalsNoCase u ''kb'' then Some 1024
      else if equalsNoCase u ''m'' then Some (1000 * 1000)
      else if equalsNoCase u ''mb'' then Some (1024 * 1024)
      else if equalsNoCase u ''g'' then Some (1000 * 1000 * 1000)
      else if equalsNoCase u ''gb'' then Some (1024 * 1024 * 1024)
      else None)"

text \<open>The value and \<open>err\<close>. The number of digits is an \<open>unsigned int\<close>.\<close>

definition memtoll :: "bool \<Rightarrow> bytes \<Rightarrow> (int \<times> bool) option" where
  "memtoll einval p =
     (let s = c_str p;
          u = dropWhile is_digit (if s \<noteq> [] \<and> hd s = CHR ''-'' then tl s else s)
      in case unit_multiplier u of
           None \<Rightarrow> Some (0, True)
         | Some mul \<Rightarrow>
             (let digits = (length s - length u) mod 2 ^ 32
              in if 128 \<le> digits then Some (0, True)
                 else let buf = take digits s; (val, rest) = strtoll buf
                   in if (val = 0 \<and> rest = buf \<and> einval) \<or> rest \<noteq> [] then Some (0, True)
                      else if int64_range (val * mul) then Some (val * mul, False) else None))"

text \<open>\<open>/\<close> and \<open>%\<close> truncate in C and round down here, which is the same where the remainder is zero.\<close>

definition lltomem :: "int \<Rightarrow> bytes" where
  "lltomem bytes =
     (let gb = 1024 * 1024 * 1024; mb = 1024 * 1024; kb = 1024
      in if bytes \<noteq> 0 \<and> bytes mod gb = 0 then dec_int (bytes div gb) @ ''gb''
         else if bytes \<noteq> 0 \<and> bytes mod mb = 0 then dec_int (bytes div mb) @ ''mb''
         else if bytes \<noteq> 0 \<and> bytes mod kb = 0 then dec_int (bytes div kb) @ ''kb''
         else dec_int bytes)"

section \<open>Reading what was written\<close>

lemma c_str_all: "NUL \<notin> set s \<Longrightarrow> c_str s = s"
  by (auto simp: c_str_def takeWhile_eq_all_conv)

lemma NUL_not_digit: "\<not> is_digit NUL"
  by (simp add: is_digit_def code_def)

lemma dec_nat_no_NUL: "NUL \<notin> set (dec_nat n)"
  using dec_nat_digits [of NUL n] NUL_not_digit by blast

lemma split_digits:
  "(u = [] \<or> \<not> is_digit (hd u)) \<Longrightarrow> takeWhile is_digit (dec_nat n @ u) = dec_nat n \<and> dropWhile is_digit (dec_nat n @ u) = u"
  by (cases u) (auto simp: takeWhile_append dropWhile_append dec_nat_digits takeWhile_eq_all_conv)

lemma takeWhile_dec_nat [simp]: "takeWhile is_digit (dec_nat n) = dec_nat n" "dropWhile is_digit (dec_nat n) = []"
  using split_digits [of "[]" n] by simp_all

lemma strtoll_dec_int: "int64_range v \<Longrightarrow> strtoll (dec_int v) = (v, [])"
  using hd_dec_nat [of "nat v"] by (simp add: strtoll_def dec_int_def clamp64_def int64_range_def)

lemma dec_int_short: "int64_range v \<Longrightarrow> length (dec_int v) \<le> 20"
proof -
  assume "int64_range v"
  then have "nat v < 10 ^ 19" "nat (- v) < 10 ^ 19" by (auto simp: int64_range_def)
  from this [THEN length_dec_nat] have "length (dec_nat (nat v)) \<le> 19" "length (dec_nat (nat (- v))) \<le> 19"
    by simp_all
  then show ?thesis by (simp add: dec_int_def)
qed

lemma memtoll_reads:
  assumes "int64_range v" "int64_range (v * mul)" "unit_multiplier u = Some mul" "u = [] \<or> \<not> is_digit (hd u)" "NUL \<notin> set u"
  shows "memtoll einval (dec_int v @ u) = Some (v * mul, False)"
proof -
  define s where "s = dec_int v @ u"
  have "NUL \<notin> set s" using assms(5) dec_nat_no_NUL by (auto simp: s_def dec_int_def)
  then have c: "c_str s = s" by (rule c_str_all)
  have unit: "dropWhile is_digit (if s \<noteq> [] \<and> hd s = CHR ''-'' then tl s else s) = u"
    using split_digits [OF assms(4)] hd_dec_nat by (auto simp: s_def dec_int_def)
  have "dec_int v \<noteq> []" "[] \<noteq> dec_int v" by (simp_all add: dec_int_def)
  moreover have "length s - length u = length (dec_int v)" "length (dec_int v) mod 2 ^ 32 = length (dec_int v)"
    using dec_int_short [OF assms(1)] by (simp_all add: s_def)
  ultimately show ?thesis
    unfolding s_def [symmetric] memtoll_def c Let_def unit assms(3)
    using dec_int_short [OF assms(1)] strtoll_dec_int [OF assms(1)] assms(2) by (simp add: s_def)
qed

lemma units [simp]:
  "unit_multiplier [] = Some 1" "unit_multiplier ''kb'' = Some 1024" "unit_multiplier ''mb'' = Some (1024 * 1024)"
  "unit_multiplier ''gb'' = Some (1024 * 1024 * 1024)"
  by (simp add: unit_multiplier_def) code_simp+

lemma letters: "\<not> is_digit (hd ''kb'')" "\<not> is_digit (hd ''mb'')" "\<not> is_digit (hd ''gb'')"
  by (simp_all add: is_digit_def code_def)

lemma reads_unit:
  assumes "int64_range n" "n mod k = 0" "0 < k" "unit_multiplier u = Some k" "u = [] \<or> \<not> is_digit (hd u)" "NUL \<notin> set u"
  shows "memtoll einval (dec_int (n div k) @ u) = Some (n, False)"
proof -
  have n: "n div k * k = n" using assms(2) by (simp add: mod_0_imp_dvd)
  have "1 * \<bar>n div k\<bar> \<le> k * \<bar>n div k\<bar>" using assms(3) by (intro mult_right_mono) simp_all
  also have "\<dots> = \<bar>n\<bar>" using n assms(3) by (metis abs_mult abs_of_pos mult.commute)
  finally have "\<bar>n div k\<bar> \<le> \<bar>n\<bar>" by simp
  moreover have "0 \<le> n div k \<longleftrightarrow> 0 \<le> n" using assms(3) by (rule pos_imp_zdiv_nonneg_iff)
  ultimately have "int64_range (n div k)" using assms(1) unfolding int64_range_def by linarith
  from memtoll_reads [OF this _ assms(4-6)] n assms(1) show ?thesis by simp
qed

text \<open>A size that is written with its unit is read back.\<close>

lemma memory_size_roundtrip:
  assumes "- (2 ^ 63) \<le> n" "n < 2 ^ 63"
  shows "memtoll einval (lltomem n) = Some (n, False)"
proof -
  have n: "int64_range n" using assms by (simp add: int64_range_def)
  note reads = reads_unit [OF n _ _ units(1) disjI1, of einval] reads_unit [OF n _ _ units(2) disjI2 [OF letters(1)], of einval]
    reads_unit [OF n _ _ units(3) disjI2 [OF letters(2)], of einval] reads_unit [OF n _ _ units(4) disjI2 [OF letters(3)], of einval]
  consider (gb) "n \<noteq> 0 \<and> n mod (1024 * 1024 * 1024) = 0"
    | (mb) "\<not> (n \<noteq> 0 \<and> n mod (1024 * 1024 * 1024) = 0)" "n \<noteq> 0 \<and> n mod (1024 * 1024) = 0"
    | (kb) "\<not> (n \<noteq> 0 \<and> n mod (1024 * 1024 * 1024) = 0)" "\<not> (n \<noteq> 0 \<and> n mod (1024 * 1024) = 0)" "n \<noteq> 0 \<and> n mod 1024 = 0"
    | (one) "\<not> (n \<noteq> 0 \<and> n mod (1024 * 1024 * 1024) = 0)" "\<not> (n \<noteq> 0 \<and> n mod (1024 * 1024) = 0)" "\<not> (n \<noteq> 0 \<and> n mod 1024 = 0)"
    by blast
  then show ?thesis
  proof cases
    case gb
    then show ?thesis unfolding lltomem_def Let_def if_P [OF gb] by (intro reads(4)) simp_all
  next
    case mb
    then show ?thesis unfolding lltomem_def Let_def if_not_P [OF mb(1)] if_P [OF mb(2)] by (intro reads(3)) simp_all
  next
    case kb
    then show ?thesis
      unfolding lltomem_def Let_def if_not_P [OF kb(1)] if_not_P [OF kb(2)] if_P [OF kb(3)] by (intro reads(2)) simp_all
  next
    case one
    then show ?thesis
      unfolding lltomem_def Let_def if_not_P [OF one(1)] if_not_P [OF one(2)] if_not_P [OF one(3)]
      using reads(1) by simp
  qed
qed

text \<open>A number out of range is read as the largest, without an error; with a unit the product overflows.\<close>

lemma memtoll_overflow_silent:
  "memtoll einval ''9223372036854775808'' = Some (9223372036854775807, False)"
  "memtoll einval ''9223372036854775807kb'' = None"
  by (simp_all add: memtoll_def c_str_def is_digit_def code_def strtoll_def digit_value_def clamp64_def int64_range_def
      unit_multiplier_def equalsNoCase_def to_lower_def)

section \<open>Sizes for humans\<close>

definition bytesToHuman :: "(nat \<Rightarrow> nat \<Rightarrow> bytes) \<Rightarrow> nat \<Rightarrow> bytes" where
  "bytesToHuman fixed2 n =
     (if n < 1024 then dec_nat n @ ''B''
      else if n < 1024 ^ 2 then fixed2 n 1024 @ ''K''
      else if n < 1024 ^ 3 then fixed2 n (1024 ^ 2) @ ''M''
      else if n < 1024 ^ 4 then fixed2 n (1024 ^ 3) @ ''G''
      else if n < 1024 ^ 5 then fixed2 n (1024 ^ 4) @ ''T''
      else if n < 1024 ^ 6 then fixed2 n (1024 ^ 5) @ ''P''
      else dec_nat n @ ''B'')"

section \<open>Lists of numbers\<close>

definition INT_MAX :: int where "INT_MAX = 2 ^ 31 - 1"

fun int_args :: "(bytes \<Rightarrow> char \<Rightarrow> bytes list) \<Rightarrow> (bytes \<Rightarrow> int option) \<Rightarrow> bytes list \<Rightarrow> int \<Rightarrow> int list
    \<Rightarrow> (bool \<times> int list) option" where
  "int_args split atoi [] prev_num arr = Some (True, arr)"
| "int_args split atoi (arg # args) prev_num arr =
     (case split arg (CHR ''-'') of
        [v] \<Rightarrow>
          (case atoi v of
             None \<Rightarrow> Some (False, arr)
           | Some num \<Rightarrow> int_args split atoi args num (arr @ [num]))
      | [v, w] \<Rightarrow>
          (case (atoi v, atoi w) of
             (Some start, Some fin) \<Rightarrow>
               if start > fin \<or> start \<le> prev_num then Some (False, arr)
               else if fin = INT_MAX then None
               else int_args split atoi args fin (arr @ [start..fin])
           | _ \<Rightarrow> Some (False, arr))
      | _ \<Rightarrow> Some (False, arr))"

definition string2IntArr :: "(bytes \<Rightarrow> char \<Rightarrow> bytes list) \<Rightarrow> (bytes \<Rightarrow> int option) \<Rightarrow> bytes \<Rightarrow> int list
    \<Rightarrow> (bool \<times> int list) option" where
  "string2IntArr split atoi str arr =
     (if str = [] then Some (False, arr) else int_args split atoi (split str (CHR '','')) (- 1) arr)"

text \<open>The text of ascending ranges, a range of one number without a dash.\<close>

definition range_text :: "nat \<times> nat \<Rightarrow> bytes" where
  "range_text r = (if fst r = snd r then dec_nat (fst r) else dec_nat (fst r) @ CHR ''-'' # dec_nat (snd r))"

fun ascending :: "int \<Rightarrow> (nat \<times> nat) list \<Rightarrow> bool" where
  "ascending prev [] = True"
| "ascending prev (r # rs) \<longleftrightarrow> prev < int (fst r) \<and> fst r \<le> snd r \<and> int (snd r) < INT_MAX \<and> ascending (int (snd r)) rs"

context str_split
begin

lemma dash_free: "CHR ''-'' \<notin> set (dec_nat n)" "CHR '','' \<notin> set (dec_nat n)"
proof -
  have "\<not> is_digit (CHR ''-'')" "\<not> is_digit (CHR '','')" by (simp_all add: is_digit_def code_def)
  then show "CHR ''-'' \<notin> set (dec_nat n)" "CHR '','' \<notin> set (dec_nat n)" using dec_nat_digits by blast+
qed

lemma int_args_ranges:
  assumes "\<And>n. int n < 2 ^ 31 \<Longrightarrow> atoi (dec_nat n) = Some (int n)"
  shows "ascending prev rs \<Longrightarrow> int_args split atoi (map range_text rs) prev arr
    = Some (True, arr @ concat (map (\<lambda>r. [int (fst r)..int (snd r)]) rs))"
proof (induction rs arbitrary: prev arr)
  case (Cons r rs)
  then have r: "prev < int (fst r)" "fst r \<le> snd r" "int (snd r) < INT_MAX" "ascending (int (snd r)) rs" by simp_all
  have "atoi (dec_nat (fst r)) = Some (int (fst r))" "atoi (dec_nat (snd r)) = Some (int (snd r))"
    using r(2,3) by (auto intro!: assms simp: INT_MAX_def)
  then show ?case
    using r Cons.IH [OF r(4)] split_one [OF dash_free(1)] split_two [OF dash_free(1) dash_free(1)]
    by (cases "fst r = snd r") (simp_all add: range_text_def)
qed simp

text \<open>Reading the text of ascending ranges gives their numbers.\<close>

lemma string2IntArr_ranges:
  assumes "\<And>n. int n < 2 ^ 31 \<Longrightarrow> atoi (dec_nat n) = Some (int n)" "ascending (- 1) rs" "rs \<noteq> []"
  shows "string2IntArr split atoi (join (CHR '','') (map range_text rs)) []
    = Some (True, concat (map (\<lambda>r. [int (fst r)..int (snd r)]) rs))"
proof -
  have "\<forall>w \<in> set (map range_text rs). CHR '','' \<notin> set w \<and> w \<noteq> []"
    using dash_free by (auto simp: range_text_def)
  then have "split (join (CHR '','') (map range_text rs)) (CHR '','') = map range_text rs"
    "join (CHR '','') (map range_text rs) \<noteq> []"
    using assms(3) by (auto intro!: split_join simp: join_eq_Nil)
  then show ?thesis using int_args_ranges [OF assms(1,2), of "[]"] by (simp add: string2IntArr_def)
qed

end

text \<open>A single number may come before those already read, a range may not; a range up to the largest
  integer never ends.\<close>

lemma string2IntArr_unsorted:
  assumes "split (''5,3'') (CHR '','') = [''5'', ''3'']" "split ''5'' (CHR ''-'') = [''5'']" "split ''3'' (CHR ''-'') = [''3'']"
    "atoi ''5'' = Some 5" "atoi ''3'' = Some 3"
  shows "string2IntArr split atoi ''5,3'' [] = Some (True, [5, 3])"
  using assms by (simp add: string2IntArr_def)

end
