(* ===== verification/RandomBytes.thy ===== *)
theory RandomBytes
  imports Sha256
begin

text \<open>
  \<open>StringUtil::getRandomBytes\<close> and \<open>getRandomHexChars\<close>: a seed that is read once, and a counter that is
  hashed with it for every 32 bytes. What \<open>/dev/urandom\<close> gives (\<open>None\<close> if it cannot be read) and the bytes
  mixed from clock and process are arguments, and so are the bytes \<open>junk\<close> the block of a context holds before
  it is written, for each number of bytes still to write. The reference is HMAC-SHA-256. The host is
  little-endian.
\<close>

record random_state =
  seed_initialized :: bool
  seed :: octets
  counter :: "64 word"

definition random_start :: random_state where
  "random_start = \<lparr>seed_initialized = False, seed = replicate 64 0, counter = 0\<rparr>"

definition le64_octets :: "64 word \<Rightarrow> octets" where
  "le64_octets n = map (\<lambda>i. ucast (drop_bit (8 * i) n)) [0..<8]"

definition seeded :: "octets option \<Rightarrow> octets \<Rightarrow> random_state \<Rightarrow> random_state" where
  "seeded urandom fallback st =
     (if seed_initialized st then st
      else case urandom of
             None \<Rightarrow> st\<lparr>seed := fallback\<rparr>
           | Some bytes \<Rightarrow> st\<lparr>seed := bytes, seed_initialized := True\<rparr>)"

definition random_digest :: "octets \<times> octets \<Rightarrow> octets \<Rightarrow> 64 word \<Rightarrow> octets option" where
  "random_digest junk key n = do {
     let kxor = map (\<lambda>b. b XOR 0x36) key;
     ctx \<leftarrow> sha256_update kxor (sha256_init (fst junk));
     ctx \<leftarrow> sha256_update (le64_octets n) ctx;
     let digest = sha256_final ctx;
     let kxor = map (\<lambda>b. b XOR 0x5C) key;
     ctx \<leftarrow> sha256_update kxor (sha256_init (snd junk));
     ctx \<leftarrow> sha256_update digest ctx;
     Some (sha256_final ctx) }"

function random_loop :: "(nat \<Rightarrow> octets \<times> octets) \<Rightarrow> nat \<Rightarrow> random_state \<Rightarrow> (octets \<times> random_state) option" where
  "random_loop junk len st =
     (if len = 0 then Some ([], st)
      else do {
        let copylen = (if len > 32 then 32 else len);
        digest \<leftarrow> random_digest (junk len) (seed st) (counter st);
        let st = st\<lparr>counter := counter st + 1\<rparr>;
        (rest, st) \<leftarrow> random_loop junk (len - copylen) st;
        Some (take copylen digest @ rest, st) })"
  by pat_completeness auto
termination by (relation "measure (\<lambda>(junk, len, st). len)") auto

declare random_loop.simps [simp del]

definition getRandomBytes ::
  "(nat \<Rightarrow> octets \<times> octets) \<Rightarrow> octets option \<Rightarrow> octets \<Rightarrow> nat \<Rightarrow> random_state \<Rightarrow> (octets \<times> random_state) option" where
  "getRandomBytes junk urandom fallback len st = random_loop junk len (seeded urandom fallback st)"

definition hex_charset :: octets where
  "hex_charset = [0x30, 0x31, 0x32, 0x33, 0x34, 0x35, 0x36, 0x37, 0x38, 0x39, 0x61, 0x62, 0x63, 0x64, 0x65, 0x66]"

definition getRandomHexChars ::
  "(nat \<Rightarrow> octets \<times> octets) \<Rightarrow> octets option \<Rightarrow> octets \<Rightarrow> nat \<Rightarrow> random_state \<Rightarrow> (octets \<times> random_state) option" where
  "getRandomHexChars junk urandom fallback len st = do {
     (p, st) \<leftarrow> getRandomBytes junk urandom fallback len st;
     Some (map (\<lambda>b. hex_charset ! unat (b AND 0x0F)) p, st) }"

section \<open>The reference\<close>

text \<open>HMAC for keys of at most a block.\<close>

definition hmac_sha256 :: "octets \<Rightarrow> octets \<Rightarrow> octets" where
  "hmac_sha256 key m =
     (let k = key @ replicate (64 - length key) 0
      in sha256 (map (\<lambda>b. b XOR 0x5C) k @ sha256 (map (\<lambda>b. b XOR 0x36) k @ m)))"

definition keystream :: "octets \<Rightarrow> 64 word \<Rightarrow> nat \<Rightarrow> octets" where
  "keystream key n k = concat (map (\<lambda>i. hmac_sha256 key (le64_octets (n + word_of_nat i))) [0..<k])"

lemma length_sha256_transform: "length st = 8 \<Longrightarrow> length (sha256_transform d st) = 8"
proof -
  have "length (sha256_round m i s) = length s" for m i s
    by (cases "(m, i, s)" rule: sha256_round.cases) (simp_all add: Let_def)
  then have "length (fold (sha256_round m) is s) = length s" for m "is" s
    by (induction "is" arbitrary: s) simp_all
  then show "length st = 8 \<Longrightarrow> length (sha256_transform d st) = 8" by (simp add: sha256_transform_def)
qed

lemma length_sha256 [simp]: "length (sha256 m) = 32"
proof -
  have "length (fold sha256_transform bs st) = length st" if "length st = 8" for bs and st :: "32 word list"
    using that by (induction bs arbitrary: st) (simp_all add: length_sha256_transform)
  moreover have "length (concat (map be32_octets ws)) = 4 * length ws" for ws
    by (induction ws) (simp_all add: be32_octets_def)
  ultimately show ?thesis by (simp add: sha256_def sha256_start_def)
qed

lemma length_le64_octets [simp]: "length (le64_octets n) = 8"
  by (simp add: le64_octets_def)

lemma random_digest_hmac:
  assumes "length key = 64" "length (fst junk) = 64" "length (snd junk) = 64"
  shows "random_digest junk key n = Some (hmac_sha256 key (le64_octets n))"
proof -
  have two: "do { ctx \<leftarrow> sha256_update a (sha256_init j); ctx \<leftarrow> sha256_update b ctx; f (sha256_final ctx) }
      = f (sha256 (a @ b))" if "length j = 64" "length a < 2 ^ 32" "length b < 2 ^ 32" for a b j and f :: "octets \<Rightarrow> octets option"
  proof -
    from sha256_update_hashed [OF hashed_init [OF that(1)] that(2)] obtain ctx1 where
      1: "sha256_update a (sha256_init j) = Some ctx1" "hashed a ctx1" by auto
    from sha256_update_hashed [OF 1(2) that(3)] obtain ctx2 where
      "sha256_update b ctx1 = Some ctx2" "hashed (a @ b) ctx2" by auto
    with 1(1) show ?thesis by (simp add: sha256_final_hashed)
  qed
  define outer where "outer digest = do {
      ctx \<leftarrow> sha256_update (map (\<lambda>b. b XOR 0x5C) key) (sha256_init (snd junk)); ctx \<leftarrow> sha256_update digest ctx;
      Some (sha256_final ctx) }" for digest
  have "outer (sha256 m) = Some (sha256 (map (\<lambda>b. b XOR 0x5C) key @ sha256 m))" for m
    unfolding outer_def using assms by (intro two) simp_all
  moreover have "random_digest junk key n = outer (sha256 (map (\<lambda>b. b XOR 0x36) key @ le64_octets n))"
    unfolding random_digest_def Let_def outer_def [symmetric] using assms by (intro two) simp_all
  ultimately show ?thesis using assms(1) by (simp add: hmac_sha256_def)
qed

lemma keystream_Suc: "keystream key n (Suc k) = hmac_sha256 key (le64_octets n) @ keystream key (n + 1) k"
proof -
  have "keystream key n (Suc k) = concat (map (\<lambda>i. hmac_sha256 key (le64_octets (n + word_of_nat i))) (0 # map Suc [0..<k]))"
    by (simp only: keystream_def map_Suc_upt upt_conv_Cons zero_less_Suc)
  then show ?thesis by (simp add: keystream_def o_def algebra_simps)
qed

lemma random_loop_keystream:
  assumes "length (seed st) = 64" "\<And>n. length (fst (junk n)) = 64 \<and> length (snd (junk n)) = 64"
  shows "random_loop junk len st = Some (take len (keystream (seed st) (counter st) ((len + 31) div 32)),
    st\<lparr>counter := counter st + word_of_nat ((len + 31) div 32)\<rparr>)"
  using assms(1)
proof (induction len arbitrary: st rule: less_induct)
  case (less len)
  show ?case
  proof (cases "len = 0")
    case True
    then show ?thesis by (simp add: random_loop.simps)
  next
    case False
    define c where "c = (if len > 32 then 32 else len)"
    have c: "0 < c" "c \<le> len" "c \<le> 32" "(len + 31) div 32 = Suc ((len - c + 31) div 32)"
      using False by (auto simp: c_def)
    have hmac: "random_digest (junk len) (seed st) (counter st) = Some (hmac_sha256 (seed st) (le64_octets (counter st)))"
      using assms(2) less.prems by (intro random_digest_hmac) auto
    have "random_loop junk (len - c) (st\<lparr>counter := counter st + 1\<rparr>) = Some
        (take (len - c) (keystream (seed st) (counter st + 1) ((len - c + 31) div 32)),
         st\<lparr>counter := counter st + 1 + word_of_nat ((len - c + 31) div 32)\<rparr>)"
      using less.IH [of "len - c" "st\<lparr>counter := counter st + 1\<rparr>"] c(1,2) less.prems by simp
    then have "random_loop junk len st = Some
        (take c (hmac_sha256 (seed st) (le64_octets (counter st)))
           @ take (len - c) (keystream (seed st) (counter st + 1) ((len - c + 31) div 32)),
         st\<lparr>counter := counter st + 1 + word_of_nat ((len - c + 31) div 32)\<rparr>)"
      using False hmac by (simp add: random_loop.simps [of junk len] c_def Let_def)
    moreover have "take len (keystream (seed st) (counter st) ((len + 31) div 32))
        = take c (hmac_sha256 (seed st) (le64_octets (counter st)))
           @ take (len - c) (keystream (seed st) (counter st + 1) ((len - c + 31) div 32))"
      by (cases "len > 32") (simp_all add: c(4) keystream_Suc hmac_sha256_def c_def)
    ultimately show ?thesis by (simp add: c(4) algebra_simps)
  qed
qed

text \<open>C36: The random bytes are the HMAC-SHA-256 stream of the seed over the counter, cut to the length asked
  for; the counter goes on by one for every 32 bytes, and the seed is what \<open>/dev/urandom\<close> gave the first time it
  could be read, or else mixed anew in every call.\<close>

theorem random_bytes_are_hmac:
  assumes "length (seed st) = 64" "\<And>n. length (fst (junk n)) = 64 \<and> length (snd (junk n)) = 64"
    "length fallback = 64" "case urandom of None \<Rightarrow> True | Some bytes \<Rightarrow> length bytes = 64"
  shows "\<exists>key. getRandomBytes junk urandom fallback len st =
      Some (take len (keystream key (counter st) ((len + 31) div 32)),
        \<lparr>seed_initialized = seed_initialized st \<or> urandom \<noteq> None, seed = key,
         counter = counter st + word_of_nat ((len + 31) div 32)\<rparr>)
    \<and> key = (if seed_initialized st then seed st else case urandom of None \<Rightarrow> fallback | Some bytes \<Rightarrow> bytes)"
proof -
  define st' where "st' = seeded urandom fallback st"
  have st': "length (seed st') = 64" "counter st' = counter st"
    "seed_initialized st' \<longleftrightarrow> seed_initialized st \<or> urandom \<noteq> None"
    "seed st' = (if seed_initialized st then seed st else case urandom of None \<Rightarrow> fallback | Some bytes \<Rightarrow> bytes)"
    using assms by (auto simp: st'_def seeded_def split: option.splits)
  have "st'\<lparr>counter := n\<rparr> = \<lparr>seed_initialized = seed_initialized st', seed = seed st', counter = n\<rparr>" for n
    by (cases st') simp
  with random_loop_keystream [OF st'(1) assms(2), where len = len] st' show ?thesis
    by (intro exI [of _ "seed st'"]) (simp add: getRandomBytes_def st'_def [symmetric])
qed

theorem random_bytes_are_hmac_witness:
  "\<exists>key. getRandomBytes (\<lambda>n. (replicate 64 1, replicate 64 2)) None (replicate 64 3) 40 random_start =
      Some (take 40 (keystream key 0 2), \<lparr>seed_initialized = False, seed = key, counter = 2\<rparr>)
    \<and> key = replicate 64 3"
  using random_bytes_are_hmac [of random_start "\<lambda>n. (replicate 64 1, replicate 64 2)" "replicate 64 3" None 40]
  by (simp add: random_start_def)

end
