(* ===== verification/MathUtil.thy ===== *)
theory MathUtil
  imports Main "HOL-Library.Word"
begin

text \<open>
  \<open>common/MathUtil\<close>: powers of two, and the generator \<open>lrand48\<close> in limbs of 16 bits held in 32-bit
  words, as the macros compute it. The reference is the linear congruence modulo 2 to the 48. The
  multiplier and the increment never change, so they are constants.
\<close>

unbundle bit_operations_syntax

section \<open>Powers of two\<close>

text \<open>The length of a number in bits: \<open>64 - __builtin_clzll(x)\<close>.\<close>

fun bit_length :: "nat \<Rightarrow> nat" where
  "bit_length x = (if x = 0 then 0 else Suc (bit_length (x div 2)))"

declare bit_length.simps [simp del]

lemma bit_length_0 [simp]: "bit_length 0 = 0"
  by (simp add: bit_length.simps)

lemma bit_length_bounds: "0 < x \<Longrightarrow> 0 < bit_length x \<and> 2 ^ (bit_length x - 1) \<le> x \<and> x < 2 ^ bit_length x"
proof (induction x rule: bit_length.induct)
  case (1 x)
  show ?case
  proof (cases "x div 2 = 0")
    case True
    with 1(2) have "x = 1" by auto
    then show ?thesis by (simp add: bit_length.simps)
  next
    case False
    with 1 have half: "0 < bit_length (x div 2)" "2 ^ (bit_length (x div 2) - 1) \<le> x div 2" "x div 2 < 2 ^ bit_length (x div 2)"
      by auto
    define k where "k = bit_length (x div 2) - 1"
    have k: "bit_length x = Suc (Suc k)" "bit_length (x div 2) = Suc k"
      using half(1) 1(2) by (simp_all add: bit_length.simps [of x] k_def)
    have "2 * (x div 2) \<le> x" "x \<le> 2 * (x div 2) + 1" by linarith+
    with half show ?thesis unfolding k by simp
  qed
qed

lemma bit_length_mono: "x \<le> y \<Longrightarrow> bit_length x \<le> bit_length y"
proof (induction x arbitrary: y rule: bit_length.induct)
  case (1 x)
  then show ?case by (cases "x = 0") (auto simp: bit_length.simps [of x] bit_length.simps [of y] div_le_mono)
qed

definition isPowOfTwo :: "64 word \<Rightarrow> bool" where
  "isPowOfTwo x \<longleftrightarrow> x AND (x - 1) = 0"

definition lgNextPowOfTwo :: "nat \<Rightarrow> nat" where
  "lgNextPowOfTwo x = (if x < 2 then 1 else bit_length (x - 1))"

text \<open>A shift by 64 is a fault.\<close>

definition nextPowOfTwo :: "nat \<Rightarrow> nat option" where
  "nextPowOfTwo x = (if x < 2 then Some 1 else if lgNextPowOfTwo x < 64 then Some (2 ^ lgNextPowOfTwo x) else None)"

lemma bit_length_le: "x < 2 ^ k \<longleftrightarrow> bit_length x \<le> k"
proof (cases "x = 0")
  case False
  then have b: "0 < bit_length x" "2 ^ (bit_length x - 1) \<le> x" "x < 2 ^ bit_length x" using bit_length_bounds [of x] by auto
  show ?thesis
  proof
    assume "x < 2 ^ k"
    with b(2) have "(2 :: nat) ^ (bit_length x - 1) < 2 ^ k" by linarith
    then have "bit_length x - 1 < k" by (rule power_less_imp_less_exp [rotated]) simp
    then show "bit_length x \<le> k" by simp
  next
    assume "bit_length x \<le> k"
    then have "(2 :: nat) ^ bit_length x \<le> 2 ^ k" by simp
    with b(3) show "x < 2 ^ k" by linarith
  qed
qed simp

text \<open>The least power of two that is not less, as long as it fits 64 bits.\<close>

lemma nextPowOfTwo_least:
  assumes "x \<le> 2 ^ 63"
  shows "\<exists>k. nextPowOfTwo x = Some (2 ^ k) \<and> x \<le> 2 ^ k \<and> (\<forall>j. x \<le> 2 ^ j \<longrightarrow> k \<le> j)"
proof (cases "x < 2")
  case True
  then have "x \<le> 1" by simp
  with True show ?thesis by (intro exI [of _ 0]) (simp add: nextPowOfTwo_def)
next
  case False
  then have iff: "x \<le> 2 ^ j \<longleftrightarrow> bit_length (x - 1) \<le> j" for j
    using bit_length_le [of "x - 1" j] by auto
  from assms have "bit_length (x - 1) \<le> 63" unfolding iff .
  with False have "lgNextPowOfTwo x \<le> 63" by (simp add: lgNextPowOfTwo_def)
  then show ?thesis
    using False iff by (intro exI [of _ "bit_length (x - 1)"]) (simp add: nextPowOfTwo_def lgNextPowOfTwo_def)
qed

text \<open>The exponent for zero and one is one, and zero counts as a power of two.\<close>

lemma lg_of_one: "lgNextPowOfTwo 1 = 1" "isPowOfTwo 0"
  by (simp_all add: lgNextPowOfTwo_def isPowOfTwo_def)

section \<open>The generator\<close>

definition LOW :: "32 word \<Rightarrow> 32 word" where "LOW x = x AND 0xFFFF"
definition HIGH :: "32 word \<Rightarrow> 32 word" where "HIGH x = LOW (signed_drop_bit 16 x)"
definition MUL :: "32 word \<Rightarrow> 32 word \<Rightarrow> 32 word \<times> 32 word" where "MUL x y = (LOW (x * y), HIGH (x * y))"

text \<open>\<open>(int32_t)(x) + (long)(y) > MASK\<close>.\<close>

definition CARRY :: "32 word \<Rightarrow> 32 word \<Rightarrow> 32 word" where
  "CARRY x y = (if sint x + uint y > 0xFFFF then 1 else 0)"

definition ADDEQU :: "32 word \<Rightarrow> 32 word \<Rightarrow> 32 word \<times> 32 word" where
  "ADDEQU x y = (LOW (x + y), CARRY x y)"

definition A0 :: "32 word" where "A0 = 0xE66D"
definition A1 :: "32 word" where "A1 = 0xDEEC"
definition A2 :: "32 word" where "A2 = 0x5"
definition increment :: "32 word" where "increment = 0xB"

type_synonym limbs = "32 word \<times> 32 word \<times> 32 word"

definition next_limbs :: "limbs \<Rightarrow> limbs" where
  "next_limbs x =
     (case x of (x0, x1, x2) \<Rightarrow>
        let (p0, p1) = MUL A0 x0;
            (p0, carry0) = ADDEQU p0 increment;
            (p1, carry1) = ADDEQU p1 carry0;
            (q0, q1) = MUL A0 x1;
            (p1, carry0) = ADDEQU p1 q0;
            (r0, r1) = MUL A1 x0
        in (LOW p0, LOW (p1 + r0),
            LOW (carry0 + carry1 + CARRY p1 r0 + q1 + r1 + A0 * x2 + A1 * x1 + A2 * x0)))"

definition redisLrand48 :: "limbs \<Rightarrow> 32 word \<times> limbs" where
  "redisLrand48 x = (case next_limbs x of (x0, x1, x2) \<Rightarrow> (push_bit 15 x2 + drop_bit 1 x1, (x0, x1, x2)))"

definition redisSrand48 :: "32 word \<Rightarrow> limbs" where
  "redisSrand48 seedval = (0x330E, LOW seedval, HIGH seedval)"

fun lrand48s :: "nat \<Rightarrow> limbs \<Rightarrow> 32 word list" where
  "lrand48s 0 x = []"
| "lrand48s (Suc n) x = (case redisLrand48 x of (r, x) \<Rightarrow> r # lrand48s n x)"

section \<open>The congruence\<close>

definition lcg :: "nat \<Rightarrow> nat" where
  "lcg X = (0x5DEECE66D * X + 0xB) mod 2 ^ 48"

definition limbs_value :: "limbs \<Rightarrow> nat" where
  "limbs_value x = (case x of (x0, x1, x2) \<Rightarrow> unat x0 + 2 ^ 16 * unat x1 + 2 ^ 32 * unat x2)"

definition limbs_ok :: "limbs \<Rightarrow> bool" where
  "limbs_ok x \<longleftrightarrow> (case x of (x0, x1, x2) \<Rightarrow> unat x0 < 2 ^ 16 \<and> unat x1 < 2 ^ 16 \<and> unat x2 < 2 ^ 16)"

lemma LOW_take: "LOW x = take_bit 16 x"
  by (simp add: LOW_def take_bit_eq_mask mask_eq_exp_minus_1)

lemma unat_LOW: "unat (LOW x) = unat x mod 2 ^ 16"
  unfolding LOW_take unsigned_take_bit_eq take_bit_eq_mod [of 16 "unat x"] ..

lemma unat_HIGH: "unat (HIGH x) = unat x div 2 ^ 16"
proof -
  have "HIGH x = drop_bit 16 x"
    unfolding HIGH_def LOW_take
    by (rule bit_word_eqI) (auto simp: bit_simps dest: bit_imp_le_length)
  then show ?thesis by (simp only: unat_drop_bit_eq drop_bit_eq_div [of 16 "unat x"])
qed

lemma MUL_value:
  assumes "unat x < 2 ^ 16" "unat y < 2 ^ 16"
  shows "unat x * unat y = unat (fst (MUL x y)) + 2 ^ 16 * unat (snd (MUL x y))"
    "unat (fst (MUL x y)) < 2 ^ 16" "unat (snd (MUL x y)) < 2 ^ 16"
proof -
  have "unat x * unat y < 2 ^ 16 * 2 ^ 16" using assms by (intro mult_strict_mono) simp_all
  then have product: "unat (x * y) = unat x * unat y"
    by (subst unat_mult_lem [symmetric]) simp
  then show "unat x * unat y = unat (fst (MUL x y)) + 2 ^ 16 * unat (snd (MUL x y))"
    unfolding MUL_def fst_conv snd_conv unat_LOW unat_HIGH product by (simp only: mod_mult_div_eq)
  show "unat (fst (MUL x y)) < 2 ^ 16" by (simp add: MUL_def unat_LOW)
  have "unat x * unat y div 2 ^ 16 < 2 ^ 16" using \<open>unat x * unat y < 2 ^ 16 * 2 ^ 16\<close> by (simp add: less_mult_imp_div_less)
  then show "unat (snd (MUL x y)) < 2 ^ 16" unfolding MUL_def snd_conv unat_HIGH product .
qed

lemma CARRY_value:
  assumes "unat x < 2 ^ 16" "unat y < 2 ^ 16"
  shows "unat x + unat y = unat (LOW (x + y)) + 2 ^ 16 * unat (CARRY x y)" "unat (CARRY x y) \<le> 1"
proof -
  have sum: "unat (x + y) = unat x + unat y" using assms by (simp add: unat_add_lem [THEN iffD1])
  have "int (unat x) < int (2 ^ 16)" using assms(1) by (simp only: of_nat_less_iff)
  then have "uint x < 2 ^ 31" by simp
  then have "sint x = int (unat x)"
    unfolding sint_uint by (subst signed_take_bit_int_eq_self) (simp_all add: order_trans [OF _ uint_ge_0])
  then have "CARRY x y = (if unat x + unat y \<ge> 2 ^ 16 then 1 else 0)"
    unfolding CARRY_def \<open>sint x = int (unat x)\<close> uint_nat of_nat_add [symmetric] by (simp del: of_nat_add)
  then show "unat x + unat y = unat (LOW (x + y)) + 2 ^ 16 * unat (CARRY x y)" "unat (CARRY x y) \<le> 1"
    using assms unfolding unat_LOW sum
    by (cases "unat x + unat y < 2 ^ 16"; simp add: le_mod_geq)+
qed

lemma limbs_product:
  fixes B :: nat
  assumes "a0 * X0 = p0 + B * p1" "a0 * X1 = q0 + B * q1" "a1 * X0 = r0 + B * r1"
    "p0 + c = s0 + B * k0" "p1 + k0 = s1 + B * k1" "s1 + q0 = s2 + B * k2" "s2 + r0 = y + B * k3"
  shows "(a0 + B * a1 + B * B * a2) * (X0 + B * X1 + B * B * X2) + c =
    s0 + B * y + B * B * (k2 + k1 + k3 + q1 + r1 + a0 * X2 + a1 * X1 + a2 * X0) + B * B * B * (a1 * X2 + a2 * X1 + B * (a2 * X2))"
proof -
  have "(a0 + B * a1 + B * B * a2) * (X0 + B * X1 + B * B * X2) + c =
      (a0 * X0 + c) + B * (a0 * X1) + B * (a1 * X0) + B * B * (a0 * X2 + a1 * X1 + a2 * X0)
      + B * B * B * (a1 * X2 + a2 * X1 + B * (a2 * X2))"
    by (simp add: algebra_simps)
  also have "(a0 * X0 + c) + B * (a0 * X1) + B * (a1 * X0) = (p0 + c) + B * p1 + B * q0 + B * r0 + B * B * q1 + B * B * r1"
    unfolding assms(1-3) by (simp add: algebra_simps)
  also have "\<dots> = s0 + B * (p1 + k0) + B * q0 + B * r0 + B * B * q1 + B * B * r1"
    unfolding assms(4) by (simp add: algebra_simps)
  also have "\<dots> = s0 + B * (s1 + q0) + B * r0 + B * B * (k1 + q1 + r1)"
    unfolding assms(5) by (simp add: algebra_simps)
  also have "\<dots> = s0 + B * (s2 + r0) + B * B * (k2 + k1 + q1 + r1)"
    unfolding assms(6) by (simp add: algebra_simps)
  also have "\<dots> = s0 + B * y + B * B * (k2 + k1 + k3 + q1 + r1)"
    unfolding assms(7) by (simp add: algebra_simps)
  finally show ?thesis by (simp add: algebra_simps)
qed

lemma limbs_mod:
  fixes B :: nat
  assumes "s0 < B" "y < B"
  shows "(s0 + B * y + B * B * t + B * B * B * w) mod (B * B * B) = s0 + B * y + B * B * (t mod B)"
proof -
  have parts: "s0 + B * y + B * B * t + B * B * B * w = (s0 + B * y + B * B * (t mod B)) + B * B * B * (t div B + w)"
  proof -
    have "B * B * t = B * B * (B * (t div B) + t mod B)" by simp
    then show ?thesis by (simp only: distrib_left mult.assoc add_ac)
  qed
  have "s0 + B * y + B * B * (t mod B) < B * B * B"
  proof -
    have "B * y + B \<le> B * B" using mult_le_mono2 [of "Suc y" B B] assms(2) by simp
    moreover have "B * B * (t mod B) + B * B \<le> B * B * B"
      using mult_le_mono2 [of "Suc (t mod B)" B "B * B"] mod_less_divisor [of B t] assms(1)
      by (simp add: Suc_le_eq add.commute)
    ultimately show ?thesis using assms(1) by linarith
  qed
  then show ?thesis unfolding parts mod_mult_self2 by (rule mod_less)
qed

lemma next_limbs_lcg:
  assumes "limbs_ok x"
  shows "limbs_ok (next_limbs x)" "limbs_value (next_limbs x) = lcg (limbs_value x)"
proof -
  obtain x0 x1 x2 where x: "x = (x0, x1, x2)" by (cases x)
  have b: "unat x0 < 2 ^ 16" "unat x1 < 2 ^ 16" "unat x2 < 2 ^ 16" "unat A0 < 2 ^ 16" "unat A1 < 2 ^ 16" "unat increment < 2 ^ 16"
    using assms by (simp_all add: x limbs_ok_def A0_def A1_def increment_def)
  define p0 p1 q0 q1 r0 r1 where "p0 = fst (MUL A0 x0)" "p1 = snd (MUL A0 x0)" "q0 = fst (MUL A0 x1)" "q1 = snd (MUL A0 x1)"
    "r0 = fst (MUL A1 x0)" "r1 = snd (MUL A1 x0)"
  note defs = this
  note p = MUL_value [OF b(4,1), folded defs] and q = MUL_value [OF b(4,2), folded defs]
    and r = MUL_value [OF b(5,1), folded defs]
  define s0 s1 s2 where "s0 = LOW (p0 + increment)" "s1 = LOW (p1 + CARRY p0 increment)" "s2 = LOW (s1 + q0)"
  note sums = this
  have low: "unat (LOW w) < 2 ^ 16" for w by (simp add: unat_LOW)
  have c0: "unat p0 + unat increment = unat s0 + 2 ^ 16 * unat (CARRY p0 increment)" "unat (CARRY p0 increment) \<le> 1"
    using CARRY_value [OF p(2) b(6)] by (simp_all add: sums)
  then have "unat (CARRY p0 increment) < 2 ^ 16" by simp
  from CARRY_value [OF p(3) this] have
    c1: "unat p1 + unat (CARRY p0 increment) = unat s1 + 2 ^ 16 * unat (CARRY p1 (CARRY p0 increment))"
    by (simp add: sums)
  have s1: "unat s1 < 2 ^ 16" "unat s2 < 2 ^ 16" unfolding sums by (rule low)+
  from CARRY_value [OF s1(1) q(2)] have c2: "unat s1 + unat q0 = unat s2 + 2 ^ 16 * unat (CARRY s1 q0)"
    by (simp add: sums)
  from CARRY_value [OF s1(2) r(2)] have c3: "unat s2 + unat r0 = unat (LOW (s2 + r0)) + 2 ^ 16 * unat (CARRY s2 r0)"
    by simp
  define top where "top = CARRY s1 q0 + CARRY p1 (CARRY p0 increment) + CARRY s2 r0 + q1 + r1 + A0 * x2 + A1 * x1 + A2 * x0"
  have s0: "LOW s0 = s0" by (simp add: sums LOW_take)
  have step: "next_limbs x = (s0, LOW (s2 + r0), LOW top)"
    by (simp add: next_limbs_def x Let_def split_beta ADDEQU_def defs [symmetric] sums [symmetric] s0 top_def)
  show "limbs_ok (next_limbs x)" by (simp add: step limbs_ok_def low [simplified] sums)
  define t where "t = unat (CARRY s1 q0) + unat (CARRY p1 (CARRY p0 increment)) + unat (CARRY s2 r0) + unat q1 + unat r1
    + unat A0 * unat x2 + unat A1 * unat x1 + unat A2 * unat x0"
  have "unat top = t mod 2 ^ 32"
    by (simp add: top_def t_def unat_word_ariths mod_simps)
  then have top: "unat (LOW top) = t mod 2 ^ 16"
    unfolding unat_LOW by (simp add: mod_mod_cancel)
  have A: "unat A0 + 2 ^ 16 * unat A1 + 2 ^ 16 * 2 ^ 16 * unat A2 = 0x5DEECE66D" "unat increment = 0xB"
    by (simp_all add: A0_def A1_def A2_def increment_def)
  have "lcg (limbs_value x) = ((unat A0 + 2 ^ 16 * unat A1 + 2 ^ 16 * 2 ^ 16 * unat A2)
      * (unat x0 + 2 ^ 16 * unat x1 + 2 ^ 16 * 2 ^ 16 * unat x2) + unat increment) mod (2 ^ 16 * 2 ^ 16 * 2 ^ 16)"
    unfolding A by (simp add: lcg_def limbs_value_def x)
  also have "\<dots> = unat s0 + 2 ^ 16 * unat (LOW (s2 + r0)) + 2 ^ 16 * 2 ^ 16 * (t mod 2 ^ 16)"
    unfolding limbs_product [OF p(1) q(1) r(1) c0(1) c1 c2 c3] t_def
    by (rule limbs_mod) (simp_all only: sums low)
  also have "\<dots> = limbs_value (next_limbs x)"
    unfolding step limbs_value_def by (simp add: top)
  finally show "limbs_value (next_limbs x) = lcg (limbs_value x)" ..
qed

lemma redisLrand48_lcg:
  assumes "limbs_ok x"
  shows "unat (fst (redisLrand48 x)) = lcg (limbs_value x) div 2 ^ 17" "snd (redisLrand48 x) = next_limbs x"
proof -
  obtain x0 x1 x2 where x: "next_limbs x = (x0, x1, x2)" by (cases "next_limbs x")
  with next_limbs_lcg [OF assms] have b: "unat x0 < 2 ^ 16" "unat x1 < 2 ^ 16" "unat x2 < 2 ^ 16"
    and v: "lcg (limbs_value x) = unat x0 + 2 ^ 16 * unat x1 + 2 ^ 32 * unat x2"
    by (simp_all add: limbs_ok_def limbs_value_def)
  have "unat (push_bit 15 x2) = 2 ^ 15 * unat x2"
    using b(3) by (simp add: push_bit_eq_mult unat_mult_lem [THEN iffD1] mult.commute)
  moreover have "unat (drop_bit 1 x1) = unat x1 div 2"
    unfolding unat_drop_bit_eq drop_bit_eq_div [of 1 "unat x1"] by simp
  moreover have "2 ^ 15 * unat x2 + unat x1 div 2 < 2 ^ 32" using b by simp
  ultimately have "unat (push_bit 15 x2 + drop_bit 1 x1) = 2 ^ 15 * unat x2 + unat x1 div 2"
    by (subst unat_add_lem [THEN iffD1]) simp_all
  also have "\<dots> = lcg (limbs_value x) div 2 ^ 17" unfolding v using b(1) by simp
  finally show "unat (fst (redisLrand48 x)) = lcg (limbs_value x) div 2 ^ 17"
    by (simp add: redisLrand48_def x)
  show "snd (redisLrand48 x) = next_limbs x" by (simp add: redisLrand48_def x)
qed

lemma lrand48s_lcg:
  "limbs_ok x \<Longrightarrow> map unat (lrand48s n x) = map (\<lambda>i. (lcg ^^ Suc i) (limbs_value x) div 2 ^ 17) [0..<n]"
proof (induction n arbitrary: x)
  case (Suc n)
  have "map (\<lambda>i. (lcg ^^ Suc i) (limbs_value x) div 2 ^ 17) [0..<Suc n]
      = lcg (limbs_value x) div 2 ^ 17 # map (\<lambda>i. (lcg ^^ Suc i) (lcg (limbs_value x)) div 2 ^ 17) [0..<n]"
    by (simp add: map_upt_Suc funpow_swap1 del: upt_Suc)
  then show ?case
    using redisLrand48_lcg [OF Suc.prems] Suc.IH [OF next_limbs_lcg(1) [OF Suc.prems]] next_limbs_lcg(2) [OF Suc.prems]
    by (simp add: split_beta del: upt_Suc)
qed simp

text \<open>C38: The generator on limbs is the linear congruence modulo 2 to the 48, seeded with the seed in the upper
  32 bits, of which it gives the upper 31.\<close>

theorem lrand48_is_lcg:
  "map unat (lrand48s n (redisSrand48 seed)) = map (\<lambda>i. (lcg ^^ Suc i) (0x330E + 2 ^ 16 * unat seed) div 2 ^ 17) [0..<n]"
proof -
  have "unat seed < 2 ^ 32" using unsigned_less [of seed] by simp
  then have "limbs_ok (redisSrand48 seed)"
    by (simp add: limbs_ok_def redisSrand48_def unat_LOW unat_HIGH less_mult_imp_div_less)
  moreover have "limbs_value (redisSrand48 seed) = 0x330E + 2 ^ 16 * unat seed"
  proof -
    have lv: "limbs_value (redisSrand48 seed)
        = unat (0x330E :: 32 word) + 2 ^ 16 * (unat seed mod 2 ^ 16) + 2 ^ 32 * (unat seed div 2 ^ 16)"
      unfolding limbs_value_def redisSrand48_def prod.case unat_LOW unat_HIGH ..
    have "2 ^ 16 * (unat seed mod 2 ^ 16) + 2 ^ 32 * (unat seed div 2 ^ 16)
        = 2 ^ 16 * (unat seed mod 2 ^ 16 + 2 ^ 16 * (unat seed div 2 ^ 16))"
      unfolding distrib_left mult.assoc [symmetric] by simp
    also have "\<dots> = 2 ^ 16 * unat seed" by (simp only: mod_mult_div_eq)
    finally have e: "2 ^ 16 * (unat seed mod 2 ^ 16) + 2 ^ 32 * (unat seed div 2 ^ 16) = 2 ^ 16 * unat seed" .
    show ?thesis unfolding lv add.assoc e by simp
  qed
  ultimately show ?thesis using lrand48s_lcg [of "redisSrand48 seed" n] by simp
qed

end
