(* ===== verification/Latency.thy ===== *)
theory Latency
  imports Complex_Main "HOL-Library.Multiset" MathUtil
begin

text \<open>
  \<open>common/statistics/LatencyStatistics.hpp\<close>: a metric keeps the number, sum, least and greatest of its samples
  and how many fell in each bucket, the buckets being powers of two of microseconds, from which it
  estimates percentiles. Counters are naturals, which no run fills to 64 bits. Every operation on
  \<open>double\<close> is rounded by \<open>fl\<close>, an argument: of the rounding it is known that it keeps the order, changes
  no integer up to \<open>2 ^ 53\<close> and is off by half a unit in the last place (\<open>double_rounding\<close>).
\<close>

section \<open>The metric\<close>

record latency_metric =
  op_count :: nat
  latency_us_sum :: nat
  latency_us_min :: nat
  latency_us_max :: nat
  latency_buckets :: "nat list"

definition LATENCY_ORDER_MAX :: nat where "LATENCY_ORDER_MAX = 26"

definition new_metric :: latency_metric where
  "new_metric = \<lparr>op_count = 0, latency_us_sum = 0, latency_us_min = 2 ^ 64 - 1, latency_us_max = 0,
     latency_buckets = replicate (LATENCY_ORDER_MAX + 1) 0\<rparr>"

definition calcBucket :: "nat \<Rightarrow> nat" where
  "calcBucket x =
     (let bucket = (if x > 0 then bit_length x else 0)
      in if bucket > LATENCY_ORDER_MAX then LATENCY_ORDER_MAX else bucket)"

definition addSample :: "nat \<Rightarrow> latency_metric \<Rightarrow> latency_metric" where
  "addSample latency_us m =
     (let bucket = calcBucket latency_us
      in m\<lparr>latency_us_sum := latency_us_sum m + latency_us,
           latency_us_max := (if latency_us_max m < latency_us then latency_us else latency_us_max m),
           latency_us_min := (if latency_us_min m > latency_us then latency_us else latency_us_min m),
           latency_buckets := (latency_buckets m)[bucket := latency_buckets m ! bucket + 1],
           op_count := op_count m + 1\<rparr>)"

definition clear_metric :: "latency_metric \<Rightarrow> latency_metric" where
  "clear_metric m = m\<lparr>op_count := 0, latency_us_sum := 0, latency_us_max := 0,
     latency_buckets := replicate (LATENCY_ORDER_MAX + 1) 0\<rparr>"

definition add_metric :: "latency_metric \<Rightarrow> latency_metric \<Rightarrow> latency_metric" where
  "add_metric m rhs =
     m\<lparr>op_count := op_count m + op_count rhs, latency_us_sum := latency_us_sum m + latency_us_sum rhs,
       latency_us_max := (if latency_us_max m < latency_us_max rhs then latency_us_max rhs else latency_us_max m),
       latency_buckets := map2 (+) (latency_buckets m) (latency_buckets rhs)\<rparr>"

definition getLatencyUsMin :: "latency_metric \<Rightarrow> nat" where
  "getLatencyUsMin m = (if op_count m = 0 then op_count m else latency_us_min m)"

definition getLatencyUsAvg :: "latency_metric \<Rightarrow> nat" where
  "getLatencyUsAvg m = (if op_count m \<noteq> 0 then latency_us_sum m div op_count m else 0)"

definition LATENCY_BUCKETS_START :: "nat list" where
  "LATENCY_BUCKETS_START =
     [0, 1, 2, 4, 8, 16, 32, 64, 128, 256, 512, 1024, 2048, 4096, 8192, 16384, 32768,
      65536, 131072, 262144, 524288, 1048576, 2097152, 4194304, 8388608, 16777216, 33554432]"

function perc_loop :: "nat list \<Rightarrow> nat \<Rightarrow> nat \<Rightarrow> nat \<Rightarrow> nat \<times> nat \<times> nat" where
  "perc_loop buckets i calc_count last_bucket_count =
     (if i \<le> LATENCY_ORDER_MAX \<and> calc_count > 0
      then (let last_bucket_count = buckets ! i
            in if calc_count > last_bucket_count
               then perc_loop buckets (i + 1) (calc_count - last_bucket_count) last_bucket_count
               else (i, calc_count, last_bucket_count))
      else (i, calc_count, last_bucket_count))"
  by pat_completeness auto
termination by (relation "measure (\<lambda>(b, i, c, l). LATENCY_ORDER_MAX + 1 - i)") auto

declare perc_loop.simps [simp del]

definition calc_count :: "(rat \<Rightarrow> rat) \<Rightarrow> rat \<Rightarrow> latency_metric \<Rightarrow> nat" where
  "calc_count fl perc m = nat \<lfloor>fl (fl (fl (of_nat (op_count m)) * fl (perc / 100)) + 1 / 2)\<rfloor>"

text \<open>\<open>None\<close> is a read past the table of the buckets.\<close>

definition getLatencyUsPerc :: "(rat \<Rightarrow> rat) \<Rightarrow> rat \<Rightarrow> latency_metric \<Rightarrow> rat option" where
  "getLatencyUsPerc fl perc m =
     (if calc_count fl perc m \<ge> op_count m then Some (fl (of_nat (latency_us_max m)))
      else let (i, calc, last_bucket_count) = perc_loop (latency_buckets m) 0 (calc_count fl perc m) 0
        in if i \<ge> length LATENCY_BUCKETS_START then None
           else let latency_start = LATENCY_BUCKETS_START ! i;
               latency_perc = (if calc \<noteq> 0 \<and> last_bucket_count \<noteq> 0
                 then fl (fl (of_nat latency_start)
                        + fl (fl (of_nat latency_start) * fl (fl (of_nat calc) / fl (of_nat last_bucket_count))))
                 else fl (of_nat latency_start))
             in Some (if latency_perc < fl (of_nat (latency_us_max m)) then latency_perc
                      else fl (of_nat (latency_us_max m))))"

text \<open>What IEEE 754 promises of rounding to a \<open>double\<close>, for numbers far from overflow.\<close>

definition double_rounding :: "(rat \<Rightarrow> rat) \<Rightarrow> bool" where
  "double_rounding fl \<longleftrightarrow> (\<forall>x y. x \<le> y \<longrightarrow> fl x \<le> fl y) \<and> (\<forall>n :: nat. n \<le> 2 ^ 53 \<longrightarrow> fl (of_nat n) = of_nat n) \<and>
     (\<forall>x. \<bar>x\<bar> \<le> 2 ^ 64 \<longrightarrow> \<bar>fl x - x\<bar> \<le> (\<bar>x\<bar> + 1) / 2 ^ 53)"

text \<open>\<open>LatencyStatistics\<close>: a metric for each kind of operation.\<close>

definition addSample_at :: "nat \<Rightarrow> nat \<Rightarrow> latency_metric list \<Rightarrow> latency_metric list" where
  "addSample_at idx latency_us entries = entries[idx := addSample latency_us (entries ! idx)]"

definition getMetricsAndReinit :: "latency_metric list \<Rightarrow> latency_metric list \<times> latency_metric list" where
  "getMetricsAndReinit entries = (entries, replicate (length entries) new_metric)"

definition mergeMetrics :: "latency_metric list \<Rightarrow> nat \<Rightarrow> nat \<Rightarrow> latency_metric list \<Rightarrow> latency_metric list" where
  "mergeMetrics metrics start_idx end_index entries = map2 add_metric entries metrics"

definition clear_entries :: "nat \<Rightarrow> nat \<Rightarrow> latency_metric list \<Rightarrow> latency_metric list" where
  "clear_entries start_idx end_index entries =
     map (\<lambda>i. if start_idx \<le> i \<and> i \<le> end_index then clear_metric (entries ! i) else entries ! i) [0..<length entries]"

section \<open>What a metric says of its samples\<close>

definition bucket_counts :: "nat list \<Rightarrow> nat list" where
  "bucket_counts xs = map (\<lambda>i. length (filter (\<lambda>x. calcBucket x = i) xs)) [0..<LATENCY_ORDER_MAX + 1]"

text \<open>Everything but the least sample.\<close>

definition summarises :: "latency_metric \<Rightarrow> nat list \<Rightarrow> bool" where
  "summarises m xs \<longleftrightarrow> op_count m = length xs \<and> latency_us_sum m = sum_list xs
     \<and> latency_us_max m = fold max xs 0 \<and> latency_buckets m = bucket_counts xs"

lemma calcBucket_le: "calcBucket x \<le> LATENCY_ORDER_MAX"
  by (simp add: calcBucket_def Let_def)

lemma length_bucket_counts [simp]: "length (bucket_counts xs) = LATENCY_ORDER_MAX + 1"
  by (simp add: bucket_counts_def)

lemma nth_bucket_counts [simp]:
  "i \<le> LATENCY_ORDER_MAX \<Longrightarrow> bucket_counts xs ! i = length (filter (\<lambda>x. calcBucket x = i) xs)"
  by (simp add: bucket_counts_def del: upt_Suc)

lemma new_summarises: "summarises new_metric []"
  by (simp add: summarises_def new_metric_def bucket_counts_def map_replicate_const del: upt_Suc)

lemma addSample_summarises: "summarises m xs \<Longrightarrow> summarises (addSample x m) (xs @ [x])"
  using calcBucket_le [of x]
  by (auto simp: summarises_def addSample_def Let_def max_def less_Suc_eq_le nth_list_update intro!: nth_equalityI)

lemma fold_max: "fold max ys (a :: nat) = max a (fold max ys 0)"
proof (induction ys arbitrary: a)
  case (Cons y ys)
  show ?case using Cons.IH [of "max y a"] Cons.IH [of "max y 0"] by (simp add: max.assoc max.commute)
qed simp

lemma add_metric_summarises: "summarises m xs \<Longrightarrow> summarises n ys \<Longrightarrow> summarises (add_metric m n) (xs @ ys)"
  using fold_max [of ys "fold max xs 0"]
  by (auto simp: summarises_def add_metric_def max_def less_Suc_eq_le intro!: nth_equalityI)

lemma clear_summarises: "summarises (clear_metric m) []"
  using new_summarises by (simp add: summarises_def clear_metric_def new_metric_def)

section \<open>Buckets\<close>

lemma calcBucket_mono: "x \<le> y \<Longrightarrow> calcBucket x \<le> calcBucket y"
  using bit_length_mono [of x y] by (auto simp: calcBucket_def Let_def)

lemma buckets_start_eq: "LATENCY_BUCKETS_START = 0 # map (\<lambda>k. 2 ^ k) [0..<26]"
  using upt_add_eq_append [of 0 2 24]
  by (simp add: LATENCY_BUCKETS_START_def upt_rec_numeral upt_rec [of 0 2] upt_rec [of "Suc 0" 2])

lemma buckets_start: "i \<le> LATENCY_ORDER_MAX \<Longrightarrow> LATENCY_BUCKETS_START ! i = (if i = 0 then 0 else 2 ^ (i - 1))"
  unfolding buckets_start_eq by (cases i) (simp_all add: LATENCY_ORDER_MAX_def)

text \<open>A sample below 33 seconds is at least the start of its bucket and less than twice that.\<close>

lemma in_bucket:
  "LATENCY_BUCKETS_START ! calcBucket x \<le> x"
  "x < 2 ^ 25 \<Longrightarrow> x \<le> 2 * LATENCY_BUCKETS_START ! calcBucket x"
proof -
  have start: "LATENCY_BUCKETS_START ! calcBucket x = (if calcBucket x = 0 then 0 else 2 ^ (calcBucket x - 1))"
    by (rule buckets_start [OF calcBucket_le])
  show "LATENCY_BUCKETS_START ! calcBucket x \<le> x"
  proof (cases "x = 0")
    case False
    then have b: "0 < bit_length x" "2 ^ (bit_length x - 1) \<le> x" using bit_length_bounds [of x] by auto
    have "calcBucket x \<le> bit_length x" using False by (simp add: calcBucket_def Let_def)
    then have "(2 :: nat) ^ (calcBucket x - 1) \<le> 2 ^ (bit_length x - 1)" by simp
    from order_trans [OF this b(2)] False show ?thesis unfolding start by simp
  qed (simp add: start calcBucket_def LATENCY_BUCKETS_START_def)
  assume x: "x < 2 ^ 25"
  show "x \<le> 2 * LATENCY_BUCKETS_START ! calcBucket x"
  proof (cases "x = 0")
    case False
    then have b: "0 < bit_length x" "2 ^ (bit_length x - 1) \<le> x" "x < 2 ^ bit_length x" using bit_length_bounds [of x] by auto
    from b(2) x have "(2 :: nat) ^ (bit_length x - 1) < 2 ^ 25" by linarith
    then have "bit_length x - 1 < 25" by (rule power_less_imp_less_exp [rotated]) simp
    then have "calcBucket x = bit_length x" using False by (simp add: calcBucket_def Let_def LATENCY_ORDER_MAX_def)
    with b show ?thesis unfolding start by (cases "bit_length x") simp_all
  qed simp_all
qed

section \<open>Percentiles\<close>

lemma perc_loop_finds:
  assumes "length b = LATENCY_ORDER_MAX + 1" "0 < k" "k \<le> sum_list (drop i b)" "i \<le> LATENCY_ORDER_MAX + 1"
  shows "\<exists>j c. perc_loop b i k l = (j, c, b ! j) \<and> j \<le> LATENCY_ORDER_MAX \<and> 0 < c \<and> c \<le> b ! j
    \<and> sum_list (take j b) + c = sum_list (take i b) + k"
  using assms
proof (induction "LATENCY_ORDER_MAX + 1 - i" arbitrary: i k l)
  case 0
  then show ?case by simp
next
  case (Suc n)
  then have i: "i \<le> LATENCY_ORDER_MAX" by simp
  with Suc.prems(1) have take: "take (i + 1) b = take i b @ [b ! i]" "drop i b = b ! i # drop (i + 1) b"
    by (simp_all add: take_Suc_conv_app_nth Cons_nth_drop_Suc)
  show ?case
  proof (cases "k > b ! i")
    case False
    with i Suc.prems(2) show ?thesis by (simp add: perc_loop.simps [of b i] Let_def)
  next
    case True
    have "\<exists>j c. perc_loop b (i + 1) (k - b ! i) (b ! i) = (j, c, b ! j) \<and> j \<le> LATENCY_ORDER_MAX \<and> 0 < c \<and> c \<le> b ! j
        \<and> sum_list (take j b) + c = sum_list (take (i + 1) b) + (k - b ! i)"
      using Suc.hyps(2) Suc.prems True take(2) i by (intro Suc.hyps(1)) auto
    then show ?thesis using i Suc.prems(2) True take(1) by (simp add: perc_loop.simps [of b i] Let_def)
  qed
qed

lemma bucket_counts_take:
  "j \<le> LATENCY_ORDER_MAX + 1 \<Longrightarrow> sum_list (take j (bucket_counts xs)) = length (filter (\<lambda>x. calcBucket x < j) xs)"
proof (induction j)
  case (Suc j)
  then have j: "j \<le> LATENCY_ORDER_MAX" by simp
  have "length (filter (\<lambda>x. calcBucket x < Suc j) xs)
      = length (filter (\<lambda>x. calcBucket x < j) xs) + length (filter (\<lambda>x. calcBucket x = j) xs)"
    by (induction xs) auto
  with Suc j show ?case by (simp add: take_Suc_conv_app_nth)
qed simp

lemma bucket_counts_sum: "sum_list (bucket_counts xs) = length xs"
proof -
  have "filter (\<lambda>x. calcBucket x < LATENCY_ORDER_MAX + 1) xs = xs"
    using calcBucket_le by (auto simp: filter_id_conv less_Suc_eq_le)
  then show ?thesis using bucket_counts_take [of "LATENCY_ORDER_MAX + 1" xs] by simp
qed

lemma kth_in_bucket:
  fixes f :: "nat \<Rightarrow> nat"
  assumes "sorted ys" "\<And>x y. x \<le> y \<Longrightarrow> f x \<le> f y" "k < length ys"
    "length (filter (\<lambda>x. f x < j) ys) \<le> k" "k < length (filter (\<lambda>x. f x < Suc j) ys)"
  shows "f (ys ! k) = j"
proof (rule ccontr)
  assume "f (ys ! k) \<noteq> j"
  then consider "f (ys ! k) < j" | "j < f (ys ! k)" by linarith
  then show False
  proof cases
    case 1
    have "f x < j" if "x \<in> set (take (Suc k) ys)" for x
    proof -
      from that obtain i where i: "i \<le> k" "x = ys ! i" using assms(3) by (auto simp: in_set_conv_nth less_Suc_eq_le)
      then have "x \<le> ys ! k" using assms(1,3) by (simp add: sorted_nth_mono)
      with assms(2) 1 show ?thesis by (meson le_less_trans)
    qed
    then have "filter (\<lambda>x. f x < j) (take (Suc k) ys) = take (Suc k) ys" by (simp add: filter_id_conv)
    moreover have "length (filter (\<lambda>x. f x < j) (take (Suc k) ys)) \<le> length (filter (\<lambda>x. f x < j) (take (Suc k) ys @ drop (Suc k) ys))"
      by (simp only: filter_append length_append)
    ultimately show False using assms(3,4) by simp
  next
    case 2
    have "\<not> f x < Suc j" if "x \<in> set (drop k ys)" for x
    proof -
      from that obtain i where i: "k \<le> i" "i < length ys" "x = ys ! i" by (auto simp: in_set_conv_nth) (metis le_add1 less_diff_conv add.commute)
      then have "ys ! k \<le> x" using assms(1) by (simp add: sorted_nth_mono)
      with assms(2) [OF this] 2 show ?thesis by linarith
    qed
    then have "filter (\<lambda>x. f x < Suc j) (drop k ys) = []" by (simp add: filter_empty_conv)
    moreover have "length (filter (\<lambda>x. f x < Suc j) (take k ys @ drop k ys))
        = length (filter (\<lambda>x. f x < Suc j) (take k ys)) + length (filter (\<lambda>x. f x < Suc j) (drop k ys))"
      by (simp only: filter_append length_append)
    moreover have "length (filter (\<lambda>x. f x < Suc j) (take k ys)) \<le> k"
      by (rule order_trans [OF length_filter_le]) simp
    ultimately show False using assms(5) by simp
  qed
qed

lemma fold_addSample: "summarises m xs \<Longrightarrow> summarises (fold addSample ys m) (xs @ ys)"
proof (induction ys arbitrary: m xs)
  case (Cons y ys)
  from Cons.IH [OF addSample_summarises [OF Cons.prems]] show ?case by simp
qed simp

lemma fold_max_ge: "x \<in> set xs \<Longrightarrow> x \<le> fold max xs (a :: nat)"
proof (induction xs arbitrary: a)
  case (Cons y ys)
  show ?case
  proof (cases "x = y")
    case True
    then show ?thesis using fold_max [of ys "max y a"] by simp
  next
    case False
    with Cons show ?thesis by simp
  qed
qed simp

lemma double_roundingD:
  assumes "double_rounding fl"
  shows "x \<le> y \<Longrightarrow> fl x \<le> fl y" "n \<le> 2 ^ 53 \<Longrightarrow> fl (of_nat n) = of_nat n" "fl 0 = 0" "fl 1 = 1"
    "\<bar>x\<bar> \<le> 2 ^ 64 \<Longrightarrow> \<bar>fl x - x\<bar> \<le> (\<bar>x\<bar> + 1) / 2 ^ 53"
proof -
  have exact: "n \<le> 2 ^ 53 \<Longrightarrow> fl (of_nat n) = of_nat n" for n using assms by (simp add: double_rounding_def)
  from exact show "n \<le> 2 ^ 53 \<Longrightarrow> fl (of_nat n) = of_nat n" .
  from exact [of 0] exact [of 1] show "fl 0 = 0" "fl 1 = 1" by simp_all
qed (use assms in \<open>simp_all add: double_rounding_def\<close>)

text \<open>One rounding of a number of at most \<open>2 ^ 41\<close> moves it by less than a thousandth.\<close>

lemma rounding_close:
  assumes "double_rounding fl" "\<bar>x\<bar> \<le> 2 ^ 41"
  shows "\<bar>fl x - x\<bar> \<le> 1 / 1000"
proof -
  have "(2 :: rat) ^ 41 \<le> 2 ^ 64" by (rule power_increasing) simp_all
  from double_roundingD(5) [OF assms(1) order_trans [OF assms(2) this]]
  have "\<bar>fl x - x\<bar> \<le> (\<bar>x\<bar> + 1) / 2 ^ 53" .
  also have "\<dots> \<le> (2 ^ 41 + 1) / 2 ^ 53" using assms(2) by (intro divide_right_mono add_right_mono) simp_all
  also have "(2 ^ 41 + 1) / 2 ^ 53 \<le> (1 / 1000 :: rat)" by simp
  finally show ?thesis .
qed

text \<open>The rank that is looked for is at most a unit from the exact one.\<close>

lemma calc_count_close:
  assumes fl: "double_rounding fl" and "0 \<le> perc" "perc \<le> 100" "op_count m \<le> 2 ^ 40"
  shows "\<bar>of_nat (calc_count fl perc m) - of_nat (op_count m) * perc / 100\<bar> \<le> 3 / 4"
proof -
  define n :: rat where "n = of_nat (op_count m)"
  define q where "q = fl (perc / 100)"
  define w where "w = fl (n * q)"
  define t where "t = fl (w + 1 / 2)"
  have "n \<le> of_nat (2 ^ 40)" unfolding n_def using assms(4) by (simp only: of_nat_le_iff)
  then have n: "0 \<le> n" "n \<le> 2 ^ 40" by (simp_all add: n_def)
  have fn: "fl n = n" unfolding n_def using assms(4) by (intro double_roundingD(2) [OF fl]) simp
  have "fl 0 \<le> fl (perc / 100)" "fl (perc / 100) \<le> fl 1" using assms(2,3) by (intro double_roundingD(1) [OF fl]; simp)+
  then have q: "0 \<le> q" "q \<le> 1" using double_roundingD(3,4) [OF fl] by (simp_all add: q_def)
  have nq: "0 \<le> n * q" "n * q \<le> n" using n q by (simp_all add: mult_left_le)
  have "perc / 100 \<le> 1" "0 \<le> perc / 100" using assms(2,3) by simp_all
  then have "\<bar>perc / 100\<bar> \<le> 1" by simp
  then have "\<bar>q - perc / 100\<bar> \<le> (\<bar>perc / 100\<bar> + 1) / 2 ^ 53"
    unfolding q_def by (intro double_roundingD(5) [OF fl]) simp
  also have "\<dots> \<le> (1 + 1) / 2 ^ 53"
    using \<open>\<bar>perc / 100\<bar> \<le> 1\<close> by (intro divide_right_mono add_mono) simp_all
  finally have dq: "\<bar>q - perc / 100\<bar> \<le> 1 / 2 ^ 52" by simp
  have "\<bar>n * q - n * (perc / 100)\<bar> = n * \<bar>q - perc / 100\<bar>"
    by (simp only: right_diff_distrib [symmetric] abs_mult abs_of_nonneg [OF n(1)])
  also have "\<dots> \<le> 2 ^ 40 * (1 / 2 ^ 52)" using n dq by (intro mult_mono) simp_all
  finally have d1: "\<bar>n * q - n * (perc / 100)\<bar> \<le> 1 / 1000" by simp
  have d2: "\<bar>w - n * q\<bar> \<le> 1 / 1000"
    unfolding w_def using nq n by (intro rounding_close [OF fl]) simp
  have "fl 0 \<le> w" unfolding w_def using nq(1) by (intro double_roundingD(1) [OF fl])
  then have w: "0 \<le> w" using double_roundingD(3) [OF fl] by simp
  have "w \<le> n * q + 1 / 1000" using d2 unfolding abs_le_iff by linarith
  with nq(2) n(2) have "w + 1 / 2 \<le> 2 ^ 41" by simp
  with w have "\<bar>w + 1 / 2\<bar> \<le> 2 ^ 41" by simp
  then have d3: "\<bar>t - (w + 1 / 2)\<bar> \<le> 1 / 1000" unfolding t_def by (rule rounding_close [OF fl])
  have "fl 0 \<le> t" unfolding t_def using w by (intro double_roundingD(1) [OF fl]) simp
  then have t: "0 \<le> t" using double_roundingD(3) [OF fl] by simp
  have "calc_count fl perc m = nat \<lfloor>t\<rfloor>"
    unfolding calc_count_def n_def [symmetric] fn t_def w_def q_def ..
  then have "of_nat (calc_count fl perc m) = (of_int \<lfloor>t\<rfloor> :: rat)" using t by simp
  moreover have "of_int \<lfloor>t\<rfloor> \<le> t" "t < of_int \<lfloor>t\<rfloor> + 1" by (rule of_int_floor_le, rule floor_correct [THEN conjunct2, unfolded of_int_add of_int_1])
  ultimately have "of_nat (calc_count fl perc m) \<le> t" "t < of_nat (calc_count fl perc m) + 1" by simp_all
  with d1 d2 d3 have "\<bar>of_nat (calc_count fl perc m) - n * (perc / 100)\<bar> \<le> 3 / 4"
    unfolding abs_le_iff by (intro conjI; linarith)
  then show ?thesis by (simp add: n_def)
qed

lemma perc_estimate:
  assumes fl: "double_rounding fl" and "m = fold addSample xs new_metric" "length xs \<le> 2 ^ 40"
    and k: "k = calc_count fl perc m" "0 < k" "k < length xs" "x = sort xs ! (k - 1)"
  obtains r where "getLatencyUsPerc fl perc m = Some r" "r \<le> 2 * of_nat x" "x < 2 ^ 25 \<Longrightarrow> of_nat x \<le> 2 * r"
proof -
  have m: "op_count m = length xs" "latency_us_max m = fold max xs 0" "latency_buckets m = bucket_counts xs"
    using fold_addSample [OF new_summarises, of xs] assms(2) by (simp_all add: summarises_def)
  have sum: "k \<le> sum_list (drop 0 (bucket_counts xs))"
    using k(3) by (simp add: bucket_counts_sum)
  from perc_loop_finds [OF length_bucket_counts k(2) sum le0, of 0] obtain j c where
    j: "perc_loop (bucket_counts xs) 0 k 0 = (j, c, bucket_counts xs ! j)" "j \<le> LATENCY_ORDER_MAX" "0 < c"
    "c \<le> bucket_counts xs ! j" "sum_list (take j (bucket_counts xs)) + c = k" by auto
  have sorted_counts: "length (filter P (sort xs)) = length (filter P xs)" for P
    by (metis mset_filter mset_sort size_mset)
  have "sum_list (take (Suc j) (bucket_counts xs)) = sum_list (take j (bucket_counts xs)) + bucket_counts xs ! j"
    using j(2) by (simp add: take_Suc_conv_app_nth)
  with j bucket_counts_take [of j xs] bucket_counts_take [of "Suc j" xs]
  have "length (filter (\<lambda>x. calcBucket x < j) (sort xs)) \<le> k - 1" "k - 1 < length (filter (\<lambda>x. calcBucket x < Suc j) (sort xs))"
    unfolding sorted_counts by linarith+
  with k have bucket: "calcBucket x = j"
    unfolding k(4) by (intro kth_in_bucket calcBucket_mono) simp_all
  define start where "start = LATENCY_BUCKETS_START ! j"
  have start: "start \<le> x" "x < 2 ^ 25 \<Longrightarrow> x \<le> 2 * start"
    using in_bucket [of x] by (simp_all add: start_def bucket)
  have small: "start \<le> 2 ^ 25" "2 * start \<le> 2 ^ 26"
    using j(2) buckets_start [OF j(2)] power_increasing [of "j - 1" 25 "2 :: nat"]
    by (auto simp: start_def LATENCY_ORDER_MAX_def)
  have "x \<in> set xs" using nth_mem [of "k - 1" "sort xs"] k(3,4) by simp
  then have x: "x \<le> latency_us_max m" unfolding m(2) by (rule fold_max_ge)
  have "bucket_counts xs ! j \<le> length xs" using j(2) by simp
  moreover have "(2 :: nat) ^ 40 \<le> 2 ^ 53" by simp
  ultimately have few: "bucket_counts xs ! j \<le> 2 ^ 53" "c \<le> 2 ^ 53" using j(4) assms(3) order_trans by blast+
  have exact: "fl (of_nat start) = of_nat start" "fl (2 * of_nat start) = 2 * of_nat start"
    "fl (of_nat c) = of_nat c" "fl (of_nat (bucket_counts xs ! j)) = of_nat (bucket_counts xs ! j)"
    using double_roundingD(2) [OF fl, of start] double_roundingD(2) [OF fl, of "2 * start"]
      double_roundingD(2) [OF fl few(1)] double_roundingD(2) [OF fl few(2)] small by simp_all
  define share :: rat where "share = fl (of_nat c / of_nat (bucket_counts xs ! j))"
  have "(of_nat c / of_nat (bucket_counts xs ! j) :: rat) \<le> 1" using j(3,4) by simp
  from double_roundingD(1) [OF fl this] double_roundingD(1) [OF fl, of 0 "of_nat c / of_nat (bucket_counts xs ! j)"]
  have share: "0 \<le> share" "share \<le> 1" by (simp_all add: share_def double_roundingD(3,4) [OF fl])
  define part where "part = fl (of_nat start * share)"
  have "0 \<le> of_nat start * share" "of_nat start * share \<le> of_nat start"
    using share mult_left_mono [of share 1 "of_nat start"] by simp_all
  from this [THEN double_roundingD(1) [OF fl]] have part: "0 \<le> part" "part \<le> of_nat start"
    by (simp_all add: part_def exact double_roundingD(3) [OF fl])
  define estimate where "estimate = fl (of_nat start + part)"
  have "of_nat start \<le> of_nat start + part" "of_nat start + part \<le> 2 * of_nat start" using part by simp_all
  from this [THEN double_roundingD(1) [OF fl]] have estimate: "of_nat start \<le> estimate" "estimate \<le> 2 * of_nat start"
    by (simp_all add: estimate_def exact)
  define top where "top = fl (of_nat (latency_us_max m))"
  have nz: "c \<noteq> 0" "bucket_counts xs ! j \<noteq> 0" using j(3,4) by linarith+
  have "\<not> length LATENCY_BUCKETS_START \<le> j" using j(2) by (simp add: LATENCY_BUCKETS_START_def LATENCY_ORDER_MAX_def)
  with k(3) nz have "getLatencyUsPerc fl perc m = Some (if estimate < top then estimate else top)"
    by (simp add: getLatencyUsPerc_def m(1,3) k(1) [symmetric] j(1) Let_def estimate_def part_def share_def
        start_def [symmetric] exact top_def del: nth_bucket_counts)
  moreover have "(if estimate < top then estimate else top) \<le> 2 * of_nat x"
    using estimate(2) start(1) of_nat_mono [OF start(1), where 'a = rat] by auto
  moreover have "of_nat x \<le> 2 * (if estimate < top then estimate else top)" if "x < 2 ^ 25"
  proof -
    have "fl (of_nat x) = of_nat x" using that by (intro double_roundingD(2) [OF fl]) simp
    moreover have "fl (of_nat x) \<le> top" unfolding top_def using x by (intro double_roundingD(1) [OF fl]) simp
    moreover have "of_nat x \<le> 2 * estimate"
      using estimate(1) of_nat_mono [OF start(2) [OF that], where 'a = rat] by simp
    ultimately show ?thesis by auto
  qed
  ultimately show thesis using that by blast
qed

text \<open>C37: A percentile is estimated from the sample of the nearest rank. For samples up to \<open>2 ^ 40\<close> in
  number the rank \<open>k\<close> that is looked for is, through all roundings, at most \<open>3 / 4\<close> from the exact one.
  The estimate is at most twice the sample of that rank, and at least half of it if that sample is
  below \<open>2 ^ 25\<close> microseconds; above, it may be too low. Rank \<open>0\<close> gives \<open>0\<close>, and the last rank the
  greatest sample.\<close>

theorem percentile_within_factor_two:
  assumes "double_rounding fl" "m = fold addSample xs new_metric" "length xs \<le> 2 ^ 40" "0 \<le> perc" "perc \<le> 100"
  shows "\<exists>k r. \<bar>of_nat k - of_nat (length xs) * perc / 100\<bar> \<le> 3 / 4 \<and> getLatencyUsPerc fl perc m = Some r \<and>
    (if length xs \<le> k then r = fl (of_nat (fold max xs 0))
     else if k = 0 then r = 0
     else r \<le> 2 * of_nat (sort xs ! (k - 1)) \<and> (sort xs ! (k - 1) < 2 ^ 25 \<longrightarrow> of_nat (sort xs ! (k - 1)) \<le> 2 * r))"
proof -
  define k where "k = calc_count fl perc m"
  have m: "op_count m = length xs" "latency_us_max m = fold max xs 0"
    using fold_addSample [OF new_summarises, of xs] assms(2) by (simp_all add: summarises_def)
  have near: "\<bar>of_nat k - of_nat (length xs) * perc / 100\<bar> \<le> 3 / 4"
    using calc_count_close [OF assms(1,4,5), of m] assms(3) by (simp add: k_def m(1))
  consider "length xs \<le> k" | "k = 0" "0 < length xs" | "0 < k" "k < length xs" by linarith
  then show ?thesis
  proof cases
    case 1
    with near show ?thesis
      by (intro exI [of _ k] exI [of _ "fl (of_nat (fold max xs 0))"]) (simp add: getLatencyUsPerc_def k_def [symmetric] m)
  next
    case 2
    have "fl 0 \<le> fl (of_nat (latency_us_max m))" by (intro double_roundingD(1) [OF assms(1)]) simp
    with 2 near show ?thesis
      by (intro exI [of _ k] exI [of _ 0])
        (auto simp: getLatencyUsPerc_def k_def [symmetric] m(1) perc_loop.simps [of _ 0 0] double_roundingD(3) [OF assms(1)]
          LATENCY_BUCKETS_START_def)
  next
    case 3
    then obtain r where "getLatencyUsPerc fl perc m = Some r" "r \<le> 2 * of_nat (sort xs ! (k - 1))"
      "sort xs ! (k - 1) < 2 ^ 25 \<Longrightarrow> of_nat (sort xs ! (k - 1)) \<le> 2 * r"
      by (rule perc_estimate [OF assms(1-3) k_def _ _ refl]) (use that in blast)
    with 3 near show ?thesis by (intro exI [of _ k] exI [of _ r]) simp
  qed
qed

text \<open>Exact arithmetic rounds as it must.\<close>

lemma double_rounding_exact: "double_rounding (\<lambda>x. x)"
  by (simp add: double_rounding_def)

theorem percentile_within_factor_two_witness:
  "\<exists>r. getLatencyUsPerc (\<lambda>x. x) 50 (fold addSample [100, 400, 200, 300] new_metric) = Some r \<and> r \<le> 400 \<and> 200 \<le> 2 * r"
proof -
  define xs :: "nat list" where "xs = [100, 400, 200, 300]"
  have xs: "length xs = 4" "fold max xs 0 = 400" "sort xs = [100, 200, 300, 400]" by (simp_all add: xs_def)
  have args: "(4 :: nat) \<le> 2 ^ 40" "(0 :: rat) \<le> 50" "(50 :: rat) \<le> 100" by simp_all
  obtain k :: nat and r where k: "\<bar>of_nat k - 4 * (50 :: rat) / 100\<bar> \<le> 3 / 4"
    "getLatencyUsPerc (\<lambda>x. x) 50 (fold addSample xs new_metric) = Some r"
    "if 4 \<le> k then r = 400 else if k = 0 then r = 0
     else r \<le> 2 * of_nat (sort xs ! (k - 1)) \<and> (sort xs ! (k - 1) < 2 ^ 25 \<longrightarrow> of_nat (sort xs ! (k - 1)) \<le> 2 * r)"
    using percentile_within_factor_two [OF double_rounding_exact refl, of xs 50] args unfolding xs(1,2) of_nat_numeral by blast
  have "\<not> k \<le> 1" "\<not> 3 \<le> k"
    using k(1) of_nat_mono [of k 1, where 'a = rat] of_nat_mono [of 3 k, where 'a = rat]
    unfolding abs_le_iff of_nat_numeral of_nat_1 by linarith+
  then have "k = 2" by simp
  with k(2,3) show ?thesis unfolding xs(3) by (simp add: xs_def)
qed

text \<open>The least sample is right as long as nothing is cleared or merged.\<close>

lemma least_sample:
  "xs \<noteq> [] \<Longrightarrow> getLatencyUsMin (fold addSample xs new_metric) = fold min xs (2 ^ 64 - 1)"
proof -
  have "latency_us_min (fold addSample xs m) = fold min xs (latency_us_min m)" for m
    by (induction xs arbitrary: m) (simp_all add: addSample_def Let_def min_def)
  moreover have "op_count (fold addSample xs new_metric) = length xs"
    using fold_addSample [OF new_summarises, of xs] by (simp add: summarises_def)
  ultimately show "xs \<noteq> [] \<Longrightarrow> ?thesis" by (simp add: getLatencyUsMin_def new_metric_def)
qed

text \<open>\<open>clear\<close> keeps the least sample, and merging does not look at it.\<close>

lemma least_sample_survives_clear:
  "getLatencyUsMin (addSample 9 (clear_metric (addSample 5 new_metric))) = 5"
  by (simp add: getLatencyUsMin_def addSample_def clear_metric_def new_metric_def Let_def)

lemma least_sample_not_merged:
  "getLatencyUsMin (add_metric new_metric (addSample 5 new_metric)) = 2 ^ 64 - 1"
  by (simp add: getLatencyUsMin_def addSample_def add_metric_def new_metric_def Let_def)

text \<open>The bounds given to \<open>mergeMetrics\<close> are not looked at.\<close>

lemma merge_ignores_bounds: "mergeMetrics metrics i j entries = mergeMetrics metrics 0 0 entries"
  by (simp add: mergeMetrics_def)

end
