(* ===== verification/Transaction.thy ===== *)
theory Transaction
  imports Prelude
begin

text \<open>
  \<open>client/TairTransactionClient.cpp\<close>: commands of a transaction are kept until \<open>exec\<close> sends them, \<open>multi\<close> with
  them. \<open>sent\<close> are the calls of \<open>sendCommand\<close> of the client it derives from, each with the callback
  that its reply reaches; callbacks are numbers.
\<close>

datatype reply_to = Nobody | Packet_to nat | String_to nat

record transaction =
  cmd_stack :: "bytes list list"
  sent :: "(bytes list \<times> reply_to) list"

definition new_transaction :: transaction where
  "new_transaction = \<lparr>cmd_stack = [], sent = []\<rparr>"

definition tx_send :: "bytes list \<Rightarrow> reply_to \<Rightarrow> transaction \<Rightarrow> transaction" where
  "tx_send cmd r t = t\<lparr>sent := sent t @ [(cmd, r)]\<rparr>"

definition appendCommand :: "bytes list \<Rightarrow> transaction \<Rightarrow> transaction" where
  "appendCommand cmd t = t\<lparr>cmd_stack := cmd_stack t @ [cmd]\<rparr>"

definition tx_multi :: "transaction \<Rightarrow> transaction" where
  "tx_multi t = appendCommand [''multi''] t"

function send_stack :: "transaction \<Rightarrow> transaction" where
  "send_stack t =
     (if cmd_stack t = [] then t
      else (let t = tx_send (hd (cmd_stack t)) Nobody t in send_stack (t\<lparr>cmd_stack := tl (cmd_stack t)\<rparr>)))"
  by pat_completeness auto
termination by (relation "measure (\<lambda>t. length (cmd_stack t))") (auto simp: tx_send_def)

declare send_stack.simps [simp del]

definition tx_exec :: "nat \<Rightarrow> transaction \<Rightarrow> transaction" where
  "tx_exec callback t = tx_send [''exec''] (Packet_to callback) (send_stack t)"

definition tx_watch :: "bytes list \<Rightarrow> nat \<Rightarrow> transaction \<Rightarrow> transaction" where
  "tx_watch keys callback t = tx_send (''watch'' # keys) (String_to callback) t"

definition tx_unwatch :: "nat \<Rightarrow> transaction \<Rightarrow> transaction" where
  "tx_unwatch callback t = tx_send [''unwatch''] (String_to callback) t"

definition tx_discard :: "nat \<Rightarrow> transaction \<Rightarrow> transaction" where
  "tx_discard callback t = tx_send [''discard''] (String_to callback) t"

datatype tx_op = Multi | Append "bytes list" | Exec nat | Watch "bytes list" nat | Unwatch nat | Discard nat

fun tx_run :: "tx_op \<Rightarrow> transaction \<Rightarrow> transaction" where
  "tx_run Multi t = tx_multi t"
| "tx_run (Append cmd) t = appendCommand cmd t"
| "tx_run (Exec k) t = tx_exec k t"
| "tx_run (Watch keys k) t = tx_watch keys k t"
| "tx_run (Unwatch k) t = tx_unwatch k t"
| "tx_run (Discard k) t = tx_discard k t"

section \<open>What is sent\<close>

lemma send_stack_sends: "send_stack t = \<lparr>cmd_stack = [], sent = sent t @ map (\<lambda>c. (c, Nobody)) (cmd_stack t)\<rparr>"
proof (induction t rule: send_stack.induct)
  case (1 t)
  then show ?case by (cases "cmd_stack t") (simp_all add: send_stack.simps [of t] tx_send_def Let_def)
qed

text \<open>What a run has queued since its last \<open>exec\<close>.\<close>

fun queued :: "tx_op list \<Rightarrow> bytes list list" where
  "queued [] = []"
| "queued (Multi # ops) = [''multi''] # queued ops"
| "queued (Append cmd # ops) = cmd # queued ops"
| "queued (_ # ops) = queued ops"

text \<open>An \<open>exec\<close> sends what was queued since the last one, in order, and itself; only the reply to itself
  reaches its callback. A \<open>discard\<close> in between makes no difference.\<close>

lemma exec_sends_queue:
  assumes "\<forall>k. Exec k \<notin> set ops"
  shows "tx_exec k (fold tx_run ops t) =
    \<lparr>cmd_stack = [],
     sent = sent (fold tx_run ops t) @ map (\<lambda>c. (c, Nobody)) (cmd_stack t @ queued ops) @ [([''exec''], Packet_to k)]\<rparr>"
proof -
  have "cmd_stack (fold tx_run ops t) = cmd_stack t @ queued ops"
    using assms
  proof (induction ops arbitrary: t)
    case (Cons op ops)
    then show ?case
      by (cases op) (auto simp: tx_multi_def appendCommand_def tx_watch_def tx_unwatch_def tx_discard_def tx_send_def)
  qed simp
  then show ?thesis by (simp add: tx_exec_def send_stack_sends tx_send_def)
qed

text \<open>A transaction that was discarded is sent with the next one.\<close>

lemma discarded_commands_are_sent:
  "map fst (sent (tx_exec 2 (fold tx_run [Multi, Append a, Discard 1, Multi, Append b] new_transaction))) =
     [[''discard''], [''multi''], a, [''multi''], b, [''exec'']]"
  by (simp add: tx_exec_def send_stack_sends tx_multi_def appendCommand_def tx_discard_def tx_send_def new_transaction_def)

end
