(* ===== verification/EventLoop.thy ===== *)
theory EventLoop
  imports Prelude "HOL-Library.Multiset"
begin

text \<open>
  \<open>network/EventLoop\<close>: how tasks get into a loop from other threads, and its timers. A thread pushes a
  task under the lock, then looks at \<open>pending_notified_\<close>, sets it and writes a byte to the pipe, each an
  atomic step that other threads may come between; the loop reads the pipe, takes all tasks under the
  lock and runs them one by one. Thread 0 is the thread of the loop. What \<open>expected_cb\<close> returns
  when a task is due is an argument. \<open>queued\<close>, \<open>executed\<close>, \<open>redirected\<close> and \<open>given_up\<close> are histories.
\<close>

section \<open>Tasks\<close>

text \<open>A task has a name and may have an \<open>expected_cb\<close>; \<open>Stop_task\<close> is the one of \<open>stop\<close>.\<close>

datatype loop_task = Task nat bool | Stop_task

fun has_expected :: "loop_task \<Rightarrow> bool" where
  "has_expected (Task k e) = e"
| "has_expected Stop_task = False"

datatype expected_loop = Loop_null | This_loop | Other_loop

text \<open>\<open>May_stop\<close> has seen in \<open>stop\<close> that the loop is not stopped.\<close>

datatype producer_stage = Idle | Pushed | Must_set | Must_write | May_stop

text \<open>\<open>Draining\<close> has the tasks taken and those to look at again, \<open>Requeueing\<close> those still to be queued again;
  the flag says whether it is the last round of \<open>run\<close>.\<close>

datatype loop_stage = Waiting | Woken | Draining "loop_task list" "loop_task list" bool | Requeueing "loop_task list" bool | Exited

record event_loop =
  pending_functors :: "loop_task list"
  pending_notified :: bool
  pipe :: nat
  producers :: "nat \<Rightarrow> producer_stage"
  stage :: loop_stage
  stopped :: bool
  exit_asked :: bool
  queued :: "loop_task list"
  executed :: "loop_task list"
  redirected :: "loop_task list"
  given_up :: "loop_task list"

definition running_loop :: event_loop where
  "running_loop = \<lparr>pending_functors = [], pending_notified = False, pipe = 0, producers = (\<lambda>th. Idle), stage = Waiting,
     stopped = False, exit_asked = False, queued = [], executed = [], redirected = [], given_up = []\<rparr>"

text \<open>\<open>queueInLoopMaybeRedir\<close> in four steps.\<close>

definition queue_push :: "nat \<Rightarrow> loop_task \<Rightarrow> event_loop \<Rightarrow> event_loop" where
  "queue_push th t s = s\<lparr>pending_functors := pending_functors s @ [t], producers := (producers s)(th := Pushed)\<rparr>"

definition queue_look :: "nat \<Rightarrow> event_loop \<Rightarrow> event_loop" where
  "queue_look th s = s\<lparr>producers := (producers s)(th := (if pending_notified s then Idle else Must_set))\<rparr>"

definition queue_set :: "nat \<Rightarrow> event_loop \<Rightarrow> event_loop" where
  "queue_set th s = s\<lparr>pending_notified := True, producers := (producers s)(th := Must_write)\<rparr>"

definition queue_notify :: "nat \<Rightarrow> event_loop \<Rightarrow> event_loop" where
  "queue_notify th s = s\<lparr>pipe := pipe s + 1, producers := (producers s)(th := Idle)\<rparr>"

text \<open>\<open>stop\<close> looks at the flag and sets it later, so two threads may both get past it. From another thread it
  queues a task; in the thread of the loop it asks at once.\<close>

definition stop_look :: "nat \<Rightarrow> event_loop \<Rightarrow> event_loop" where
  "stop_look th s = (if stopped s then s else s\<lparr>producers := (producers s)(th := May_stop)\<rparr>)"

definition stop_loop :: "nat \<Rightarrow> event_loop \<Rightarrow> event_loop" where
  "stop_loop th s =
     (if th = 0 then s\<lparr>stopped := True, exit_asked := True, producers := (producers s)(th := Idle)\<rparr>
      else queue_push th Stop_task (s\<lparr>stopped := True, queued := queued s @ [Stop_task]\<rparr>))"

text \<open>The pipe is readable: at most 128 bytes are read, then \<open>doPendingFunctors\<close> runs.\<close>

definition pipe_handler :: "event_loop \<Rightarrow> event_loop" where
  "pipe_handler s = s\<lparr>pipe := pipe s - min 128 (pipe s), stage := Woken\<rparr>"

definition take_functors :: "bool \<Rightarrow> event_loop \<Rightarrow> event_loop" where
  "take_functors final s =
     s\<lparr>stage := Draining (pending_functors s) [] final, pending_functors := [], pending_notified := False\<rparr>"

definition run_task :: "loop_task \<Rightarrow> event_loop \<Rightarrow> event_loop" where
  "run_task t s =
     (let s = s\<lparr>executed := executed s @ [t]\<rparr> in if t = Stop_task then s\<lparr>exit_asked := True\<rparr> else s)"

definition do_functor :: "expected_loop \<Rightarrow> event_loop \<Rightarrow> event_loop" where
  "do_functor e s =
     (case stage s of
        Draining (t # functors) next_loop final \<Rightarrow>
          if has_expected t \<and> e = Loop_null then s\<lparr>stage := Draining functors (next_loop @ [t]) final\<rparr>
          else if has_expected t \<and> e = Other_loop
          then s\<lparr>stage := Draining functors next_loop final, redirected := redirected s @ [t]\<rparr>
          else run_task t (s\<lparr>stage := Draining functors next_loop final\<rparr>)
      | _ \<Rightarrow> s)"

text \<open>After the last task: nothing is queued again if the loop is stopped by then.\<close>

definition finish_functors :: "event_loop \<Rightarrow> event_loop" where
  "finish_functors s =
     (case stage s of
        Draining [] next_loop final \<Rightarrow>
          if stopped s then s\<lparr>stage := (if final then Exited else Waiting), given_up := given_up s @ next_loop\<rparr>
          else s\<lparr>stage := Requeueing next_loop final\<rparr>
      | _ \<Rightarrow> s)"

definition requeue_functor :: "event_loop \<Rightarrow> event_loop" where
  "requeue_functor s =
     (case stage s of
        Requeueing [] final \<Rightarrow> s\<lparr>stage := (if final then Exited else Waiting)\<rparr>
      | Requeueing (t # ts) final \<Rightarrow> queue_push 0 t (s\<lparr>stage := Requeueing ts final\<rparr>)
      | _ \<Rightarrow> s)"

inductive loop_step :: "event_loop \<Rightarrow> event_loop \<Rightarrow> bool" where
  Queue: "\<lbrakk>producers s th = Idle; t = Task k e\<rbrakk>
     \<Longrightarrow> loop_step s (queue_push th t (s\<lparr>queued := queued s @ [t]\<rparr>))"
| Look: "producers s th = Pushed \<Longrightarrow> loop_step s (queue_look th s)"
| Set: "producers s th = Must_set \<Longrightarrow> loop_step s (queue_set th s)"
| Notify: "producers s th = Must_write \<Longrightarrow> loop_step s (queue_notify th s)"
| Stop_look: "producers s th = Idle \<Longrightarrow> loop_step s (stop_look th s)"
| Stop: "producers s th = May_stop \<Longrightarrow> loop_step s (stop_loop th s)"
| Wake: "\<lbrakk>stage s = Waiting; producers s 0 = Idle; 0 < pipe s\<rbrakk> \<Longrightarrow> loop_step s (pipe_handler s)"
| Take: "stage s = Woken \<Longrightarrow> loop_step s (take_functors False s)"
| Functor: "\<lbrakk>stage s = Draining (t # functors) next_loop final; producers s 0 = Idle\<rbrakk> \<Longrightarrow> loop_step s (do_functor e s)"
| Finish: "\<lbrakk>stage s = Draining [] next_loop final; producers s 0 = Idle\<rbrakk> \<Longrightarrow> loop_step s (finish_functors s)"
| Requeue: "\<lbrakk>stage s = Requeueing next_loop final; producers s 0 = Idle\<rbrakk> \<Longrightarrow> loop_step s (requeue_functor s)"
| Leave: "\<lbrakk>stage s = Waiting; exit_asked s; producers s 0 = Idle\<rbrakk> \<Longrightarrow> loop_step s (take_functors True s)"

inductive loop_reaches :: "event_loop \<Rightarrow> bool" where
  Running: "loop_reaches running_loop"
| Stepped: "loop_reaches s \<Longrightarrow> loop_step s s' \<Longrightarrow> loop_reaches s'"

section \<open>No wake-up is lost\<close>

text \<open>If the flag is set, a byte is in the pipe or on its way, or the loop is about to take the tasks; and if a
  task is there, the flag is set or some thread is about to see to it.\<close>

fun behind :: "producer_stage \<Rightarrow> bool" where
  "behind Pushed = True" | "behind Must_set = True" | "behind p = False"

fun writing :: "producer_stage \<Rightarrow> bool" where
  "writing Must_write = True" | "writing p = False"

definition wake_up_ok :: "event_loop \<Rightarrow> bool" where
  "wake_up_ok s \<longleftrightarrow>
     (pending_notified s \<longrightarrow> 0 < pipe s \<or> stage s = Woken \<or> (\<exists>th. writing (producers s th)))
     \<and> (pending_functors s \<noteq> [] \<longrightarrow> pending_notified s \<or> (\<exists>th. behind (producers s th)))"

lemmas loop_defs = queue_push_def queue_look_def queue_set_def queue_notify_def stop_look_def stop_loop_def pipe_handler_def
  take_functors_def run_task_def do_functor_def finish_functors_def requeue_functor_def

lemma some_thread:
  "\<not> writing (f th) \<Longrightarrow> (\<exists>t. writing ((f(th := x)) t)) \<longleftrightarrow> writing x \<or> (\<exists>t. writing (f t))"
  "\<not> behind (f th) \<Longrightarrow> (\<exists>t. behind ((f(th := x)) t)) \<longleftrightarrow> behind x \<or> (\<exists>t. behind (f t))"
  "behind x \<Longrightarrow> \<exists>t. behind ((f(th := x)) t)" "writing x \<Longrightarrow> \<exists>t. writing ((f(th := x)) t)"
  by (auto; metis)+

lemma step_wake_up_ok: "loop_step s s' \<Longrightarrow> wake_up_ok s \<Longrightarrow> wake_up_ok s'"
proof (induction rule: loop_step.induct)
  case (Queue s th t k e)
  then show ?case by (simp add: wake_up_ok_def queue_push_def some_thread del: fun_upd_apply)
next
  case (Look s th)
  then show ?case
    by (cases "pending_notified s") (simp_all add: wake_up_ok_def queue_look_def some_thread del: fun_upd_apply)
next
  case (Set s th)
  then show ?case by (simp add: wake_up_ok_def queue_set_def some_thread del: fun_upd_apply)
next
  case (Notify s th)
  then show ?case by (auto simp: wake_up_ok_def queue_notify_def some_thread simp del: fun_upd_apply)
next
  case (Stop_look s th)
  then show ?case by (auto simp: wake_up_ok_def stop_look_def some_thread simp del: fun_upd_apply)
next
  case (Stop s th)
  then show ?case by (auto simp: wake_up_ok_def stop_loop_def queue_push_def some_thread simp del: fun_upd_apply)
next
  case (Wake s)
  then show ?case by (auto simp: wake_up_ok_def pipe_handler_def)
next
  case (Take s)
  then show ?case by (auto simp: wake_up_ok_def take_functors_def)
next
  case (Functor s t functors next_loop final e)
  then show ?case by (auto simp: wake_up_ok_def do_functor_def run_task_def Let_def)
next
  case (Finish s next_loop final)
  then show ?case by (auto simp: wake_up_ok_def finish_functors_def)
next
  case (Requeue s next_loop final)
  then show ?case
    by (auto simp: wake_up_ok_def requeue_functor_def queue_push_def some_thread simp del: fun_upd_apply split: list.splits)
next
  case (Leave s)
  then show ?case by (auto simp: wake_up_ok_def take_functors_def)
qed

lemma reaches_wake_up_ok: "loop_reaches s \<Longrightarrow> wake_up_ok s"
proof (induction rule: loop_reaches.induct)
  case Running
  show ?case by (simp add: wake_up_ok_def running_loop_def)
qed (rule step_wake_up_ok)

text \<open>C39: No wake-up is lost. However the threads that queue tasks come between each other and the loop, when
  they are done and the loop sleeps while tasks are pending, the pipe is readable, and the loop wakes and takes all
  of them.\<close>

theorem no_wake_up_lost:
  assumes "loop_reaches s" "\<forall>th. producers s th = Idle" "stage s = Waiting" "pending_functors s \<noteq> []"
  shows "0 < pipe s \<and> loop_step s (pipe_handler s) \<and> loop_step (pipe_handler s) (take_functors False (pipe_handler s))
    \<and> stage (take_functors False (pipe_handler s)) = Draining (pending_functors s) [] False
    \<and> pending_functors (take_functors False (pipe_handler s)) = []"
proof -
  have "pending_notified s" "0 < pipe s"
    using reaches_wake_up_ok [OF assms(1)] assms(2-4) by (auto simp: wake_up_ok_def)
  moreover have "loop_step s (pipe_handler s)" using assms(2,3) \<open>0 < pipe s\<close> by (intro Wake) simp_all
  moreover have "loop_step (pipe_handler s) (take_functors False (pipe_handler s))"
    by (rule Take) (simp add: pipe_handler_def)
  ultimately show ?thesis by (simp add: take_functors_def pipe_handler_def)
qed

definition one_task_pending :: event_loop where
  "one_task_pending = queue_notify 1 (queue_set 1 (queue_look 1 (queue_push 1 (Task 7 False)
     (running_loop\<lparr>queued := queued running_loop @ [Task 7 False]\<rparr>))))"

lemma one_task_reached: "loop_reaches one_task_pending"
proof -
  have 1: "loop_reaches (queue_push 1 (Task 7 False) (running_loop\<lparr>queued := queued running_loop @ [Task 7 False]\<rparr>))"
    by (rule Stepped [OF Running Queue [where k = 7 and e = False]]) (simp_all add: running_loop_def)
  have 2: "loop_reaches (queue_look 1 (queue_push 1 (Task 7 False) (running_loop\<lparr>queued := queued running_loop @ [Task 7 False]\<rparr>)))"
    by (rule Stepped [OF 1 Look]) (simp add: queue_push_def)
  have 3: "loop_reaches (queue_set 1 (queue_look 1 (queue_push 1 (Task 7 False) (running_loop\<lparr>queued := queued running_loop @ [Task 7 False]\<rparr>))))"
    by (rule Stepped [OF 2 Set]) (simp add: queue_push_def queue_look_def running_loop_def)
  show ?thesis
    unfolding one_task_pending_def by (rule Stepped [OF 3 Notify]) (simp add: queue_set_def)
qed

theorem no_wake_up_lost_witness:
  "0 < pipe one_task_pending \<and> loop_step one_task_pending (pipe_handler one_task_pending)
    \<and> stage (take_functors False (pipe_handler one_task_pending)) = Draining [Task 7 False] [] False"
proof -
  have s: "\<forall>th. producers one_task_pending th = Idle" "stage one_task_pending = Waiting"
    "pending_functors one_task_pending = [Task 7 False]"
    by (simp_all add: one_task_pending_def queue_push_def queue_look_def queue_set_def queue_notify_def running_loop_def)
  from no_wake_up_lost [OF one_task_reached s(1,2)] s(3) show ?thesis by simp
qed

section \<open>Every task once, in order\<close>

definition in_hand :: "event_loop \<Rightarrow> loop_task list" where
  "in_hand s = (case stage s of Draining functors next_loop final \<Rightarrow> functors | _ \<Rightarrow> [])"

definition looked_at_again :: "event_loop \<Rightarrow> loop_task list" where
  "looked_at_again s = (case stage s of
     Draining functors next_loop final \<Rightarrow> next_loop | Requeueing next_loop final \<Rightarrow> next_loop | _ \<Rightarrow> [])"

abbreviation unredirected :: "loop_task \<Rightarrow> bool" where "unredirected t \<equiv> \<not> has_expected t"

definition tasks_ok :: "event_loop \<Rightarrow> bool" where
  "tasks_ok s \<longleftrightarrow>
     mset (queued s) = mset (executed s @ redirected s @ given_up s @ in_hand s @ looked_at_again s @ pending_functors s)
     \<and> filter unredirected (queued s) = filter unredirected (executed s @ in_hand s @ pending_functors s)
     \<and> (\<forall>t \<in> set (looked_at_again s). has_expected t)"

lemma step_tasks_ok: "loop_step s s' \<Longrightarrow> tasks_ok s \<Longrightarrow> tasks_ok s'"
proof (induction rule: loop_step.induct)
  case (Functor s t functors next_loop final e)
  then show ?case
    by (auto simp: tasks_ok_def in_hand_def looked_at_again_def do_functor_def run_task_def Let_def)
next
  case (Finish s next_loop final)
  then show ?case
    by (auto simp: tasks_ok_def in_hand_def looked_at_again_def finish_functors_def)
next
  case (Requeue s next_loop final)
  then show ?case
    by (auto simp: tasks_ok_def in_hand_def looked_at_again_def requeue_functor_def queue_push_def split: list.splits)
qed (auto simp: tasks_ok_def in_hand_def looked_at_again_def queue_push_def queue_look_def queue_set_def queue_notify_def
    stop_look_def stop_loop_def pipe_handler_def take_functors_def)

text \<open>C40: Every task that was queued has been executed, handed to another loop or given up at the end, or is
  still there, and never twice; tasks without an expected loop are executed by this loop in the order in which
  they were queued.\<close>

theorem tasks_run_once_in_order:
  assumes "loop_reaches s"
  shows "mset (queued s) = mset (executed s @ redirected s @ given_up s @ in_hand s @ looked_at_again s @ pending_functors s)
    \<and> filter unredirected (queued s) = filter unredirected (executed s) @ filter unredirected (in_hand s) @ filter unredirected (pending_functors s)"
proof -
  from assms have "tasks_ok s"
  proof (induction rule: loop_reaches.induct)
    case Running
    show ?case by (simp add: tasks_ok_def in_hand_def looked_at_again_def running_loop_def)
  qed (rule step_tasks_ok)
  then show ?thesis by (simp add: tasks_ok_def)
qed

theorem tasks_run_once_in_order_witness:
  "mset (queued one_task_pending) = mset (executed one_task_pending @ redirected one_task_pending
     @ given_up one_task_pending @ in_hand one_task_pending @ looked_at_again one_task_pending @ pending_functors one_task_pending)
   \<and> filter unredirected (queued one_task_pending) = filter unredirected (executed one_task_pending) @ filter unredirected (in_hand one_task_pending)
       @ filter unredirected (pending_functors one_task_pending)"
  by (rule tasks_run_once_in_order [OF one_task_reached])

section \<open>Timers\<close>

text \<open>In the thread of the loop. \<open>timer_map_\<close> has for each timer whether it is periodic; a callback is a list
  of the timer operations it does, where it may cancel its own timer. A failed assertion is \<open>None\<close>.\<close>

record loop_timers =
  next_timer_id :: nat
  timer_count :: nat
  timer_map :: "(nat \<times> bool) list"

definition no_timers :: loop_timers where
  "no_timers = \<lparr>next_timer_id = 1, timer_count = 0, timer_map = []\<rparr>"

definition runTimerInLoop :: "bool \<Rightarrow> nat \<Rightarrow> loop_timers \<Rightarrow> loop_timers option" where
  "runTimerInLoop periodic i s = do {
     ensure (map_of (timer_map s) i = None);
     let s = s\<lparr>timer_map := (i, periodic) # timer_map s, timer_count := timer_count s + 1\<rparr>;
     ensure (timer_count s = length (timer_map s));
     Some s }"

definition runTimer :: "bool \<Rightarrow> loop_timers \<Rightarrow> (nat \<times> loop_timers) option" where
  "runTimer periodic s = do {
     let i = next_timer_id s;
     s \<leftarrow> runTimerInLoop periodic i (s\<lparr>next_timer_id := i + 1\<rparr>);
     Some (i, s) }"

definition erase_timer :: "nat \<Rightarrow> loop_timers \<Rightarrow> loop_timers option" where
  "erase_timer i s = do {
     let s = s\<lparr>timer_map := filter (\<lambda>(j, p). j \<noteq> i) (timer_map s), timer_count := timer_count s - 1\<rparr>;
     ensure (timer_count s = length (timer_map s));
     Some s }"

definition cancelTimerInLoop :: "nat \<Rightarrow> loop_timers \<Rightarrow> loop_timers option" where
  "cancelTimerInLoop i s = (if map_of (timer_map s) i \<noteq> None then erase_timer i s else Some s)"

datatype timer_op = Run_timer bool | Cancel_timer nat

fun do_timer_ops :: "timer_op list \<Rightarrow> loop_timers \<Rightarrow> loop_timers option" where
  "do_timer_ops [] s = Some s"
| "do_timer_ops (Run_timer periodic # ops) s = do { (i, s) \<leftarrow> runTimer periodic s; do_timer_ops ops s }"
| "do_timer_ops (Cancel_timer i # ops) s = do { s \<leftarrow> cancelTimerInLoop i s; do_timer_ops ops s }"

definition onTimerTriggered :: "nat \<Rightarrow> bool \<Rightarrow> timer_op list \<Rightarrow> loop_timers \<Rightarrow> loop_timers option" where
  "onTimerTriggered i periodic callback s = do {
     s \<leftarrow> do_timer_ops callback s;
     if map_of (timer_map s) i = None then Some s
     else if \<not> periodic then erase_timer i s
     else Some s }"

definition timers_ok :: "loop_timers \<Rightarrow> bool" where
  "timers_ok s \<longleftrightarrow> timer_count s = length (timer_map s) \<and> distinct (map fst (timer_map s))
     \<and> (\<forall>i \<in> fst ` set (timer_map s). i < next_timer_id s)"

lemma erase_timer_ok:
  assumes "timers_ok s" "map_of (timer_map s) i \<noteq> None"
  shows "wp (erase_timer i s) (\<lambda>s'. timers_ok s' \<and> next_timer_id s' = next_timer_id s
    \<and> map_of (timer_map s') = (map_of (timer_map s))(i := None))"
proof -
  have "length (filter (\<lambda>(j, p). j \<noteq> i) ts) + 1 = length ts" if "distinct (map fst ts)" "map_of ts i \<noteq> None" for ts :: "(nat \<times> bool) list"
    using that
  proof (induction ts)
    case (Cons t ts)
    show ?case
    proof (cases "fst t = i")
      case True
      with Cons.prems have "filter (\<lambda>(j, p). j \<noteq> i) ts = ts" by (auto simp: filter_id_conv rev_image_eqI)
      with True show ?thesis by (cases t) simp
    next
      case False
      with Cons show ?thesis by (cases t) auto
    qed
  qed simp
  from this [of "timer_map s"] assms have "timer_count s - 1 = length (filter (\<lambda>(j, p). j \<noteq> i) (timer_map s))"
    by (simp add: timers_ok_def)
  moreover have "map_of (filter (\<lambda>(j, p). j \<noteq> i) ts) = (map_of ts)(i := None)" for ts :: "(nat \<times> bool) list"
    by (induction ts) auto
  moreover have "distinct (map fst (filter P ts))" if "distinct (map fst ts)" for P and ts :: "(nat \<times> bool) list"
    using that by (induction ts) auto
  ultimately show ?thesis using assms(1) by (auto simp: erase_timer_def timers_ok_def)
qed

lemma runTimer_ok:
  assumes "timers_ok s"
  shows "wp (runTimer periodic s) (\<lambda>(i, s'). i = next_timer_id s \<and> timers_ok s' \<and> next_timer_id s' = Suc i
    \<and> map_of (timer_map s') = (map_of (timer_map s))(i \<mapsto> periodic))"
proof -
  have "next_timer_id s \<notin> fst ` set (timer_map s)" using assms by (auto simp: timers_ok_def)
  then show ?thesis
    using assms by (auto simp: runTimer_def runTimerInLoop_def timers_ok_def map_of_eq_None_iff less_Suc_eq Let_def)
qed

lemma cancelTimer_ok:
  assumes "timers_ok s"
  shows "wp (cancelTimerInLoop i s) (\<lambda>s'. timers_ok s' \<and> next_timer_id s' = next_timer_id s
    \<and> map_of (timer_map s') = (map_of (timer_map s))(i := None))"
  using assms erase_timer_ok [OF assms, of i] by (auto simp: cancelTimerInLoop_def)

text \<open>What a callback leaves of a timer that was there before: it is gone exactly if it was cancelled.\<close>

lemma do_timer_ops_ok:
  "timers_ok s \<Longrightarrow> j < next_timer_id s \<Longrightarrow> wp (do_timer_ops ops s) (\<lambda>s'. timers_ok s' \<and> next_timer_id s \<le> next_timer_id s'
     \<and> map_of (timer_map s') j = (if Cancel_timer j \<in> set ops then None else map_of (timer_map s) j))"
proof (induction ops arbitrary: s)
  case (Cons op ops)
  show ?case
  proof (cases op)
    case (Run_timer periodic)
    from runTimer_ok [OF Cons.prems(1), of periodic] obtain s' where
      s': "runTimer periodic s = Some (next_timer_id s, s')" "timers_ok s'" "next_timer_id s' = Suc (next_timer_id s)"
      "map_of (timer_map s') = (map_of (timer_map s))(next_timer_id s \<mapsto> periodic)" by (auto simp: wp_iff)
    from Cons.IH [OF s'(2)] Cons.prems(2) s'(1,3,4) Run_timer show ?thesis by (auto elim!: wp_mono)
  next
    case (Cancel_timer i)
    from cancelTimer_ok [OF Cons.prems(1), of i] obtain s' where
      s': "cancelTimerInLoop i s = Some s'" "timers_ok s'" "next_timer_id s' = next_timer_id s"
      "map_of (timer_map s') = (map_of (timer_map s))(i := None)" by (auto simp: wp_iff)
    from Cons.IH [OF s'(2)] Cons.prems(2) s'(1,3,4) Cancel_timer show ?thesis by (auto elim!: wp_mono)
  qed
qed simp

text \<open>No assertion fails when a timer fires, whatever its callback does to the timers; afterwards the timer
  is there exactly if it is periodic and its callback has not cancelled it.\<close>

lemma timer_fires:
  assumes "timers_ok s" "map_of (timer_map s) i = Some periodic"
  shows "wp (onTimerTriggered i periodic callback s) (\<lambda>s'. timers_ok s'
    \<and> (map_of (timer_map s') i \<noteq> None \<longleftrightarrow> periodic \<and> Cancel_timer i \<notin> set callback))"
proof -
  have "i < next_timer_id s" using assms map_of_SomeD [OF assms(2)] by (force simp: timers_ok_def)
  from do_timer_ops_ok [OF assms(1) this, of callback] obtain s' where
    s': "do_timer_ops callback s = Some s'" "timers_ok s'"
    "map_of (timer_map s') i = (if Cancel_timer i \<in> set callback then None else Some periodic)"
    using assms(2) by (auto simp: wp_iff)
  then show ?thesis
    using erase_timer_ok [OF s'(2), of i]
    by (cases periodic; cases "Cancel_timer i \<in> set callback") (auto simp: onTimerTriggered_def wp_iff)
qed

text \<open>From another thread \<open>runTimer\<close> gives the number at once and only queues \<open>runTimerInLoop\<close>. A \<open>cancelTimer\<close>
  in the thread of the loop that comes before that task finds no timer, and the timer starts afterwards.\<close>

lemma early_cancel_is_lost:
  "do { s \<leftarrow> cancelTimerInLoop 1 (no_timers\<lparr>next_timer_id := 2\<rparr>); runTimerInLoop True 1 s } =
     Some \<lparr>next_timer_id = 2, timer_count = 1, timer_map = [(1, True)]\<rparr>"
  by (simp add: cancelTimerInLoop_def runTimerInLoop_def no_timers_def)

end
