(* ===== verification/Spec2Isabelle.thy ===== *)
theory Spec2Isabelle
  imports BaseClient Stralgo Connection Containers CidrTrie Subscribe SlotsBitset Sha1 Facade LZF Memcached TcpClient Glob MemSize RandomBytes Latency Transaction EventLoop
begin

text \<open>
  A verification library for tair-client, the C++ client of Tair and Redis (\<open>src/src\<close>).

  \<^bold>\<open>The program.\<close> A user holds a \<open>TairClient\<close> (\<open>client/TairClient.cpp\<close>). It owns an asynchronous client,
  either for one server (\<open>TairAsyncClient.cpp\<close>) or for a cluster (\<open>TairClusterAsyncClient.cpp\<close>), which
  turns every call into a vector of words and picks the connection it belongs to. A connection is a
  \<open>TairBaseClient\<close>: it encodes requests, queues their callbacks, reads replies off a \<open>TcpConnection\<close>
  into a \<open>Buffer\<close>, has them decoded by a RESP codec and hands each to the oldest callback, through
  the result helpers. \<open>common/\<close> has what these rest on: strings, checksums, digests, containers.

  \<^bold>\<open>The theories\<close>, in the order of their imports:
  \<^item> \<open>Prelude\<close>: runs that may fault (\<open>'a option\<close>) and their weakest precondition \<open>wp\<close>, blocks of
    memory, characters, searches, decimal rendering.
  \<^item> \<open>Endian\<close>, \<open>Buffer\<close> (\<open>network/Buffer\<close>): the growable buffer, every method with its assertions; it
    refines a queue of bytes (locale \<open>byte_queue\<close> and its interpretations).
  \<^item> \<open>StringUtil\<close>: strict integer parsers, escaping, splitting of request lines.
  \<^item> \<open>Packet\<close>, \<open>Decode\<close>, \<open>Resume\<close>, \<open>RoundTrip\<close>, \<open>NoFault\<close>, \<open>RESPCodec\<close> (\<open>protocol/\<close>): packet objects with
    their decode state, encoders, decoders and codecs. The decoders run on any byte source; that a
    \<open>Buffer\<close> and a plain string give the same result is a refinement, that decoding in pieces is
    decoding at once and what it takes for a decoder not to crash are its main lemmas.
  \<^item> \<open>Reply\<close>: result builders from packets to the results of user callbacks.
  \<^item> \<open>BaseClient\<close>: the callback queue, connection loss, timers, as operations of the event loop.
  \<^item> \<open>EventLoop\<close> (\<open>network/EventLoop\<close>): tasks queued from any thread, the pipe that wakes the loop, the
    collection and running of tasks and the timers; enqueuing and the rounds of the loop interleave as
    the atomic steps of a step relation.
  \<^item> \<open>Subscribe\<close>: client and server of the subscribe protocol as a step relation, with connections that come
    up, fail and are lost and calls at any time, and invariants by rule induction over its reachable states.
  \<^item> \<open>Connection\<close>: writing, reading and closing a TCP connection, kernel results as arguments.
  \<^item> \<open>Connector\<close>, \<open>TcpClient\<close> (\<open>network/\<close>): how a connection comes about, with timers and retries, as the
    reachable states of a step relation; the client that makes connectors and takes their sockets.
  \<^item> \<open>Params\<close>, \<open>Commands\<close>: parameter objects and the words of every command.
  \<^item> \<open>CRC\<close>, \<open>KeyHash\<close>, \<open>Cluster\<close>, \<open>SlotsBitset\<close>: checksums, hash slots, the slot table of a cluster and the
    routing of every command, sets of slots.
  \<^item> \<open>Facade\<close>: \<open>TairClient\<close> with \<open>init\<close>, \<open>destroy\<close> and the checks of its 200 command methods.
  \<^item> \<open>Sha256\<close>, \<open>Sha1\<close>: streaming digests against the standard's definition on whole messages.
  \<^item> \<open>LZF\<close>: compressor and decompressor, every access to the two buffers checked.
  \<^item> \<open>Glob\<close>, \<open>MemSize\<close>, \<open>RandomBytes\<close> (\<open>common/StringUtil\<close>): the glob matcher with its pointer reads against
    the meaning of a pattern, sizes with units and lists of numbers, random bytes against HMAC.
  \<^item> \<open>MathUtil\<close>, \<open>Latency\<close>, \<open>Transaction\<close>: the random generator on limbs, latency metrics and their
    percentiles, the client that keeps the commands of a transaction until \<open>exec\<close>.
  \<^item> \<open>Memcached\<close>: the server side codec of both memcached protocols and its reply packets.
  \<^item> \<open>Stralgo\<close>, \<open>Containers\<close>, \<open>CidrTrie\<close>: longest common subsequences, LRU map, bounded queue, token
    bucket, network trie.

  \<^bold>\<open>How code becomes definitions.\<close> A class is a record, its methods are functions on it with the name
  of the method where HOL allows it. A run that aborts (\<open>runtimeAssert\<close>), leaves a block or follows a
  null pointer is \<open>None\<close>; errors that the code reports are values. Integers whose width matters are
  words or carry their range; sizes that cannot exceed memory are naturals. What the code gets from
  outside (the kernel, the clock, a server, user callbacks, \<open>absl::StrSplit\<close>, \<open>std::to_string\<close> on
  doubles) is an argument, and what is relied on about it is a named hypothesis or a locale with an
  interpretation.

  \<^bold>\<open>Bounds and fuel.\<close> The fuel of the decoders is the number of nested calls the stack has room for.
  Nothing in the code limits the nesting, so for every stack there is input that overruns it; room for one
  call more than there are open levels and unread bytes is enough, since each level costs bytes (\<open>NoFault\<close>,
  \<open>RESPCodec\<close>), and \<open>BaseClient\<close> gives its decoder that much. A map header whose doubled count leaves 64 bits
  is undefined and a fault. The loop over the replies of a buffer takes its length and two, since each reply costs
  bytes. \<open>rounds\<close> bounds the clearing of callbacks: \<open>clear_loop\<close> tells a loop that is done from one that is
  still going after so many rounds and from an abort. It has no end when a callback sends on every clearing
  and without such callbacks needs as many rounds as there are callbacks. Doubles of the latency
  statistics are rationals rounded by a parameter, of which the bounds of IEEE rounding are assumed. Loops on
  machine integers that may wrap around are \<open>partial_function (option)\<close>: \<open>sha256_update_loop\<close>,
  \<open>sha1_blocks\<close>, \<open>sha1_fill\<close>; that they return is proved where they do. Every other recursion has a
  termination proof.

  \<^bold>\<open>What the lemmas show.\<close> Of every component: that its operations keep its invariant and do not
  fault, what they compute on each branch, and the contract towards its callers. Lemmas named in the
  manifest's findings show runs in which the code does not do what it means to.

  \<^bold>\<open>Not modelled.\<close> libevent beneath the event loop, channels, watchers, sockets, servers and DNS (wrappers
  of libevent and system calls), the threads that run event loops, TLS (driven by OpenSSL), locks and concurrent containers (their difficulty is the
  memory model), coroutines and SipHash (vendored), clocks, process statistics, logging and tracing, Base64 (a call of
  SASL), the options object \<open>TairURI\<close>.
  \<open>TairClientWrapper\<close> is modelled by its macro only.
\<close>

end
